(* ===== verification/Rust_Prelude.thy ===== *)
theory Rust_Prelude
  imports Main "HOL-Library.Word" "HOL-Library.Monad_Syntax" "HOL-Library.Code_Target_Nat"
begin

text \<open>
  The fragment of Rust and of its core library that the kernel's code uses, as HOL
  definitions, with the lemmas every component shares.

  The kernel is built with the Makefile's default \<^verbatim>\<open>PROFILE=debug\<close>: arithmetic that
  overflows, an index out of range, \<^verbatim>\<open>unwrap\<close> of \<^verbatim>\<open>None\<close>, a failed \<^verbatim>\<open>assert!\<close> and a
  failed \<^verbatim>\<open>debug_assert!\<close> all panic, and a panic never returns (the panic handler of
  \<^verbatim>\<open>kernel/src/main.rs\<close> halts in a loop). An operation that may panic therefore
  returns an \<open>option\<close>: \<open>None\<close> is the panic, \<open>Some\<close> the value. Rust's own
  \<open>Result\<close> is a sum \<open>'e + 'a\<close> and Rust's \<open>Option\<close> an \<open>option\<close>, so an
  operation that may panic and returns a \<open>Result\<close> has type \<open>('e + 'a) option\<close>.

  \<open>usize\<close> values are natural numbers below \<open>2 ^ 64\<close>; the arithmetic below
  checks that bound. Data of a fixed hardware width is a word.
\<close>

unbundle bit_operations_syntax

named_theorems rust_simps \<open>characterisations of the checked operations\<close>
named_theorems model_defs \<open>definitions that the component proofs unfold\<close>

type_synonym usize = nat
type_synonym u8 = "8 word"
type_synonym u16 = "16 word"
type_synonym u32 = "32 word"
type_synonym u64 = "64 word"
type_synonym isize = int
type_synonym code_point = nat

abbreviation usize_limit :: nat where
  "usize_limit \<equiv> 18446744073709551616"

section \<open>Checked arithmetic\<close>

definition uadd :: "usize \<Rightarrow> usize \<Rightarrow> usize option" where
  "uadd a b = (if a + b < usize_limit then Some (a + b) else None)"

definition usub :: "usize \<Rightarrow> usize \<Rightarrow> usize option" where
  "usub a b = (if b \<le> a then Some (a - b) else None)"

definition umul :: "usize \<Rightarrow> usize \<Rightarrow> usize option" where
  "umul a b = (if a * b < usize_limit then Some (a * b) else None)"

text \<open>\<open>u8\<close> addition.\<close>

definition u8add :: "u8 \<Rightarrow> u8 \<Rightarrow> u8 option" where
  "u8add a b = (if unat a + unat b < 256 then Some (a + b) else None)"

text \<open>\<open>isize\<close> addition, and the casts \<^verbatim>\<open>usize as isize\<close> and \<^verbatim>\<open>isize.try_into::<usize>()\<close>.\<close>

definition iadd :: "isize \<Rightarrow> isize \<Rightarrow> isize option" where
  "iadd a b = (if - 9223372036854775808 \<le> a + b \<and> a + b < 9223372036854775808
               then Some (a + b) else None)"

definition usize_as_isize :: "usize \<Rightarrow> isize" where
  "usize_as_isize n = (if n < 9223372036854775808 then int n else int n - 18446744073709551616)"

definition isize_try_into_usize :: "isize \<Rightarrow> usize option" where
  "isize_try_into_usize i = (if 0 \<le> i then Some (nat i) else None)"

lemma uadd_eq_Some [rust_simps]: "uadd a b = Some c \<longleftrightarrow> a + b < usize_limit \<and> c = a + b"
  by (auto simp: uadd_def)

lemma usub_eq_Some [rust_simps]: "usub a b = Some c \<longleftrightarrow> b \<le> a \<and> c = a - b"
  by (auto simp: usub_def)

lemma umul_eq_Some [rust_simps]: "umul a b = Some c \<longleftrightarrow> a * b < usize_limit \<and> c = a * b"
  by (auto simp: umul_def)

lemma iadd_eq_Some [rust_simps]:
  "iadd a b = Some c \<longleftrightarrow>
     - 9223372036854775808 \<le> a + b \<and> a + b < 9223372036854775808 \<and> c = a + b"
  by (auto simp: iadd_def)

lemma uadd_ok [simp]: "a + b < usize_limit \<Longrightarrow> uadd a b = Some (a + b)"
  by (simp add: uadd_def)

lemma usub_ok [simp]: "b \<le> a \<Longrightarrow> usub a b = Some (a - b)"
  by (simp add: usub_def)

lemma umul_ok [simp]: "a * b < usize_limit \<Longrightarrow> umul a b = Some (a * b)"
  by (simp add: umul_def)

lemma case_Inr_eq_Some [rust_simps]:
  "(case r of Inl e \<Rightarrow> None | Inr b \<Rightarrow> f b) = Some x \<longleftrightarrow> (\<exists>b. r = Inr b \<and> f b = Some x)"
  by (cases r) auto

lemma case_sum_eq_Some:
  "(case r of Inl e \<Rightarrow> f e | Inr b \<Rightarrow> g b) = Some x \<longleftrightarrow> (\<exists>e. r = Inl e \<and> f e = Some x) \<or> (\<exists>b. r = Inr b \<and> g b = Some x)"
  by (cases r) auto

lemma unat_u8: "unat (b :: u8) < 256"
  using unsigned_less[of b, where 'a = nat] by simp

lemma u8add_ok: "unat a + unat b < 256 \<Longrightarrow> u8add a b = Some (a + b)"
  by (simp add: u8add_def)

lemma uadd_panics [simp]: "usize_limit \<le> a + b \<Longrightarrow> uadd a b = None"
  by (simp add: uadd_def)

lemma usub_panics [simp]: "a < b \<Longrightarrow> usub a b = None"
  by (simp add: usub_def)

section \<open>Assertions, indexing and slices\<close>

definition rassert :: "bool \<Rightarrow> unit option" where
  "rassert b = (if b then Some () else None)"

definition get_idx :: "'a list \<Rightarrow> usize \<Rightarrow> 'a option" where
  "get_idx xs i = (if i < length xs then Some (xs ! i) else None)"

definition set_idx :: "'a list \<Rightarrow> usize \<Rightarrow> 'a \<Rightarrow> 'a list option" where
  "set_idx xs i v = (if i < length xs then Some (xs[i := v]) else None)"

text \<open>\<^verbatim>\<open>&xs[a..b]\<close> and \<^verbatim>\<open>xs[a..b].copy_from_slice(ys)\<close>.\<close>

definition slice :: "'a list \<Rightarrow> usize \<Rightarrow> usize \<Rightarrow> 'a list option" where
  "slice xs a b = (if a \<le> b \<and> b \<le> length xs then Some (take (b - a) (drop a xs)) else None)"

definition copy_from_slice :: "'a list \<Rightarrow> usize \<Rightarrow> usize \<Rightarrow> 'a list \<Rightarrow> 'a list option" where
  "copy_from_slice xs a b ys =
     (if a \<le> b \<and> b \<le> length xs \<and> length ys = b - a
      then Some (take a xs @ ys @ drop b xs) else None)"

lemma rassert_eq_Some [rust_simps]: "rassert b = Some u \<longleftrightarrow> b"
  by (simp add: rassert_def)

lemma rassert_True [simp]: "b \<Longrightarrow> rassert b = Some ()"
  by (simp add: rassert_def)

lemma rassert_False [simp]: "\<not> b \<Longrightarrow> rassert b = None"
  by (simp add: rassert_def)

lemma get_idx_eq_Some [rust_simps]: "get_idx xs i = Some v \<longleftrightarrow> i < length xs \<and> v = xs ! i"
  by (auto simp: get_idx_def)

lemma get_idx_ok [simp]: "i < length xs \<Longrightarrow> get_idx xs i = Some (xs ! i)"
  by (simp add: get_idx_def)

lemma get_idx_panics [simp]: "length xs \<le> i \<Longrightarrow> get_idx xs i = None"
  by (simp add: get_idx_def)

lemma set_idx_eq_Some [rust_simps]:
  "set_idx xs i v = Some ys \<longleftrightarrow> i < length xs \<and> ys = xs[i := v]"
  by (auto simp: set_idx_def)

lemma set_idx_ok [simp]: "i < length xs \<Longrightarrow> set_idx xs i v = Some (xs[i := v])"
  by (simp add: set_idx_def)

lemma set_idx_panics [simp]: "length xs \<le> i \<Longrightarrow> set_idx xs i v = None"
  by (simp add: set_idx_def)

lemma slice_ok [simp]:
  "a \<le> b \<Longrightarrow> b \<le> length xs \<Longrightarrow> slice xs a b = Some (take (b - a) (drop a xs))"
  by (simp add: slice_def)

lemma copy_from_slice_ok [simp]:
  "a \<le> b \<Longrightarrow> b \<le> length xs \<Longrightarrow> length ys = b - a \<Longrightarrow>
     copy_from_slice xs a b ys = Some (take a xs @ ys @ drop b xs)"
  by (simp add: copy_from_slice_def)

text \<open>\<^verbatim>\<open>unwrap\<close> of a \<^verbatim>\<open>Result\<close>.\<close>

lemma unwrap_result_eq_Some [rust_simps]: "(case r of Inl e \<Rightarrow> None | Inr b \<Rightarrow> Some b) = Some x \<longleftrightarrow> r = Inr x"
  by (cases r) auto

lemma nth_overwrite:
  assumes "a \<le> b" "b \<le> length xs" "length ys = b - a" "i < length xs"
  shows "(take a xs @ ys @ drop b xs) ! i = (if a \<le> i \<and> i < b then ys ! (i - a) else xs ! i)"
  using assms by (auto simp: nth_append min_def)

section \<open>Loops\<close>

text \<open>
  A \<^verbatim>\<open>for i in iter\<close> loop whose body may panic: the body is run on each element in
  order and the loop stops at the first panic.
\<close>

fun for_each :: "'i list \<Rightarrow> ('i \<Rightarrow> 's \<Rightarrow> 's option) \<Rightarrow> 's \<Rightarrow> 's option" where
  "for_each [] f s = Some s"
| "for_each (i # is) f s = do { s' \<leftarrow> f i s; for_each is f s' }"

lemma for_each_append:
  "for_each (xs @ ys) f s = do { s' \<leftarrow> for_each xs f s; for_each ys f s' }"
  by (induction xs arbitrary: s) (auto split: bind_split)

lemma for_each_map: "for_each (map g xs) f s = for_each xs (\<lambda>i. f (g i)) s"
  by (induction xs arbitrary: s) (auto split: bind_split)

lemma for_each_filter:
  "for_each xs (\<lambda>x s. if P x then f x s else Some s) s = for_each (filter P xs) f s"
  by (induction xs arbitrary: s) (auto split: bind_split)

lemma for_each_concat:
  "for_each (concat xss) f s = for_each xss (\<lambda>xs. for_each xs f) s"
  by (induction xss arbitrary: s) (auto simp: for_each_append)

lemma for_each_cong [fundef_cong]:
  assumes "xs = ys" and "s = t" and "\<And>i u. i \<in> set ys \<Longrightarrow> f i u = g i u"
  shows "for_each xs f s = for_each ys g t"
proof -
  have "for_each ys f t = for_each ys g t"
    using assms(3) by (induction ys arbitrary: t) (auto split: bind_split)
  with assms(1,2) show ?thesis by simp
qed

text \<open>The loop rule: an assertion indexed by the elements already processed.\<close>

lemma for_each_rule:
  assumes "P [] s"
    and "\<And>pre i post s. is = pre @ i # post \<Longrightarrow> P pre s \<Longrightarrow> \<exists>s'. f i s = Some s' \<and> P (pre @ [i]) s'"
  shows "\<exists>s'. for_each is f s = Some s' \<and> P is s'"
proof -
  have "\<exists>s'. for_each post f s = Some s' \<and> P (pre @ post) s'"
    if "is = pre @ post" "P pre s" for pre post s
    using that
  proof (induction post arbitrary: pre s)
    case Nil
    then show ?case by simp
  next
    case (Cons i post)
    from assms(2)[OF Cons.prems] obtain s' where "f i s = Some s'" "P (pre @ [i]) s'" by blast
    with Cons.IH[of "pre @ [i]" s'] Cons.prems(1) show ?case by auto
  qed
  from this[of "[]" "is" s] assms(1) show ?thesis by simp
qed

lemma for_each_inv:
  assumes "P s" and "\<And>i s. i \<in> set is \<Longrightarrow> P s \<Longrightarrow> \<exists>s'. f i s = Some s' \<and> P s'"
  shows "\<exists>s'. for_each is f s = Some s' \<and> P s'"
  using for_each_rule[of "\<lambda>_. P" s "is" f] assms by auto

lemma for_each_upt_rule:
  assumes "a \<le> b" and "P a s"
    and "\<And>i s. a \<le> i \<Longrightarrow> i < b \<Longrightarrow> P i s \<Longrightarrow> \<exists>s'. f i s = Some s' \<and> P (Suc i) s'"
  shows "\<exists>s'. for_each [a..<b] f s = Some s' \<and> P b s'"
  using assms
proof (induction "b - a" arbitrary: a s)
  case 0
  then show ?case by simp
next
  case (Suc n)
  then have "a < b" by simp
  with Suc.prems obtain s' where s': "f a s = Some s'" "P (Suc a) s'" by blast
  have "\<exists>t. for_each [Suc a..<b] f s' = Some t \<and> P b t"
    by (rule Suc.hyps(1)) (use Suc.hyps(2) Suc.prems(3) \<open>a < b\<close> s' in auto)
  with s' \<open>a < b\<close> show ?case by (simp add: upt_conv_Cons)
qed

text \<open>A loop is preserved by a relation that every body preserves (used for partial results).\<close>

lemma for_each_preserves:
  assumes "for_each is f s = Some s'" and "P s"
    and "\<And>i s s'. i \<in> set is \<Longrightarrow> f i s = Some s' \<Longrightarrow> P s \<Longrightarrow> P s'"
  shows "P s'"
  using assms
proof (induction "is" arbitrary: s)
  case Nil
  then show ?case by simp
next
  case (Cons i "is")
  from Cons.prems(1) obtain t where "f i s = Some t" "for_each is f t = Some s'"
    by (auto simp: bind_eq_Some_conv)
  with Cons show ?case by auto
qed

end
