(* ===== verification/Boundary_Alloc.thy ===== *)
theory Boundary_Alloc
  imports Rust_Prelude
begin

text \<open>
  The allocator interface of \<^verbatim>\<open>kernel-lib/src/allocator.rs\<close>: layouts, the address
  arithmetic (\<open>ceil\<close>, \<open>align_and_boundary_to\<close>) that both allocators use, the trait
  \<^verbatim>\<open>BoundaryAlloc\<close> as a locale, and the generic functions that allocate through it.
  A pointer is a \<open>usize\<close>, the null pointer is \<open>0\<close>.
\<close>

section \<open>Layouts and address arithmetic\<close>

record Layout =
  layout_size :: usize
  layout_align :: usize

text \<open>\<^verbatim>\<open>usize::is_power_of_two\<close>, and \<^verbatim>\<open>Layout::from_size_align\<close> of the core library.\<close>

definition is_power_of_two :: "usize \<Rightarrow> bool" where
  "is_power_of_two n = list_ex (\<lambda>k. n = 2 ^ k) [0..<64]"

definition from_size_align :: "usize \<Rightarrow> usize \<Rightarrow> (unit, Layout) sum" where
  "from_size_align sz al =
     (if is_power_of_two al \<and> sz + (al - 1) - (sz + (al - 1)) mod al \<le> 9223372036854775807
      then Inr \<lparr>layout_size = sz, layout_align = al\<rparr> else Inl ())"

text \<open>
  \<^verbatim>\<open>(value + alignment - 1) & !(alignment - 1)\<close>; each operator of the expression
  is checked, from left to right.
\<close>

definition ceil :: "usize \<Rightarrow> usize \<Rightarrow> usize option" where
  "ceil value alignment = do {
     s \<leftarrow> uadd value alignment;
     t \<leftarrow> usub s 1;
     m \<leftarrow> usub alignment 1;
     Some (unat ((of_nat t :: u64) AND NOT (of_nat m)))
   }"

text \<open>
  \<^verbatim>\<open>checked_add(..).ok_or(())?\<close> is the early return of \<open>Inl ()\<close>; a panic is \<open>None\<close>.
  The result is the range \<open>(start, end)\<close>.
\<close>

definition align_and_boundary_to ::
  "usize \<Rightarrow> Layout \<Rightarrow> usize \<Rightarrow> (unit + usize \<times> usize) option" where
  "align_and_boundary_to from_ptr layout boundary = do {
     rassert (boundary = 0 \<or> is_power_of_two boundary);
     rassert (boundary = 0 \<or> layout_size layout \<le> boundary);
     alloc_ptr \<leftarrow> ceil from_ptr (layout_align layout);
     moved \<leftarrow>
       (if boundary > 0 then do {
          next_boundary \<leftarrow> ceil alloc_ptr boundary;
          Some (case uadd alloc_ptr (layout_size layout) of
                  None \<Rightarrow> Inl ()
                | Some e \<Rightarrow> Inr (if next_boundary < e then next_boundary else alloc_ptr))
        } else Some (Inr alloc_ptr));
     Some (case moved of
             Inl u \<Rightarrow> Inl ()
           | Inr p \<Rightarrow> (case uadd p (layout_size layout) of
                         None \<Rightarrow> Inl ()
                       | Some end_ptr \<Rightarrow> Inr (p, end_ptr)))
   }"

subsection \<open>Rounding up\<close>

lemma is_power_of_two_iff: "is_power_of_two n \<longleftrightarrow> (\<exists>k<64. n = 2 ^ k)"
  by (auto simp: is_power_of_two_def list_ex_iff)

lemma is_power_of_two_pos: "is_power_of_two n \<Longrightarrow> 0 < n"
  by (auto simp: is_power_of_two_iff)

lemma is_power_of_two_less: "is_power_of_two n \<Longrightarrow> n < usize_limit"
proof -
  assume "is_power_of_two n"
  then obtain k where "k < 64" "n = 2 ^ k" by (auto simp: is_power_of_two_iff)
  then have "n < 2 ^ 64" by (metis one_less_numeral_iff power_strict_increasing semiring_norm(76))
  then show ?thesis by simp
qed

lemma power_of_two_dvd:
  assumes "is_power_of_two a" "is_power_of_two b" "a \<le> b"
  shows "a dvd b"
proof -
  from assms(1,2) obtain i j where ij: "a = 2 ^ i" "b = 2 ^ j"
    by (auto simp: is_power_of_two_iff)
  with assms(3) have "i \<le> j" by (simp add: power_increasing_iff)
  with ij show ?thesis by (simp add: le_imp_power_dvd)
qed

lemma and_not_mask_word: "(w :: 'a::len word) AND NOT (mask k) = push_bit k (drop_bit k w)"
  by (rule bit_eqI) (auto simp: bit_simps)

lemma unat_and_not_mask:
  "unat ((w :: 'a::len word) AND NOT (mask k)) = (unat w div 2 ^ k) * 2 ^ k"
proof -
  have "(unat w div 2 ^ k) * 2 ^ k \<le> unat w" by (simp add: div_times_less_eq_dividend)
  then have "(unat w div 2 ^ k) * 2 ^ k < 2 ^ LENGTH('a)"
    using unsigned_less[of w] by (rule le_less_trans)
  then show ?thesis
    unfolding and_not_mask_word unsigned_push_bit_eq unsigned_drop_bit_eq
    by (simp add: push_bit_eq_mult drop_bit_eq_div take_bit_eq_mod)
qed

lemma ceil_power_of_two:
  assumes "is_power_of_two a" and "value + a < usize_limit"
  shows "ceil value a = Some ((value + a - 1) div a * a)"
proof -
  from assms(1) obtain k where k: "k < 64" "a = 2 ^ k" by (auto simp: is_power_of_two_iff)
  then have "0 < a" by simp
  have mask_eq: "(of_nat (a - 1) :: u64) = mask k"
    by (simp add: k mask_eq_exp_minus_1 of_nat_diff)
  have t_less: "value + a - 1 < 2 ^ LENGTH(64)" using assms(2) \<open>0 < a\<close> by simp
  have "unat ((of_nat (value + a - 1) :: u64) AND NOT (of_nat (a - 1)))
      = unat (of_nat (value + a - 1) :: u64) div 2 ^ k * 2 ^ k"
    by (simp only: mask_eq unat_and_not_mask)
  also have "\<dots> = (value + a - 1) div a * a"
    using t_less by (simp only: unsigned_of_nat take_bit_nat_eq_self_iff[THEN iffD2] of_nat_id k)
  finally show ?thesis
    using assms(2) \<open>0 < a\<close> by (simp add: ceil_def)
qed

lemma ceil_overflow_panics: "usize_limit \<le> value + a \<Longrightarrow> ceil value a = None"
  by (simp add: ceil_def)

lemma div_mult_least:
  fixes a v x :: nat
  assumes "0 < a"
  shows "a dvd (v + a - 1) div a * a" and "v \<le> (v + a - 1) div a * a"
    and "a dvd x \<Longrightarrow> v \<le> x \<Longrightarrow> (v + a - 1) div a * a \<le> x"
    and "(v + a - 1) div a * a < v + a"
proof -
  let ?q = "(v + a - 1) div a"
  have split: "v + a - 1 = ?q * a + (v + a - 1) mod a" by simp
  have "(v + a - 1) mod a < a" using assms by simp
  with split assms show "v \<le> ?q * a" "?q * a < v + a" by linarith+
  show "a dvd ?q * a" by simp
  assume "a dvd x" "v \<le> x"
  then obtain m where x: "x = m * a" by (metis dvd_div_mult_self)
  have "v + a - 1 < (m + 1) * a" using \<open>v \<le> x\<close> assms x by (simp add: algebra_simps)
  then have "?q < m + 1" using assms by (simp add: div_less_iff_less_mult)
  then show "?q * a \<le> x" using x by simp
qed

subsection \<open>What \<open>align_and_boundary_to\<close> promises\<close>

text \<open>A block of \<open>sz\<close> bytes at \<open>s\<close> does not straddle a multiple of the boundary.\<close>

definition within_boundary :: "usize \<Rightarrow> usize \<Rightarrow> usize \<Rightarrow> bool" where
  "within_boundary boundary s sz \<longleftrightarrow>
     boundary = 0 \<or> sz = 0 \<or> s div boundary = (s + sz - 1) div boundary"

definition layout_fits :: "Layout \<Rightarrow> usize \<Rightarrow> usize \<Rightarrow> bool" where
  "layout_fits l boundary s \<longleftrightarrow>
     layout_align l dvd s \<and> within_boundary boundary s (layout_size l)"

text \<open>The contract a caller must respect (the two \<^verbatim>\<open>debug_assert!\<close>s and a valid layout).\<close>

definition layout_ok :: "Layout \<Rightarrow> usize \<Rightarrow> bool" where
  "layout_ok l boundary \<longleftrightarrow>
     is_power_of_two (layout_align l) \<and>
     (boundary = 0 \<or> is_power_of_two boundary \<and> layout_size l \<le> boundary)"

lemma within_boundary_at_multiple:
  assumes "b dvd s" "sz \<le> b" "0 < b"
  shows "within_boundary b s sz"
proof (cases "sz = 0")
  case False
  from assms(1) obtain m where s: "s = m * b" by (metis dvd_div_mult_self)
  have "s + sz - 1 = m * b + (sz - 1)" using False s by simp
  moreover have "sz - 1 < b" using assms False by simp
  ultimately show ?thesis using assms(3) s by (simp add: within_boundary_def)
qed (simp add: within_boundary_def)

lemma within_boundary_below:
  assumes "b dvd nb" "q + sz \<le> nb" "nb < q + b"
  shows "within_boundary b q sz"
proof (cases "sz = 0")
  case False
  from assms(1) obtain m where nb: "nb = m * b" by (metis dvd_div_mult_self)
  have "m \<noteq> 0" using assms nb False by (cases m) auto
  then obtain m' where m: "m = Suc m'" by (cases m) auto
  have "q = m' * b + (q - m' * b)" "q - m' * b < b"
    "q + sz - 1 = m' * b + (q + sz - 1 - m' * b)" "q + sz - 1 - m' * b < b"
    using assms(2,3) nb m False by auto
  then have "q div b = m'" "(q + sz - 1) div b = m'"
    by (metis div_mult_self3 div_less add.right_neutral gr_zeroI less_nat_zero_code)+
  then show ?thesis by (simp add: within_boundary_def)
qed (simp add: within_boundary_def)

lemma crossing_below_multiple:
  assumes "b dvd nb" "x < nb" "nb < x + sz" "0 < b"
  shows "\<not> within_boundary b x sz"
proof -
  from assms(1) obtain m where nb: "nb = m * b" by (metis dvd_div_mult_self)
  have "x div b < m" using assms(2,4) nb by (simp add: div_less_iff_less_mult)
  moreover have "m \<le> (x + sz - 1) div b"
    using assms(3,4) nb by (simp add: less_eq_div_iff_mult_less_eq)
  ultimately show ?thesis using assms by (auto simp: within_boundary_def)
qed

lemma ceil_Some:
  assumes "is_power_of_two a" and "ceil v a = Some r"
  shows "a dvd r" and "v \<le> r" and "r < v + a"
    and "\<And>x. a dvd x \<Longrightarrow> v \<le> x \<Longrightarrow> r \<le> x"
proof -
  have "v + a < usize_limit"
    using assms(2) ceil_overflow_panics[of v a] by (cases "v + a < usize_limit") (auto simp: not_less)
  then have "r = (v + a - 1) div a * a"
    using ceil_power_of_two[OF assms(1), of v] assms(2) by simp
  with div_mult_least[OF is_power_of_two_pos[OF assms(1)], where v = v]
  show "a dvd r" "v \<le> r" "r < v + a" "\<And>x. a dvd x \<Longrightarrow> v \<le> x \<Longrightarrow> r \<le> x" by simp_all
qed

lemma align_and_boundary_to_Inr:
  assumes "align_and_boundary_to p l boundary = Some (Inr (s, e))"
  obtains q where "ceil p (layout_align l) = Some q"
    and "e = s + layout_size l" and "s + layout_size l < usize_limit"
    and "boundary = 0 \<Longrightarrow> s = q"
    and "0 < boundary \<Longrightarrow>
           \<exists>nb. ceil q boundary = Some nb \<and> s = (if nb < q + layout_size l then nb else q)"
proof -
  from assms obtain q where q: "ceil p (layout_align l) = Some q"
    by (cases "ceil p (layout_align l)") (auto simp: align_and_boundary_to_def bind_eq_Some_conv)
  show thesis
  proof (cases "boundary = 0")
    case True
    with assms q have "s = q" "e = s + layout_size l" "s + layout_size l < usize_limit"
      by (auto simp: align_and_boundary_to_def bind_eq_Some_conv uadd_eq_Some
          simp del: uadd_ok split: option.splits)
    with q True that show thesis by blast
  next
    case False
    with assms q obtain nb where nb: "ceil q boundary = Some nb"
      by (cases "ceil q boundary") (auto simp: align_and_boundary_to_def bind_eq_Some_conv)
    from assms q nb False
    have "s = (if nb < q + layout_size l then nb else q)"
      and "e = s + layout_size l" and "s + layout_size l < usize_limit"
      by (auto simp: align_and_boundary_to_def bind_eq_Some_conv uadd_eq_Some
          simp del: uadd_ok split: option.splits if_splits)
    with q nb False that show thesis by blast
  qed
qed

text \<open>The two candidates: rounding up to the boundary keeps the alignment.\<close>

lemma boundary_keeps_alignment:
  assumes "is_power_of_two a" "is_power_of_two b" "a dvd q" "ceil q b = Some nb"
  shows "a dvd nb"
proof (cases "a \<le> b")
  case True
  with assms show ?thesis using power_of_two_dvd ceil_Some(1) dvd_trans by blast
next
  case False
  then have "b dvd q" using assms power_of_two_dvd by (meson dvd_trans nat_le_linear)
  then have "nb = q" using ceil_Some(2,4)[OF assms(2,4)] by (simp add: order_antisym)
  then show ?thesis using assms(3) by simp
qed

lemma boundary_choice_fits:
  assumes pb: "is_power_of_two b" and sz: "sz \<le> b" and nb: "ceil q b = Some nb"
    and s: "s = (if nb < q + sz then nb else q)"
  shows "within_boundary b s sz"
    and "\<And>x. q \<le> x \<Longrightarrow> within_boundary b x sz \<Longrightarrow> s \<le> x"
proof -
  note c = ceil_Some[OF pb nb] and b0 = is_power_of_two_pos[OF pb]
  show "within_boundary b s sz"
    using within_boundary_at_multiple[OF c(1) sz b0] within_boundary_below[OF c(1) _ c(3), of sz] s
    by (simp add: not_less)
  show "s \<le> x" if "q \<le> x" "within_boundary b x sz" for x
    using crossing_below_multiple[OF c(1) _ _ b0, of x sz] that s by force
qed

lemma align_and_boundary_to_spec:
  assumes ok: "layout_ok l boundary"
    and res: "align_and_boundary_to p l boundary = Some (Inr (s, e))"
  shows "s + layout_size l < usize_limit" and "e = s + layout_size l"
    and "layout_fits l boundary s" and "p \<le> s"
    and "\<And>x. p \<le> x \<Longrightarrow> layout_fits l boundary x \<Longrightarrow> s \<le> x"
proof -
  have pa: "is_power_of_two (layout_align l)" using ok by (simp add: layout_ok_def)
  obtain q where q: "ceil p (layout_align l) = Some q"
    and e: "e = s + layout_size l" and lim: "s + layout_size l < usize_limit"
    and s0: "boundary = 0 \<Longrightarrow> s = q"
    and s1: "0 < boundary \<Longrightarrow>
           \<exists>nb. ceil q boundary = Some nb \<and> s = (if nb < q + layout_size l then nb else q)"
    using align_and_boundary_to_Inr[OF res] by blast
  note c = ceil_Some[OF pa q]
  show "s + layout_size l < usize_limit" "e = s + layout_size l" by (fact lim, fact e)
  have "layout_fits l boundary s \<and> q \<le> s \<and> (\<forall>x. q \<le> x \<longrightarrow> layout_fits l boundary x \<longrightarrow> s \<le> x)"
  proof (cases "boundary = 0")
    case True
    with s0 c show ?thesis by (auto simp: layout_fits_def within_boundary_def)
  next
    case False
    then have pb: "is_power_of_two boundary" and sz: "layout_size l \<le> boundary"
      using ok by (auto simp: layout_ok_def)
    from False s1 obtain nb where nb: "ceil q boundary = Some nb"
      and s: "s = (if nb < q + layout_size l then nb else q)" by auto
    have "layout_align l dvd s"
      using boundary_keeps_alignment[OF pa pb c(1) nb] c(1) s by simp
    moreover have "q \<le> s" using ceil_Some(2)[OF pb nb] s by simp
    ultimately show ?thesis
      using boundary_choice_fits[OF pb sz nb s] by (auto simp: layout_fits_def)
  qed
  then show "layout_fits l boundary s" "p \<le> s"
    "\<And>x. p \<le> x \<Longrightarrow> layout_fits l boundary x \<Longrightarrow> s \<le> x"
    using c(2,4) by (auto simp: layout_fits_def)
qed

text \<open>With room for the rounding, the arithmetic neither panics nor reports an error.\<close>

lemma align_and_boundary_to_total:
  assumes ok: "layout_ok l boundary"
    and room: "p + layout_align l + boundary + layout_size l < usize_limit"
  shows "\<exists>s e. align_and_boundary_to p l boundary = Some (Inr (s, e))"
proof -
  have pa: "is_power_of_two (layout_align l)" using ok by (simp add: layout_ok_def)
  have "ceil p (layout_align l) \<noteq> None"
    using ceil_power_of_two[OF pa, of p] room by simp
  then obtain q where q: "ceil p (layout_align l) = Some q" by blast
  note cq = ceil_Some(3)[OF pa q]
  show ?thesis
  proof (cases "boundary = 0")
    case True
    with q cq room show ?thesis by (simp add: align_and_boundary_to_def)
  next
    case False
    then have pb: "is_power_of_two boundary" and sz: "layout_size l \<le> boundary"
      using ok by (auto simp: layout_ok_def)
    have "ceil q boundary \<noteq> None"
      using ceil_power_of_two[OF pb, of q] room cq by simp
    then obtain nb where nb: "ceil q boundary = Some nb" by blast
    with ceil_Some(3)[OF pb nb] q cq pb sz room False show ?thesis
      by (simp add: align_and_boundary_to_def)
  qed
qed

lemma align_and_boundary_to_upper:
  assumes ok: "layout_ok l boundary"
    and res: "align_and_boundary_to p l boundary = Some (Inr (s, e))"
  shows "s < p + layout_align l + boundary"
proof -
  have pa: "is_power_of_two (layout_align l)" using ok by (simp add: layout_ok_def)
  obtain q where q: "ceil p (layout_align l) = Some q"
    and e: "e = s + layout_size l" and lim: "s + layout_size l < usize_limit"
    and s0: "boundary = 0 \<Longrightarrow> s = q"
    and s1: "0 < boundary \<Longrightarrow>
           \<exists>nb. ceil q boundary = Some nb \<and> s = (if nb < q + layout_size l then nb else q)"
    using align_and_boundary_to_Inr[OF res] by blast
  have pb: "0 < boundary \<Longrightarrow> is_power_of_two boundary" using ok by (simp add: layout_ok_def)
  show ?thesis
  proof (cases "boundary = 0")
    case True
    with ceil_Some(3)[OF pa q] s0 show ?thesis by simp
  next
    case False
    with s1 obtain nb where "ceil q boundary = Some nb"
      and "s = (if nb < q + layout_size l then nb else q)" by auto
    with ceil_Some(3)[OF pa q] ceil_Some(3)[of boundary q nb] pb False show ?thesis
      by (simp split: if_splits)
  qed
qed

section \<open>The trait \<^verbatim>\<open>BoundaryAlloc\<close>\<close>

text \<open>A live block is its start and its size.\<close>

type_synonym block = "usize \<times> usize"

definition block_disjoint :: "block \<Rightarrow> block \<Rightarrow> bool" where
  "block_disjoint x y \<longleftrightarrow> fst x + snd x \<le> fst y \<or> fst y + snd y \<le> fst x"

definition blocks_disjoint :: "block list \<Rightarrow> bool" where
  "blocks_disjoint bs = sorted_wrt block_disjoint bs"

definition block_within :: "usize \<Rightarrow> usize \<Rightarrow> block \<Rightarrow> bool" where
  "block_within lo hi x \<longleftrightarrow> lo \<le> fst x \<and> fst x + snd x \<le> hi"

lemma blocks_disjoint_simps [simp]:
  "blocks_disjoint []"
  "blocks_disjoint (x # xs) \<longleftrightarrow> (\<forall>y \<in> set xs. block_disjoint x y) \<and> blocks_disjoint xs"
  by (simp_all add: blocks_disjoint_def)

lemma blocks_disjoint_remove1: "blocks_disjoint xs \<Longrightarrow> blocks_disjoint (remove1 x xs)"
proof (induction xs)
  case (Cons y ys)
  then show ?case using set_remove1_subset[of x ys] by auto
qed simp

lemma block_disjoint_above:
  "block_within lo hi x \<Longrightarrow> hi \<le> fst y \<Longrightarrow> block_disjoint y x"
  by (auto simp: block_disjoint_def block_within_def)

subsection \<open>The generic functions over an allocator\<close>

text \<open>
  Each takes the allocator's \<open>alloc\<close> as its first argument and threads the allocator's
  state. A \<open>Box\<close> is the pointer with the value it owns.
\<close>

datatype AllocationError = AllocationError

record 'v Box =
  box_ptr :: usize
  box_val :: 'v

definition alloc_with_boundary_raw ::
  "('s \<Rightarrow> Layout \<Rightarrow> usize \<Rightarrow> ('s \<times> usize) option) \<Rightarrow> 's \<Rightarrow> Layout \<Rightarrow> usize \<Rightarrow> ('s \<times> usize) option"
where
  "alloc_with_boundary_raw alloc s layout boundary = alloc s layout boundary"

definition alloc_with_boundary ::
  "('s \<Rightarrow> Layout \<Rightarrow> usize \<Rightarrow> ('s \<times> usize) option) \<Rightarrow> usize \<Rightarrow> 's \<Rightarrow> usize \<Rightarrow> usize \<Rightarrow>
   ('s \<times> (AllocationError + usize)) option"
where
  "alloc_with_boundary alloc size_of s alignment boundary =
     (case from_size_align size_of alignment of
        Inl _ \<Rightarrow> Some (s, Inl AllocationError)
      | Inr layout \<Rightarrow> do {
          (s', ptr) \<leftarrow> alloc_with_boundary_raw alloc s layout boundary;
          Some (s', if ptr = 0 then Inl AllocationError else Inr ptr)
        })"

definition alloc_with_boundary_with_default_else ::
  "('s \<Rightarrow> Layout \<Rightarrow> usize \<Rightarrow> ('s \<times> usize) option) \<Rightarrow> usize \<Rightarrow> 's \<Rightarrow> usize \<Rightarrow> usize \<Rightarrow>
   ('s \<Rightarrow> ('s \<times> 'v) option) \<Rightarrow> ('s \<times> (AllocationError + 'v Box)) option"
where
  "alloc_with_boundary_with_default_else alloc size_of s alignment boundary dflt = do {
     (s', r) \<leftarrow> alloc_with_boundary alloc size_of s alignment boundary;
     (case r of
        Inl e \<Rightarrow> Some (s', Inl e)
      | Inr ptr \<Rightarrow>
          if ptr = 0 then Some (s', Inl AllocationError)
          else do { (s'', v) \<leftarrow> dflt s'; Some (s'', Inr \<lparr>box_ptr = ptr, box_val = v\<rparr>) })
   }"

definition alloc_array_with_boundary ::
  "('s \<Rightarrow> Layout \<Rightarrow> usize \<Rightarrow> ('s \<times> usize) option) \<Rightarrow> usize \<Rightarrow> 's \<Rightarrow> usize \<Rightarrow> usize \<Rightarrow> usize \<Rightarrow>
   ('s \<times> (AllocationError + usize \<times> usize)) option"
where
  "alloc_array_with_boundary alloc size_of s len alignment boundary = do {
     size \<leftarrow> umul len size_of;
     (case from_size_align size alignment of
        Inl _ \<Rightarrow> Some (s, Inl AllocationError)
      | Inr layout \<Rightarrow> do {
          (s', ptr) \<leftarrow> alloc_with_boundary_raw alloc s layout boundary;
          Some (s', if ptr = 0 then Inl AllocationError else Inr (ptr, len))
        })
   }"

text \<open>The loop that fills the array: \<open>n\<close> calls of \<open>dflt\<close>, in index order.\<close>

fun fill_default :: "('s \<Rightarrow> ('s \<times> 'v) option) \<Rightarrow> nat \<Rightarrow> 's \<Rightarrow> ('s \<times> 'v list) option" where
  "fill_default dflt 0 s = Some (s, [])"
| "fill_default dflt (Suc n) s = do {
     (s', v) \<leftarrow> dflt s;
     (s'', vs) \<leftarrow> fill_default dflt n s';
     Some (s'', v # vs)
   }"

definition alloc_array_with_boundary_with_default_else ::
  "('s \<Rightarrow> Layout \<Rightarrow> usize \<Rightarrow> ('s \<times> usize) option) \<Rightarrow> usize \<Rightarrow> 's \<Rightarrow> usize \<Rightarrow> usize \<Rightarrow> usize \<Rightarrow>
   ('s \<Rightarrow> ('s \<times> 'v) option) \<Rightarrow> ('s \<times> (AllocationError + 'v list Box)) option"
where
  "alloc_array_with_boundary_with_default_else alloc size_of s len alignment boundary dflt = do {
     (s', r) \<leftarrow> alloc_array_with_boundary alloc size_of s len alignment boundary;
     (case r of
        Inl e \<Rightarrow> Some (s', Inl e)
      | Inr (ptr, n) \<Rightarrow> do {
          (s'', vs) \<leftarrow> fill_default dflt n s';
          Some (s'', Inr \<lparr>box_ptr = ptr, box_val = vs\<rparr>)
        })
   }"

text \<open>
  The macros \<^verbatim>\<open>impl_global_alloc_for_boundary_alloc\<close> and
  \<^verbatim>\<open>impl_allocator_for_global_alloc\<close>: \<^verbatim>\<open>GlobalAlloc::alloc\<close> has no boundary, and
  \<^verbatim>\<open>Allocator::allocate\<close> turns the null pointer into \<^verbatim>\<open>AllocError\<close>.
\<close>

definition global_alloc ::
  "('s \<Rightarrow> Layout \<Rightarrow> usize \<Rightarrow> ('s \<times> usize) option) \<Rightarrow> 's \<Rightarrow> Layout \<Rightarrow> ('s \<times> usize) option"
where
  "global_alloc alloc s layout = alloc s layout 0"

definition allocate ::
  "('s \<Rightarrow> Layout \<Rightarrow> usize \<Rightarrow> ('s \<times> usize) option) \<Rightarrow> 's \<Rightarrow> Layout \<Rightarrow>
   ('s \<times> (unit + usize \<times> usize)) option"
where
  "allocate alloc s layout = do {
     (s', ptr) \<leftarrow> global_alloc alloc s layout;
     Some (s', if ptr = 0 then Inl () else Inr (ptr, layout_size layout))
   }"

text \<open>
  A client that respects the safety clauses of the trait: it asks for well-formed layouts
  and returns only blocks it holds, with the size it asked for. The second component is
  the list of blocks it holds.
\<close>

inductive heap_step ::
  "('s \<Rightarrow> Layout \<Rightarrow> usize \<Rightarrow> ('s \<times> usize) option) \<Rightarrow> ('s \<Rightarrow> usize \<Rightarrow> Layout \<Rightarrow> 's option) \<Rightarrow>
   's \<times> block list \<Rightarrow> 's \<times> block list \<Rightarrow> bool"
  for alloc dealloc
where
  heap_alloc: "layout_ok l b \<Longrightarrow> alloc s l b = Some (s', p) \<Longrightarrow> p \<noteq> 0 \<Longrightarrow>
     heap_step alloc dealloc (s, live) (s', (p, layout_size l) # live)"
| heap_alloc_null: "layout_ok l b \<Longrightarrow> alloc s l b = Some (s', 0) \<Longrightarrow>
     heap_step alloc dealloc (s, live) (s', live)"
| heap_dealloc: "(p, layout_size l) \<in> set live \<Longrightarrow> dealloc s p l = Some s' \<Longrightarrow>
     heap_step alloc dealloc (s, live) (s', remove1 (p, layout_size l) live)"

inductive_cases heap_stepE: "heap_step alloc dealloc (s, live) (s', live')"

text \<open>
  What an implementation of the trait owes its clients: the relation \<open>holds s live\<close>
  says that in state \<open>s\<close> the blocks \<open>live\<close> are the ones handed out and not returned.
\<close>

locale boundary_allocator =
  fixes alloc :: "'s \<Rightarrow> Layout \<Rightarrow> usize \<Rightarrow> ('s \<times> usize) option"
    and dealloc :: "'s \<Rightarrow> usize \<Rightarrow> Layout \<Rightarrow> 's option"
    and holds :: "'s \<Rightarrow> block list \<Rightarrow> bool"
    and heap_lo :: "'s \<Rightarrow> usize"
    and heap_hi :: "'s \<Rightarrow> usize"
  assumes holds_within: "holds s live \<Longrightarrow> x \<in> set live \<Longrightarrow> block_within (heap_lo s) (heap_hi s) x"
    and holds_disjoint: "holds s live \<Longrightarrow> blocks_disjoint live"
    and alloc_fits: "holds s live \<Longrightarrow> layout_ok l b \<Longrightarrow> alloc s l b = Some (s', p) \<Longrightarrow> p \<noteq> 0 \<Longrightarrow>
          layout_fits l b p"
    and alloc_holds: "holds s live \<Longrightarrow> layout_ok l b \<Longrightarrow> alloc s l b = Some (s', p) \<Longrightarrow> p \<noteq> 0 \<Longrightarrow>
          holds s' ((p, layout_size l) # live)"
    and alloc_null: "holds s live \<Longrightarrow> layout_ok l b \<Longrightarrow> alloc s l b = Some (s', 0) \<Longrightarrow> s' = s"
    and alloc_heap: "holds s live \<Longrightarrow> layout_ok l b \<Longrightarrow> alloc s l b = Some (s', p) \<Longrightarrow>
          heap_lo s' = heap_lo s \<and> heap_hi s' = heap_hi s"
    and dealloc_holds: "holds s live \<Longrightarrow> (p, layout_size l) \<in> set live \<Longrightarrow>
          \<exists>s'. dealloc s p l = Some s' \<and> holds s' (remove1 (p, layout_size l) live)"
    and dealloc_heap: "dealloc s p l = Some s' \<Longrightarrow> heap_lo s' = heap_lo s \<and> heap_hi s' = heap_hi s"

context boundary_allocator
begin

lemma heap_step_holds:
  assumes "heap_step alloc dealloc (s, live) (s', live')" and "holds s live"
  shows "holds s' live' \<and> heap_lo s' = heap_lo s \<and> heap_hi s' = heap_hi s"
  using assms(1)
proof (rule heap_stepE)
  fix l b p
  assume "live' = (p, layout_size l) # live" "layout_ok l b" "alloc s l b = Some (s', p)" "0 < p"
  with assms(2) alloc_holds alloc_heap show ?thesis by simp
next
  fix l b
  assume "live' = live" "layout_ok l b" "alloc s l b = Some (s', 0)"
  with assms(2) alloc_null show ?thesis by blast
next
  fix p l
  assume "live' = remove1 (p, layout_size l) live" "(p, layout_size l) \<in> set live"
    and "dealloc s p l = Some s'"
  with dealloc_holds[OF assms(2)] dealloc_heap show ?thesis by fastforce
qed

lemma heap_run_holds:
  assumes "(heap_step alloc dealloc)\<^sup>*\<^sup>* (s, live) (s', live')" and "holds s live"
  shows "holds s' live' \<and> heap_lo s' = heap_lo s \<and> heap_hi s' = heap_hi s"
  using assms
proof (induction rule: rtranclp_induct2)
  case refl
  then show ?case by simp
next
  case (step s1 l1 s2 l2)
  then show ?case using heap_step_holds[of s1 l1 s2 l2] by simp
qed

lemma heap_run_safe:
  assumes "(heap_step alloc dealloc)\<^sup>*\<^sup>* (s, live) (s', live')" and "holds s live"
  shows "blocks_disjoint live'"
    and "x \<in> set live' \<Longrightarrow> block_within (heap_lo s) (heap_hi s) x"
  using heap_run_holds[OF assms] holds_disjoint holds_within by metis+

lemma alloc_with_boundary_ok:
  assumes "holds s live" and "boundary = 0 \<or> is_power_of_two boundary \<and> size_of \<le> boundary"
    and "alloc_with_boundary alloc size_of s alignment boundary = Some (s', Inr ptr)"
  shows "alignment dvd ptr \<and> within_boundary boundary ptr size_of \<and> ptr \<noteq> 0 \<and>
         holds s' ((ptr, size_of) # live)"
proof -
  from assms(3) have al: "is_power_of_two alignment"
    and run: "alloc s \<lparr>layout_size = size_of, layout_align = alignment\<rparr> boundary = Some (s', ptr)"
    and "ptr \<noteq> 0"
    by (auto simp: alloc_with_boundary_def alloc_with_boundary_raw_def from_size_align_def
        bind_eq_Some_conv split: if_splits)
  have ok: "layout_ok \<lparr>layout_size = size_of, layout_align = alignment\<rparr> boundary"
    using al assms(2) by (auto simp: layout_ok_def)
  show ?thesis
    using alloc_fits[OF assms(1) ok run \<open>ptr \<noteq> 0\<close>] alloc_holds[OF assms(1) ok run \<open>ptr \<noteq> 0\<close>] \<open>ptr \<noteq> 0\<close>
    by (simp add: layout_fits_def)
qed

lemma alloc_array_with_boundary_ok:
  assumes "holds s live" and "boundary = 0 \<or> is_power_of_two boundary \<and> len * size_of \<le> boundary"
    and "alloc_array_with_boundary alloc size_of s len alignment boundary = Some (s', Inr (ptr, n))"
  shows "n = len \<and> alignment dvd ptr \<and> within_boundary boundary ptr (len * size_of) \<and> ptr \<noteq> 0 \<and>
         holds s' ((ptr, len * size_of) # live)"
proof -
  have "alloc_with_boundary alloc (len * size_of) s alignment boundary = Some (s', Inr ptr)"
    and "n = len"
    using assms(3)
    by (auto simp: alloc_array_with_boundary_def alloc_with_boundary_def bind_eq_Some_conv
        rust_simps split: sum.splits if_splits)
  with alloc_with_boundary_ok[OF assms(1,2)] show ?thesis by simp
qed

lemma alloc_with_boundary_err:
  assumes "holds s live" and "boundary = 0 \<or> is_power_of_two boundary \<and> size_of \<le> boundary"
    and "alloc_with_boundary alloc size_of s alignment boundary = Some (s', Inl e)"
  shows "s' = s"
proof (cases "from_size_align size_of alignment")
  case Inl
  with assms(3) show ?thesis by (simp add: alloc_with_boundary_def)
next
  case (Inr l)
  then have "layout_ok l boundary"
    using assms(2) by (auto simp: from_size_align_def layout_ok_def split: if_splits)
  with assms(3) Inr alloc_null[OF assms(1)] show ?thesis
    by (auto simp: alloc_with_boundary_def alloc_with_boundary_raw_def bind_eq_Some_conv
        split: if_splits)
qed

end

lemma fill_default_length: "fill_default dflt n s = Some (s', vs) \<Longrightarrow> length vs = n"
  by (induction n arbitrary: s vs) (auto simp: bind_eq_Some_conv)

section \<open>Properties\<close>

text \<open>C29: When \<open>align_and_boundary_to\<close> returns a range for a valid request, its start is the
  least address from \<open>from_ptr\<close> on at which the block is aligned and does not straddle a
  multiple of the boundary, and the range is exactly the block.\<close>

theorem align_and_boundary_to_least:
  assumes "layout_ok l boundary"
    and "align_and_boundary_to from_ptr l boundary = Some (Inr (start, end_ptr))"
  shows "from_ptr \<le> start \<and> layout_fits l boundary start \<and> end_ptr = start + layout_size l \<and>
         (\<forall>x. from_ptr \<le> x \<longrightarrow> layout_fits l boundary x \<longrightarrow> start \<le> x)"
  using align_and_boundary_to_spec[OF assms] by blast

theorem align_and_boundary_to_least_witness:
  "4369 \<le> (8192::nat) \<and> layout_fits \<lparr>layout_size = 256, layout_align = 8192\<rparr> 1024 8192 \<and>
   8448 = (8192::nat) + layout_size \<lparr>layout_size = 256, layout_align = 8192\<rparr> \<and>
   \<not> layout_fits \<lparr>layout_size = 256, layout_align = 8192\<rparr> 1024 8000"
proof -
  have "layout_ok \<lparr>layout_size = 256, layout_align = 8192\<rparr> 1024"
    "align_and_boundary_to 4369 \<lparr>layout_size = 256, layout_align = 8192\<rparr> 1024 = Some (Inr (8192, 8448))" by code_simp+
  from align_and_boundary_to_least[OF this] have least: "\<forall>x. 4369 \<le> x \<longrightarrow>
      layout_fits \<lparr>layout_size = 256, layout_align = 8192\<rparr> 1024 x \<longrightarrow> 8192 \<le> x"
    and rest: "layout_fits \<lparr>layout_size = 256, layout_align = 8192\<rparr> 1024 8192" by blast+
  from least[rule_format, of 8000] have "\<not> layout_fits \<lparr>layout_size = 256, layout_align = 8192\<rparr> 1024 8000" by linarith
  with rest show ?thesis by simp
qed

end
