(* ===== verification/Fixed_Length_Allocator.thy ===== *)
theory Fixed_Length_Allocator
  imports Boundary_Alloc
begin

text \<open>
  The fixed-length allocator, \<^verbatim>\<open>kernel-lib/src/allocator/fixed_length_allocator.rs\<close>: a
  heap that is an array inside the allocator. The address of that array
  (\<^verbatim>\<open>heap.as_ptr()\<close>) is a component of the state, since the code computes with it; the
  constant generic \<^verbatim>\<open>SIZE\<close> is the length of the array.
\<close>

record FixedLengthAllocator =
  fl_heap :: "u8 list"
  fl_heap_ptr :: usize
  fl_next :: usize

definition fl_new :: "usize \<Rightarrow> usize \<Rightarrow> FixedLengthAllocator" where
  "fl_new sz ptr = \<lparr>fl_heap = replicate sz 0, fl_heap_ptr = ptr, fl_next = 0\<rparr>"

definition fl_heap_end :: "FixedLengthAllocator \<Rightarrow> usize option" where
  "fl_heap_end a = uadd (fl_heap_ptr a) (length (fl_heap a))"

definition fl_heap_range :: "FixedLengthAllocator \<Rightarrow> (usize \<times> usize) option" where
  "fl_heap_range a = do { e \<leftarrow> fl_heap_end a; Some (fl_heap_ptr a, e) }"

definition fl_alloc ::
  "FixedLengthAllocator \<Rightarrow> Layout \<Rightarrow> usize \<Rightarrow> (FixedLengthAllocator \<times> usize) option" where
  "fl_alloc a layout boundary = do {
     rassert (boundary = 0 \<or> is_power_of_two boundary);
     r \<leftarrow> align_and_boundary_to (fl_heap_ptr a + fl_next a) layout boundary;
     (case r of
        Inl _ \<Rightarrow> None
      | Inr (start, end_ptr) \<Rightarrow> do {
          he \<leftarrow> fl_heap_end a;
          if end_ptr \<ge> he then None
          else do {
            (hs, _) \<leftarrow> fl_heap_range a;
            n \<leftarrow> usub end_ptr hs;
            Some (a\<lparr>fl_next := n\<rparr>, start)
          }
        })
   }"

definition fl_dealloc :: "FixedLengthAllocator \<Rightarrow> usize \<Rightarrow> Layout \<Rightarrow> FixedLengthAllocator option" where
  "fl_dealloc a ptr layout = Some a"

section \<open>The invariant\<close>

definition fl_holds :: "FixedLengthAllocator \<Rightarrow> block list \<Rightarrow> bool" where
  "fl_holds a live \<longleftrightarrow>
     0 < fl_heap_ptr a \<and> fl_next a \<le> length (fl_heap a) \<and>
     (\<forall>x \<in> set live. block_within (fl_heap_ptr a) (fl_heap_ptr a + fl_next a) x) \<and>
     blocks_disjoint live"

lemma fl_alloc_Some:
  assumes "fl_alloc a l b = Some (a', p)"
  obtains e where "align_and_boundary_to (fl_heap_ptr a + fl_next a) l b = Some (Inr (p, e))"
    and "e < fl_heap_ptr a + length (fl_heap a)" and "fl_heap_ptr a \<le> e"
    and "a' = a\<lparr>fl_next := e - fl_heap_ptr a\<rparr>"
proof -
  from assms obtain r where r: "align_and_boundary_to (fl_heap_ptr a + fl_next a) l b = Some r"
    by (auto simp: fl_alloc_def bind_eq_Some_conv)
  with assms obtain e where "r = Inr (p, e)" "e < fl_heap_ptr a + length (fl_heap a)"
    "fl_heap_ptr a \<le> e" "a' = a\<lparr>fl_next := e - fl_heap_ptr a\<rparr>"
    by (cases r) (auto simp: fl_alloc_def fl_heap_range_def fl_heap_end_def bind_eq_Some_conv
        uadd_eq_Some usub_eq_Some simp del: uadd_ok usub_ok split: if_splits)
  with r that show thesis by blast
qed

lemma fl_alloc_holds:
  assumes "fl_holds a live" "layout_ok l b" "fl_alloc a l b = Some (a', p)"
  shows "fl_holds a' ((p, layout_size l) # live)" and "layout_fits l b p" and "p \<noteq> 0"
proof -
  obtain e where al: "align_and_boundary_to (fl_heap_ptr a + fl_next a) l b = Some (Inr (p, e))"
    and e: "e < fl_heap_ptr a + length (fl_heap a)" "fl_heap_ptr a \<le> e"
    and a': "a' = a\<lparr>fl_next := e - fl_heap_ptr a\<rparr>"
    using fl_alloc_Some[OF assms(3)] by blast
  note spec = align_and_boundary_to_spec[OF assms(2) al]
  show "layout_fits l b p" by (fact spec(3))
  show "p \<noteq> 0" using spec(4) assms(1) by (auto simp: fl_holds_def)
  have "block_disjoint (p, layout_size l) x" if "x \<in> set live" for x
    using assms(1) that spec(4)
      block_disjoint_above[of "fl_heap_ptr a" "fl_heap_ptr a + fl_next a" x]
    by (simp add: fl_holds_def)
  moreover have "block_within (fl_heap_ptr a) e x" if "x \<in> set live" for x
    using assms(1) that spec(2,4) by (auto simp: fl_holds_def block_within_def)
  ultimately show "fl_holds a' ((p, layout_size l) # live)"
    using assms(1) spec(2,4) e a' by (auto simp: fl_holds_def block_within_def)
qed

interpretation fixed: boundary_allocator fl_alloc fl_dealloc fl_holds fl_heap_ptr
  "\<lambda>a. fl_heap_ptr a + length (fl_heap a)"
proof unfold_locales
  fix a live x assume "fl_holds a live" "x \<in> set live"
  then have "block_within (fl_heap_ptr a) (fl_heap_ptr a + fl_next a) x"
    "fl_next a \<le> length (fl_heap a)"
    by (simp_all add: fl_holds_def)
  then show "block_within (fl_heap_ptr a) (fl_heap_ptr a + length (fl_heap a)) x"
    by (auto simp: block_within_def)
next
  fix a live l b a' assume "fl_holds a live" "layout_ok l b" "fl_alloc a l b = Some (a', 0)"
  then show "a' = a" using fl_alloc_holds(3) by blast
next
  fix a live p and l :: Layout assume "fl_holds a live" "(p, layout_size l) \<in> set live"
  then show "\<exists>a'. fl_dealloc a p l = Some a' \<and> fl_holds a' (remove1 (p, layout_size l) live)"
    using set_remove1_subset[of "(p, layout_size l)" live]
    by (auto simp: fl_dealloc_def fl_holds_def blocks_disjoint_remove1)
next
  fix a l b a' p assume "fl_alloc a l b = Some (a', p)"
  then show "fl_heap_ptr a' = fl_heap_ptr a \<and>
      fl_heap_ptr a' + length (fl_heap a') = fl_heap_ptr a + length (fl_heap a)"
    by (auto elim: fl_alloc_Some)
next
  fix a live l b a' p assume "fl_holds a live" "layout_ok l b" "fl_alloc a l b = Some (a', p)"
  then show "layout_fits l b p" "fl_holds a' ((p, layout_size l) # live)"
    by (rule fl_alloc_holds)+
qed (simp_all add: fl_holds_def fl_dealloc_def)

section \<open>Properties\<close>

lemma fl_new_holds: "0 < ptr \<Longrightarrow> fl_holds (fl_new sz ptr) []"
  by (simp add: fl_holds_def fl_new_def)

text \<open>C38: In every state a client of a fixed-length allocator can reach, the blocks it holds do
  not overlap and lie inside the allocator's own array.\<close>

theorem fixed_blocks_safe:
  assumes "0 < ptr"
    and "(heap_step fl_alloc fl_dealloc)\<^sup>*\<^sup>* (fl_new sz ptr, []) (a, live)"
  shows "blocks_disjoint live \<and> (\<forall>x \<in> set live. block_within ptr (ptr + sz) x)"
proof -
  have init: "fl_holds (fl_new sz ptr) []" using assms(1) by (rule fl_new_holds)
  from fixed.heap_run_safe[OF assms(2) init] show ?thesis by (auto simp: fl_new_def)
qed

lemma fl_example_alloc:
  "fl_alloc (fl_new 16 4100) \<lparr>layout_size = 3, layout_align = 4\<rparr> 4 =
   Some ((fl_new 16 4100)\<lparr>fl_next := 3\<rparr>, 4100)"
  by code_simp

theorem fixed_blocks_safe_witness:
  "blocks_disjoint [(4100, 3)] \<and> block_within 4100 (4100 + 16) (4100, 3)"
proof -
  let ?l = "\<lparr>layout_size = 3, layout_align = 4\<rparr>"
  have ok: "layout_ok ?l 4" by code_simp
  have "4100 \<noteq> (0::nat)" by simp
  from heap_alloc[of ?l 4 fl_alloc, OF ok fl_example_alloc this]
  have "heap_step fl_alloc fl_dealloc (fl_new 16 4100, []) ((fl_new 16 4100)\<lparr>fl_next := 3\<rparr>, [(4100, 3)])"
    by simp
  then have "(heap_step fl_alloc fl_dealloc)\<^sup>*\<^sup>* (fl_new 16 4100, [])
      ((fl_new 16 4100)\<lparr>fl_next := 3\<rparr>, [(4100, 3)])"
    by (rule r_into_rtranclp)
  from fixed_blocks_safe[OF _ this] show ?thesis by simp
qed

end
