(* ===== verification/Pixel.thy ===== *)
theory Pixel
  imports Rust_Prelude
begin

text \<open>
  Colours and pixel encodings (\<^verbatim>\<open>Color\<close> and the pixel traits of \<^verbatim>\<open>kernel-lib/src/lib.rs\<close>,
  \<^verbatim>\<open>kernel-lib/src/pixel.rs\<close>, \<^verbatim>\<open>GraphicsInfo\<close> of \<^verbatim>\<open>common/src/types.rs\<close>), and the interface
  of everything that can be drawn on. The traits \<^verbatim>\<open>PixcelWritable\<close> and
  \<^verbatim>\<open>PixcelWritableMut\<close> are the locale \<open>pixel_sink\<close>; what a drawing routine does through
  it is a picture, a partial map from coordinates to colours, and pictures compose the way
  the routines do, a later one over an earlier one.
\<close>

section \<open>Colours and pixel formats\<close>

record Color =
  col_r :: u8
  col_g :: u8
  col_b :: u8

definition Color_new :: "u8 \<Rightarrow> u8 \<Rightarrow> u8 \<Rightarrow> Color" where
  "Color_new r g b = \<lparr>col_r = r, col_g = g, col_b = b\<rparr>"

definition Color_black :: Color where
  "Color_black = \<lparr>col_r = 0, col_g = 0, col_b = 0\<rparr>"

definition Color_white :: Color where
  "Color_white = \<lparr>col_r = 255, col_g = 255, col_b = 255\<rparr>"

definition Color_green :: Color where
  "Color_green = \<lparr>col_r = 0, col_g = 255, col_b = 0\<rparr>"

datatype PixcelFormat = Rgb | Bgr

text \<open>The trait \<^verbatim>\<open>RenderedPixel\<close>; the two marker types are the two formats.\<close>

fun pixel :: "PixcelFormat \<Rightarrow> Color \<Rightarrow> u8 list" where
  "pixel Rgb c = [col_r c, col_g c, col_b c, 0xff]"
| "pixel Bgr c = [col_b c, col_g c, col_r c, 0xff]"

record GraphicsInfo =
  gi_horizontal_resolution :: usize
  gi_vertical_resolution :: usize
  gi_pixels_per_scan_line :: usize
  gi_frame_buffer_base :: usize
  gi_pixcel_format :: PixcelFormat

definition GraphicsInfo_uninitialized :: GraphicsInfo where
  "GraphicsInfo_uninitialized =
     \<lparr>gi_horizontal_resolution = 0, gi_vertical_resolution = 0, gi_pixels_per_scan_line = 0,
      gi_frame_buffer_base = 0, gi_pixcel_format = Rgb\<rparr>"

definition GraphicsInfo_new ::
  "usize \<Rightarrow> usize \<Rightarrow> usize \<Rightarrow> usize \<Rightarrow> PixcelFormat \<Rightarrow> GraphicsInfo" where
  "GraphicsInfo_new h v p b f =
     \<lparr>gi_horizontal_resolution = h, gi_vertical_resolution = v, gi_pixels_per_scan_line = p,
      gi_frame_buffer_base = b, gi_pixcel_format = f\<rparr>"

definition GraphicsInfo_size :: "GraphicsInfo \<Rightarrow> usize option" where
  "GraphicsInfo_size g = umul (gi_pixels_per_scan_line g) (gi_vertical_resolution g)"

definition new_rendering_handler :: "GraphicsInfo \<Rightarrow> PixcelFormat" where
  "new_rendering_handler g = (case gi_pixcel_format g of Rgb \<Rightarrow> Rgb | Bgr \<Rightarrow> Bgr)"

text \<open>Reading back the bytes of a pixel.\<close>

fun pixel_color :: "PixcelFormat \<Rightarrow> u8 \<Rightarrow> u8 \<Rightarrow> u8 \<Rightarrow> Color" where
  "pixel_color Rgb a b c = \<lparr>col_r = a, col_g = b, col_b = c\<rparr>"
| "pixel_color Bgr a b c = \<lparr>col_r = c, col_g = b, col_b = a\<rparr>"

lemma pixel_length [simp]: "length (pixel f c) = 4"
  by (cases f) auto

lemma pixel_color_pixel: "pixel_color f (pixel f c ! 0) (pixel f c ! 1) (pixel f c ! 2) = c"
  by (cases f) auto

section \<open>Pictures\<close>

type_synonym picture = "nat \<Rightarrow> nat \<Rightarrow> Color option"

definition dot :: "nat \<Rightarrow> nat \<Rightarrow> Color \<Rightarrow> picture" where
  "dot x y c = (\<lambda>x' y'. if x' = x \<and> y' = y then Some c else None)"

definition rect :: "nat \<Rightarrow> nat \<Rightarrow> nat \<Rightarrow> nat \<Rightarrow> Color \<Rightarrow> picture" where
  "rect x0 y0 w h c = (\<lambda>x y. if x0 \<le> x \<and> x < x0 + w \<and> y0 \<le> y \<and> y < y0 + h then Some c else None)"

definition blank :: picture where
  "blank = (\<lambda>x y. None)"

text \<open>\<open>over g h\<close> is \<open>h\<close> drawn over \<open>g\<close>.\<close>

definition over :: "picture \<Rightarrow> picture \<Rightarrow> picture" where
  "over g h = (\<lambda>x y. case h x y of None \<Rightarrow> g x y | Some c \<Rightarrow> Some c)"

primrec overs :: "picture list \<Rightarrow> picture" where
  "overs [] = blank"
| "overs (g # gs) = over g (overs gs)"

lemma over_blank [simp]: "over g blank = g" "over blank g = g"
  by (auto simp: over_def blank_def fun_eq_iff split: option.splits)

lemma over_assoc: "over (over f g) h = over f (over g h)"
  by (auto simp: over_def fun_eq_iff split: option.splits)

lemma overs_append: "overs (gs @ hs) = over (overs gs) (overs hs)"
  by (induction gs) (auto simp: over_assoc)

lemma overs_None_iff: "overs gs x y = None \<longleftrightarrow> (\<forall>g \<in> set gs. g x y = None)"
  by (induction gs) (auto simp: over_def blank_def split: option.splits)

lemma overs_SomeD: "overs gs x y = Some c \<Longrightarrow> \<exists>g \<in> set gs. g x y = Some c"
  by (induction gs) (auto simp: over_def blank_def split: option.splits)

text \<open>If every part that draws a point draws it in the same colour, the order is irrelevant.\<close>

lemma overs_unique:
  assumes "g \<in> set gs" "g x y = Some c" and "\<And>h d. h \<in> set gs \<Longrightarrow> h x y = Some d \<Longrightarrow> d = c"
  shows "overs gs x y = Some c"
proof (cases "overs gs x y")
  case None
  then have "g x y = None" using assms(1) by (simp add: overs_None_iff)
  with assms(2) show ?thesis by simp
next
  case (Some d)
  then obtain h where "h \<in> set gs" "h x y = Some d" using overs_SomeD by blast
  then have "d = c" by (rule assms(3))
  with Some show ?thesis by simp
qed

lemma overs_map_eqI:
  assumes "\<And>c. p x y = Some c \<Longrightarrow> \<exists>i \<in> set is. g i x y = Some c"
    and "\<And>i c. i \<in> set is \<Longrightarrow> g i x y = Some c \<Longrightarrow> p x y = Some c"
  shows "overs (map g is) x y = p x y"
proof (cases "p x y")
  case None
  with assms(2) have "overs (map g is) x y = None"
    unfolding overs_None_iff by (metis (no_types) imageE list.set_map not_Some_eq option.distinct(1))
  with None show ?thesis by simp
next
  case (Some c)
  with assms(1) obtain i where "i \<in> set is" "g i x y = Some c" by blast
  then have "overs (map g is) x y = Some c"
  proof (intro overs_unique[of "g i"])
    fix h d assume "h \<in> set (map g is)" "h x y = Some d"
    then obtain j where "j \<in> set is" "g j x y = Some d" by auto
    then have "p x y = Some d" by (rule assms(2))
    with Some show "d = c" by simp
  qed simp_all
  with Some show ?thesis by simp
qed

lemma overs_points:
  "overs (map (\<lambda>y. overs (map (\<lambda>x. case q x y of None \<Rightarrow> blank | Some c \<Rightarrow> dot x y c) [x0..<x1])) [y0..<y1]) x y
   = (if x0 \<le> x \<and> x < x1 \<and> y0 \<le> y \<and> y < y1 then q x y else None)"
proof -
  have row: "overs (map (\<lambda>x. case q x y' of None \<Rightarrow> blank | Some c \<Rightarrow> dot x y' c) [x0..<x1]) x y =
      (if x0 \<le> x \<and> x < x1 \<and> y = y' then q x y else None)" for y'
    by (rule overs_map_eqI[where p = "\<lambda>x y. if x0 \<le> x \<and> x < x1 \<and> y = y' then q x y else None"])
      (auto simp: dot_def blank_def split: if_splits option.splits)
  show ?thesis
    by (rule overs_map_eqI[where p = "\<lambda>x y. if x0 \<le> x \<and> x < x1 \<and> y0 \<le> y \<and> y < y1 then q x y else None"])
      (auto simp: row split: if_splits)
qed

section \<open>Things that can be drawn on\<close>

text \<open>
  \<open>wr\<close> is the operation of the trait, \<open>read\<close> the colour last written, \<open>inside\<close> the
  coordinates of the drawing area and \<open>ok\<close> the invariant of the implementation.
\<close>

locale pixel_sink =
  fixes wr :: "usize \<Rightarrow> usize \<Rightarrow> Color \<Rightarrow> 's \<Rightarrow> 's option"
    and read :: "'s \<Rightarrow> nat \<Rightarrow> nat \<Rightarrow> Color"
    and inside :: "'s \<Rightarrow> nat \<Rightarrow> nat \<Rightarrow> bool"
    and ok :: "'s \<Rightarrow> bool"
  assumes write_total: "ok s \<Longrightarrow> inside s x y \<Longrightarrow> \<exists>s'. wr x y c s = Some s'"
    and write_ok: "ok s \<Longrightarrow> inside s x y \<Longrightarrow> wr x y c s = Some s' \<Longrightarrow> ok s' \<and> inside s' = inside s"
    and read_write: "ok s \<Longrightarrow> inside s x y \<Longrightarrow> wr x y c s = Some s' \<Longrightarrow> inside s x' y' \<Longrightarrow>
          read s' x' y' = (if x' = x \<and> y' = y then c else read s x' y')"
begin

text \<open>The operation \<open>f\<close> returns on every state with drawing area \<open>I\<close> and draws \<open>g\<close> there.\<close>

definition paints :: "'s \<Rightarrow> 's \<Rightarrow> picture \<Rightarrow> bool" where
  "paints s s' g \<longleftrightarrow> ok s' \<and> inside s' = inside s \<and>
     (\<forall>x y. inside s x y \<longrightarrow> read s' x y = (case g x y of None \<Rightarrow> read s x y | Some c \<Rightarrow> c))"

definition draws :: "(nat \<Rightarrow> nat \<Rightarrow> bool) \<Rightarrow> ('s \<Rightarrow> 's option) \<Rightarrow> picture \<Rightarrow> bool" where
  "draws I f g \<longleftrightarrow> (\<forall>s. ok s \<longrightarrow> inside s = I \<longrightarrow> (\<exists>s'. f s = Some s' \<and> paints s s' g))"

lemma paints_refl: "ok s \<Longrightarrow> paints s s blank"
  by (simp add: paints_def blank_def)

lemma paints_trans: "paints s t g \<Longrightarrow> paints t u h \<Longrightarrow> paints s u (over g h)"
  by (auto simp: paints_def over_def split: option.splits)

lemma drawsE:
  assumes "draws I f g" "ok s" "inside s = I"
  obtains s' where "f s = Some s'" "ok s'" "inside s' = I"
    "\<And>x y. I x y \<Longrightarrow> read s' x y = (case g x y of None \<Rightarrow> read s x y | Some c \<Rightarrow> c)"
  using assms by (auto simp: draws_def paints_def)

lemma draws_skip: "draws I Some blank"
  by (simp add: draws_def paints_refl)

lemma draws_write: "I x y \<Longrightarrow> draws I (wr x y c) (dot x y c)"
  unfolding draws_def paints_def
proof (intro allI impI)
  fix s assume s: "I x y" "ok s" "inside s = I"
  with write_total obtain s' where s': "wr x y c s = Some s'" by blast
  with s write_ok have inv: "ok s'" "inside s' = inside s" by blast+
  have "read s' x' y' = (if x' = x \<and> y' = y then c else read s x' y')" if "I x' y'" for x' y'
    using read_write s s' that by simp
  with s' inv s show "\<exists>s'. wr x y c s = Some s' \<and> ok s' \<and> inside s' = inside s \<and>
      (\<forall>x' y'. inside s x' y' \<longrightarrow>
        read s' x' y' = (case dot x y c x' y' of None \<Rightarrow> read s x' y' | Some c \<Rightarrow> c))"
    by (auto simp: dot_def)
qed

lemma draws_seq:
  assumes "draws I f g" "draws I f' g'"
  shows "draws I (\<lambda>s. do { t \<leftarrow> f s; f' t }) (over g g')"
  unfolding draws_def
proof (intro allI impI)
  fix s assume s: "ok s" "inside s = I"
  with assms(1) obtain t where t: "f s = Some t" "paints s t g" by (auto simp: draws_def)
  then have "ok t" "inside t = I" using s by (simp_all add: paints_def)
  with assms(2) obtain u where "f' t = Some u" "paints t u g'" by (auto simp: draws_def)
  with t paints_trans show "\<exists>s'. f s \<bind> f' = Some s' \<and> paints s s' (over g g')" by auto
qed

lemma draws_for_each:
  assumes "\<And>i. i \<in> set is \<Longrightarrow> draws I (f i) (g i)"
  shows "draws I (for_each is f) (overs (map g is))"
  using assms
proof (induction "is")
  case Nil
  then show ?case using draws_skip by (simp add: draws_def)
next
  case (Cons i "is")
  then have "draws I (\<lambda>s. do { t \<leftarrow> f i s; for_each is f t }) (over (g i) (overs (map g is)))"
    by (intro draws_seq) auto
  then show ?case by (simp add: draws_def)
qed

lemma draws_cong:
  assumes "draws I f g" and "\<And>x y. I x y \<Longrightarrow> g x y = h x y"
  shows "draws I f h"
  using assms by (auto simp: draws_def paints_def)

end

end
