(* ===== verification/Render.thy ===== *)
theory Render
  imports Pixel
begin

text \<open>
  Drawing routines that go through the pixel traits: \<^verbatim>\<open>kernel-lib/src/render.rs\<close> (the traits
  \<^verbatim>\<open>Renderer\<close> and \<^verbatim>\<open>RendererMut\<close> have the same bodies, once over \<^verbatim>\<open>&self\<close> and once over
  \<^verbatim>\<open>&mut self\<close>; the state of the model is threaded in both cases),
  \<^verbatim>\<open>kernel-lib/src/shapes.rs\<close>, and \<^verbatim>\<open>write_ascii\<close> and \<^verbatim>\<open>write_string\<close> of
  \<^verbatim>\<open>kernel-lib/src/lib.rs\<close>. Each routine takes the trait's \<^verbatim>\<open>write\<close> as its argument, and the
  lemmas inside \<open>pixel_sink\<close> say which picture it draws.
\<close>

section \<open>Vectors\<close>

record Vector2D =
  vx :: usize
  vy :: usize

definition Vector2D_new :: "usize \<Rightarrow> usize \<Rightarrow> Vector2D" where
  "Vector2D_new x y = \<lparr>vx = x, vy = y\<rparr>"

definition Vector2D_add :: "Vector2D \<Rightarrow> Vector2D \<Rightarrow> Vector2D option" where
  "Vector2D_add a b = do {
     x \<leftarrow> uadd (vx a) (vx b);
     y \<leftarrow> uadd (vy a) (vy b);
     Some (Vector2D_new x y)
   }"

text \<open>The atomic vector: \<^verbatim>\<open>fetch_add\<close> on an \<^verbatim>\<open>AtomicIsize\<close> wraps around.\<close>

record AtomicVec2D =
  avx :: isize
  avy :: isize

definition wrapping_iadd :: "isize \<Rightarrow> isize \<Rightarrow> isize" where
  "wrapping_iadd a b = (a + b + 9223372036854775808) mod 18446744073709551616 - 9223372036854775808"

definition AtomicVec2D_new :: "isize \<Rightarrow> isize \<Rightarrow> AtomicVec2D" where
  "AtomicVec2D_new x y = \<lparr>avx = x, avy = y\<rparr>"

definition AtomicVec2D_add :: "isize \<Rightarrow> isize \<Rightarrow> AtomicVec2D \<Rightarrow> AtomicVec2D" where
  "AtomicVec2D_add dx dy v = v\<lparr>avx := wrapping_iadd (avx v) dx, avy := wrapping_iadd (avy v) dy\<rparr>"

definition AtomicVec2D_into_vec :: "AtomicVec2D \<Rightarrow> isize \<times> isize" where
  "AtomicVec2D_into_vec v = (avx v, avy v)"

section \<open>Rectangles and boards\<close>

definition fill_rect ::
  "(usize \<Rightarrow> usize \<Rightarrow> Color \<Rightarrow> 's \<Rightarrow> 's option) \<Rightarrow> Vector2D \<Rightarrow> Vector2D \<Rightarrow> Color \<Rightarrow> 's \<Rightarrow> 's option"
where
  "fill_rect wr pos sz color s = do {
     y_end \<leftarrow> uadd (vy pos) (vy sz);
     for_each [vy pos..<y_end] (\<lambda>y s. do {
       x_end \<leftarrow> uadd (vx pos) (vx sz);
       for_each [vx pos..<x_end] (\<lambda>x. wr x y color) s
     }) s
   }"

definition draw_rect_outline ::
  "(usize \<Rightarrow> usize \<Rightarrow> Color \<Rightarrow> 's \<Rightarrow> 's option) \<Rightarrow> Vector2D \<Rightarrow> Vector2D \<Rightarrow> Color \<Rightarrow> 's \<Rightarrow> 's option"
where
  "draw_rect_outline wr pos sz color s = do {
     x_end \<leftarrow> uadd (vx pos) (vx sz);
     s \<leftarrow> for_each [vx pos..<x_end] (\<lambda>x s. do {
       s \<leftarrow> wr x (vy pos) color s;
       y' \<leftarrow> uadd (vy pos) (vy sz);
       y \<leftarrow> usub y' 1;
       wr x y color s
     }) s;
     y_end \<leftarrow> uadd (vy pos) (vy sz);
     for_each [vy pos..<y_end] (\<lambda>y s. do {
       s \<leftarrow> wr (vx pos) y color s;
       x' \<leftarrow> uadd (vx pos) (vx sz);
       x \<leftarrow> usub x' 1;
       wr x y color s
     }) s
   }"

definition render_board ::
  "(usize \<Rightarrow> usize \<Rightarrow> Color \<Rightarrow> 's \<Rightarrow> 's option) \<Rightarrow> bool list list \<Rightarrow> Vector2D \<Rightarrow> usize \<Rightarrow> Color \<Rightarrow>
   's \<Rightarrow> 's option"
where
  "render_board wr board pos sz color s =
     for_each [0..<length board] (\<lambda>y. for_each [0..<length board] (\<lambda>x s. do {
       xs \<leftarrow> umul x sz;
       bx \<leftarrow> uadd (vx pos) xs;
       ys \<leftarrow> umul y sz;
       by' \<leftarrow> uadd (vy pos) ys;
       row \<leftarrow> get_idx board y;
       alive \<leftarrow> get_idx row x;
       ix \<leftarrow> uadd bx 1;
       iy \<leftarrow> uadd by' 1;
       n \<leftarrow> usub sz 1;
       s \<leftarrow> (if alive then fill_rect wr (Vector2D_new ix iy) (Vector2D_new n n) color s
            else fill_rect wr (Vector2D_new ix iy) (Vector2D_new n n) Color_black s);
       draw_rect_outline wr (Vector2D_new bx by') (Vector2D_new sz sz) Color_white s
     })) s"

section \<open>Shapes\<close>

text \<open>The trait \<^verbatim>\<open>Shape\<close> as the record of its operations, and its implementation for arrays.\<close>

record Shape =
  get_width :: usize
  get_height :: usize
  get_pixel :: "usize \<Rightarrow> usize \<Rightarrow> Color option"

definition array_shape :: "('t \<Rightarrow> Color) \<Rightarrow> usize \<Rightarrow> usize \<Rightarrow> 't list list \<Rightarrow> Shape" where
  "array_shape into w h rows =
     \<lparr>get_width = w, get_height = h,
      get_pixel = (\<lambda>x y. do { row \<leftarrow> get_idx rows y; p \<leftarrow> get_idx row x; Some (into p) })\<rparr>"

definition fill_shape ::
  "(usize \<Rightarrow> usize \<Rightarrow> Color \<Rightarrow> 's \<Rightarrow> 's option) \<Rightarrow> Vector2D \<Rightarrow> Shape \<Rightarrow> 's \<Rightarrow> 's option"
where
  "fill_shape wr pos shape s =
     for_each [0..<get_height shape] (\<lambda>y. for_each [0..<get_width shape] (\<lambda>x s. do {
       px \<leftarrow> uadd (vx pos) x;
       py \<leftarrow> uadd (vy pos) y;
       c \<leftarrow> get_pixel shape x y;
       wr px py c s
     })) s"

datatype MouseCursorPixel = BackGround | Frame | Cursor

fun mouse_pixel_into_color :: "MouseCursorPixel \<Rightarrow> Color" where
  "mouse_pixel_into_color BackGround = Color_new 173 216 230"
| "mouse_pixel_into_color Frame = Color_new 0 0 0"
| "mouse_pixel_into_color Cursor = Color_new 255 255 255"

definition mouse_to :: "code_point \<Rightarrow> MouseCursorPixel option" where
  "mouse_to c = (if c = 32 then Some BackGround else if c = 64 then Some Frame
                 else if c = 46 then Some Cursor else None)"

text \<open>The loop of \<^verbatim>\<open>decode\<close>; \<open>LEN\<close> is the length of \<open>buf\<close>.\<close>

function decode_loop ::
  "code_point list \<Rightarrow> MouseCursorPixel list \<Rightarrow> usize \<Rightarrow> MouseCursorPixel list option" where
  "decode_loop strings buf idx =
     (case get_idx strings idx of None \<Rightarrow> None
      | Some b \<Rightarrow> (case mouse_to b of None \<Rightarrow> None
        | Some p \<Rightarrow> (case set_idx buf idx p of None \<Rightarrow> None
          | Some buf' \<Rightarrow> (if idx + 1 = length buf then Some buf'
                         else decode_loop strings buf' (idx + 1)))))"
  by pat_completeness auto

termination
  by (relation "measure (\<lambda>(strings, buf, idx). length buf - idx)") (auto simp: set_idx_eq_Some)

declare decode_loop.simps [simp del]

definition decode :: "usize \<Rightarrow> code_point list \<Rightarrow> MouseCursorPixel list option" where
  "decode len strings = decode_loop strings (replicate len BackGround) 0"

definition MOUSE_CURSOR_WIDTH :: usize where "MOUSE_CURSOR_WIDTH = 15"
definition MOUSE_CURSOR_HEIGHT :: usize where "MOUSE_CURSOR_HEIGHT = 24"

definition mouse_cursor_strings :: "string list" where
  "mouse_cursor_strings = [
     ''@              '', ''@@             '', ''@.@            '', ''@..@           '',
     ''@...@          '', ''@....@         '', ''@.....@        '', ''@......@       '',
     ''@.......@      '', ''@........@     '', ''@.........@    '', ''@..........@   '',
     ''@...........@  '', ''@............@ '', ''@......@@@@@@@@'', ''@......@       '',
     ''@....@@.@      '', ''@...@ @.@      '', ''@..@   @.@     '', ''@.@    @.@     '',
     ''@@      @.@    '', ''@       @.@    '', ''         @.@   '', ''         @@@   '']"

text \<open>\<^verbatim>\<open>arraify!\<close>: each literal is decoded at its own length.\<close>

definition MOUSE_CURSOR_SHAPE :: "MouseCursorPixel list list option" where
  "MOUSE_CURSOR_SHAPE =
     those (map (\<lambda>s. decode (length s) (map of_char s)) mouse_cursor_strings)"

section \<open>Characters\<close>

text \<open>\<open>font\<close> is the table \<^verbatim>\<open>FONT\<close> that \<^verbatim>\<open>gen_font!\<close> generates: sixteen rows of eight bits each.\<close>

definition write_ascii ::
  "u8 list list \<Rightarrow> (usize \<Rightarrow> usize \<Rightarrow> Color \<Rightarrow> 's \<Rightarrow> 's option) \<Rightarrow> usize \<Rightarrow> usize \<Rightarrow> code_point \<Rightarrow>
   Color \<Rightarrow> Color \<Rightarrow> 's \<Rightarrow> 's option"
where
  "write_ascii font wr x y c bg_color fg_color s =
     (case get_idx font c of
        None \<Rightarrow> Some s
      | Some glyph \<Rightarrow> for_each (enumerate 0 glyph) (\<lambda>(dy, row). for_each [0..<8] (\<lambda>dx s. do {
          px \<leftarrow> uadd x dx;
          py \<leftarrow> uadd y dy;
          (if row AND push_bit (7 - dx) 1 \<noteq> 0 then wr px py fg_color s else wr px py bg_color s)
        })) s)"

definition write_string ::
  "u8 list list \<Rightarrow> (usize \<Rightarrow> usize \<Rightarrow> Color \<Rightarrow> 's \<Rightarrow> 's option) \<Rightarrow> usize \<Rightarrow> usize \<Rightarrow> code_point list \<Rightarrow>
   Color \<Rightarrow> 's \<Rightarrow> 's option"
where
  "write_string font wr x y str color s =
     for_each (enumerate 0 str) (\<lambda>(idx, c) s. do {
       o8 \<leftarrow> umul 8 idx;
       px \<leftarrow> uadd x o8;
       write_ascii font wr px y c Color_black color s
     }) s"

section \<open>The pictures they draw\<close>

definition outline :: "nat \<Rightarrow> nat \<Rightarrow> nat \<Rightarrow> nat \<Rightarrow> Color \<Rightarrow> picture" where
  "outline x0 y0 w h c = (\<lambda>x y.
     if x0 \<le> x \<and> x < x0 + w \<and> y0 \<le> y \<and> y < y0 + h \<and>
        (x = x0 \<or> x + 1 = x0 + w \<or> y = y0 \<or> y + 1 = y0 + h) then Some c else None)"

definition cell :: "nat \<Rightarrow> nat \<Rightarrow> nat \<Rightarrow> Color \<Rightarrow> picture" where
  "cell x0 y0 sz c = over (rect (x0 + 1) (y0 + 1) (sz - 1) (sz - 1) c) (outline x0 y0 sz sz Color_white)"

definition board_picture :: "bool list list \<Rightarrow> nat \<Rightarrow> nat \<Rightarrow> nat \<Rightarrow> Color \<Rightarrow> picture" where
  "board_picture board x0 y0 sz c = (\<lambda>x y.
     let i = (x - x0) div sz; j = (y - y0) div sz in
     if x0 \<le> x \<and> y0 \<le> y \<and> i < length board \<and> j < length board
     then cell (x0 + i * sz) (y0 + j * sz) sz (if board ! j ! i then c else Color_black) x y
     else None)"

definition glyph_picture :: "u8 list \<Rightarrow> nat \<Rightarrow> nat \<Rightarrow> Color \<Rightarrow> Color \<Rightarrow> picture" where
  "glyph_picture glyph x0 y0 bg fg = (\<lambda>x y.
     if x0 \<le> x \<and> x < x0 + 8 \<and> y0 \<le> y \<and> y < y0 + length glyph
     then Some (if bit (glyph ! (y - y0)) (7 - (x - x0)) then fg else bg) else None)"

text \<open>A character without a glyph draws nothing.\<close>

definition char_picture :: "u8 list list \<Rightarrow> code_point \<Rightarrow> nat \<Rightarrow> nat \<Rightarrow> Color \<Rightarrow> Color \<Rightarrow> picture" where
  "char_picture font c x0 y0 bg fg =
     (if c < length font then glyph_picture (font ! c) x0 y0 bg fg else blank)"

definition string_picture :: "u8 list list \<Rightarrow> code_point list \<Rightarrow> nat \<Rightarrow> nat \<Rightarrow> Color \<Rightarrow> picture" where
  "string_picture font str x0 y0 color = (\<lambda>x y.
     let i = (x - x0) div 8 in
     if x0 \<le> x \<and> i < length str
     then char_picture font (str ! i) (x0 + 8 * i) y0 Color_black color x y else None)"

definition glyphs_16 :: "u8 list list \<Rightarrow> bool" where
  "glyphs_16 font \<longleftrightarrow> (\<forall>g \<in> set font. length g = 16)"

definition shape_picture :: "Shape \<Rightarrow> nat \<Rightarrow> nat \<Rightarrow> picture" where
  "shape_picture sh x0 y0 = (\<lambda>x y.
     if x0 \<le> x \<and> x < x0 + get_width sh \<and> y0 \<le> y \<and> y < y0 + get_height sh
     then get_pixel sh (x - x0) (y - y0) else None)"

text \<open>Every drawing routine below needs the coordinates it computes to be representable.\<close>

definition frame_in :: "(nat \<Rightarrow> nat \<Rightarrow> bool) \<Rightarrow> nat \<Rightarrow> nat \<Rightarrow> nat \<Rightarrow> nat \<Rightarrow> bool" where
  "frame_in I x0 y0 w h \<longleftrightarrow> x0 + w < usize_limit \<and> y0 + h < usize_limit \<and>
     (\<forall>x y. x0 \<le> x \<longrightarrow> x < x0 + w \<longrightarrow> y0 \<le> y \<longrightarrow> y < y0 + h \<longrightarrow> I x y)"

lemma frame_in_sub:
  assumes "frame_in I x0 y0 w h" "x0 \<le> x1" "x1 + w' \<le> x0 + w" "y0 \<le> y1" "y1 + h' \<le> y0 + h"
  shows "frame_in I x1 y1 w' h'"
  using assms by (auto simp: frame_in_def)

lemma block_index: "(x0 :: nat) + i * sz \<le> x \<Longrightarrow> x < x0 + i * sz + sz \<Longrightarrow> (x - x0) div sz = i"
  by (rule div_nat_eqI) (auto simp: algebra_simps)

lemma cell_bounds:
  "cell x0 y0 sz c x y = Some d \<Longrightarrow> x0 \<le> x \<and> x < x0 + sz \<and> y0 \<le> y \<and> y < y0 + sz"
  by (auto simp: cell_def over_def rect_def outline_def split: option.splits if_splits)

lemma cell_covers:
  "x0 \<le> x \<Longrightarrow> x < x0 + sz \<Longrightarrow> y0 \<le> y \<Longrightarrow> y < y0 + sz \<Longrightarrow> cell x0 y0 sz c x y \<noteq> None"
  by (auto simp: cell_def over_def rect_def outline_def)

lemma overs_blocks:
  assumes "\<And>i j d. K j i x y = Some d \<Longrightarrow>
      x0 + i * sz \<le> x \<and> x < x0 + i * sz + sz \<and> y0 + j * sz \<le> y \<and> y < y0 + j * sz + sz"
  shows "overs (map (\<lambda>j. overs (map (\<lambda>i. K j i) [0..<n])) [0..<n]) x y =
      (if x0 \<le> x \<and> y0 \<le> y \<and> (x - x0) div sz < n \<and> (y - y0) div sz < n
       then K ((y - y0) div sz) ((x - x0) div sz) x y else None)"
proof -
  let ?row = "\<lambda>j x y. if x0 \<le> x \<and> (x - x0) div sz < n then K j ((x - x0) div sz) x y else None"
  have at: "(x - x0) div sz = i \<and> x0 \<le> x \<and> (y - y0) div sz = j \<and> y0 \<le> y" if "K j i x y = Some d" for i j d
    using assms[OF that] block_index[of x0 i sz x] block_index[of y0 j sz y] by simp
  have row: "overs (map (K j) [0..<n]) x y = ?row j x y" for j
  proof (rule overs_map_eqI[where p = "?row j"])
    fix i c assume "i \<in> set [0..<n]" "K j i x y = Some c"
    with at[of j i c] show "?row j x y = Some c" by auto
  qed (auto split: if_splits)
  show ?thesis
  proof (rule overs_map_eqI[where p = "\<lambda>x y. if x0 \<le> x \<and> y0 \<le> y \<and> (x - x0) div sz < n \<and> (y - y0) div sz < n
       then K ((y - y0) div sz) ((x - x0) div sz) x y else None"])
    fix j c assume "j \<in> set [0..<n]" "overs (map (K j) [0..<n]) x y = Some c"
    with at[of j "(x - x0) div sz" c]
    show "(if x0 \<le> x \<and> y0 \<le> y \<and> (x - x0) div sz < n \<and> (y - y0) div sz < n
       then K ((y - y0) div sz) ((x - x0) div sz) x y else None) = Some c"
      unfolding row by (auto split: if_splits)
  qed (auto simp: row split: if_splits)
qed

lemma overs_cells:
  "overs (map (\<lambda>j. overs (map (\<lambda>i. cell (x0 + i * sz) (y0 + j * sz) sz
             (if board ! j ! i then c else Color_black)) [0..<length board])) [0..<length board]) x y
   = board_picture board x0 y0 sz c x y"
  unfolding board_picture_def Let_def
  by (rule overs_blocks[where K = "\<lambda>j i. cell (x0 + i * sz) (y0 + j * sz) sz
      (if board ! j ! i then c else Color_black)"]) (drule cell_bounds, simp)

lemma overs_grid_dots:
  assumes "\<And>x y. x < w \<Longrightarrow> y < h \<Longrightarrow> col y x = the (p (x0 + x) (y0 + y)) \<and> p (x0 + x) (y0 + y) \<noteq> None"
    and "\<And>x y c. p x y = Some c \<Longrightarrow> x0 \<le> x \<and> x < x0 + w \<and> y0 \<le> y \<and> y < y0 + h"
  shows "overs (map (\<lambda>j. overs (map (\<lambda>i. dot (x0 + i) (y0 + j) (col j i)) [0..<w])) [0..<h]) x y = p x y"
proof -
  let ?row = "\<lambda>j x y. if x0 \<le> x \<and> x < x0 + w \<and> y = y0 + j then Some (col j (x - x0)) else None"
  have row: "overs (map (\<lambda>i. dot (x0 + i) (y0 + j) (col j i)) [0..<w]) x y = ?row j x y" for j
    by (rule overs_map_eqI[where p = "?row j"])
      (auto simp: dot_def intro: bexI[of _ "x - x0"] split: if_splits)
  show ?thesis
  proof (rule overs_map_eqI)
    fix c assume "p x y = Some c"
    with assms(2)[OF this] assms(1)[of "x - x0" "y - y0"]
    show "\<exists>j \<in> set [0..<h]. overs (map (\<lambda>i. dot (x0 + i) (y0 + j) (col j i)) [0..<w]) x y = Some c"
      unfolding row by (intro bexI[of _ "y - y0"]) auto
  next
    fix j c assume "j \<in> set [0..<h]" "overs (map (\<lambda>i. dot (x0 + i) (y0 + j) (col j i)) [0..<w]) x y = Some c"
    with assms(1)[of "x - x0" j] show "p x y = Some c" unfolding row by (auto split: if_splits)
  qed
qed

lemma overs_shape_dots:
  assumes "\<And>x y. x < get_width sh \<Longrightarrow> y < get_height sh \<Longrightarrow> get_pixel sh x y \<noteq> None"
  shows "overs (map (\<lambda>y. overs (map (\<lambda>x. dot (x0 + x) (y0 + y) (the (get_pixel sh x y))) [0..<get_width sh]))
           [0..<get_height sh]) x y = shape_picture sh x0 y0 x y"
  by (rule overs_grid_dots) (use assms in \<open>auto simp: shape_picture_def split: if_splits\<close>)

lemma overs_glyph_dots:
  "overs (map (\<lambda>y. overs (map (\<lambda>x. dot (x0 + x) (y0 + y) (if bit (g ! y) (7 - x) then fg else bg)) [0..<8]))
     [0..<length g]) x y = glyph_picture g x0 y0 bg fg x y"
  by (rule overs_grid_dots) (auto simp: glyph_picture_def split: if_splits)

lemma and_push_bit_1: "(w :: u8) AND push_bit n 1 \<noteq> 0 \<longleftrightarrow> n < 8 \<and> bit w n"
proof -
  have "w AND push_bit n 1 = (if n < 8 \<and> bit w n then push_bit n 1 else 0)"
    by (rule bit_word_eqI) (auto simp: bit_simps)
  then show ?thesis by (auto simp: bit_eq_iff bit_simps intro!: exI[of _ n])
qed

lemma char_picture_bounds:
  "glyphs_16 font \<Longrightarrow> char_picture font c x0 y0 bg fg x y = Some d \<Longrightarrow>
     x0 \<le> x \<and> x < x0 + 8 \<and> y0 \<le> y \<and> y < y0 + 16"
  by (auto simp: char_picture_def glyph_picture_def blank_def glyphs_16_def split: if_splits)

lemma overs_chars:
  assumes "glyphs_16 font"
  shows "overs (map (\<lambda>i. char_picture font (str ! i) (x0 + 8 * i) y0 Color_black color) [0..<length str]) x y
         = string_picture font str x0 y0 color x y"
proof (rule overs_map_eqI)
  fix i c assume i: "i \<in> set [0..<length str]"
    and c: "char_picture font (str ! i) (x0 + 8 * i) y0 Color_black color x y = Some c"
  from char_picture_bounds[OF assms c] have "x0 \<le> x" "(x - x0) div 8 = i"
    using block_index[of x0 i 8 x] by (auto simp: mult.commute)
  with i c show "string_picture font str x0 y0 color x y = Some c" by (simp add: string_picture_def)
qed (auto simp: string_picture_def Let_def split: if_splits)

lemma decode_loop_eq:
  assumes "idx < length buf" "length strings = length buf"
  shows "decode_loop strings buf idx = map_option (\<lambda>ps. take idx buf @ ps) (those (map mouse_to (drop idx strings)))"
  using assms
proof (induction "length buf - idx" arbitrary: idx buf)
  case 0
  then show ?case by simp
next
  case (Suc n)
  note split = Cons_nth_drop_Suc[of idx strings, symmetric]
  show ?case
  proof (cases "mouse_to (strings ! idx)")
    case None
    with Suc.prems split show ?thesis by (subst decode_loop.simps) (simp add: o_def)
  next
    case (Some p)
    let ?buf = "buf[idx := p]"
    have step: "decode_loop strings buf idx =
        (if idx + 1 = length buf then Some ?buf else decode_loop strings ?buf (idx + 1))"
      using Suc.prems Some by (subst decode_loop.simps) simp
    have tk: "take (Suc idx) ?buf = take idx buf @ [p]"
      using Suc.prems by (simp add: take_Suc_conv_app_nth)
    show ?thesis
    proof (cases "idx + 1 = length buf")
      case True
      then have "drop idx strings = [strings ! idx]" using Suc.prems split by simp
      moreover have "?buf = take idx buf @ [p]" using True tk by simp
      ultimately show ?thesis using step True Some by simp
    next
      case False
      then have "decode_loop strings ?buf (idx + 1) =
          map_option (\<lambda>ps. take (idx + 1) ?buf @ ps) (those (map mouse_to (drop (idx + 1) strings)))"
        using Suc.prems Suc.hyps(2) by (intro Suc.hyps(1)) auto
      then show ?thesis using step False Some split tk Suc.prems
        by (simp add: option.map_comp o_def)
    qed
  qed
qed

context pixel_sink
begin

lemma draws_fill_rect:
  assumes "frame_in I (vx pos) (vy pos) (vx sz) (vy sz)"
  shows "draws I (fill_rect wr pos sz c) (rect (vx pos) (vy pos) (vx sz) (vy sz) c)"
proof -
  let ?row = "\<lambda>y. for_each [vx pos..<vx pos + vx sz] (\<lambda>x. wr x y c)"
  have eq: "fill_rect wr pos sz c = for_each [vy pos..<vy pos + vy sz] ?row"
    using assms by (simp add: fill_rect_def frame_in_def fun_eq_iff)
  have "draws I (for_each [vy pos..<vy pos + vy sz] ?row)
      (overs (map (\<lambda>y. overs (map (\<lambda>x. dot x y c) [vx pos..<vx pos + vx sz])) [vy pos..<vy pos + vy sz]))"
    using assms by (intro draws_for_each draws_write) (auto simp: frame_in_def)
  moreover have "overs (map (\<lambda>x. dot x y' c) [vx pos..<vx pos + vx sz]) x y =
      (if vx pos \<le> x \<and> x < vx pos + vx sz \<and> y = y' then Some c else None)" for x y y'
    by (rule overs_map_eqI[where p = "\<lambda>x y. if vx pos \<le> x \<and> x < vx pos + vx sz \<and> y = y' then Some c else None"])
      (auto simp: dot_def split: if_splits)
  ultimately show ?thesis unfolding eq
    by (elim draws_cong) (intro overs_map_eqI, auto simp: rect_def split: if_splits)
qed

lemma draws_eq: "draws I f g \<Longrightarrow> (\<And>s. ok s \<Longrightarrow> inside s = I \<Longrightarrow> h s = f s) \<Longrightarrow> draws I h g"
  by (simp add: draws_def)

lemma draws_outline:
  assumes "frame_in I (vx pos) (vy pos) (vx sz) (vy sz)" "0 < vx sz" "0 < vy sz"
  shows "draws I (draw_rect_outline wr pos sz c) (outline (vx pos) (vy pos) (vx sz) (vy sz) c)"
proof -
  let ?xs = "[vx pos..<vx pos + vx sz]" and ?ys = "[vy pos..<vy pos + vy sz]"
  let ?x = "vx pos + vx sz - 1" and ?y = "vy pos + vy sz - 1"
  let ?h = "overs (map (\<lambda>x. over (dot x (vy pos) c) (dot x ?y c)) ?xs)"
  let ?v = "overs (map (\<lambda>y. over (dot (vx pos) y c) (dot ?x y c)) ?ys)"
  have "draws I (\<lambda>s. for_each ?xs (\<lambda>x s. wr x (vy pos) c s \<bind> wr x ?y c) s \<bind>
      for_each ?ys (\<lambda>y s. wr (vx pos) y c s \<bind> wr ?x y c)) (over ?h ?v)"
    using assms by (intro draws_seq draws_for_each draws_write) (auto simp: frame_in_def)
  moreover have "?h x y = (if vx pos \<le> x \<and> x < vx pos + vx sz \<and> (y = vy pos \<or> y = ?y) then Some c else None)"
    for x y
    by (rule overs_map_eqI[where p = "\<lambda>x y. if vx pos \<le> x \<and> x < vx pos + vx sz \<and> (y = vy pos \<or> y = ?y) then Some c else None"])
      (auto simp: dot_def over_def split: if_splits)
  moreover have "?v x y = (if vy pos \<le> y \<and> y < vy pos + vy sz \<and> (x = vx pos \<or> x = ?x) then Some c else None)"
    for x y
    by (rule overs_map_eqI[where p = "\<lambda>x y. if vy pos \<le> y \<and> y < vy pos + vy sz \<and> (x = vx pos \<or> x = ?x) then Some c else None"])
      (auto simp: dot_def over_def split: if_splits)
  ultimately have "draws I (\<lambda>s. for_each ?xs (\<lambda>x s. wr x (vy pos) c s \<bind> wr x ?y c) s \<bind>
      for_each ?ys (\<lambda>y s. wr (vx pos) y c s \<bind> wr ?x y c)) (outline (vx pos) (vy pos) (vx sz) (vy sz) c)"
    using assms(2,3) by (elim draws_cong) (auto simp: over_def outline_def)
  then show ?thesis
    by (rule draws_eq) (use assms in \<open>simp add: draw_rect_outline_def frame_in_def\<close>)
qed

lemma draws_cell:
  assumes "frame_in I x y sz sz" "0 < sz"
  shows "draws I (\<lambda>s. do {
       s \<leftarrow> fill_rect wr (Vector2D_new (x + 1) (y + 1)) (Vector2D_new (sz - 1) (sz - 1)) c s;
       draw_rect_outline wr (Vector2D_new x y) (Vector2D_new sz sz) Color_white s }) (cell x y sz c)"
proof -
  have "frame_in I (x + 1) (y + 1) (sz - 1) (sz - 1)"
    using assms(1) by (rule frame_in_sub) (use assms(2) in auto)
  then have "draws I (fill_rect wr (Vector2D_new (x + 1) (y + 1)) (Vector2D_new (sz - 1) (sz - 1)) c)
      (rect (x + 1) (y + 1) (sz - 1) (sz - 1) c)"
    using draws_fill_rect[of I "Vector2D_new (x + 1) (y + 1)" "Vector2D_new (sz - 1) (sz - 1)"]
    by (simp add: Vector2D_new_def)
  moreover have "draws I (draw_rect_outline wr (Vector2D_new x y) (Vector2D_new sz sz) Color_white)
      (outline x y sz sz Color_white)"
    using draws_outline[of I "Vector2D_new x y" "Vector2D_new sz sz"] assms by (simp add: Vector2D_new_def)
  ultimately show ?thesis unfolding cell_def by (rule draws_seq)
qed

lemma draws_board:
  assumes "frame_in I (vx pos) (vy pos) (length board * sz) (length board * sz)" "0 < sz"
    and "\<forall>row \<in> set board. length row = length board"
  shows "draws I (render_board wr board pos sz c) (board_picture board (vx pos) (vy pos) sz c)"
proof -
  let ?n = "length board"
  let ?cell = "\<lambda>j i. cell (vx pos + i * sz) (vy pos + j * sz) sz (if board ! j ! i then c else Color_black)"
  let ?body = "\<lambda>y x s. do {
       s \<leftarrow> fill_rect wr (Vector2D_new (vx pos + x * sz + 1) (vy pos + y * sz + 1)) (Vector2D_new (sz - 1) (sz - 1))
            (if board ! y ! x then c else Color_black) s;
       draw_rect_outline wr (Vector2D_new (vx pos + x * sz) (vy pos + y * sz)) (Vector2D_new sz sz) Color_white s }"
  have fit: "x * sz + sz \<le> ?n * sz" if "x < ?n" for x
    using mult_le_mono1[of "Suc x" ?n sz] that by simp
  have sub: "frame_in I (vx pos + x * sz) (vy pos + y * sz) sz sz" if "x < ?n" "y < ?n" for x y
    using assms(1) by (rule frame_in_sub) (use fit[of x] fit[of y] that in auto)
  have lim: "uadd (vx pos) (x * sz) = Some (vx pos + x * sz)" "umul x sz = Some (x * sz)"
    "uadd (vy pos) (x * sz) = Some (vy pos + x * sz)"
    "uadd (vx pos + x * sz) 1 = Some (vx pos + x * sz + 1)"
    "uadd (vy pos + x * sz) 1 = Some (vy pos + x * sz + 1)" if "x < ?n" for x
    using fit[OF that] assms(1,2) by (auto simp: frame_in_def)
  have "draws I (for_each [0..<?n] (\<lambda>y. for_each [0..<?n] (?body y)))
      (overs (map (\<lambda>j. overs (map (?cell j) [0..<?n])) [0..<?n]))"
    using sub assms(2) by (intro draws_for_each draws_cell) auto
  then have "draws I (for_each [0..<?n] (\<lambda>y. for_each [0..<?n] (?body y)))
      (board_picture board (vx pos) (vy pos) sz c)"
    by (rule draws_cong) (rule overs_cells)
  moreover have "render_board wr board pos sz c s = for_each [0..<?n] (\<lambda>y. for_each [0..<?n] (?body y)) s" for s
    unfolding render_board_def
    by (intro for_each_cong refl) (use assms(2,3) in \<open>simp add: lim lim[unfolded One_nat_def]\<close>)
  ultimately show ?thesis by (blast intro: draws_eq)
qed

lemma draws_shape:
  assumes "frame_in I (vx pos) (vy pos) (get_width sh) (get_height sh)"
    and "\<And>x y. x < get_width sh \<Longrightarrow> y < get_height sh \<Longrightarrow> get_pixel sh x y \<noteq> None"
  shows "draws I (fill_shape wr pos sh) (shape_picture sh (vx pos) (vy pos))"
proof -
  let ?body = "\<lambda>y x. wr (vx pos + x) (vy pos + y) (the (get_pixel sh x y))"
  let ?dot = "\<lambda>y x. dot (vx pos + x) (vy pos + y) (the (get_pixel sh x y))"
  have "draws I (for_each [0..<get_height sh] (\<lambda>y. for_each [0..<get_width sh] (?body y)))
      (overs (map (\<lambda>y. overs (map (?dot y) [0..<get_width sh])) [0..<get_height sh]))"
    using assms(1) by (intro draws_for_each draws_write) (auto simp: frame_in_def)
  then have "draws I (for_each [0..<get_height sh] (\<lambda>y. for_each [0..<get_width sh] (?body y)))
      (shape_picture sh (vx pos) (vy pos))"
    by (rule draws_cong) (rule overs_shape_dots[OF assms(2)])
  moreover have "fill_shape wr pos sh s =
      for_each [0..<get_height sh] (\<lambda>y. for_each [0..<get_width sh] (?body y)) s" for s
    unfolding fill_shape_def
  proof (intro for_each_cong refl)
    fix y x t assume "y \<in> set [0..<get_height sh]" "x \<in> set [0..<get_width sh]"
    with assms obtain c where "get_pixel sh x y = Some c" "vx pos + x < usize_limit" "vy pos + y < usize_limit"
      by (fastforce simp: frame_in_def)
    then show "do { px \<leftarrow> uadd (vx pos) x; py \<leftarrow> uadd (vy pos) y; c \<leftarrow> get_pixel sh x y; wr px py c t } =
        ?body y x t"
      by simp
  qed
  ultimately show ?thesis by (blast intro: draws_eq)
qed

lemma draws_ascii:
  assumes "c < length font" "frame_in I x0 y0 8 (length (font ! c))"
  shows "draws I (write_ascii font wr x0 y0 c bg fg) (glyph_picture (font ! c) x0 y0 bg fg)"
proof -
  let ?g = "font ! c"
  let ?col = "\<lambda>y x. if bit (?g ! y) (7 - x) then fg else bg"
  have rows: "enumerate 0 ?g = map (\<lambda>y. (y, ?g ! y)) [0..<length ?g]"
    by (rule nth_equalityI) (auto simp: nth_enumerate_eq)
  have "draws I (for_each [0..<length ?g] (\<lambda>y. for_each [0..<8] (\<lambda>x. wr (x0 + x) (y0 + y) (?col y x))))
      (overs (map (\<lambda>y. overs (map (\<lambda>x. dot (x0 + x) (y0 + y) (?col y x)) [0..<8])) [0..<length ?g]))"
    using assms(2) by (intro draws_for_each draws_write) (auto simp: frame_in_def)
  then have "draws I (for_each [0..<length ?g] (\<lambda>y. for_each [0..<8] (\<lambda>x. wr (x0 + x) (y0 + y) (?col y x))))
      (glyph_picture ?g x0 y0 bg fg)"
    by (rule draws_cong) (rule overs_glyph_dots)
  moreover have "write_ascii font wr x0 y0 c bg fg s =
      for_each [0..<length ?g] (\<lambda>y. for_each [0..<8] (\<lambda>x. wr (x0 + x) (y0 + y) (?col y x))) s" for s
    using assms unfolding write_ascii_def
    by (auto simp: rows for_each_map frame_in_def and_push_bit_1[simplified] intro!: for_each_cong)
  ultimately show ?thesis by (blast intro: draws_eq)
qed

lemma draws_char:
  assumes "glyphs_16 font" "frame_in I x0 y0 8 16"
  shows "draws I (write_ascii font wr x0 y0 c bg fg) (char_picture font c x0 y0 bg fg)"
proof (cases "c < length font")
  case True
  then have "length (font ! c) = 16" using assms(1) by (simp add: glyphs_16_def)
  with True assms(2) draws_ascii show ?thesis by (simp add: char_picture_def)
next
  case False
  have "draws I Some blank" by (rule draws_skip)
  then show ?thesis using False by (simp add: char_picture_def write_ascii_def draws_def)
qed

lemma draws_string:
  assumes "glyphs_16 font" "frame_in I x0 y0 (8 * length str) 16"
  shows "draws I (write_string font wr x0 y0 str color) (string_picture font str x0 y0 color)"
proof -
  let ?n = "length str"
  let ?f = "\<lambda>i. write_ascii font wr (x0 + 8 * i) y0 (str ! i) Color_black color"
  have chars: "enumerate 0 str = map (\<lambda>i. (i, str ! i)) [0..<?n]"
    by (rule nth_equalityI) (auto simp: nth_enumerate_eq)
  have fits: "frame_in I (x0 + 8 * i) y0 8 16" if "i < ?n" for i
    using assms(2) by (rule frame_in_sub) (use that in auto)
  then have "draws I (for_each [0..<?n] ?f)
      (overs (map (\<lambda>i. char_picture font (str ! i) (x0 + 8 * i) y0 Color_black color) [0..<?n]))"
    using assms(1) by (intro draws_for_each draws_char) auto
  then have "draws I (for_each [0..<?n] ?f) (string_picture font str x0 y0 color)"
    by (rule draws_cong) (rule overs_chars[OF assms(1)])
  moreover have "write_string font wr x0 y0 str color s = for_each [0..<?n] ?f s" for s
    unfolding write_string_def chars for_each_map
    by (intro for_each_cong refl) (use assms(2) in \<open>simp add: frame_in_def\<close>)
  ultimately show ?thesis by (blast intro: draws_eq)
qed

end

section \<open>Properties\<close>

text \<open>Decoding a string of the array's length yields exactly the pixels its characters stand
  for, one after the other, and fails when any character is not one of the three; the loop
  always ends.\<close>

theorem decode_pixels:
  assumes "length strings = len" "0 < len"
  shows "decode len strings = those (map mouse_to strings)"
  using decode_loop_eq[of 0 "replicate len BackGround" strings] assms
  by (simp add: decode_def option.map_ident)

theorem decode_pixels_witness:
  "decode 4 [64, 46, 64, 32] = those (map mouse_to [64, 46, 64, 32])"
  by (rule decode_pixels) simp_all

lemma mouse_cursor_pixels:
  "\<exists>rows. MOUSE_CURSOR_SHAPE = Some rows \<and> length rows = MOUSE_CURSOR_HEIGHT \<and>
     (\<forall>y < MOUSE_CURSOR_HEIGHT. \<forall>x < MOUSE_CURSOR_WIDTH. get_pixel (array_shape mouse_pixel_into_color
        MOUSE_CURSOR_WIDTH MOUSE_CURSOR_HEIGHT rows) x y \<noteq> None)"
proof -
  have "MOUSE_CURSOR_SHAPE \<noteq> None" by code_simp
  then obtain rows where rows: "MOUSE_CURSOR_SHAPE = Some rows" by blast
  have "list_all (\<lambda>r. length r = 15) (the MOUSE_CURSOR_SHAPE) \<and> length (the MOUSE_CURSOR_SHAPE) = 24"
    by code_simp
  then have "list_all (\<lambda>r. length r = 15) rows \<and> length rows = 24" unfolding rows by simp
  then have "length rows = 24" "\<And>y. y < 24 \<Longrightarrow> length (rows ! y) = 15"
    by (auto simp: list_all_length)
  with rows show ?thesis
    by (auto simp: array_shape_def MOUSE_CURSOR_WIDTH_def MOUSE_CURSOR_HEIGHT_def list_all_length)
qed


text \<open>The mouse cursor's picture decodes without failure into a shape of exactly 15 by 24 pixels,
  and every pixel of that shape can be read.\<close>

theorem mouse_cursor_shape_total:
  "\<exists>rows. MOUSE_CURSOR_SHAPE = Some rows \<and> length rows = MOUSE_CURSOR_HEIGHT \<and>
     list_all (\<lambda>y. list_all (\<lambda>x. get_pixel (array_shape mouse_pixel_into_color MOUSE_CURSOR_WIDTH
       MOUSE_CURSOR_HEIGHT rows) x y \<noteq> None) [0..<MOUSE_CURSOR_WIDTH]) [0..<MOUSE_CURSOR_HEIGHT]"
  using mouse_cursor_pixels by (auto simp: list_all_length)

end
