(* ===== verification/Frame_Buffer.thy ===== *)
theory Frame_Buffer
  imports Render
begin

text \<open>
  The frame buffer writer of \<^verbatim>\<open>kernel/src/graphics.rs\<close>. The memory is a map from addresses to
  bytes: the writer computes addresses and writes through them unchecked, so what it writes
  outside the frame buffer is visible in the model. The marker type of
  \<^verbatim>\<open>PixcelWriter<T>\<close> is a component of the record.
\<close>

type_synonym memory = "usize \<Rightarrow> u8"

record PixcelWriter =
  pw_frame_buffer_base :: usize
  pw_pixcels_per_scan_line :: usize
  pw_horizontal_resolution :: usize
  pw_vertical_resolution :: usize
  pw_pixcel_format :: PixcelFormat

definition new_raw :: "PixcelFormat \<Rightarrow> usize \<Rightarrow> usize \<Rightarrow> usize \<Rightarrow> usize \<Rightarrow> PixcelWriter" where
  "new_raw f base ppsl hres vres =
     \<lparr>pw_frame_buffer_base = base, pw_pixcels_per_scan_line = ppsl, pw_horizontal_resolution = hres,
      pw_vertical_resolution = vres, pw_pixcel_format = f\<rparr>"

definition write_pixcel_at_offset_rgb :: "PixcelWriter \<Rightarrow> usize \<Rightarrow> Color \<Rightarrow> memory \<Rightarrow> memory option" where
  "write_pixcel_at_offset_rgb w offset color mem = do {
     offset4 \<leftarrow> umul offset 4;
     let mem1 = mem(pw_frame_buffer_base w + offset4 := col_r color);
     o1 \<leftarrow> uadd offset4 1;
     let mem2 = mem1(pw_frame_buffer_base w + o1 := col_g color);
     o2 \<leftarrow> uadd offset4 2;
     Some (mem2(pw_frame_buffer_base w + o2 := col_b color))
   }"

definition write_pixcel_at_offset_bgr :: "PixcelWriter \<Rightarrow> usize \<Rightarrow> Color \<Rightarrow> memory \<Rightarrow> memory option" where
  "write_pixcel_at_offset_bgr w offset color mem = do {
     offset4 \<leftarrow> umul offset 4;
     let mem1 = mem(pw_frame_buffer_base w + offset4 := col_b color);
     o1 \<leftarrow> uadd offset4 1;
     let mem2 = mem1(pw_frame_buffer_base w + o1 := col_g color);
     o2 \<leftarrow> uadd offset4 2;
     Some (mem2(pw_frame_buffer_base w + o2 := col_r color))
   }"

definition get_offset :: "PixcelWriter \<Rightarrow> usize \<Rightarrow> usize \<Rightarrow> usize option" where
  "get_offset w x y = do { r \<leftarrow> umul y (pw_pixcels_per_scan_line w); uadd r x }"

definition pixcel_write :: "PixcelWriter \<Rightarrow> usize \<Rightarrow> usize \<Rightarrow> Color \<Rightarrow> memory \<Rightarrow> memory option" where
  "pixcel_write w x y color mem = do {
     offset \<leftarrow> get_offset w x y;
     (case pw_pixcel_format w of
        Rgb \<Rightarrow> write_pixcel_at_offset_rgb w offset color mem
      | Bgr \<Rightarrow> write_pixcel_at_offset_bgr w offset color mem)
   }"

definition get_num_pixcels :: "PixcelWriter \<Rightarrow> usize option" where
  "get_num_pixcels w = umul (pw_pixcels_per_scan_line w) (pw_vertical_resolution w)"

definition get_writer :: "GraphicsInfo \<Rightarrow> PixcelWriter" where
  "get_writer g =
     (case gi_pixcel_format g of
        Rgb \<Rightarrow> new_raw Rgb (gi_frame_buffer_base g) (gi_pixels_per_scan_line g)
                 (gi_horizontal_resolution g) (gi_vertical_resolution g)
      | Bgr \<Rightarrow> new_raw Bgr (gi_frame_buffer_base g) (gi_pixels_per_scan_line g)
                 (gi_horizontal_resolution g) (gi_vertical_resolution g))"

text \<open>The loop at the start of \<^verbatim>\<open>init_graphics\<close>.\<close>

definition clear_screen :: "GraphicsInfo \<Rightarrow> memory \<Rightarrow> memory option" where
  "clear_screen g mem =
     for_each [0..<gi_vertical_resolution g] (\<lambda>y. for_each [0..<gi_horizontal_resolution g] (\<lambda>x mem. do {
       r \<leftarrow> umul y (gi_pixels_per_scan_line g);
       offset \<leftarrow> uadd r x;
       o0 \<leftarrow> umul offset 4;
       o1 \<leftarrow> uadd o0 1;
       o2 \<leftarrow> uadd o0 2;
       Some (mem(gi_frame_buffer_base g + o0 := 0, gi_frame_buffer_base g + o1 := 0,
                 gi_frame_buffer_base g + o2 := 0))
     })) mem"

section \<open>The frame buffer as a drawing area\<close>

definition pixcel_addr :: "PixcelWriter \<Rightarrow> nat \<Rightarrow> nat \<Rightarrow> nat" where
  "pixcel_addr w x y = pw_frame_buffer_base w + (y * pw_pixcels_per_scan_line w + x) * 4"

definition pixcel_read :: "PixcelWriter \<Rightarrow> memory \<Rightarrow> nat \<Rightarrow> nat \<Rightarrow> Color" where
  "pixcel_read w mem x y = (let a = pixcel_addr w x y in
     pixel_color (pw_pixcel_format w) (mem a) (mem (a + 1)) (mem (a + 2)))"

definition pixcel_inside :: "PixcelWriter \<Rightarrow> nat \<Rightarrow> nat \<Rightarrow> bool" where
  "pixcel_inside w x y \<longleftrightarrow> x < pw_pixcels_per_scan_line w \<and> y < pw_vertical_resolution w"

text \<open>The bytes of the frame buffer, and the writers that describe one that fits the address space.\<close>

definition in_frame_buffer :: "PixcelWriter \<Rightarrow> nat \<Rightarrow> bool" where
  "in_frame_buffer w a \<longleftrightarrow> pw_frame_buffer_base w \<le> a \<and>
     a < pw_frame_buffer_base w + 4 * (pw_pixcels_per_scan_line w * pw_vertical_resolution w)"

definition pixcel_wf :: "PixcelWriter \<Rightarrow> bool" where
  "pixcel_wf w \<longleftrightarrow> pw_frame_buffer_base w + 4 * (pw_pixcels_per_scan_line w * pw_vertical_resolution w) < usize_limit \<and>
     pw_horizontal_resolution w \<le> pw_pixcels_per_scan_line w \<and>
     pw_pixcels_per_scan_line w < usize_limit \<and> pw_vertical_resolution w < usize_limit"

text \<open>The invariant of drawing: the memory outside the frame buffer is what it was at the start.\<close>

definition fb_ok :: "PixcelWriter \<Rightarrow> memory \<Rightarrow> memory \<Rightarrow> bool" where
  "fb_ok w mem0 mem \<longleftrightarrow> pixcel_wf w \<and> (\<forall>a. \<not> in_frame_buffer w a \<longrightarrow> mem a = mem0 a)"

lemma row_major_less: "(x :: nat) < p \<Longrightarrow> y < v \<Longrightarrow> y * p + x < p * v"
  by (metis Suc_leI add.commute less_le_trans mult.commute mult_Suc_right mult_le_mono2 nat_add_left_cancel_less)

lemma row_major_inj: "(x :: nat) < p \<Longrightarrow> x' < p \<Longrightarrow> y * p + x = y' * p + x' \<longleftrightarrow> x = x' \<and> y = y'"
  by (metis add.commute div_mult_self3 div_less mod_less mod_mult_self2 add_0 mult.commute not_less_zero)

lemma pixcel_write_eq:
  assumes "pixcel_wf w" "pixcel_inside w x y"
  shows "pixcel_write w x y c mem = Some (mem(pixcel_addr w x y := pixel (pw_pixcel_format w) c ! 0,
           pixcel_addr w x y + 1 := pixel (pw_pixcel_format w) c ! 1,
           pixcel_addr w x y + 2 := pixel (pw_pixcel_format w) c ! 2))"
proof -
  have "y * pw_pixcels_per_scan_line w + x < pw_pixcels_per_scan_line w * pw_vertical_resolution w"
    using assms(2) row_major_less by (simp add: pixcel_inside_def)
  then have "(y * pw_pixcels_per_scan_line w + x) * 4 + 2 < usize_limit"
    using assms(1) by (simp add: pixcel_wf_def)
  then show ?thesis
    by (cases "pw_pixcel_format w")
      (simp_all add: pixcel_write_def get_offset_def write_pixcel_at_offset_rgb_def
        write_pixcel_at_offset_bgr_def pixcel_addr_def add.assoc)
qed

lemma pixcel_addr_in:
  assumes "pixcel_inside w x y" "k < 4"
  shows "in_frame_buffer w (pixcel_addr w x y + k)"
  using row_major_less[of x "pw_pixcels_per_scan_line w" y "pw_vertical_resolution w"] assms
  by (simp add: pixcel_inside_def in_frame_buffer_def pixcel_addr_def)

lemma pixcel_addr_separate:
  assumes "pixcel_inside w x y" "pixcel_inside w x' y'" "k < 4" "k' < 4"
  shows "pixcel_addr w x y + k = pixcel_addr w x' y' + k' \<longleftrightarrow> x = x' \<and> y = y' \<and> k = k'"
proof -
  let ?p = "pw_pixcels_per_scan_line w"
  have "pixcel_addr w x y + k = pixcel_addr w x' y' + k' \<longleftrightarrow> (y * ?p + x = y' * ?p + x') \<and> k = k'"
    using assms(3,4) by (auto simp: pixcel_addr_def) presburger+
  then show ?thesis
    using assms(1,2) row_major_inj[of x ?p x' y y'] by (auto simp: pixcel_inside_def)
qed

interpretation fb: pixel_sink "pixcel_write w" "pixcel_read w" "\<lambda>_. pixcel_inside w" "fb_ok w mem0" for w mem0
proof
  fix s x y c assume "fb_ok w mem0 s" "pixcel_inside w x y"
  then show "\<exists>s'. pixcel_write w x y c s = Some s'" by (simp add: fb_ok_def pixcel_write_eq)
next
  fix s s' x y c
  assume ok: "fb_ok w mem0 s" "pixcel_inside w x y" and wr: "pixcel_write w x y c s = Some s'"
  have "\<not> in_frame_buffer w a \<Longrightarrow> a \<noteq> pixcel_addr w x y + k" if "k < 4" for a k
    using pixcel_addr_in[OF ok(2) that] by blast
  from this[of 0] this[of 1] this[of 2] ok wr
  show "fb_ok w mem0 s' \<and> pixcel_inside w = pixcel_inside w"
    by (auto simp: fb_ok_def pixcel_write_eq)
next
  fix s s' x y c x' y'
  assume ok: "fb_ok w mem0 s" "pixcel_inside w x y" and wr: "pixcel_write w x y c s = Some s'"
    and in': "pixcel_inside w x' y'"
  note sep = pixcel_addr_separate[OF in' ok(2)]
  from sep[of 0 0] sep[of 0 1] sep[of 0 2] sep[of 1 0] sep[of 1 1] sep[of 1 2] sep[of 2 0] sep[of 2 1] sep[of 2 2]
  show "pixcel_read w s' x' y' = (if x' = x \<and> y' = y then c else pixcel_read w s x' y')"
    using ok wr pixel_color_pixel[of "pw_pixcel_format w" c]
    by (auto simp: fb_ok_def pixcel_write_eq pixcel_read_def Let_def)
qed

text \<open>What every routine that draws does to the memory.\<close>

lemma fb_draw:
  assumes "\<And>mem0. fb.draws w mem0 (pixcel_inside w) f g" "pixcel_wf w"
  shows "\<exists>mem'. f mem = Some mem' \<and>
           (\<forall>x y. pixcel_inside w x y \<longrightarrow>
              pixcel_read w mem' x y = (case g x y of None \<Rightarrow> pixcel_read w mem x y | Some c \<Rightarrow> c)) \<and>
           (\<forall>a. \<not> in_frame_buffer w a \<longrightarrow> mem' a = mem a)"
proof -
  have "fb_ok w mem mem" using assms(2) by (simp add: fb_ok_def)
  with assms(1)[of mem] obtain mem' where "f mem = Some mem'" "fb_ok w mem mem'"
    "\<And>x y. pixcel_inside w x y \<Longrightarrow>
       pixcel_read w mem' x y = (case g x y of None \<Rightarrow> pixcel_read w mem x y | Some c \<Rightarrow> c)"
    using fb.drawsE[of w mem "pixcel_inside w" f g mem] by auto
  then show ?thesis by (auto simp: fb_ok_def)
qed

lemma frame_in_screen:
  assumes "pixcel_wf w" "x0 + dx \<le> pw_pixcels_per_scan_line w" "y0 + dy \<le> pw_vertical_resolution w"
  shows "frame_in (pixcel_inside w) x0 y0 dx dy"
  using assms by (auto simp: frame_in_def pixcel_inside_def pixcel_wf_def)

lemma draws_clear_screen:
  assumes "pixcel_wf (get_writer g)"
  shows "fb.draws (get_writer g) mem0 (pixcel_inside (get_writer g)) (clear_screen g)
           (rect 0 0 (gi_horizontal_resolution g) (gi_vertical_resolution g) Color_black)"
proof -
  let ?w = "get_writer g" and ?h = "gi_horizontal_resolution g" and ?v = "gi_vertical_resolution g"
  have sel: "pw_frame_buffer_base ?w = gi_frame_buffer_base g" "pw_horizontal_resolution ?w = ?h"
    "pw_pixcels_per_scan_line ?w = gi_pixels_per_scan_line g" "pw_vertical_resolution ?w = ?v"
    by (cases "gi_pixcel_format g"; simp add: get_writer_def new_raw_def)+
  have blk: "pixel (pw_pixcel_format ?w) Color_black = [0, 0, 0, 0xff]"
    by (cases "pw_pixcel_format ?w") (simp_all add: Color_black_def)
  have fits: "frame_in (pixcel_inside ?w) 0 0 ?h ?v"
    using assms by (intro frame_in_screen) (auto simp: pixcel_wf_def sel)
  have ins: "pixcel_inside ?w x y" if "x < ?h" "y < ?v" for x y
    using fits that by (simp add: frame_in_def)
  have body: "do { r \<leftarrow> umul y (gi_pixels_per_scan_line g); offset \<leftarrow> uadd r x; o0 \<leftarrow> umul offset 4;
       o1 \<leftarrow> uadd o0 1; o2 \<leftarrow> uadd o0 2;
       Some (mem(gi_frame_buffer_base g + o0 := 0, gi_frame_buffer_base g + o1 := 0,
                 gi_frame_buffer_base g + o2 := 0)) } = pixcel_write ?w x y Color_black mem"
    if "x < ?h" "y < ?v" for x y mem
  proof -
    have "y * gi_pixels_per_scan_line g + x < gi_pixels_per_scan_line g * ?v"
      using row_major_less[of x "gi_pixels_per_scan_line g" y ?v] ins[OF that] by (simp add: pixcel_inside_def sel)
    then have "(y * gi_pixels_per_scan_line g + x) * 4 + 2 < usize_limit"
      using assms by (simp add: pixcel_wf_def sel)
    then show ?thesis
      by (simp add: pixcel_write_eq[OF assms ins[OF that]] blk pixcel_addr_def sel add.assoc)
  qed
  have "?h < usize_limit" "?v < usize_limit" using assms by (auto simp: pixcel_wf_def sel)
  then have "clear_screen g mem =
      fill_rect (pixcel_write ?w) (Vector2D_new 0 0) (Vector2D_new ?h ?v) Color_black mem" for mem
    unfolding clear_screen_def fill_rect_def Vector2D_new_def
    by (simp del: One_nat_def, intro for_each_cong refl) (rule body; simp)
  then show ?thesis
    using fb.draws_eq[OF fb.draws_fill_rect[where pos = "Vector2D_new 0 0" and sz = "Vector2D_new ?h ?v"]] fits
    by (simp add: Vector2D_new_def)
qed

section \<open>Properties\<close>

definition example_screen :: PixcelWriter where
  "example_screen = new_raw Bgr 4096 40 32 20"

lemma example_screen_wf: "pixcel_wf example_screen"
  by (simp add: example_screen_def new_raw_def pixcel_wf_def)

lemma example_screen_sel [simp]:
  "pw_pixcels_per_scan_line example_screen = 40" "pw_vertical_resolution example_screen = 20"
  by (simp_all add: example_screen_def new_raw_def)

text \<open>Filling a rectangle that fits the frame buffer never panics; afterwards the pixels of the
  rectangle have the colour, every other pixel is unchanged, and no byte outside the frame
  buffer has been written.\<close>

theorem fill_rect_on_screen:
  assumes "pixcel_wf w" "vx pos + vx sz \<le> pw_pixcels_per_scan_line w"
    and "vy pos + vy sz \<le> pw_vertical_resolution w"
  shows "\<exists>mem'. fill_rect (pixcel_write w) pos sz c mem = Some mem' \<and>
           (\<forall>x y. pixcel_inside w x y \<longrightarrow> pixcel_read w mem' x y =
              (if vx pos \<le> x \<and> x < vx pos + vx sz \<and> vy pos \<le> y \<and> y < vy pos + vy sz
               then c else pixcel_read w mem x y)) \<and>
           (\<forall>a. \<not> in_frame_buffer w a \<longrightarrow> mem' a = mem a)"
proof -
  have "fb.draws w mem0 (pixcel_inside w) (fill_rect (pixcel_write w) pos sz c)
      (rect (vx pos) (vy pos) (vx sz) (vy sz) c)" for mem0
    using assms by (intro fb.draws_fill_rect frame_in_screen)
  from fb_draw[OF this assms(1), of mem] show ?thesis
    by (auto simp: rect_def cong: if_cong split: if_splits)
qed

theorem fill_rect_on_screen_witness:
  "\<exists>mem'. fill_rect (pixcel_write example_screen) \<lparr>vx = 2, vy = 3\<rparr> \<lparr>vx = 5, vy = 4\<rparr> Color_green (\<lambda>_. 0) = Some mem' \<and>
     pixcel_read example_screen mem' 6 6 = Color_green \<and> pixcel_read example_screen mem' 7 6 = Color_black \<and>
     mem' 0 = 0"
proof -
  have "pixcel_inside example_screen 6 6" "pixcel_inside example_screen 7 6"
    "pixcel_read example_screen (\<lambda>_. 0) 7 6 = Color_black" "\<not> in_frame_buffer example_screen 0"
    by (simp_all add: pixcel_inside_def pixcel_read_def example_screen_def new_raw_def Color_black_def
        in_frame_buffer_def)
  with fill_rect_on_screen[OF example_screen_wf, of "\<lparr>vx = 2, vy = 3\<rparr>" "\<lparr>vx = 5, vy = 4\<rparr>" Color_green "\<lambda>_. 0"]
  show ?thesis by force
qed

text \<open>Rendering a square board of cells (the game of life) that fits the frame buffer never panics
  and draws exactly the grid: each cell is a white frame around the cell's colour when the cell is alive
  and around black when it is dead; nothing else changes.\<close>

theorem render_board_on_screen:
  assumes "pixcel_wf w" "0 < sz" "\<forall>row \<in> set board. length row = length board"
    and "vx pos + length board * sz \<le> pw_pixcels_per_scan_line w"
    and "vy pos + length board * sz \<le> pw_vertical_resolution w"
  shows "\<exists>mem'. render_board (pixcel_write w) board pos sz c mem = Some mem' \<and>
           (\<forall>x y. pixcel_inside w x y \<longrightarrow> pixcel_read w mem' x y =
              (case board_picture board (vx pos) (vy pos) sz c x y of
                 None \<Rightarrow> pixcel_read w mem x y | Some c \<Rightarrow> c)) \<and>
           (\<forall>a. \<not> in_frame_buffer w a \<longrightarrow> mem' a = mem a)"
proof (rule fb_draw)
  show "fb.draws w mem0 (pixcel_inside w) (render_board (pixcel_write w) board pos sz c)
      (board_picture board (vx pos) (vy pos) sz c)" for mem0
    using assms by (intro fb.draws_board frame_in_screen)
qed (rule assms(1))

theorem render_board_on_screen_witness:
  "\<exists>mem'. render_board (pixcel_write example_screen) [[True, False], [False, True]] \<lparr>vx = 1, vy = 0\<rparr> 4
       Color_green (\<lambda>_. 0) = Some mem' \<and>
     pixcel_read example_screen mem' 6 6 = Color_green \<and> pixcel_read example_screen mem' 5 1 = Color_white"
proof -
  have "pixcel_inside example_screen 6 6" "pixcel_inside example_screen 5 1"
    "board_picture [[True, False], [False, True]] 1 0 4 Color_green 6 6 = Some Color_green"
    "board_picture [[True, False], [False, True]] 1 0 4 Color_green 5 1 = Some Color_white"
    by (simp_all add: pixcel_inside_def board_picture_def cell_def over_def rect_def outline_def)
  with render_board_on_screen[OF example_screen_wf, of 4 "[[True, False], [False, True]]"
      "\<lparr>vx = 1, vy = 0\<rparr>" Color_green "\<lambda>_. 0"]
  show ?thesis by force
qed

text \<open>Writing a string whose cells fit the frame buffer never panics and shows, in the eight by sixteen
  pixels of each of its characters, exactly the bits of the character's glyph.\<close>

theorem write_string_on_screen:
  assumes "pixcel_wf w" "glyphs_16 font" "x0 + 8 * length str \<le> pw_pixcels_per_scan_line w"
    and "y0 + 16 \<le> pw_vertical_resolution w"
    and "i < length str" "str ! i < length font" "dx < 8" "dy < 16"
  shows "\<exists>mem'. write_string font (pixcel_write w) x0 y0 str color mem = Some mem' \<and>
           pixcel_read w mem' (x0 + 8 * i + dx) (y0 + dy) =
             (if bit (font ! (str ! i) ! dy) (7 - dx) then color else Color_black) \<and>
           (\<forall>a. \<not> in_frame_buffer w a \<longrightarrow> mem' a = mem a)"
proof -
  have "fb.draws w mem0 (pixcel_inside w) (write_string font (pixcel_write w) x0 y0 str color)
      (string_picture font str x0 y0 color)" for mem0
    using assms by (intro fb.draws_string frame_in_screen)
  note drawn = fb_draw[OF this assms(1), of mem]
  have "pixcel_inside w (x0 + 8 * i + dx) (y0 + dy)" using assms by (simp add: pixcel_inside_def)
  moreover have "string_picture font str x0 y0 color (x0 + 8 * i + dx) (y0 + dy) =
      Some (if bit (font ! (str ! i) ! dy) (7 - dx) then color else Color_black)"
  proof -
    have "(8 * i + dx) div 8 = i" using assms(7) by simp
    moreover have "length (font ! (str ! i)) = 16" using assms(2,6) by (simp add: glyphs_16_def)
    ultimately show ?thesis using assms(5-8)
      by (simp add: string_picture_def char_picture_def glyph_picture_def add.assoc)
  qed
  moreover from drawn obtain mem' where "write_string font (pixcel_write w) x0 y0 str color mem = Some mem'"
    "\<forall>a. \<not> in_frame_buffer w a \<longrightarrow> mem' a = mem a"
    "\<And>x y. pixcel_inside w x y \<Longrightarrow> pixcel_read w mem' x y =
      (case string_picture font str x0 y0 color x y of None \<Rightarrow> pixcel_read w mem x y | Some c \<Rightarrow> c)"
    by metis
  ultimately show ?thesis by auto
qed

theorem write_string_on_screen_witness:
  "\<exists>mem'. write_string [replicate 16 0xff, replicate 16 0x80] (pixcel_write example_screen) 3 2 [0, 1, 7] Color_green
       (\<lambda>_. 0) = Some mem' \<and>
     pixcel_read example_screen mem' (3 + 8 * 1 + 0) (2 + 5) =
       (if bit ([replicate 16 0xff, replicate 16 (0x80 :: u8)] ! ([0, 1, 7] ! 1) ! 5) (7 - 0)
        then Color_green else Color_black) \<and>
     (\<forall>a. \<not> in_frame_buffer example_screen a \<longrightarrow> mem' a = 0)"
  by (rule write_string_on_screen[OF example_screen_wf]) (simp_all add: glyphs_16_def)

text \<open>The loop at the start of \<open>init_graphics\<close> blackens every visible pixel and writes only
  inside the frame buffer, for both pixel formats.\<close>

theorem clear_screen_black:
  assumes "pixcel_wf (get_writer g)"
  shows "\<exists>mem'. clear_screen g mem = Some mem' \<and>
           (\<forall>x y. x < gi_horizontal_resolution g \<longrightarrow> y < gi_vertical_resolution g \<longrightarrow>
              pixcel_read (get_writer g) mem' x y = Color_black) \<and>
           (\<forall>a. \<not> in_frame_buffer (get_writer g) a \<longrightarrow> mem' a = mem a)"
proof -
  have "gi_horizontal_resolution g \<le> pw_pixcels_per_scan_line (get_writer g)"
    "gi_vertical_resolution g = pw_vertical_resolution (get_writer g)"
    using assms by (cases "gi_pixcel_format g"; simp add: pixcel_wf_def get_writer_def new_raw_def)+
  then have "pixcel_inside (get_writer g) x y"
    if "x < gi_horizontal_resolution g" "y < gi_vertical_resolution g" for x y
    using that by (simp add: pixcel_inside_def)
  moreover have "rect 0 0 (gi_horizontal_resolution g) (gi_vertical_resolution g) Color_black x y = Some Color_black"
    if "x < gi_horizontal_resolution g" "y < gi_vertical_resolution g" for x y
    using that by (simp add: rect_def)
  ultimately show ?thesis
    using fb_draw[OF draws_clear_screen[OF assms] assms, of mem] by (metis option.simps(5))
qed

theorem clear_screen_black_witness:
  "\<exists>mem'. clear_screen (GraphicsInfo_new 32 20 40 4096 Rgb) (\<lambda>_. 7) = Some mem' \<and>
     pixcel_read (get_writer (GraphicsInfo_new 32 20 40 4096 Rgb)) mem' 31 19 = Color_black \<and> mem' 0 = 7"
proof -
  have "pixcel_wf (get_writer (GraphicsInfo_new 32 20 40 4096 Rgb))"
    "\<not> in_frame_buffer (get_writer (GraphicsInfo_new 32 20 40 4096 Rgb)) 0"
    by (simp_all add: get_writer_def GraphicsInfo_new_def new_raw_def pixcel_wf_def in_frame_buffer_def)
  with clear_screen_black[of "GraphicsInfo_new 32 20 40 4096 Rgb" "\<lambda>_. 7"] show ?thesis
    by (force simp: GraphicsInfo_new_def)
qed

end
