(* ===== verification/Layers.thy ===== *)
theory Layers
  imports Frame_Buffer
begin

text \<open>
  Windows and the layer manager, \<^verbatim>\<open>kernel-lib/src/layer.rs\<close>. A window keeps its pixels twice, as
  colours (column by column) and as the bytes of its rows; the layer manager keeps the windows by
  their ids and a stack of the ids shown, the bottom one first. The writer a window is flushed to is
  the frame buffer's \<^verbatim>\<open>PixcelWriter\<close>; the counter of \<^verbatim>\<open>Layer::new\<close>, a static of the
  source, is a state component of its own.
\<close>

section \<open>Windows\<close>

record Position =
  pos_x :: usize
  pos_y :: usize

definition Position_new :: "usize \<Rightarrow> usize \<Rightarrow> Position" where
  "Position_new x y = \<lparr>pos_x = x, pos_y = y\<rparr>"

record Window =
  transparent_color :: "Color option"
  rendering_handler :: PixcelFormat
  win_buffer :: "u8 list"
  win_pixels :: "Color list list"
  win_position :: Position

definition Window_new ::
  "usize \<Rightarrow> usize \<Rightarrow> PixcelFormat \<Rightarrow> Color option \<Rightarrow> Position \<Rightarrow> Window option" where
  "Window_new width height handler transparent position = do {
     a \<leftarrow> umul width height;
     n \<leftarrow> umul a 4;
     Some \<lparr>transparent_color = transparent, rendering_handler = handler, win_buffer = replicate n 0,
           win_pixels = replicate width (replicate height (case transparent of None \<Rightarrow> Color_black | Some c \<Rightarrow> c)),
           win_position = position\<rparr>
   }"

definition move_to :: "Position \<Rightarrow> Window \<Rightarrow> Window" where
  "move_to new_position win = win\<lparr>win_position := new_position\<rparr>"

definition window_move_relative :: "isize \<Rightarrow> isize \<Rightarrow> Window \<Rightarrow> Window option" where
  "window_move_relative x_diff y_diff win = do {
     x \<leftarrow> iadd (usize_as_isize (pos_x (win_position win))) x_diff;
     y \<leftarrow> iadd (usize_as_isize (pos_y (win_position win))) y_diff;
     Some (win\<lparr>win_position := \<lparr>
       pos_x = (case isize_try_into_usize x of None \<Rightarrow> 0 | Some v \<Rightarrow> v),
       pos_y = (case isize_try_into_usize y of None \<Rightarrow> 0 | Some v \<Rightarrow> v)\<rparr>\<rparr>)
   }"

definition win_width :: "Window \<Rightarrow> usize" where
  "win_width win = length (win_pixels win)"

definition win_height :: "Window \<Rightarrow> usize option" where
  "win_height win = do { column \<leftarrow> get_idx (win_pixels win) 0; Some (length column) }"

definition window_write :: "usize \<Rightarrow> usize \<Rightarrow> Color \<Rightarrow> Window \<Rightarrow> Window option" where
  "window_write x y c win = do {
     column \<leftarrow> get_idx (win_pixels win) x;
     column' \<leftarrow> set_idx column y c;
     pixels' \<leftarrow> set_idx (win_pixels win) x column';
     r \<leftarrow> umul y (win_width win);
     p \<leftarrow> uadd x r;
     index \<leftarrow> umul p 4;
     index_end \<leftarrow> uadd index 4;
     buffer' \<leftarrow> copy_from_slice (win_buffer win) index index_end (pixel (rendering_handler win) c);
     Some (win\<lparr>win_pixels := pixels', win_buffer := buffer'\<rparr>)
   }"

text \<open>
  \<^verbatim>\<open>flush\<close>. With a transparent colour each visible pixel goes through the writer's \<^verbatim>\<open>write\<close>; without
  one each visible row of bytes is copied into the frame buffer. The bound on \<open>y\<close> is the writer's
  horizontal resolution, as in the source.
\<close>

definition copy_to_mem :: "usize \<Rightarrow> u8 list \<Rightarrow> memory \<Rightarrow> memory" where
  "copy_to_mem a bytes mem = (\<lambda>b. if a \<le> b \<and> b < a + length bytes then bytes ! (b - a) else mem b)"

definition flush_transparent :: "PixcelWriter \<Rightarrow> Color \<Rightarrow> Window \<Rightarrow> memory \<Rightarrow> memory option" where
  "flush_transparent w transparent win mem = do {
     h \<leftarrow> win_height win;
     y' \<leftarrow> uadd (pos_y (win_position win)) h;
     for_each [pos_y (win_position win)..<min y' (pw_horizontal_resolution w)] (\<lambda>y mem. do {
       x' \<leftarrow> uadd (pos_x (win_position win)) (win_width win);
       for_each [pos_x (win_position win)..<min x' (pw_pixcels_per_scan_line w)] (\<lambda>x mem. do {
         column \<leftarrow> get_idx (win_pixels win) (x - pos_x (win_position win));
         color \<leftarrow> get_idx column (y - pos_y (win_position win));
         (if color = transparent then Some mem else pixcel_write w x y color mem)
       }) mem
     }) mem
   }"

definition get_buffer_index :: "Window \<Rightarrow> usize \<Rightarrow> usize \<Rightarrow> usize option" where
  "get_buffer_index win x y = do { r \<leftarrow> umul y (win_width win); p \<leftarrow> uadd x r; umul p 4 }"

definition get_frame_buffer_index :: "PixcelWriter \<Rightarrow> usize \<Rightarrow> usize \<Rightarrow> usize option" where
  "get_frame_buffer_index w x y = do { r \<leftarrow> umul y (pw_pixcels_per_scan_line w); p \<leftarrow> uadd x r; umul p 4 }"

definition flush_opaque :: "PixcelWriter \<Rightarrow> Window \<Rightarrow> memory \<Rightarrow> memory option" where
  "flush_opaque w win mem = do {
     h \<leftarrow> win_height win;
     y' \<leftarrow> uadd (pos_y (win_position win)) h;
     x' \<leftarrow> uadd (pos_x (win_position win)) (win_width win);
     let x_start = pos_x (win_position win);
     let x_end = min x' (pw_pixcels_per_scan_line w);
     for_each [pos_y (win_position win)..<min y' (pw_horizontal_resolution w)] (\<lambda>y mem. do {
       offset \<leftarrow> get_frame_buffer_index w x_start y;
       n \<leftarrow> usub x_end x_start;
       width \<leftarrow> umul n 4;
       a \<leftarrow> get_buffer_index win (x_start - pos_x (win_position win)) (y - pos_y (win_position win));
       m \<leftarrow> usub x_end (pos_x (win_position win));
       b \<leftarrow> get_buffer_index win m (y - pos_y (win_position win));
       row \<leftarrow> slice (win_buffer win) a b;
       rassert (length row = width);
       Some (copy_to_mem (pw_frame_buffer_base w + offset) row mem)
     }) mem
   }"

definition window_flush :: "PixcelWriter \<Rightarrow> Window \<Rightarrow> memory \<Rightarrow> memory option" where
  "window_flush w win mem =
     (case transparent_color win of
        Some transparent \<Rightarrow> flush_transparent w transparent win mem
      | None \<Rightarrow> flush_opaque w win mem)"

section \<open>Layers\<close>

type_synonym LayerId = usize

definition LayerId_uninitialized :: LayerId where
  "LayerId_uninitialized = usize_limit - 1"

record Layer =
  layer_id :: LayerId
  layer_window :: Window

definition Layer_new :: "usize \<Rightarrow> Window \<Rightarrow> (usize \<times> Layer) option" where
  "Layer_new latest_unused_id window = do {
     let lid = latest_unused_id;
     rassert (lid < LayerId_uninitialized);
     Some ((latest_unused_id + 1) mod usize_limit, \<lparr>layer_id = lid, layer_window = window\<rparr>)
   }"

definition layer_write :: "usize \<Rightarrow> usize \<Rightarrow> Color \<Rightarrow> Layer \<Rightarrow> Layer option" where
  "layer_write x y color l = do {
     win \<leftarrow> window_write x y color (layer_window l);
     Some (l\<lparr>layer_window := win\<rparr>)
   }"

record LayerManager =
  lm_writer :: PixcelWriter
  layer_stack :: "LayerId list"
  layers :: "LayerId \<rightharpoonup> Layer"

definition LayerManager_new :: "PixcelWriter \<Rightarrow> LayerManager" where
  "LayerManager_new w = \<lparr>lm_writer = w, layer_stack = [], layers = Map.empty\<rparr>"

definition new_layer :: "Window \<Rightarrow> usize \<times> LayerManager \<Rightarrow> ((usize \<times> LayerManager) \<times> LayerId) option" where
  "new_layer window = (\<lambda>(unused, lm). do {
     (unused', layer) \<leftarrow> Layer_new unused window;
     let lid = layer_id layer;
     Some ((unused', lm\<lparr>layer_stack := lid # layer_stack lm, layers := (layers lm)(lid \<mapsto> layer)\<rparr>), lid)
   })"

definition move_layer :: "LayerId \<Rightarrow> Position \<Rightarrow> LayerManager \<Rightarrow> LayerManager" where
  "move_layer lid new_position lm =
     (case layers lm lid of
        None \<Rightarrow> lm
      | Some l \<Rightarrow> lm\<lparr>layers := (layers lm)(lid \<mapsto> l\<lparr>layer_window := move_to new_position (layer_window l)\<rparr>)\<rparr>)"

definition layer_move_relative :: "LayerId \<Rightarrow> isize \<Rightarrow> isize \<Rightarrow> LayerManager \<Rightarrow> LayerManager option" where
  "layer_move_relative lid x_diff y_diff lm =
     (case layers lm lid of
        None \<Rightarrow> Some lm
      | Some l \<Rightarrow> do {
          win \<leftarrow> window_move_relative x_diff y_diff (layer_window l);
          Some (lm\<lparr>layers := (layers lm)(lid \<mapsto> l\<lparr>layer_window := win\<rparr>)\<rparr>)
        })"

definition layers_flush :: "LayerManager \<Rightarrow> memory \<Rightarrow> memory option" where
  "layers_flush lm mem = for_each (layer_stack lm) (\<lambda>lid mem. do {
     l \<leftarrow> layers lm lid;
     window_flush (lm_writer lm) (layer_window l) mem
   }) mem"

text \<open>\<^verbatim>\<open>iter().position(..)\<close> and \<^verbatim>\<open>VecDeque::remove\<close>.\<close>

fun iter_position :: "('a \<Rightarrow> bool) \<Rightarrow> 'a list \<Rightarrow> usize option" where
  "iter_position p [] = None"
| "iter_position p (x # xs) = (if p x then Some 0 else map_option Suc (iter_position p xs))"

definition hide :: "LayerId \<Rightarrow> LayerManager \<Rightarrow> LayerManager" where
  "hide lid lm =
     (case iter_position (\<lambda>x. x = lid) (layer_stack lm) of
        None \<Rightarrow> lm
      | Some index \<Rightarrow> lm\<lparr>layer_stack := take index (layer_stack lm) @ drop (Suc index) (layer_stack lm)\<rparr>)"

definition set_to_top :: "LayerId \<Rightarrow> LayerManager \<Rightarrow> LayerManager" where
  "set_to_top lid lm = (let lm' = hide lid lm in lm'\<lparr>layer_stack := layer_stack lm' @ [lid]\<rparr>)"

text \<open>Drawing through \<^verbatim>\<open>layer_mut(id).unwrap()\<close>.\<close>

definition layer_mut_write :: "LayerId \<Rightarrow> usize \<Rightarrow> usize \<Rightarrow> Color \<Rightarrow> LayerManager \<Rightarrow> LayerManager option" where
  "layer_mut_write lid x y color lm = do {
     l \<leftarrow> layers lm lid;
     l' \<leftarrow> layer_write x y color l;
     Some (lm\<lparr>layers := (layers lm)(lid \<mapsto> l')\<rparr>)
   }"

section \<open>The window's invariant\<close>

text \<open>
  A window is a rectangle of pixels, its row bytes have the matching length, and, when the window
  is opaque, the bytes of each pixel encode its colour.
\<close>

definition win_h :: "Window \<Rightarrow> nat" where
  "win_h win = length (win_pixels win ! 0)"

definition win_inside :: "Window \<Rightarrow> nat \<Rightarrow> nat \<Rightarrow> bool" where
  "win_inside win x y \<longleftrightarrow> x < win_width win \<and> y < win_h win"

definition win_color :: "Window \<Rightarrow> nat \<Rightarrow> nat \<Rightarrow> Color" where
  "win_color win x y = win_pixels win ! x ! y"

definition buffer_index :: "Window \<Rightarrow> nat \<Rightarrow> nat \<Rightarrow> nat" where
  "buffer_index win x y = (x + y * win_width win) * 4"

definition buffer_color :: "Window \<Rightarrow> nat \<Rightarrow> nat \<Rightarrow> Color" where
  "buffer_color win x y = (let i = buffer_index win x y in
     pixel_color (rendering_handler win) (win_buffer win ! i) (win_buffer win ! (i + 1)) (win_buffer win ! (i + 2)))"

definition window_ok :: "Window \<Rightarrow> bool" where
  "window_ok win \<longleftrightarrow>
     0 < win_width win \<and> (\<forall>column \<in> set (win_pixels win). length column = win_h win) \<and>
     length (win_buffer win) = win_width win * win_h win * 4 \<and>
     win_width win * win_h win * 4 < usize_limit \<and>
     (transparent_color win = None \<longrightarrow>
        (\<forall>x y. win_inside win x y \<longrightarrow> buffer_color win x y = win_color win x y))"

lemma window_height [simp]: "window_ok win \<Longrightarrow> win_height win = Some (win_h win)"
proof -
  assume "window_ok win"
  then have "0 < length (win_pixels win)" unfolding window_ok_def win_width_def by blast
  then show ?thesis by (simp add: win_height_def win_h_def)
qed

lemma column_length: "window_ok win \<Longrightarrow> x < win_width win \<Longrightarrow> length (win_pixels win ! x) = win_h win"
  by (simp add: window_ok_def win_width_def)

lemma quad_less: "(a :: nat) < b \<Longrightarrow> a * 4 + 4 \<le> b * 4"
  by simp

lemma Window_new_ok:
  assumes "0 < width" "width * height * 4 < usize_limit"
  shows "\<exists>win. Window_new width height f t p = Some win \<and> window_ok win \<and> win_width win = width \<and>
           win_h win = height \<and> transparent_color win = t \<and> rendering_handler win = f \<and> win_position win = p"
proof -
  let ?c = "case t of None \<Rightarrow> Color_black | Some c \<Rightarrow> c"
  let ?win = "\<lparr>transparent_color = t, rendering_handler = f, win_buffer = replicate (width * height * 4) 0,
      win_pixels = replicate width (replicate height ?c), win_position = p\<rparr>"
  have dim: "win_width ?win = width" "win_h ?win = height" using assms(1) by (simp_all add: win_width_def win_h_def)
  have coh: "buffer_color ?win x y = win_color ?win x y" if "t = None" "win_inside ?win x y" for x y
  proof -
    have "y * width + x < width * height" using that(2) row_major_less by (simp add: win_inside_def dim)
    from quad_less[OF this] have "buffer_index ?win x y + 4 \<le> width * height * 4"
      unfolding buffer_index_def dim by (simp only: add.commute)
    then have "win_buffer ?win ! (buffer_index ?win x y + k) = 0" if "k < 4" for k using that by simp
    from this[of 0] this[of 1] this[of 2]
    have "buffer_color ?win x y = Color_black"
      by (cases f) (simp_all add: buffer_color_def Let_def Color_black_def)
    moreover have "x < width" "y < height" using that(2) unfolding win_inside_def dim by blast+
    then have "win_color ?win x y = Color_black" using that(1) by (simp add: win_color_def)
    ultimately show ?thesis by simp
  qed
  have "umul width height = Some (width * height)" "umul (width * height) 4 = Some (width * height * 4)"
    using assms(2) by (auto simp: umul_def mult.commute[of width height])
  then have "Window_new width height f t p = Some ?win" by (simp add: Window_new_def)
  moreover have "window_ok ?win"
    using assms dim(1) coh unfolding window_ok_def dim by simp
  ultimately show ?thesis using dim by auto
qed

lemma buffer_index_less:
  assumes "window_ok win" "win_inside win x y"
  shows "buffer_index win x y + 4 \<le> length (win_buffer win)" and "length (win_buffer win) < usize_limit"
proof -
  have "x + y * win_width win < win_width win * win_h win"
    using row_major_less[of x "win_width win" y "win_h win"] assms(2) by (simp add: win_inside_def add.commute)
  from quad_less[OF this] show "buffer_index win x y + 4 \<le> length (win_buffer win)"
    using assms(1) unfolding window_ok_def buffer_index_def by argo
  show "length (win_buffer win) < usize_limit" using assms(1) unfolding window_ok_def by argo
qed

lemma get_buffer_index_eq:
  assumes "buffer_index win x y < usize_limit"
  shows "get_buffer_index win x y = Some (buffer_index win x y)"
  using assms by (simp add: get_buffer_index_def buffer_index_def)

lemma buffer_index_cell:
  assumes "win_inside win x y" "win_inside win x' y'" "k < 4"
  shows "buffer_index win x y \<le> buffer_index win x' y' + k \<and> buffer_index win x' y' + k < buffer_index win x y + 4
    \<longleftrightarrow> x' = x \<and> y' = y"
proof -
  have "a * 4 \<le> b * 4 + k \<and> b * 4 + k < a * 4 + 4 \<longleftrightarrow> b = a" for a b :: nat using assms(3) by auto
  then show ?thesis
    using row_major_inj[of x' "win_width win" x y' y] assms(1,2)
    unfolding buffer_index_def win_inside_def by (simp only: add.commute)
qed

lemma window_write_eq:
  assumes "window_ok win" "win_inside win x y"
  shows "window_write x y c win = Some (win\<lparr>
           win_pixels := (win_pixels win)[x := (win_pixels win ! x)[y := c]],
           win_buffer := take (buffer_index win x y) (win_buffer win) @ pixel (rendering_handler win) c @
             drop (buffer_index win x y + 4) (win_buffer win)\<rparr>)"
proof -
  note less = buffer_index_less[OF assms]
  have "get_buffer_index win x y = Some (buffer_index win x y)"
    "uadd (buffer_index win x y) 4 = Some (buffer_index win x y + 4)"
    using less by (auto intro: get_buffer_index_eq)
  moreover have "x < length (win_pixels win)" "y < length (win_pixels win ! x)"
    using assms column_length[of win x] by (auto simp: win_inside_def win_width_def)
  moreover have "window_write x y c win = do {
      column \<leftarrow> get_idx (win_pixels win) x; column' \<leftarrow> set_idx column y c;
      pixels' \<leftarrow> set_idx (win_pixels win) x column'; index \<leftarrow> get_buffer_index win x y;
      index_end \<leftarrow> uadd index 4;
      buffer' \<leftarrow> copy_from_slice (win_buffer win) index index_end (pixel (rendering_handler win) c);
      Some (win\<lparr>win_pixels := pixels', win_buffer := buffer'\<rparr>) }"
    by (simp add: window_write_def get_buffer_index_def)
  ultimately show ?thesis using less(1) by simp
qed

lemma window_write_keeps:
  assumes "window_ok win" "win_inside win x y" "window_write x y c win = Some win'"
  shows "win_width win' = win_width win" "win_h win' = win_h win" "win_position win' = win_position win"
    "transparent_color win' = transparent_color win" "rendering_handler win' = rendering_handler win"
    "length (win_buffer win') = length (win_buffer win)" "buffer_index win' = buffer_index win"
proof -
  have "length ((win_pixels win)[x := (win_pixels win ! x)[y := c]] ! 0) = length (win_pixels win ! 0)"
    by (cases "win_pixels win"; cases x) auto
  then show "win_h win' = win_h win" "win_position win' = win_position win"
    "transparent_color win' = transparent_color win" "rendering_handler win' = rendering_handler win"
    "length (win_buffer win') = length (win_buffer win)"
    using assms(3) buffer_index_less(1)[OF assms(1,2)]
    by (auto simp: window_write_eq[OF assms(1,2)] win_h_def)
  show w: "win_width win' = win_width win"
    using assms(3) by (auto simp: window_write_eq[OF assms(1,2)] win_width_def)
  show "buffer_index win' = buffer_index win" by (simp add: buffer_index_def w fun_eq_iff)
qed

lemma buffer_color_write:
  assumes "window_ok win" "win_inside win x y" "window_write x y c win = Some win'" "win_inside win x' y'"
  shows "buffer_color win' x' y' = (if x' = x \<and> y' = y then c else buffer_color win x' y')"
proof -
  let ?i = "buffer_index win x y" and ?j = "buffer_index win x' y'"
  let ?px = "pixel (rendering_handler win) c"
  note less = buffer_index_less(1)[OF assms(1,2)] and less' = buffer_index_less(1)[OF assms(1,4)]
  have at: "win_buffer win' ! (?j + k) = (if x' = x \<and> y' = y then ?px ! k else win_buffer win ! (?j + k))" if "k < 4" for k
  proof -
    have "win_buffer win' ! (?j + k) =
        (if ?i \<le> ?j + k \<and> ?j + k < ?i + 4 then ?px ! (?j + k - ?i) else win_buffer win ! (?j + k))"
      using assms(3) nth_overwrite[of ?i "?i + 4" "win_buffer win" ?px "?j + k"] less less' that
      by (auto simp: window_write_eq[OF assms(1,2)])
    then show ?thesis using buffer_index_cell[OF assms(2,4) that] by auto
  qed
  show ?thesis
    using at[of 0] at[of 1] at[of 2] pixel_color_pixel[of "rendering_handler win" c] window_write_keeps[OF assms(1-3)]
    by (simp add: buffer_color_def Let_def)
qed

lemma win_color_write:
  assumes "window_ok win" "win_inside win x y" "window_write x y c win = Some win'" "win_inside win x' y'"
  shows "win_color win' x' y' = (if x' = x \<and> y' = y then c else win_color win x' y')"
  using assms column_length[OF assms(1)]
  by (auto simp: window_write_eq win_color_def win_inside_def win_width_def nth_list_update)

lemma window_write_ok:
  assumes "window_ok win" "win_inside win x y" "window_write x y c win = Some win'"
  shows "window_ok win'" and "win_inside win' = win_inside win"
proof -
  note keeps = window_write_keeps[OF assms]
  show ins: "win_inside win' = win_inside win" by (simp add: win_inside_def keeps fun_eq_iff)
  have "length col = win_h win" if "col \<in> set (win_pixels win')" for col
  proof -
    from that obtain i where "i < length (win_pixels win')" "col = win_pixels win' ! i" by (auto simp: in_set_conv_nth)
    then show ?thesis using assms(3) column_length[OF assms(1)] assms(2)
      by (auto simp: window_write_eq[OF assms(1,2)] win_width_def nth_list_update win_inside_def)
  qed
  moreover have "buffer_color win' x' y' = win_color win' x' y'"
    if "transparent_color win = None" "win_inside win x' y'" for x' y'
  proof -
    have "buffer_color win x' y' = win_color win x' y'" using assms(1) that unfolding window_ok_def by blast
    then show ?thesis using buffer_color_write[OF assms that(2)] win_color_write[OF assms that(2)] by simp
  qed
  ultimately show "window_ok win'"
    using assms(1) unfolding window_ok_def by (simp add: keeps ins)
qed

interpretation window: pixel_sink window_write win_color win_inside window_ok
proof
  fix s x y c assume "window_ok s" "win_inside s x y"
  then show "\<exists>s'. window_write x y c s = Some s'" by (simp add: window_write_eq)
next
  fix s s' x y c
  assume ok: "window_ok s" "win_inside s x y" and wr: "window_write x y c s = Some s'"
  from window_write_ok[OF this] show "window_ok s' \<and> win_inside s' = win_inside s" by blast
qed (rule win_color_write)

text \<open>A layer is drawn on through its window.\<close>

lemma layer_write_eq: "layer_write x y c l = map_option (\<lambda>win. l\<lparr>layer_window := win\<rparr>) (window_write x y c (layer_window l))"
  by (cases "window_write x y c (layer_window l)") (simp_all add: layer_write_def)

text \<open>Drawing changes nothing of a layer but the pixels of its window.\<close>

definition same_layer :: "Layer \<Rightarrow> Layer \<Rightarrow> bool" where
  "same_layer l l' \<longleftrightarrow> layer_id l' = layer_id l \<and> win_position (layer_window l') = win_position (layer_window l) \<and>
     transparent_color (layer_window l') = transparent_color (layer_window l) \<and>
     rendering_handler (layer_window l') = rendering_handler (layer_window l) \<and>
     win_width (layer_window l') = win_width (layer_window l) \<and> win_h (layer_window l') = win_h (layer_window l)"

definition layer_ok :: "Layer \<Rightarrow> Layer \<Rightarrow> bool" where
  "layer_ok l0 l \<longleftrightarrow> window_ok (layer_window l) \<and> same_layer l0 l"

interpretation layer: pixel_sink layer_write "\<lambda>l. win_color (layer_window l)" "\<lambda>l. win_inside (layer_window l)"
  "layer_ok l0" for l0
proof
  fix s :: Layer and x y c assume "layer_ok l0 s" "win_inside (layer_window s) x y"
  then show "\<exists>s'. layer_write x y c s = Some s'" by (simp add: layer_write_eq window_write_eq layer_ok_def)
next
  fix s s' :: Layer and x y c assume ok: "layer_ok l0 s" "win_inside (layer_window s) x y"
    and wr: "layer_write x y c s = Some s'"
  then have wok: "window_ok (layer_window s)"
    and ww: "window_write x y c (layer_window s) = Some (layer_window s')" "layer_id s' = layer_id s"
    by (auto simp: layer_write_eq layer_ok_def)
  note keeps = window_write_keeps[OF wok ok(2) ww(1)]
  show "layer_ok l0 s' \<and> win_inside (layer_window s') = win_inside (layer_window s)"
    using window_write_ok[OF wok ok(2) ww(1)] ok(1) ww(2) keeps by (auto simp: layer_ok_def same_layer_def)
  show "win_color (layer_window s') x' y' = (if x' = x \<and> y' = y then c else win_color (layer_window s) x' y')"
    if "win_inside (layer_window s) x' y'" for x' y'
    using win_color_write[OF wok ok(2) ww(1) that] .
qed

section \<open>Flushing a window\<close>

text \<open>
  The picture a window contributes to the screen, clipped as the source clips it. The windows
  for which that stays inside the frame buffer are the ones that are \<open>on_screen\<close>.
\<close>

definition window_picture :: "PixcelWriter \<Rightarrow> Window \<Rightarrow> picture" where
  "window_picture w win = (\<lambda>x y.
     let px = pos_x (win_position win); py = pos_y (win_position win) in
     if px \<le> x \<and> x < min (px + win_width win) (pw_pixcels_per_scan_line w) \<and>
        py \<le> y \<and> y < min (py + win_h win) (pw_horizontal_resolution w)
     then (let c = win_color win (x - px) (y - py) in
           if transparent_color win = Some c then None else Some c)
     else None)"

definition on_screen :: "PixcelWriter \<Rightarrow> Window \<Rightarrow> bool" where
  "on_screen w win \<longleftrightarrow> window_ok win \<and> rendering_handler win = pw_pixcel_format w \<and>
     pos_x (win_position win) + win_width win < usize_limit \<and>
     pos_y (win_position win) + win_h win < usize_limit \<and>
     pos_x (win_position win) \<le> pw_pixcels_per_scan_line w \<and>
     min (pos_y (win_position win) + win_h win) (pw_horizontal_resolution w) \<le> pw_vertical_resolution w"

lemma draws_flush_transparent:
  assumes "on_screen w win" "transparent_color win = Some t"
  shows "fb.draws w mem0 (pixcel_inside w) (flush_transparent w t win) (window_picture w win)"
proof -
  let ?px = "pos_x (win_position win)" and ?py = "pos_y (win_position win)"
  let ?x1 = "min (?px + win_width win) (pw_pixcels_per_scan_line w)"
  let ?y1 = "min (?py + win_h win) (pw_horizontal_resolution w)"
  let ?c = "\<lambda>x y. win_color win (x - ?px) (y - ?py)"
  let ?q = "\<lambda>x y. if ?c x y = t then None else Some (?c x y)"
  let ?body = "\<lambda>x y mem. if ?c x y = t then Some mem else pixcel_write w x y (?c x y) mem"
  have ok: "window_ok win" using assms(1) by (simp add: on_screen_def)
  have "fb.draws w mem0 (pixcel_inside w) (?body x y) (case ?q x y of None \<Rightarrow> blank | Some c \<Rightarrow> dot x y c)"
    if "x \<in> set [?px..<?x1]" "y \<in> set [?py..<?y1]" for x y
    using that assms(1) fb.draws_skip[of w mem0 "pixcel_inside w"]
    by (auto simp: pixcel_inside_def on_screen_def intro!: fb.draws_write)
  then have "fb.draws w mem0 (pixcel_inside w)
      (for_each [?py..<?y1] (\<lambda>y. for_each [?px..<?x1] (\<lambda>x. ?body x y)))
      (overs (map (\<lambda>y. overs (map (\<lambda>x. case ?q x y of None \<Rightarrow> blank | Some c \<Rightarrow> dot x y c) [?px..<?x1])) [?py..<?y1]))"
    by (intro fb.draws_for_each)
  then have "fb.draws w mem0 (pixcel_inside w)
      (for_each [?py..<?y1] (\<lambda>y. for_each [?px..<?x1] (\<lambda>x. ?body x y))) (window_picture w win)"
    by (rule fb.draws_cong) (simp add: overs_points window_picture_def Let_def assms(2) eq_commute[of t])
  moreover have "flush_transparent w t win mem = for_each [?py..<?y1] (\<lambda>y. for_each [?px..<?x1] (\<lambda>x. ?body x y)) mem"
    for mem
    using assms(1) ok column_length[OF ok] unfolding flush_transparent_def
    by (simp add: on_screen_def, intro for_each_cong refl) (auto simp: win_color_def win_width_def)
  ultimately show ?thesis by (blast intro: fb.draws_eq)
qed

lemma row_range:
  assumes "pixcel_inside w x' y'" "px + n \<le> pw_pixcels_per_scan_line w" "k < 4"
  shows "pixcel_addr w px y \<le> pixcel_addr w x' y' + k \<and> pixcel_addr w x' y' + k < pixcel_addr w px y + n * 4
    \<longleftrightarrow> y' = y \<and> px \<le> x' \<and> x' < px + n"
proof -
  let ?p = "pw_pixcels_per_scan_line w"
  have "a * 4 \<le> b * 4 + k \<and> b * 4 + k < a * 4 + n * 4 \<longleftrightarrow> a \<le> b \<and> b < a + n" for a b :: nat
    using assms(3) by auto
  from this[of "y * ?p + px" "y' * ?p + x'"]
  have "pixcel_addr w px y \<le> pixcel_addr w x' y' + k \<and> pixcel_addr w x' y' + k < pixcel_addr w px y + n * 4
    \<longleftrightarrow> y * ?p + px \<le> y' * ?p + x' \<and> y' * ?p + x' < y * ?p + px + n"
    unfolding pixcel_addr_def by linarith
  moreover have "y' * ?p + x' < y * ?p" if "y' < y"
    using row_major_less[of x' ?p y' y] that assms(1) by (simp add: pixcel_inside_def mult.commute)
  moreover have "y * ?p + px + n \<le> y' * ?p" if "y < y'"
    using mult_le_mono1[of "Suc y" y' ?p] that assms(2) by simp
  ultimately show ?thesis by (cases y' y rule: linorder_cases) auto
qed

definition row_bytes :: "Window \<Rightarrow> nat \<Rightarrow> nat \<Rightarrow> u8 list" where
  "row_bytes win r n = take (n * 4) (drop (buffer_index win 0 r) (win_buffer win))"

lemma row_end_le:
  assumes "window_ok win" "r < win_h win" "n \<le> win_width win"
  shows "buffer_index win n r \<le> length (win_buffer win)" and "buffer_index win n r = buffer_index win 0 r + n * 4"
proof -
  have "r * win_width win + win_width win \<le> win_width win * win_h win"
    using mult_le_mono1[of "Suc r" "win_h win" "win_width win"] assms(2) by (simp add: algebra_simps)
  then have "n + r * win_width win \<le> win_width win * win_h win" using assms(3) by linarith
  then have "(n + r * win_width win) * 4 \<le> win_width win * win_h win * 4" by (rule mult_le_mono1)
  then show "buffer_index win n r \<le> length (win_buffer win)"
    using assms(1) unfolding window_ok_def buffer_index_def by argo
  show "buffer_index win n r = buffer_index win 0 r + n * 4" by (simp add: buffer_index_def)
qed

lemma row_bytes_length:
  "window_ok win \<Longrightarrow> r < win_h win \<Longrightarrow> n \<le> win_width win \<Longrightarrow> length (row_bytes win r n) = n * 4"
  using row_end_le[of win r n] by (simp add: row_bytes_def)

lemma row_bytes_nth:
  assumes "window_ok win" "r < win_h win" "n \<le> win_width win" "x < n" "k < 4"
  shows "row_bytes win r n ! (x * 4 + k) = win_buffer win ! (buffer_index win x r + k)"
proof -
  have "x * 4 + k < n * 4" using assms(4,5) by linarith
  moreover have "buffer_index win 0 r + (x * 4 + k) = buffer_index win x r + k" by (simp add: buffer_index_def)
  moreover have "buffer_index win 0 r \<le> length (win_buffer win)" using row_end_le[OF assms(1-3)] by linarith
  ultimately show ?thesis by (simp add: row_bytes_def) (metis add.assoc)
qed

lemma quad_row_le: "(a :: nat) + p \<le> b \<Longrightarrow> c + n \<le> p \<Longrightarrow> (a + c) * 4 + n * 4 \<le> 4 * b"
  by simp

lemma row_offset_le:
  assumes "px + n \<le> pw_pixcels_per_scan_line w" "y < pw_vertical_resolution w"
  shows "(y * pw_pixcels_per_scan_line w + px) * 4 + n * 4
    \<le> 4 * (pw_pixcels_per_scan_line w * pw_vertical_resolution w)"
proof -
  let ?p = "pw_pixcels_per_scan_line w" and ?v = "pw_vertical_resolution w"
  have "y * ?p + ?p \<le> ?p * ?v"
    using mult_le_mono1[of "Suc y" ?v ?p] assms(2) by (simp add: algebra_simps)
  then show ?thesis using assms(1) by (rule quad_row_le)
qed

lemma row_in_frame_buffer:
  assumes "px + n \<le> pw_pixcels_per_scan_line w" "y < pw_vertical_resolution w"
    and "pixcel_addr w px y \<le> a" "a < pixcel_addr w px y + n * 4"
  shows "in_frame_buffer w a"
  using row_offset_le[OF assms(1,2)] assms(3,4) unfolding in_frame_buffer_def pixcel_addr_def by linarith

lemma draws_row:
  assumes "window_ok win" "transparent_color win = None" "rendering_handler win = pw_pixcel_format w"
    and "r < win_h win" "n \<le> win_width win" "px + n \<le> pw_pixcels_per_scan_line w" "y < pw_vertical_resolution w"
  shows "fb.draws w mem0 (pixcel_inside w) (\<lambda>mem. Some (copy_to_mem (pixcel_addr w px y) (row_bytes win r n) mem))
    (\<lambda>x y'. if y' = y \<and> px \<le> x \<and> x < px + n then Some (win_color win (x - px) r) else None)"
proof -
  note len = row_bytes_length[OF assms(1,4,5)]
  have byte: "copy_to_mem (pixcel_addr w px y) (row_bytes win r n) mem (pixcel_addr w x' y' + k) =
      (if y' = y \<and> px \<le> x' \<and> x' < px + n then win_buffer win ! (buffer_index win (x' - px) r + k)
       else mem (pixcel_addr w x' y' + k))"
    if "pixcel_inside w x' y'" "k < 4" for mem x' y' k
  proof -
    have off: "pixcel_addr w x' y + k - pixcel_addr w px y = (x' - px) * 4 + k" if "px \<le> x'"
      using that by (simp add: pixcel_addr_def diff_mult_distrib)
    show ?thesis
    proof (cases "y' = y \<and> px \<le> x' \<and> x' < px + n")
      case True
      then have "x' - px < n" by auto
      from row_bytes_nth[OF assms(1,4,5) this that(2)] True off row_range[OF that(1) assms(6) that(2), of y]
      show ?thesis by (simp add: copy_to_mem_def len)
    next
      case False
      with row_range[OF that(1) assms(6) that(2), of y] show ?thesis by (auto simp: copy_to_mem_def len)
    qed
  qed
  have col: "buffer_color win x r = win_color win x r" if "x < n" for x
    using assms(1,2,4,5) that unfolding window_ok_def win_inside_def by (meson less_le_trans)
  have outside: "copy_to_mem (pixcel_addr w px y) (row_bytes win r n) mem a = mem a" if "\<not> in_frame_buffer w a" for mem a
    using row_in_frame_buffer[OF assms(6,7), of a] that by (auto simp: copy_to_mem_def len)
  show ?thesis
    unfolding fb.draws_def fb.paints_def
  proof (intro allI impI exI conjI)
    fix mem assume "fb_ok w mem0 mem"
    then show "fb_ok w mem0 (copy_to_mem (pixcel_addr w px y) (row_bytes win r n) mem)"
      using outside by (simp add: fb_ok_def)
  next
    fix mem x' y' assume ins: "pixcel_inside w x' y'"
    show "pixcel_read w (copy_to_mem (pixcel_addr w px y) (row_bytes win r n) mem) x' y' =
        (case if y' = y \<and> px \<le> x' \<and> x' < px + n then Some (win_color win (x' - px) r) else None of
           None \<Rightarrow> pixcel_read w mem x' y' | Some c \<Rightarrow> c)"
      using byte[OF ins, of 0] byte[OF ins, of 1] byte[OF ins, of 2] col[of "x' - px"] assms(3)
      by (auto simp: pixcel_read_def buffer_color_def Let_def)
  qed (rule refl)+
qed

lemma flush_row_eq:
  assumes "window_ok win" "pixcel_wf w" "r < win_h win" "y < pw_vertical_resolution w" "px \<le> x_end"
    and "x_end - px \<le> win_width win" "x_end \<le> pw_pixcels_per_scan_line w"
  shows "do { offset \<leftarrow> get_frame_buffer_index w px y; n \<leftarrow> usub x_end px; width \<leftarrow> umul n 4;
         a \<leftarrow> get_buffer_index win 0 r; m \<leftarrow> usub x_end px; b \<leftarrow> get_buffer_index win m r;
         row \<leftarrow> slice (win_buffer win) a b; rassert (length row = width);
         Some (copy_to_mem (pw_frame_buffer_base w + offset) row mem) }
       = Some (copy_to_mem (pixcel_addr w px y) (row_bytes win r (x_end - px)) mem)"
proof -
  let ?n = "x_end - px"
  note len = row_bytes_length[OF assms(1,3,6)] and re = row_end_le[OF assms(1,3,6)]
  have "length (win_buffer win) < usize_limit" using assms(1) unfolding window_ok_def by argo
  then have idx: "get_buffer_index win 0 r = Some (buffer_index win 0 r)"
    "get_buffer_index win ?n r = Some (buffer_index win 0 r + ?n * 4)" "?n * 4 < usize_limit"
    using re get_buffer_index_eq[of win 0 r] get_buffer_index_eq[of win ?n r] by auto
  have "(y * pw_pixcels_per_scan_line w + px) * 4 < usize_limit"
    using row_offset_le[of px ?n w y] assms(2,4,5,7) unfolding pixcel_wf_def by linarith
  then have "get_frame_buffer_index w px y = Some ((y * pw_pixcels_per_scan_line w + px) * 4)"
    by (simp add: get_frame_buffer_index_def add.commute)
  moreover have "slice (win_buffer win) (buffer_index win 0 r) (buffer_index win 0 r + ?n * 4) = Some (row_bytes win r ?n)"
    using re by (simp add: row_bytes_def)
  ultimately show ?thesis using idx len assms(5) by (simp add: pixcel_addr_def)
qed

lemma draws_flush_opaque:
  assumes "on_screen w win" "transparent_color win = None" "pixcel_wf w"
  shows "fb.draws w mem0 (pixcel_inside w) (flush_opaque w win) (window_picture w win)"
proof -
  let ?px = "pos_x (win_position win)" and ?py = "pos_y (win_position win)"
  let ?n = "min (?px + win_width win) (pw_pixcels_per_scan_line w) - ?px"
  let ?y1 = "min (?py + win_h win) (pw_horizontal_resolution w)"
  let ?body = "\<lambda>y mem. Some (copy_to_mem (pixcel_addr w ?px y) (row_bytes win (y - ?py) ?n) mem)"
  let ?row = "\<lambda>y x y'. if y' = y \<and> ?px \<le> x \<and> x < ?px + ?n then Some (win_color win (x - ?px) (y - ?py)) else None"
  have ok: "window_ok win" and n: "?n \<le> win_width win" "?px + ?n \<le> pw_pixcels_per_scan_line w"
    "?px \<le> min (?px + win_width win) (pw_pixcels_per_scan_line w)"
    using assms(1) by (auto simp: on_screen_def)
  have y1: "y - ?py < win_h win" "y < pw_vertical_resolution w" if "y \<in> set [?py..<?y1]" for y
    using that assms(1) by (auto simp: on_screen_def)
  have "fb.draws w mem0 (pixcel_inside w) (for_each [?py..<?y1] ?body) (overs (map ?row [?py..<?y1]))"
    using assms(1,2) ok n y1 by (intro fb.draws_for_each draws_row) (auto simp: on_screen_def)
  then have "fb.draws w mem0 (pixcel_inside w) (for_each [?py..<?y1] ?body) (window_picture w win)"
  proof (rule fb.draws_cong)
    show "overs (map ?row [?py..<?y1]) x y = window_picture w win x y" for x y
      by (rule overs_map_eqI) (use n(3) assms(2) in \<open>auto simp: window_picture_def Let_def split: if_splits\<close>)
  qed
  moreover have "flush_opaque w win mem = for_each [?py..<?y1] ?body mem" for mem
  proof -
    have body: "do { offset \<leftarrow> get_frame_buffer_index w ?px y;
         n \<leftarrow> usub (min (?px + win_width win) (pw_pixcels_per_scan_line w)) ?px; width \<leftarrow> umul n 4;
         a \<leftarrow> get_buffer_index win 0 (y - ?py);
         m \<leftarrow> usub (min (?px + win_width win) (pw_pixcels_per_scan_line w)) ?px;
         b \<leftarrow> get_buffer_index win m (y - ?py); row \<leftarrow> slice (win_buffer win) a b; rassert (length row = width);
         Some (copy_to_mem (pw_frame_buffer_base w + offset) row mem) } = ?body y mem"
      if "y \<in> set [?py..<?y1]" for y mem
      by (rule flush_row_eq) (use ok n y1[OF that] assms(3) in auto)
    show ?thesis unfolding flush_opaque_def Let_def using assms(1)
      by (simp add: ok on_screen_def del: usub_ok, intro for_each_cong refl) (rule body)
  qed
  ultimately show ?thesis by (blast intro: fb.draws_eq)
qed

lemma draws_window_flush:
  assumes "on_screen w win" "pixcel_wf w"
  shows "fb.draws w mem0 (pixcel_inside w) (window_flush w win) (window_picture w win)"
  using draws_flush_transparent[OF assms(1)] draws_flush_opaque[OF assms(1) _ assms(2)]
  by (cases "transparent_color win") (simp_all add: window_flush_def fb.draws_def)

section \<open>The layer manager's invariant\<close>

definition lm_ok :: "usize \<times> LayerManager \<Rightarrow> bool" where
  "lm_ok = (\<lambda>(unused, lm). unused < usize_limit \<and> distinct (layer_stack lm) \<and> set (layer_stack lm) \<subseteq> dom (layers lm) \<and>
     (\<forall>i l. layers lm i = Some l \<longrightarrow> i < unused \<and> layer_id l = i \<and> window_ok (layer_window l)))"

text \<open>What the kernel does with the layer manager; ids are only moved to the top once registered.\<close>

inductive layer_step :: "usize \<times> LayerManager \<Rightarrow> usize \<times> LayerManager \<Rightarrow> bool" where
  step_new: "window_ok win \<Longrightarrow> new_layer win s = Some (s', lid) \<Longrightarrow> layer_step s s'"
| step_move: "layer_step (u, lm) (u, move_layer lid p lm)"
| step_move_relative: "layer_move_relative lid dx dy lm = Some lm' \<Longrightarrow> layer_step (u, lm) (u, lm')"
| step_hide: "layer_step (u, lm) (u, hide lid lm)"
| step_top: "lid \<in> dom (layers lm) \<Longrightarrow> layer_step (u, lm) (u, set_to_top lid lm)"
| step_write: "layer_mut_write lid x y c lm = Some lm' \<Longrightarrow> layer_step (u, lm) (u, lm')"

lemma iter_position_remove1:
  "(case iter_position (\<lambda>x. x = a) xs of None \<Rightarrow> xs | Some i \<Rightarrow> take i xs @ drop (Suc i) xs) = remove1 a xs"
  by (induction xs) (auto split: option.splits)

lemma hide_eq: "hide lid lm = lm\<lparr>layer_stack := remove1 lid (layer_stack lm)\<rparr>"
  using iter_position_remove1[where a = lid and xs = "layer_stack lm"]
  by (cases "iter_position (\<lambda>x. x = lid) (layer_stack lm)") (auto simp: hide_def)

lemma set_to_top_eq: "set_to_top lid lm = lm\<lparr>layer_stack := remove1 lid (layer_stack lm) @ [lid]\<rparr>"
  by (simp add: set_to_top_def hide_eq)

lemma window_ok_position: "window_ok (win\<lparr>win_position := p\<rparr>) \<longleftrightarrow> window_ok win"
  by (simp add: window_ok_def win_width_def win_h_def win_inside_def buffer_color_def buffer_index_def win_color_def)

lemma window_write_inside:
  assumes "window_ok win" "window_write x y c win = Some win'"
  shows "win_inside win x y"
proof -
  from assms(2) have "x < length (win_pixels win)" "y < length (win_pixels win ! x)"
    by (auto simp: window_write_def bind_eq_Some_conv rust_simps)
  then show ?thesis using column_length[OF assms(1), of x] by (simp add: win_inside_def win_width_def)
qed

lemma lm_ok_update:
  assumes "lm_ok (u, lm)" "layers lm lid = Some l" "window_ok win"
  shows "lm_ok (u, lm\<lparr>layers := (layers lm)(lid \<mapsto> l\<lparr>layer_window := win\<rparr>)\<rparr>)"
  using assms by (auto simp: lm_ok_def)

lemma lm_ok_new: "u < usize_limit \<Longrightarrow> lm_ok (u, LayerManager_new w)"
  by (simp add: lm_ok_def LayerManager_new_def)

lemma lm_ok_new_layer:
  assumes "lm_ok (u, lm)" "window_ok win" "new_layer win (u, lm) = Some ((u', lm'), lid)"
  shows "lm_ok (u', lm') \<and> lid \<notin> dom (layers lm) \<and> lm_writer lm' = lm_writer lm"
proof -
  from assms(3) have "u < LayerId_uninitialized" "lid = u" "u' = (u + 1) mod usize_limit"
    and lm': "lm' = lm\<lparr>layer_stack := u # layer_stack lm, layers := (layers lm)(u \<mapsto> \<lparr>layer_id = u, layer_window = win\<rparr>)\<rparr>"
    by (auto simp: new_layer_def Layer_new_def bind_eq_Some_conv rust_simps)
  moreover from this have "u' = u + 1" by (simp add: LayerId_uninitialized_def)
  moreover have "u \<notin> dom (layers lm)" using assms(1) by (auto simp: lm_ok_def)
  ultimately show ?thesis using assms(1,2) by (auto simp: lm_ok_def LayerId_uninitialized_def less_Suc_eq)
qed

lemma layer_step_ok:
  assumes "layer_step s s'" "lm_ok s"
  shows "lm_ok s' \<and> lm_writer (snd s') = lm_writer (snd s)"
  using assms
proof (induction rule: layer_step.induct)
  case (step_new win s s' lid)
  then show ?case using lm_ok_new_layer[of "fst s" "snd s" win "fst s'" "snd s'" lid] by simp
next
  case (step_move u lm lid p)
  then show ?case
    using lm_ok_update[of u lm lid] by (auto simp: move_layer_def move_to_def window_ok_position lm_ok_def split: option.splits)
next
  case (step_move_relative lid dx dy lm lm' u)
  show ?case
  proof (cases "layers lm lid")
    case None
    with step_move_relative show ?thesis by (simp add: layer_move_relative_def)
  next
    case (Some l)
    with step_move_relative obtain p where
      "lm' = lm\<lparr>layers := (layers lm)(lid \<mapsto> l\<lparr>layer_window := (layer_window l)\<lparr>win_position := p\<rparr>\<rparr>)\<rparr>"
      by (auto simp: layer_move_relative_def window_move_relative_def bind_eq_Some_conv)
    moreover have "window_ok (layer_window l)" using step_move_relative(2) Some by (auto simp: lm_ok_def)
    ultimately show ?thesis using lm_ok_update[OF step_move_relative(2) Some] by (simp add: window_ok_position)
  qed
next
  case (step_hide u lm lid)
  then show ?case by (auto simp: hide_eq lm_ok_def dest: in_set_remove1[THEN iffD1, rotated] notin_set_remove1)
next
  case (step_top lid lm u)
  then show ?case by (auto simp: set_to_top_eq lm_ok_def set_remove1_eq)
next
  case (step_write lid x y c lm lm' u)
  then obtain l win where l: "layers lm lid = Some l" "window_write x y c (layer_window l) = Some win"
    and lm': "lm' = lm\<lparr>layers := (layers lm)(lid \<mapsto> l\<lparr>layer_window := win\<rparr>)\<rparr>"
    by (auto simp: layer_mut_write_def layer_write_def bind_eq_Some_conv)
  moreover have ok: "window_ok (layer_window l)" using step_write(2) l by (auto simp: lm_ok_def)
  moreover have "window_ok win" using window_write_ok(1)[OF ok window_write_inside[OF ok l(2)] l(2)] .
  ultimately show ?case using lm_ok_update[OF step_write(2) l(1)] by simp
qed

lemma layer_run_ok:
  assumes "layer_step\<^sup>*\<^sup>* s s'" "lm_ok s"
  shows "lm_ok s' \<and> lm_writer (snd s') = lm_writer (snd s)"
  using assms by (induction rule: rtranclp_induct) (auto dest: layer_step_ok)

definition stack_picture :: "LayerManager \<Rightarrow> picture" where
  "stack_picture lm = overs (map (\<lambda>lid. window_picture (lm_writer lm) (layer_window (the (layers lm lid)))) (layer_stack lm))"

definition stack_on_screen :: "LayerManager \<Rightarrow> bool" where
  "stack_on_screen lm \<longleftrightarrow> pixcel_wf (lm_writer lm) \<and>
     (\<forall>lid \<in> set (layer_stack lm). \<exists>l. layers lm lid = Some l \<and> on_screen (lm_writer lm) (layer_window l))"

lemma draws_layers_flush:
  assumes "stack_on_screen lm"
  shows "fb.draws (lm_writer lm) mem0 (pixcel_inside (lm_writer lm)) (layers_flush lm) (stack_picture lm)"
proof -
  have "fb.draws (lm_writer lm) mem0 (pixcel_inside (lm_writer lm))
      (\<lambda>mem. do { l \<leftarrow> layers lm lid; window_flush (lm_writer lm) (layer_window l) mem })
      (window_picture (lm_writer lm) (layer_window (the (layers lm lid))))" if "lid \<in> set (layer_stack lm)" for lid
    using assms that draws_window_flush by (fastforce simp: stack_on_screen_def)
  from fb.draws_for_each[OF this, of "layer_stack lm" "\<lambda>lid. lid"]
  show ?thesis by (simp add: stack_picture_def layers_flush_def[abs_def])
qed

section \<open>Properties\<close>

definition example_window :: "Color option \<Rightarrow> Position \<Rightarrow> Window" where
  "example_window t p = the (Window_new 2 3 Bgr t p)"

lemma example_window_sel:
  "window_ok (example_window t p)" "win_width (example_window t p) = 2" "win_h (example_window t p) = 3"
  "rendering_handler (example_window t p) = Bgr" "win_position (example_window t p) = p"
  "transparent_color (example_window t p) = t"
  using Window_new_ok[of 2 3 Bgr t p] by (auto simp: example_window_def)

lemma example_on_screen:
  "pos_x p \<le> 40 \<Longrightarrow> pos_y p \<le> 17 \<Longrightarrow> on_screen example_screen (example_window t p)"
  by (simp add: on_screen_def example_window_sel) (simp add: example_screen_def new_raw_def)




definition example_stack :: LayerManager where
  "example_stack = \<lparr>lm_writer = example_screen, layer_stack = [1, 0],
     layers = [0 \<mapsto> \<lparr>layer_id = 0, layer_window = example_window None \<lparr>pos_x = 4, pos_y = 5\<rparr>\<rparr>,
               1 \<mapsto> \<lparr>layer_id = 1, layer_window = example_window (Some Color_green) \<lparr>pos_x = 5, pos_y = 6\<rparr>\<rparr>]\<rparr>"

lemma example_stack_on_screen: "stack_on_screen example_stack"
  by (auto simp: stack_on_screen_def example_stack_def example_screen_wf intro!: example_on_screen)


text \<open>After \<open>set_to_top\<close> of a registered layer, a flush shows that layer's window at every
  pixel where it is not transparent, whatever the other layers hold.\<close>

theorem set_to_top_visible:
  assumes "stack_on_screen lm" "layers lm lid = Some l" "on_screen (lm_writer lm) (layer_window l)"
    and "window_picture (lm_writer lm) (layer_window l) x y = Some c" "pixcel_inside (lm_writer lm) x y"
  shows "\<exists>mem'. layers_flush (set_to_top lid lm) mem = Some mem' \<and> pixcel_read (lm_writer lm) mem' x y = c"
proof -
  let ?lm = "set_to_top lid lm"
  have sel: "lm_writer ?lm = lm_writer lm" "layers ?lm = layers lm"
    "layer_stack ?lm = remove1 lid (layer_stack lm) @ [lid]"
    by (simp_all add: set_to_top_eq)
  have "set (layer_stack ?lm) \<subseteq> insert lid (set (layer_stack lm))" unfolding sel using set_remove1_subset[of lid] by auto
  then have on: "stack_on_screen ?lm" using assms(1-3) unfolding stack_on_screen_def sel by blast
  then have wf: "pixcel_wf (lm_writer ?lm)" by (simp add: stack_on_screen_def)
  have "stack_picture ?lm x y = Some c"
    using assms(2,4) by (simp add: stack_picture_def sel overs_append over_def blank_def)
  with fb_draw[OF draws_layers_flush[OF on] wf, of mem] assms(5) show ?thesis by (auto simp: sel)
qed

theorem set_to_top_visible_witness:
  "\<exists>mem'. layers_flush (set_to_top 0 example_stack) (\<lambda>_. 9) = Some mem' \<and>
     pixcel_read (lm_writer example_stack) mem' 4 5 = Color_black"
proof (rule set_to_top_visible[OF example_stack_on_screen])
  show "layers example_stack 0 = Some \<lparr>layer_id = 0, layer_window = example_window None \<lparr>pos_x = 4, pos_y = 5\<rparr>\<rparr>"
    by (simp add: example_stack_def)
  show "window_picture (lm_writer example_stack) (layer_window \<lparr>layer_id = 0, layer_window = example_window None \<lparr>pos_x = 4, pos_y = 5\<rparr>\<rparr>) 4 5
      = Some Color_black"
    by (simp add: example_stack_def window_picture_def example_window_sel Let_def)
      (simp add: example_screen_def new_raw_def example_window_def Window_new_def win_color_def)
qed (simp_all add: example_stack_def example_on_screen pixcel_inside_def)

text \<open>Moving an id that was never registered to the top makes the next flush panic.\<close>

theorem set_to_top_unregistered_panics:
  assumes "lid \<notin> dom (layers lm)"
  shows "layers_flush (set_to_top lid lm) mem = None"
proof -
  have "layers lm lid = None" using assms by blast
  then show ?thesis
    by (simp add: layers_flush_def set_to_top_eq for_each_append split: bind_split)
qed

theorem set_to_top_unregistered_panics_witness: "layers_flush (set_to_top 7 example_stack) (\<lambda>_. 9) = None"
  by (rule set_to_top_unregistered_panics) (simp add: example_stack_def)

text \<open>The writer of a higher screen; nothing but the clipping of this lemma depends on the height.\<close>

lemma pixcel_write_height: "pixcel_write (w\<lparr>pw_vertical_resolution := v\<rparr>) = pixcel_write w"
  unfolding fun_eq_iff pixcel_write_def get_offset_def write_pixcel_at_offset_rgb_def write_pixcel_at_offset_bgr_def
  by (cases "pw_pixcel_format w") simp_all

lemma height_sel:
  "pw_pixcels_per_scan_line (w\<lparr>pw_vertical_resolution := v\<rparr>) = pw_pixcels_per_scan_line w"
  "pw_horizontal_resolution (w\<lparr>pw_vertical_resolution := v\<rparr>) = pw_horizontal_resolution w"
  "pw_frame_buffer_base (w\<lparr>pw_vertical_resolution := v\<rparr>) = pw_frame_buffer_base w"
  by simp_all

lemma window_flush_height: "window_flush (w\<lparr>pw_vertical_resolution := v\<rparr>) = window_flush w"
  unfolding fun_eq_iff window_flush_def flush_transparent_def flush_opaque_def get_frame_buffer_index_def
    pixcel_write_height height_sel
  by (rule allI refl)+

text \<open>C39: The clipping of \<^verbatim>\<open>Window::flush\<close> is wrong on a screen wider than high: the part of a window that
  lies below the last line, up to the horizontal resolution, is written to memory after the frame
  buffer. (The mouse cursor gets there when it is moved down.)\<close>

theorem flush_past_frame_buffer:
  assumes "pixcel_wf (w\<lparr>pw_vertical_resolution := v\<rparr>)" "on_screen (w\<lparr>pw_vertical_resolution := v\<rparr>) win"
    and "window_picture w win x y = Some c" "pw_vertical_resolution w \<le> y" "x < pw_pixcels_per_scan_line w" "y < v"
  shows "\<exists>mem'. window_flush w win mem = Some mem' \<and> pixcel_read w mem' x y = c \<and>
           \<not> in_frame_buffer w (pixcel_addr w x y)"
proof -
  let ?w = "w\<lparr>pw_vertical_resolution := v\<rparr>"
  have eq: "pixcel_read ?w = pixcel_read w" "window_picture ?w win = window_picture w win"
    by (simp_all add: fun_eq_iff pixcel_read_def pixcel_addr_def window_picture_def Let_def)
  have "pixcel_inside ?w x y" using assms(5,6) by (simp add: pixcel_inside_def)
  with fb_draw[OF draws_window_flush[OF assms(2,1)] assms(1), of mem] assms(3)
  have "\<exists>mem'. window_flush w win mem = Some mem' \<and> pixcel_read w mem' x y = c"
    unfolding window_flush_height eq by (metis option.simps(5))
  moreover have "\<not> in_frame_buffer w (pixcel_addr w x y)"
  proof -
    have "pw_pixcels_per_scan_line w * pw_vertical_resolution w \<le> y * pw_pixcels_per_scan_line w + x"
      using mult_le_mono1[OF assms(4), of "pw_pixcels_per_scan_line w"] by (simp only: mult.commute trans_le_add1)
    then have "4 * (pw_pixcels_per_scan_line w * pw_vertical_resolution w) \<le> (y * pw_pixcels_per_scan_line w + x) * 4"
      by (simp only: mult.commute[of 4] mult_le_mono1)
    then show ?thesis unfolding in_frame_buffer_def pixcel_addr_def by linarith
  qed
  ultimately show ?thesis by blast
qed

theorem flush_past_frame_buffer_witness:
  "\<exists>mem'. window_flush example_screen (example_window None \<lparr>pos_x = 4, pos_y = 19\<rparr>) (\<lambda>_. 9) = Some mem' \<and>
     pixcel_read example_screen mem' 5 21 = Color_black \<and> \<not> in_frame_buffer example_screen (pixcel_addr example_screen 5 21)"
proof (rule flush_past_frame_buffer[where v = 30])
  show "on_screen (example_screen\<lparr>pw_vertical_resolution := 30\<rparr>) (example_window None \<lparr>pos_x = 4, pos_y = 19\<rparr>)"
    by (simp add: on_screen_def example_window_sel) (simp add: example_screen_def new_raw_def)
  show "window_picture example_screen (example_window None \<lparr>pos_x = 4, pos_y = 19\<rparr>) 5 21 = Some Color_black"
    by (simp add: window_picture_def example_window_sel Let_def)
      (simp add: example_screen_def new_raw_def example_window_def Window_new_def win_color_def)
qed (simp_all add: pixcel_wf_def example_screen_def new_raw_def)

text \<open>Drawing a shape into a window that is large enough (the mouse cursor's layer) never panics and
  leaves in the window exactly the pixels of the shape, with the rest of the window unchanged.\<close>

theorem fill_shape_in_window:
  assumes "window_ok win" "vx pos + get_width sh \<le> win_width win" "vy pos + get_height sh \<le> win_h win"
    and "win_width win < usize_limit" "win_h win < usize_limit"
    and "\<And>x y. x < get_width sh \<Longrightarrow> y < get_height sh \<Longrightarrow> get_pixel sh x y \<noteq> None"
  shows "\<exists>win'. fill_shape window_write pos sh win = Some win' \<and> window_ok win' \<and>
           (\<forall>x y. win_inside win x y \<longrightarrow> win_color win' x y =
              (case shape_picture sh (vx pos) (vy pos) x y of None \<Rightarrow> win_color win x y | Some c \<Rightarrow> c))"
proof -
  have "frame_in (win_inside win) (vx pos) (vy pos) (get_width sh) (get_height sh)"
    using assms(2-5) by (auto simp: frame_in_def win_inside_def)
  from window.draws_shape[OF this assms(6)] assms(1) show ?thesis
    unfolding window.draws_def window.paints_def by blast
qed

theorem fill_shape_in_window_witness:
  "\<exists>win'. fill_shape window_write \<lparr>vx = 0, vy = 1\<rparr> (array_shape mouse_pixel_into_color 2 1 [[Cursor, Frame]])
      (example_window None \<lparr>pos_x = 4, pos_y = 5\<rparr>) = Some win' \<and> window_ok win' \<and> win_color win' 0 1 = Color_white"
proof -
  let ?sh = "array_shape mouse_pixel_into_color 2 1 [[Cursor, Frame]]"
  let ?win = "example_window None \<lparr>pos_x = 4, pos_y = 5\<rparr>"
  have "get_pixel ?sh x y \<noteq> None" if "x < get_width ?sh" "y < get_height ?sh" for x y
    using that by (auto simp: array_shape_def get_idx_def)
  moreover have "win_inside ?win 0 1" by (simp add: win_inside_def example_window_sel)
  moreover have "shape_picture ?sh 0 1 0 1 = Some Color_white"
    by (simp add: shape_picture_def array_shape_def Color_new_def Color_white_def)
  ultimately show ?thesis
    using fill_shape_in_window[OF example_window_sel(1), of "\<lparr>vx = 0, vy = 1\<rparr>" ?sh None "\<lparr>pos_x = 4, pos_y = 5\<rparr>"]
    by (fastforce simp: example_window_sel array_shape_def)
qed

end
