(* ===== verification/Lifegame.thy ===== *)
theory Lifegame
  imports Layers
begin

text \<open>
  The game of life of \<^verbatim>\<open>kernel/src/lifegame.rs\<close>: the rule as the source computes it, cell by cell
  with explicit bounds checks, and Conway's rule as its specification.
\<close>

definition LG_SIZE :: usize where "LG_SIZE = 20"
definition PIXCEL_SIZE :: usize where "PIXCEL_SIZE = 30"
definition BOARD_POS :: Vector2D where "BOARD_POS = Vector2D_new 0 0"

definition frame_buffer_position_to_board_position :: "Vector2D \<Rightarrow> (usize \<times> usize) option option" where
  "frame_buffer_position_to_board_position p = do {
     x \<leftarrow> iadd (usize_as_isize (vx p)) (- usize_as_isize (vx BOARD_POS));
     y \<leftarrow> iadd (usize_as_isize (vy p)) (- usize_as_isize (vy BOARD_POS));
     Some (if x < 0 \<or> y < 0 then None
           else let x = nat x div PIXCEL_SIZE; y = nat y div PIXCEL_SIZE in
             if x \<ge> LG_SIZE \<or> y \<ge> LG_SIZE then None else Some (x, y))
   }"

definition initial_board :: "u8 list list" where
  "initial_board = [
     [0, 0, 0, 0, 0, 0, 0, 0, 0, 0, 0, 0, 0, 0, 0, 0, 0, 0, 0, 0],
     [0, 0, 0, 0, 0, 0, 0, 0, 0, 0, 0, 0, 0, 0, 0, 0, 0, 0, 0, 0],
     [0, 0, 0, 0, 0, 0, 0, 0, 0, 0, 0, 0, 0, 0, 0, 0, 0, 0, 0, 0],
     [0, 0, 0, 0, 0, 0, 0, 0, 0, 0, 0, 0, 0, 0, 0, 0, 0, 0, 0, 0],
     [0, 0, 0, 0, 0, 0, 0, 0, 0, 0, 0, 0, 0, 0, 0, 0, 0, 0, 0, 0],
     [0, 0, 0, 0, 0, 0, 0, 0, 0, 0, 0, 0, 0, 0, 0, 0, 0, 0, 0, 0],
     [0, 0, 0, 0, 0, 0, 0, 0, 0, 0, 0, 0, 0, 1, 1, 1, 0, 0, 0, 0],
     [0, 0, 0, 0, 0, 0, 0, 0, 0, 0, 0, 0, 0, 1, 0, 0, 0, 0, 0, 0],
     [0, 0, 0, 0, 0, 0, 0, 0, 0, 0, 0, 0, 0, 0, 1, 0, 0, 0, 0, 0],
     [0, 0, 0, 0, 0, 0, 0, 0, 0, 0, 0, 0, 0, 0, 0, 0, 0, 0, 0, 0],
     [0, 0, 0, 0, 0, 0, 0, 0, 0, 0, 0, 0, 0, 0, 0, 0, 0, 0, 0, 0],
     [0, 0, 0, 0, 0, 0, 0, 0, 0, 0, 0, 1, 1, 0, 0, 0, 0, 0, 0, 0],
     [0, 0, 0, 0, 0, 0, 0, 0, 0, 0, 1, 0, 0, 1, 0, 0, 0, 0, 0, 0],
     [0, 0, 0, 0, 0, 0, 0, 0, 0, 0, 0, 1, 1, 0, 0, 0, 0, 0, 0, 0],
     [0, 0, 0, 0, 0, 0, 0, 0, 0, 0, 0, 0, 0, 0, 0, 0, 0, 0, 0, 0],
     [0, 0, 0, 0, 0, 0, 0, 0, 0, 0, 0, 0, 0, 0, 0, 0, 0, 0, 0, 0],
     [0, 0, 0, 0, 0, 0, 0, 0, 0, 0, 1, 1, 0, 0, 0, 0, 0, 0, 0, 0],
     [0, 0, 0, 0, 0, 0, 0, 0, 0, 1, 0, 0, 0, 0, 0, 0, 0, 0, 0, 0],
     [0, 0, 0, 0, 0, 0, 0, 0, 0, 0, 0, 0, 1, 0, 0, 0, 0, 0, 0, 0],
     [0, 0, 0, 0, 0, 0, 0, 0, 0, 0, 1, 1, 0, 0, 0, 0, 0, 0, 0, 0]]"

definition initial_cells :: "bool list list" where
  "initial_cells = map (map (\<lambda>n. n = 1)) initial_board"

text \<open>The loop over the queue of clicked cells.\<close>

fun drain_clicks :: "(usize \<times> usize) list \<Rightarrow> bool list list \<Rightarrow> bool list list option" where
  "drain_clicks [] board = Some board"
| "drain_clicks ((x, y) # queue) board = do {
     row \<leftarrow> get_idx board y;
     row' \<leftarrow> set_idx row x True;
     board' \<leftarrow> set_idx board y row';
     drain_clicks queue board'
   }"

definition count_neighbours :: "usize \<Rightarrow> bool list list \<Rightarrow> usize \<Rightarrow> usize \<Rightarrow> nat option" where
  "count_neighbours sz board i j =
     for_each [- 1, 0, 1 :: int] (\<lambda>x. for_each [- 1, 0, 1 :: int] (\<lambda>y count.
       if x = 0 \<and> y = 0 then Some count
       else let x = int i + x; y = int j + y in
         if x < 0 \<or> x \<ge> int sz \<or> y < 0 \<or> y \<ge> int sz then Some count
         else do {
           row \<leftarrow> get_idx board (nat x);
           alive \<leftarrow> get_idx row (nat y);
           Some (if alive then count + 1 else count)
         })) 0"

definition set_cell :: "usize \<Rightarrow> usize \<Rightarrow> bool \<Rightarrow> bool list list \<Rightarrow> bool list list option" where
  "set_cell i j v board = do {
     row \<leftarrow> get_idx board i;
     row' \<leftarrow> set_idx row j v;
     set_idx board i row'
   }"

definition process :: "usize \<Rightarrow> bool list list \<Rightarrow> bool list list option" where
  "process sz board = do {
     next_board \<leftarrow> for_each [0..<sz] (\<lambda>i. for_each [0..<sz] (\<lambda>j next_board. do {
       count \<leftarrow> count_neighbours sz board i j;
       row \<leftarrow> get_idx board i;
       alive \<leftarrow> get_idx row j;
       (if alive then
          (if count = 2 \<or> count = 3 then set_cell i j True next_board else Some next_board)
        else if count = 3 then set_cell i j True next_board else Some next_board)
     })) (replicate sz (replicate sz False));
     for_each [0..<sz] (\<lambda>i. for_each [0..<sz] (\<lambda>j board. do {
       row \<leftarrow> get_idx next_board i;
       v \<leftarrow> get_idx row j;
       set_cell i j v board
     })) board
   }"

section \<open>Conway's rule\<close>

definition square :: "nat \<Rightarrow> bool list list \<Rightarrow> bool" where
  "square sz board \<longleftrightarrow> length board = sz \<and> (\<forall>row \<in> set board. length row = sz)"

definition neighbours :: "nat \<Rightarrow> nat \<Rightarrow> nat \<Rightarrow> (nat \<times> nat) set" where
  "neighbours sz i j = {(x, y). x < sz \<and> y < sz \<and> (x, y) \<noteq> (i, j) \<and>
     \<bar>int x - int i\<bar> \<le> 1 \<and> \<bar>int y - int j\<bar> \<le> 1}"

definition live_neighbours :: "nat \<Rightarrow> bool list list \<Rightarrow> nat \<Rightarrow> nat \<Rightarrow> nat" where
  "live_neighbours sz board i j = card {(x, y) \<in> neighbours sz i j. board ! x ! y}"

definition conway :: "nat \<Rightarrow> bool list list \<Rightarrow> nat \<Rightarrow> nat \<Rightarrow> bool" where
  "conway sz board i j \<longleftrightarrow>
     (let n = live_neighbours sz board i j in if board ! i ! j then n = 2 \<or> n = 3 else n = 3)"

lemma square_row: "square sz board \<Longrightarrow> i < sz \<Longrightarrow> length (board ! i) = sz"
  by (simp add: square_def)

lemma for_each_count:
  "(\<And>x c. x \<in> set xs \<Longrightarrow> f x c = Some (c + g x)) \<Longrightarrow> for_each xs f c = Some (c + sum_list (map g xs))"
  by (induction xs arbitrary: c) (auto simp: add.assoc)

lemma sum_list_product:
  "sum_list (map (\<lambda>x. sum_list (map (\<lambda>y. g x y) ys)) xs) = sum_list (map (\<lambda>(x, y). g x y) (List.product xs ys))"
  by (induction xs) (simp_all add: o_def)

lemma sum_list_indicator: "sum_list (map (\<lambda>p. if Q p then 1 else 0) ps) = length (filter Q ps)" for ps :: "'a list"
  by (induction ps) auto

definition offset_alive :: "nat \<Rightarrow> bool list list \<Rightarrow> nat \<Rightarrow> nat \<Rightarrow> int \<times> int \<Rightarrow> bool" where
  "offset_alive sz board i j = (\<lambda>(dx, dy). (dx, dy) \<noteq> (0, 0) \<and> 0 \<le> int i + dx \<and> int i + dx < int sz \<and>
     0 \<le> int j + dy \<and> int j + dy < int sz \<and> board ! nat (int i + dx) ! nat (int j + dy))"

abbreviation "offsets \<equiv> List.product [- 1, 0, 1 :: int] [- 1, 0, 1 :: int]"

lemma live_neighbours_offsets:
  "length (filter (offset_alive sz board i j) offsets) = live_neighbours sz board i j"
proof -
  let ?D = "set (filter (offset_alive sz board i j) offsets)"
  let ?h = "\<lambda>(dx, dy). (nat (int i + dx), nat (int j + dy))"
  have D: "?D = {(dx, dy). dx \<in> {- 1, 0, 1} \<and> dy \<in> {- 1, 0, 1} \<and> offset_alive sz board i j (dx, dy)}"
    by (simp only: set_filter set_product list.set) blast
  have "length (filter (offset_alive sz board i j) offsets) = card ?D"
    by (rule distinct_card[symmetric], rule distinct_filter) (simp add: distinct_product)
  also have "card ?D = card (?h ` ?D)"
  proof (rule card_image[symmetric], rule inj_onI)
    fix p q assume "p \<in> ?D" "q \<in> ?D" and eq: "?h p = ?h q"
    then have "offset_alive sz board i j p" "offset_alive sz board i j q" by (simp_all only: set_filter mem_Collect_eq)
    with eq show "p = q" by (cases p; cases q) (auto simp: offset_alive_def)
  qed
  also have "?h ` ?D = {(x, y) \<in> neighbours sz i j. board ! x ! y}"
  proof (intro equalityI subsetI)
    fix p assume "p \<in> ?h ` ?D"
    then show "p \<in> {(x, y) \<in> neighbours sz i j. board ! x ! y}"
      unfolding D by (auto simp: offset_alive_def neighbours_def)
  next
    fix p assume "p \<in> {(x, y) \<in> neighbours sz i j. board ! x ! y}"
    then obtain x y where p: "p = (x, y)" "(x, y) \<in> neighbours sz i j" "board ! x ! y" by auto
    let ?d = "(int x - int i, int y - int j)"
    have "int x - int i \<in> {- 1, 0, 1}" "int y - int j \<in> {- 1, 0, 1}" using p(2) by (auto simp: neighbours_def)
    moreover have "offset_alive sz board i j ?d" using p by (auto simp: neighbours_def offset_alive_def)
    ultimately have "?d \<in> ?D" unfolding D by blast
    moreover have "p = ?h ?d" using p(1) by simp
    ultimately show "p \<in> ?h ` ?D" by blast
  qed
  finally show ?thesis by (simp add: live_neighbours_def)
qed

lemma count_neighbours_eq:
  assumes "square sz board" "i < sz" "j < sz"
  shows "count_neighbours sz board i j = Some (live_neighbours sz board i j)"
proof -
  let ?g = "\<lambda>dx dy. if offset_alive sz board i j (dx, dy) then 1 else 0 :: nat"
  have cell: "(if x = 0 \<and> y = 0 then Some c
       else let x = int i + x; y = int j + y in
         if x < 0 \<or> x \<ge> int sz \<or> y < 0 \<or> y \<ge> int sz then Some c
         else do { row \<leftarrow> get_idx board (nat x); alive \<leftarrow> get_idx row (nat y);
                   Some (if alive then c + 1 else c) }) = Some (c + ?g x y)" for x y c
    using assms(1) square_row[OF assms(1), of "nat (int i + x)"]
    by (auto simp: offset_alive_def Let_def square_def)
  have "count_neighbours sz board i j =
      Some (0 + sum_list (map (\<lambda>dx. sum_list (map (?g dx) [- 1, 0, 1])) [- 1, 0, 1]))"
    unfolding count_neighbours_def
    by (rule for_each_count, rule for_each_count) (rule cell)
  also have "sum_list (map (\<lambda>dx. sum_list (map (?g dx) [- 1, 0, 1])) [- 1, 0, 1]) =
      length (filter (offset_alive sz board i j) offsets)"
    unfolding sum_list_product sum_list_indicator[symmetric] by (simp add: case_prod_unfold)
  finally show ?thesis by (simp only: live_neighbours_offsets add_0)
qed

text \<open>A loop over all cells that changes each cell once.\<close>

lemma grid_loop:
  assumes "square sz b0"
    and step: "\<And>i j b. i < sz \<Longrightarrow> j < sz \<Longrightarrow> square sz b \<Longrightarrow> \<exists>b'. f i j b = Some b' \<and> square sz b' \<and>
        (\<forall>x < sz. \<forall>y < sz. b' ! x ! y = (if x = i \<and> y = j then u i j (b ! i ! j) else b ! x ! y))"
  shows "\<exists>b'. for_each [0..<sz] (\<lambda>i. for_each [0..<sz] (f i)) b0 = Some b' \<and> square sz b' \<and>
           (\<forall>x < sz. \<forall>y < sz. b' ! x ! y = u x y (b0 ! x ! y))"
proof -
  define P where "P = (\<lambda>i j b. square sz b \<and> (\<forall>x < sz. \<forall>y < sz.
      b ! x ! y = (if x < i \<or> x = i \<and> y < j then u x y (b0 ! x ! y) else b0 ! x ! y)))"
  have cell: "\<exists>b'. f i j b = Some b' \<and> P i (Suc j) b'" if "i < sz" "j < sz" "P i j b" for i j b
  proof -
    have "square sz b" using that(3) by (simp add: P_def)
    from step[OF that(1,2) this] obtain b' where b': "f i j b = Some b'" "square sz b'"
      "\<And>x y. x < sz \<Longrightarrow> y < sz \<Longrightarrow> b' ! x ! y = (if x = i \<and> y = j then u i j (b ! i ! j) else b ! x ! y)"
      by blast
    have "P i (Suc j) b'"
      unfolding P_def using b'(2) b'(3) that by (auto simp: P_def less_Suc_eq)
    with b'(1) show ?thesis by blast
  qed
  have row: "\<exists>b'. for_each [0..<sz] (f i) b = Some b' \<and> P i sz b'" if "i < sz" "P i 0 b" for i b
    by (rule for_each_upt_rule[where P = "P i"]) (use that cell in auto)
  have next_row: "P i sz b = P (Suc i) 0 b" for i b
    unfolding P_def by (auto simp: less_Suc_eq)
  have "\<exists>b'. for_each [0..<sz] (\<lambda>i. for_each [0..<sz] (f i)) b0 = Some b' \<and> P sz 0 b'"
  proof (rule for_each_upt_rule[where P = "\<lambda>i. P i 0"])
    show "P 0 0 b0" using assms(1) by (simp add: P_def)
    show "\<exists>b'. for_each [0..<sz] (f i) b = Some b' \<and> P (Suc i) 0 b'" if "i < sz" "P i 0 b" for i b
      using row[OF that] by (simp only: next_row)
  qed simp
  then show ?thesis by (auto simp: P_def)
qed

lemma set_cell_eq:
  assumes "square sz b" "i < sz" "j < sz"
  shows "\<exists>b'. set_cell i j v b = Some b' \<and> square sz b' \<and>
           (\<forall>x < sz. \<forall>y < sz. b' ! x ! y = (if x = i \<and> y = j then v else b ! x ! y))"
proof -
  have len: "length b = sz" "length (b ! i) = sz" using assms square_row by (auto simp: square_def)
  have "square sz (b[i := (b ! i)[j := v]])"
    using assms(1) len by (auto simp: square_def dest: set_update_subset_insert[THEN subsetD])
  with len assms(2,3) show ?thesis by (auto simp: set_cell_def nth_list_update)
qed

lemma process_spec:
  assumes "square sz board"
  shows "\<exists>board'. process sz board = Some board' \<and> square sz board' \<and>
           (\<forall>i < sz. \<forall>j < sz. board' ! i ! j = conway sz board i j)"
proof -
  let ?f = "\<lambda>i j next_board. do {
       count \<leftarrow> count_neighbours sz board i j; row \<leftarrow> get_idx board i; alive \<leftarrow> get_idx row j;
       (if alive then (if count = 2 \<or> count = 3 then set_cell i j True next_board else Some next_board)
        else if count = 3 then set_cell i j True next_board else Some next_board) }"
  have f: "?f i j b = (if conway sz board i j then set_cell i j True b else Some b)" if "i < sz" "j < sz" for i j b
    using that assms square_row[OF assms, of i] by (simp add: count_neighbours_eq conway_def square_def Let_def)
  have sq0: "square sz (replicate sz (replicate sz False))" by (simp add: square_def)
  have "\<exists>b'. ?f i j b = Some b' \<and> square sz b' \<and> (\<forall>x < sz. \<forall>y < sz.
      b' ! x ! y = (if x = i \<and> y = j then conway sz board i j \<or> b ! i ! j else b ! x ! y))"
    if "i < sz" "j < sz" "square sz b" for i j b
    unfolding f[OF that(1,2)] using set_cell_eq[OF that(3,1,2), of True] that(3) by auto
  from grid_loop[where f = ?f and u = "\<lambda>i j old. conway sz board i j \<or> old", OF sq0 this]
  obtain nb where nb: "for_each [0..<sz] (\<lambda>i. for_each [0..<sz] (?f i)) (replicate sz (replicate sz False)) = Some nb"
    "square sz nb" "\<And>i j. i < sz \<Longrightarrow> j < sz \<Longrightarrow> nb ! i ! j = conway sz board i j"
    by auto
  let ?g = "\<lambda>i j board. do { row \<leftarrow> get_idx nb i; v \<leftarrow> get_idx row j; set_cell i j v board }"
  have g: "?g i j b = set_cell i j (nb ! i ! j) b" if "i < sz" "j < sz" for i j b
    using that nb(2) square_row[OF nb(2), of i] by (simp add: square_def)
  have "\<exists>b'. ?g i j b = Some b' \<and> square sz b' \<and> (\<forall>x < sz. \<forall>y < sz.
      b' ! x ! y = (if x = i \<and> y = j then nb ! i ! j else b ! x ! y))"
    if "i < sz" "j < sz" "square sz b" for i j b
    unfolding g[OF that(1,2)] by (rule set_cell_eq[OF that(3,1,2)])
  from grid_loop[where f = ?g and u = "\<lambda>i j old. nb ! i ! j", OF assms this]
  obtain b' where "for_each [0..<sz] (\<lambda>i. for_each [0..<sz] (?g i)) board = Some b'" "square sz b'"
    "\<And>i j. i < sz \<Longrightarrow> j < sz \<Longrightarrow> b' ! i ! j = nb ! i ! j"
    by blast
  with nb show ?thesis unfolding process_def by simp
qed

lemma drain_clicks_ok:
  assumes "square sz board" "list_all (\<lambda>(x, y). x < sz \<and> y < sz) queue"
  shows "\<exists>board'. drain_clicks queue board = Some board' \<and> square sz board' \<and>
           (\<forall>x < sz. \<forall>y < sz. board' ! y ! x = (board ! y ! x \<or> (x, y) \<in> set queue))"
  using assms
proof (induction queue arbitrary: board)
  case Nil
  then show ?case by simp
next
  case (Cons c queue)
  obtain x y where c: "c = (x, y)" "x < sz" "y < sz" using Cons.prems(2) by (cases c) auto
  obtain b where b: "set_cell y x True board = Some b" "square sz b"
    "\<And>i j. i < sz \<Longrightarrow> j < sz \<Longrightarrow> b ! i ! j = (if i = y \<and> j = x then True else board ! i ! j)"
    using set_cell_eq[OF Cons.prems(1) c(3,2), of True] by blast
  have "drain_clicks (c # queue) board = drain_clicks queue b"
    using b(1) c(1) by (auto simp: set_cell_def bind_eq_Some_conv)
  moreover obtain b' where "drain_clicks queue b = Some b'" "square sz b'"
    "\<And>i j. i < sz \<Longrightarrow> j < sz \<Longrightarrow> b' ! j ! i = (b ! j ! i \<or> (i, j) \<in> set queue)"
    using Cons.IH[OF b(2)] Cons.prems(2) by auto
  ultimately show ?case using b(3) c by auto
qed

section \<open>Properties\<close>

text \<open>C28: One generation of the game, as the source computes it, is Conway's rule on a bounded board: it
  never panics on a square board and every cell lives on or is born exactly when the rule says so.\<close>

theorem process_is_conway:
  assumes "square sz board"
  shows "\<exists>board'. process sz board = Some board' \<and> square sz board' \<and>
           (\<forall>i < sz. \<forall>j < sz. board' ! i ! j = conway sz board i j)"
  using assms by (rule process_spec)

theorem process_is_conway_witness:
  "\<exists>board'. process 3 [[False, True, False], [False, True, False], [False, True, False]] = Some board' \<and>
     square 3 board' \<and>
     (\<forall>i < 3. \<forall>j < 3. board' ! i ! j =
        conway 3 [[False, True, False], [False, True, False], [False, True, False]] i j)"
  by (rule process_is_conway) (simp add: square_def)

text \<open>A position on the screen is turned into the cell drawn there: when the function returns a cell,
  the cell is on the board and its square of \<^verbatim>\<open>PIXCEL_SIZE\<close> pixels contains the position, so marking it
  cannot index outside the board; it returns none exactly for positions outside the board.\<close>

theorem board_position_correct:
  assumes "vx p < 9223372036854775808" "vy p < 9223372036854775808"
  shows "\<exists>r. frame_buffer_position_to_board_position p = Some r \<and>
           (case r of
              Some (x, y) \<Rightarrow> x < LG_SIZE \<and> y < LG_SIZE \<and> x * PIXCEL_SIZE \<le> vx p \<and> vx p < x * PIXCEL_SIZE + PIXCEL_SIZE \<and>
                y * PIXCEL_SIZE \<le> vy p \<and> vy p < y * PIXCEL_SIZE + PIXCEL_SIZE
            | None \<Rightarrow> LG_SIZE * PIXCEL_SIZE \<le> vx p \<or> LG_SIZE * PIXCEL_SIZE \<le> vy p)"
proof -
  have "frame_buffer_position_to_board_position p = Some
      (if 20 \<le> vx p div 30 \<or> 20 \<le> vy p div 30 then None else Some (vx p div 30, vy p div 30))"
    using assms by (simp add: frame_buffer_position_to_board_position_def usize_as_isize_def iadd_def BOARD_POS_def
        Vector2D_new_def LG_SIZE_def PIXCEL_SIZE_def Let_def)
  then show ?thesis by (auto simp: LG_SIZE_def PIXCEL_SIZE_def)
qed

theorem board_position_correct_witness:
  "\<exists>r. frame_buffer_position_to_board_position \<lparr>vx = 61, vy = 599\<rparr> = Some r \<and>
     (case r of
        Some (x, y) \<Rightarrow> x < LG_SIZE \<and> y < LG_SIZE \<and> x * PIXCEL_SIZE \<le> vx \<lparr>vx = 61, vy = 599\<rparr> \<and>
          vx \<lparr>vx = 61, vy = 599\<rparr> < x * PIXCEL_SIZE + PIXCEL_SIZE \<and>
          y * PIXCEL_SIZE \<le> vy \<lparr>vx = 61, vy = 599\<rparr> \<and> vy \<lparr>vx = 61, vy = 599\<rparr> < y * PIXCEL_SIZE + PIXCEL_SIZE
      | None \<Rightarrow> LG_SIZE * PIXCEL_SIZE \<le> vx \<lparr>vx = 61, vy = 599\<rparr> \<or> LG_SIZE * PIXCEL_SIZE \<le> vy \<lparr>vx = 61, vy = 599\<rparr>)"
  by (rule board_position_correct) simp_all

end
