(* ===== verification/Console.thy ===== *)
theory Console
  imports Frame_Buffer
begin

text \<open>
  The text console, \<^verbatim>\<open>Writer\<close> of \<^verbatim>\<open>kernel-lib/src/lib.rs\<close>: a grid of characters with a cursor that
  is repainted at every new line. The constant generics \<^verbatim>\<open>N_ROW\<close> and \<^verbatim>\<open>N_COLUMN\<close> are components of
  the record, and the trait object \<^verbatim>\<open>writer: &dyn AsciiWriter\<close> is the operation \<open>wa\<close>
  (\<^verbatim>\<open>write_ascii\<close>) on a state of its own that is threaded next to the record.
\<close>

record CursorPosition =
  cur_x :: usize
  cur_y :: usize

definition just_new_line :: "CursorPosition \<Rightarrow> CursorPosition option" where
  "just_new_line p = do { y \<leftarrow> uadd (cur_y p) 1; Some (p\<lparr>cur_x := 0, cur_y := y\<rparr>) }"

record Writer =
  n_row :: usize
  n_column :: usize
  w_position :: CursorPosition
  background_color :: Color
  foreground_color :: Color
  w_buffer :: "code_point list list"

type_synonym 's ascii_op = "usize \<Rightarrow> usize \<Rightarrow> code_point \<Rightarrow> Color \<Rightarrow> Color \<Rightarrow> 's \<Rightarrow> 's option"

definition Writer_new :: "usize \<Rightarrow> usize \<Rightarrow> Writer" where
  "Writer_new rows cols =
     \<lparr>n_row = rows, n_column = cols, w_position = \<lparr>cur_x = 0, cur_y = 0\<rparr>, background_color = Color_black,
      foreground_color = Color_white, w_buffer = replicate rows (replicate cols 32)\<rparr>"

definition store :: "code_point \<Rightarrow> Writer \<Rightarrow> Writer option" where
  "store c w = do {
     row \<leftarrow> get_idx (w_buffer w) (cur_y (w_position w));
     row' \<leftarrow> set_idx row (cur_x (w_position w)) c;
     buffer' \<leftarrow> set_idx (w_buffer w) (cur_y (w_position w)) row';
     Some (w\<lparr>w_buffer := buffer'\<rparr>)
   }"

definition scroll :: "usize \<Rightarrow> Writer \<Rightarrow> Writer option" where
  "scroll dy w = do {
     n \<leftarrow> usub (n_row w) dy;
     buffer1 \<leftarrow> for_each [0..<n] (\<lambda>y b. do {
       y' \<leftarrow> uadd y dy;
       row \<leftarrow> get_idx b y';
       set_idx b y row }) (w_buffer w);
     buffer2 \<leftarrow> for_each [n..<n_row w] (\<lambda>y b. set_idx b y (replicate (n_column w) 32)) buffer1;
     y \<leftarrow> usub (cur_y (w_position w)) dy;
     Some (w\<lparr>w_buffer := buffer2, w_position := \<lparr>cur_x = 0, cur_y = y\<rparr>\<rparr>)
   }"

definition flush :: "'s ascii_op \<Rightarrow> Writer \<Rightarrow> 's \<Rightarrow> 's option" where
  "flush wa w s =
     for_each [0..<n_row w] (\<lambda>y. for_each [0..<n_column w] (\<lambda>x s. do {
       px \<leftarrow> umul x 8;
       py \<leftarrow> umul y 16;
       row \<leftarrow> get_idx (w_buffer w) y;
       c \<leftarrow> get_idx row x;
       wa px py c (background_color w) (foreground_color w) s
     })) s"

definition new_line :: "'s ascii_op \<Rightarrow> Writer \<times> 's \<Rightarrow> (Writer \<times> 's) option" where
  "new_line wa = (\<lambda>(w, s). do {
     w \<leftarrow> (if cur_y (w_position w) < n_row w
          then do { p \<leftarrow> just_new_line (w_position w); Some (w\<lparr>w_position := p\<rparr>) }
          else scroll 1 w);
     s \<leftarrow> flush wa w s;
     Some (w, s)
   })"

definition store_and_advance :: "code_point \<Rightarrow> Writer \<Rightarrow> Writer option" where
  "store_and_advance c w = do {
     w \<leftarrow> store c w;
     x \<leftarrow> uadd (cur_x (w_position w)) 1;
     Some (w\<lparr>w_position := (w_position w)\<lparr>cur_x := x\<rparr>\<rparr>)
   }"

definition put_char :: "'s ascii_op \<Rightarrow> code_point \<Rightarrow> Writer \<times> 's \<Rightarrow> (Writer \<times> 's) option" where
  "put_char wa c = (\<lambda>(w, s).
     if c = 10 then new_line wa (w, s)
     else if cur_x (w_position w) < n_column w \<and> cur_y (w_position w) < n_row w
     then do { w \<leftarrow> store_and_advance c w; Some (w, s) }
     else do {
       (w, s) \<leftarrow> new_line wa (w, s);
       w \<leftarrow> (if cur_y (w_position w) = n_row w then scroll 1 w else Some w);
       w \<leftarrow> store_and_advance c w;
       Some (w, s)
     })"

definition put_string :: "'s ascii_op \<Rightarrow> code_point list \<Rightarrow> Writer \<times> 's \<Rightarrow> (Writer \<times> 's) option" where
  "put_string wa str ws = for_each str (put_char wa) ws"

definition write_str :: "'s ascii_op \<Rightarrow> code_point list \<Rightarrow> Writer \<times> 's \<Rightarrow> ((Writer \<times> 's) \<times> (unit + unit)) option" where
  "write_str wa str ws = do { ws \<leftarrow> put_string wa str ws; Some (ws, Inr ()) }"

section \<open>The invariant, and that nothing panics\<close>

definition writer_ok :: "Writer \<Rightarrow> bool" where
  "writer_ok w \<longleftrightarrow> 0 < n_row w \<and> 0 < n_column w \<and> n_row w * 16 < usize_limit \<and> n_column w * 8 < usize_limit \<and>
     length (w_buffer w) = n_row w \<and> (\<forall>row \<in> set (w_buffer w). length row = n_column w) \<and>
     cur_x (w_position w) \<le> n_column w \<and> cur_y (w_position w) \<le> n_row w \<and>
     (cur_y (w_position w) = n_row w \<longrightarrow> cur_x (w_position w) = 0)"

text \<open>A writer below: it accepts a character at every cell of a grid of \<open>rows\<close> by \<open>cols\<close> cells.\<close>

locale ascii_sink =
  fixes wa :: "'s ascii_op" and ok :: "'s \<Rightarrow> bool" and rows cols :: nat
  assumes wa_total: "ok s \<Longrightarrow> x < cols \<Longrightarrow> y < rows \<Longrightarrow> \<exists>s'. wa (x * 8) (y * 16) c bg fg s = Some s' \<and> ok s'"

lemma writer_row_length: "writer_ok w \<Longrightarrow> y < n_row w \<Longrightarrow> length (w_buffer w ! y) = n_column w"
  by (simp add: writer_ok_def)

lemma scroll_rows:
  assumes "length b = n" "0 < n" "n < usize_limit"
  shows "for_each [0..<n - 1] (\<lambda>y b. do { y' \<leftarrow> uadd y 1; row \<leftarrow> get_idx b y'; set_idx b y row }) b
           = Some (tl b @ [last b])"
proof -
  let ?f = "\<lambda>y b. do { y' \<leftarrow> uadd y 1; row \<leftarrow> get_idx b y'; set_idx b y row }"
  have "\<exists>b'. for_each [0..<n - 1] ?f b = Some b' \<and>
      (length b' = n \<and> (\<forall>i < n. b' ! i = (if i < n - 1 then b ! (i + 1) else b ! i)))"
  proof (rule for_each_upt_rule[where P = "\<lambda>k b'. length b' = n \<and> (\<forall>i < n. b' ! i = (if i < k then b ! (i + 1) else b ! i))"])
    fix i b' assume "i < n - 1" and P: "length b' = n \<and> (\<forall>j < n. b' ! j = (if j < i then b ! (j + 1) else b ! j))"
    then show "\<exists>b''. ?f i b' = Some b'' \<and>
        (length b'' = n \<and> (\<forall>j < n. b'' ! j = (if j < Suc i then b ! (j + 1) else b ! j)))"
      using assms by (auto simp: nth_list_update less_Suc_eq)
  qed (use assms in auto)
  then obtain b' where b': "for_each [0..<n - 1] ?f b = Some b'" "length b' = n"
    "\<And>i. i < n \<Longrightarrow> b' ! i = (if i < n - 1 then b ! (i + 1) else b ! i)" by blast
  have "b \<noteq> []" using assms by auto
  then have "b' = tl b @ [last b]"
    using b'(2,3) assms by (intro nth_equalityI) (auto simp: nth_append nth_tl last_conv_nth intro!: arg_cong[where f = "(!) b"])
  with b'(1) show ?thesis by simp
qed

lemma scroll_eq:
  assumes "writer_ok w" "0 < cur_y (w_position w)"
  shows "scroll 1 w = Some (w\<lparr>w_buffer := tl (w_buffer w) @ [replicate (n_column w) 32],
           w_position := \<lparr>cur_x = 0, cur_y = cur_y (w_position w) - 1\<rparr>\<rparr>)"
proof -
  have n: "0 < n_row w" "length (w_buffer w) = n_row w" "n_row w < usize_limit" using assms(1) by (auto simp: writer_ok_def)
  have up: "[n_row w - 1..<n_row w] = [n_row w - 1]" using n(1) by (cases "n_row w") auto
  have "(tl (w_buffer w) @ [last (w_buffer w)])[n_row w - 1 := r] = tl (w_buffer w) @ [r]" for r
    using n by (simp add: list_update_append)
  then show ?thesis using assms(2) n scroll_rows[OF n(2,1,3)] by (simp add: scroll_def up[unfolded One_nat_def])
qed

lemma set_update_all:
  "(\<forall>x \<in> set xs. P x) \<Longrightarrow> P v \<Longrightarrow> \<forall>x \<in> set (xs[i := v]). P x"
  by (auto dest: set_update_subset_insert[THEN subsetD])

lemma store_and_advance_eq:
  assumes "writer_ok w" "cur_x (w_position w) < n_column w" "cur_y (w_position w) < n_row w"
  shows "store_and_advance c w = Some (w\<lparr>
           w_buffer := (w_buffer w)[cur_y (w_position w) := (w_buffer w ! cur_y (w_position w))[cur_x (w_position w) := c]],
           w_position := (w_position w)\<lparr>cur_x := cur_x (w_position w) + 1\<rparr>\<rparr>)"
  using assms writer_row_length[OF assms(1,3)]
  by (simp add: store_and_advance_def store_def writer_ok_def)

section \<open>An abstract terminal\<close>

text \<open>
  The specification: a page that only grows, one list of characters per line, of which the screen
  shows the lines from \<open>off\<close> on. The cursor is at the end of the last line. A new line that is
  written while the cursor is already below the last row of the screen scrolls but starts no line,
  as in the source.
\<close>

type_synonym page = "code_point list list"

definition pad :: "nat \<Rightarrow> code_point list \<Rightarrow> code_point list" where
  "pad cols l = l @ replicate (cols - length l) 32"

definition view :: "nat \<Rightarrow> nat \<Rightarrow> page \<times> nat \<Rightarrow> code_point list list" where
  "view rows cols = (\<lambda>(page, off).
     map (\<lambda>i. if off + i < length page then pad cols (page ! (off + i)) else replicate cols 32) [0..<rows])"

definition tty_put :: "nat \<Rightarrow> nat \<Rightarrow> code_point \<Rightarrow> page \<times> nat \<Rightarrow> page \<times> nat" where
  "tty_put rows cols c = (\<lambda>(page, off).
     let y = length page - 1 - off in
     if c = 10 then (if y < rows then (page @ [[]], off) else (page, off + 1))
     else if length (last page) < cols \<and> y < rows then (butlast page @ [last page @ [c]], off)
     else if y < rows then (page @ [[c]], if y + 1 = rows then off + 1 else off)
     else (butlast page @ [last page @ [c]], off + 1))"

definition tty_start :: "page \<times> nat" where
  "tty_start = ([[]], 0)"

definition displays :: "Writer \<Rightarrow> page \<times> nat \<Rightarrow> bool" where
  "displays w = (\<lambda>(page, off). page \<noteq> [] \<and> off < length page \<and>
     cur_y (w_position w) = length page - 1 - off \<and> cur_x (w_position w) = length (last page) \<and>
     w_buffer w = view (n_row w) (n_column w) (page, off))"

lemma pad_Nil: "pad cols [] = replicate cols 32"
  by (simp add: pad_def)

lemma pad_snoc: "length l < cols \<Longrightarrow> (pad cols l)[length l := c] = pad cols (l @ [c])"
proof -
  assume "length l < cols"
  then obtain k where "cols - length l = Suc k" by (metis Suc_diff_Suc)
  then show ?thesis by (simp add: pad_def list_update_append)
qed

lemma length_view [simp]: "length (view rows cols pt) = rows"
  by (simp add: view_def split: prod.split)

lemma view_new_line: "view rows cols (page @ [[]], off) = view rows cols (page, off)"
  by (auto simp: view_def nth_append pad_Nil)

lemma view_scroll:
  assumes "0 < rows" "length page \<le> Suc (off + rows)" "length page = Suc (off + rows) \<Longrightarrow> last page = []"
  shows "tl (view rows cols (page, off)) @ [replicate cols 32] = view rows cols (page, off + 1)"
proof (rule nth_equalityI)
  fix i assume "i < length (tl (view rows cols (page, off)) @ [replicate cols 32])"
  then have i: "i < rows" using assms(1) by (simp add: view_def)
  show "(tl (view rows cols (page, off)) @ [replicate cols 32]) ! i = view rows cols (page, off + 1) ! i"
  proof (cases "i < rows - 1")
    case True
    then show ?thesis by (simp add: view_def nth_append nth_tl)
  next
    case False
    with i have i: "i = rows - 1" by simp
    have "page ! (off + rows) = []" if "off + rows < length page"
    proof -
      have "length page = Suc (off + rows)" "page \<noteq> []" using assms(2) that by auto
      then show ?thesis using assms(3) last_conv_nth[of page] by simp
    qed
    then show ?thesis using i assms(1) by (auto simp: view_def nth_append pad_Nil)
  qed
qed (use assms(1) in \<open>simp add: view_def\<close>)

lemma view_put:
  assumes "page \<noteq> []" "off < length page" "length page - 1 - off < rows" "length (last page) < cols"
  shows "(view rows cols (page, off))[length page - 1 - off :=
            (view rows cols (page, off) ! (length page - 1 - off))[length (last page) := c]]
         = view rows cols (butlast page @ [last page @ [c]], off)"
proof (rule nth_equalityI)
  let ?y = "length page - 1 - off"
  have y: "off + ?y = length page - 1" using assms(1,2) by simp
  fix i assume "i < length ((view rows cols (page, off))[?y := (view rows cols (page, off) ! ?y)[length (last page) := c]])"
  then have i: "i < rows" by (simp add: view_def)
  show "(view rows cols (page, off))[?y := (view rows cols (page, off) ! ?y)[length (last page) := c]] ! i
      = view rows cols (butlast page @ [last page @ [c]], off) ! i"
  proof (cases "i = ?y")
    case True
    then show ?thesis
      using i y assms pad_snoc[OF assms(4), of c] by (simp add: view_def nth_append last_conv_nth)
  next
    case False
    then have "off + i < length page \<longleftrightarrow> off + i < length page - 1" using y by linarith
    then show ?thesis using False i assms(1) by (auto simp: view_def nth_append nth_butlast)
  qed
qed (simp add: view_def)

lemma tty_put_chars:
  assumes "page \<noteq> []" "tty_put rows cols c (page, off) = (page', off')"
  shows "concat page' = concat page @ (if c = 10 then [] else [c])" and "page' \<noteq> []"
proof -
  have "concat (butlast page @ [last page @ [c]]) = concat page @ [c]"
    using assms(1) by (metis append.assoc append_butlast_last_id concat.simps concat_append append_Nil2)
  with assms show "concat page' = concat page @ (if c = 10 then [] else [c])" "page' \<noteq> []"
    by (auto simp: tty_put_def Let_def split: if_splits)
qed

section \<open>The console refines the abstract terminal\<close>

definition same_shape :: "Writer \<Rightarrow> Writer \<Rightarrow> bool" where
  "same_shape w w' \<longleftrightarrow> n_row w' = n_row w \<and> n_column w' = n_column w \<and>
     background_color w' = background_color w \<and> foreground_color w' = foreground_color w"

lemma same_shape_refl [simp]: "same_shape w w"
  by (simp add: same_shape_def)

lemma same_shape_trans: "same_shape u v \<Longrightarrow> same_shape v w \<Longrightarrow> same_shape u w"
  by (simp add: same_shape_def)

lemma displays_scroll:
  assumes "writer_ok w" "displays w (page, off)" "cur_y (w_position w) = n_row w"
  shows "\<exists>w'. scroll 1 w = Some w' \<and> writer_ok w' \<and> same_shape w w' \<and> displays w' (page, off + 1) \<and>
           cur_y (w_position w') < n_row w' \<and> cur_x (w_position w') = 0"
proof -
  have n: "0 < n_row w" "0 < n_column w" and x: "cur_x (w_position w) = 0"
    using assms(1,3) by (auto simp: writer_ok_def)
  have d: "page \<noteq> []" "off < length page" "n_row w = length page - 1 - off" "last page = []"
    "w_buffer w = view (n_row w) (n_column w) (page, off)"
    using assms(2,3) x by (auto simp: displays_def)
  have len: "length page = Suc (off + n_row w)" using d n(1) by simp
  then have "tl (w_buffer w) @ [replicate (n_column w) 32] = view (n_row w) (n_column w) (page, off + 1)"
    unfolding d(5) using n(1) d(4) by (intro view_scroll) auto
  moreover have "\<forall>row \<in> set (tl (w_buffer w) @ [replicate (n_column w) 32]). length row = n_column w"
    using assms(1) by (cases "w_buffer w") (auto simp: writer_ok_def)
  moreover have "length (tl (w_buffer w) @ [replicate (n_column w) 32]) = n_row w"
    using assms(1) n by (simp add: writer_ok_def)
  ultimately show ?thesis
    using scroll_eq[OF assms(1)] assms(1,3) n d(1,4) len by (auto simp: writer_ok_def displays_def same_shape_def)
qed

lemma displays_store:
  assumes "writer_ok w" "displays w (page, off)" "cur_y (w_position w) < n_row w" "cur_x (w_position w) < n_column w"
  shows "\<exists>w'. store_and_advance c w = Some w' \<and> writer_ok w' \<and> same_shape w w' \<and>
           displays w' (butlast page @ [last page @ [c]], off)"
proof -
  have d: "page \<noteq> []" "off < length page" "cur_y (w_position w) = length page - 1 - off"
    "cur_x (w_position w) = length (last page)" "w_buffer w = view (n_row w) (n_column w) (page, off)"
    using assms(2) by (auto simp: displays_def)
  let ?row = "(w_buffer w ! cur_y (w_position w))[cur_x (w_position w) := c]"
  have "(w_buffer w)[cur_y (w_position w) := ?row] = view (n_row w) (n_column w) (butlast page @ [last page @ [c]], off)"
    using view_put[of page off "n_row w" "n_column w" c] d assms(3,4) by simp
  moreover have "\<forall>row \<in> set ((w_buffer w)[cur_y (w_position w) := ?row]). length row = n_column w"
    using assms(1) writer_row_length[OF assms(1,3)] by (intro set_update_all) (auto simp: writer_ok_def)
  ultimately show ?thesis
    using store_and_advance_eq[OF assms(1,4,3), of c] assms d(1-4) by (auto simp: writer_ok_def displays_def same_shape_def)
qed

context ascii_sink
begin

lemma flush_total:
  assumes "writer_ok w" "n_row w = rows" "n_column w = cols" "ok s"
  shows "\<exists>s'. flush wa w s = Some s' \<and> ok s'"
  unfolding flush_def
proof (intro for_each_inv assms(4))
  fix y x s assume "y \<in> set [0..<n_row w]" "x \<in> set [0..<n_column w]" "ok s"
  moreover from this have "x * 8 < usize_limit" "y * 16 < usize_limit" using assms(1) by (auto simp: writer_ok_def)
  ultimately show "\<exists>s'. do { px \<leftarrow> umul x 8; py \<leftarrow> umul y 16; row \<leftarrow> get_idx (w_buffer w) y; c \<leftarrow> get_idx row x;
       wa px py c (background_color w) (foreground_color w) s } = Some s' \<and> ok s'"
    using wa_total[of s x y] assms(1-3) writer_row_length[OF assms(1), of y] by (auto simp: writer_ok_def)
qed

lemma new_line_displays:
  assumes "writer_ok w" "n_row w = rows" "n_column w = cols" "ok s" "displays w (page, off)"
  shows "\<exists>w' s'. new_line wa (w, s) = Some (w', s') \<and> writer_ok w' \<and> same_shape w w' \<and> ok s' \<and>
           displays w' (tty_put rows cols 10 (page, off)) \<and> flush wa w' s = Some s'"
proof (cases "cur_y (w_position w) < n_row w")
  case True
  let ?w = "w\<lparr>w_position := \<lparr>cur_x = 0, cur_y = cur_y (w_position w) + 1\<rparr>\<rparr>"
  have "just_new_line (w_position w) = Some \<lparr>cur_x = 0, cur_y = cur_y (w_position w) + 1\<rparr>"
    using True assms(1) by (simp add: just_new_line_def writer_ok_def)
  moreover have ok: "writer_ok ?w" "n_row ?w = rows" "n_column ?w = cols" using assms True by (auto simp: writer_ok_def)
  moreover have "displays ?w (page @ [[]], off)" using assms(5) by (auto simp: displays_def view_new_line)
  moreover have "length page - 1 - off < rows" using True assms(2,5) by (auto simp: displays_def)
  ultimately show ?thesis
    using flush_total[OF ok assms(4)] True by (auto simp: new_line_def tty_put_def same_shape_def)
next
  case False
  then have y: "cur_y (w_position w) = n_row w" using assms(1) by (simp add: writer_ok_def)
  obtain w' where w': "scroll 1 w = Some w'" "writer_ok w'" "same_shape w w'" "displays w' (page, off + 1)"
    using displays_scroll[OF assms(1,5) y] by blast
  moreover have "\<not> length page - 1 - off < rows" using False assms(2,5) by (auto simp: displays_def)
  moreover have "n_row w' = rows" "n_column w' = cols" using w'(3) assms(2,3) by (auto simp: same_shape_def)
  ultimately show ?thesis
    using flush_total[of w' s] assms(4) False by (auto simp: new_line_def tty_put_def)
qed

lemma put_char_displays:
  assumes "writer_ok w" "n_row w = rows" "n_column w = cols" "ok s" "displays w (page, off)"
  shows "\<exists>w' s'. put_char wa c (w, s) = Some (w', s') \<and> writer_ok w' \<and> same_shape w w' \<and> ok s' \<and>
           displays w' (tty_put rows cols c (page, off))"
proof -
  let ?x = "cur_x (w_position w)" and ?y = "cur_y (w_position w)"
  have xy: "?y = length page - 1 - off" "?x = length (last page)" "page \<noteq> []" using assms(5) by (auto simp: displays_def)
  obtain v t where v: "new_line wa (w, s) = Some (v, t)" "writer_ok v" "same_shape w v" "ok t"
    "displays v (tty_put rows cols 10 (page, off))"
    using new_line_displays[OF assms] by blast
  have nv: "n_row v = rows" "n_column v = cols" "0 < cols" using v(3) assms(1-3) by (auto simp: same_shape_def writer_ok_def)
  consider "c = 10" | "c \<noteq> 10" "?x < cols" "?y < rows" | "c \<noteq> 10" "\<not> ?x < cols" "?y < rows" | "c \<noteq> 10" "?y = rows"
    using assms(1,2) by (fastforce simp: writer_ok_def)
  then show ?thesis
  proof cases
    case 1
    with v show ?thesis by (auto simp: put_char_def)
  next
    case 2
    with displays_store[OF assms(1,5), of c] assms(2-4) xy show ?thesis
      by (auto simp: put_char_def tty_put_def)
  next
    case 3
    then have dv: "displays v (page @ [[]], off)" using v(5) xy by (simp add: tty_put_def)
    then have yv: "cur_y (w_position v) = ?y + 1" "cur_x (w_position v) = 0"
      using xy assms(5) by (auto simp: displays_def)
    obtain u where u: "(if cur_y (w_position v) = n_row v then scroll 1 v else Some v) = Some u"
      "writer_ok u" "same_shape v u" "displays u (page @ [[]], if ?y + 1 = rows then off + 1 else off)"
      "cur_y (w_position u) < n_row u" "cur_x (w_position u) = 0"
      using displays_scroll[OF v(2) dv] v(2) dv yv nv 3 by (cases "?y + 1 = rows") auto
    moreover have "0 < n_column u" using u(2) by (simp add: writer_ok_def)
    ultimately obtain u' where "store_and_advance c u = Some u'" "writer_ok u'" "same_shape u u'"
      "displays u' (page @ [[c]], if ?y + 1 = rows then off + 1 else off)"
      using displays_store[OF u(2,4,5), of c] by auto
    with 3 v u xy assms(2,3) show ?thesis
      by (auto simp: put_char_def tty_put_def intro: same_shape_trans)
  next
    case 4
    then have dv: "displays v (page, off + 1)" using v(5) xy by (simp add: tty_put_def)
    then have yv: "cur_y (w_position v) < n_row v" "cur_x (w_position v) = 0" "last page = []"
      using xy 4 nv assms(1,2) by (auto simp: displays_def writer_ok_def)
    obtain u' where "store_and_advance c v = Some u'" "writer_ok u'" "same_shape v u'"
      "displays u' (butlast page @ [last page @ [c]], off + 1)"
      using displays_store[OF v(2) dv yv(1), of c] yv nv by auto
    with 4 v yv nv xy assms(2,3) show ?thesis
      by (auto simp: put_char_def tty_put_def intro: same_shape_trans)
  qed
qed

lemma put_string_displays:
  assumes "writer_ok w" "n_row w = rows" "n_column w = cols" "ok s" "displays w pt"
  shows "\<exists>w' s'. put_string wa str (w, s) = Some (w', s') \<and> writer_ok w' \<and> same_shape w w' \<and> ok s' \<and>
           displays w' (fold (tty_put rows cols) str pt)"
  using assms
proof (induction str arbitrary: w s pt)
  case Nil
  then show ?case by (auto simp: put_string_def)
next
  case (Cons c str)
  obtain v t where v: "put_char wa c (w, s) = Some (v, t)" "writer_ok v" "same_shape w v" "ok t"
    "displays v (tty_put rows cols c pt)"
    using put_char_displays[OF Cons.prems(1-4), of "fst pt" "snd pt" c] Cons.prems(5) by auto
  then have "n_row v = rows" "n_column v = cols" using Cons.prems(2,3) by (auto simp: same_shape_def)
  from Cons.IH[OF v(2) this v(4,5)] v(1,3) show ?case
    by (auto simp: put_string_def intro: same_shape_trans)
qed

end

lemma tty_chars:
  "fst pt \<noteq> [] \<Longrightarrow> concat (fst (fold (tty_put rows cols) str pt)) = concat (fst pt) @ filter (\<lambda>c. c \<noteq> 10) str"
proof (induction str arbitrary: pt)
  case (Cons c str)
  obtain page' off' where p: "tty_put rows cols c pt = (page', off')" by (cases "tty_put rows cols c pt")
  with tty_put_chars[of "fst pt" rows cols c "snd pt" page' off'] Cons.prems
  have "concat page' = concat (fst pt) @ (if c = 10 then [] else [c])" "page' \<noteq> []" by auto
  with Cons.IH[of "(page', off')"] p show ?case by simp
qed simp

lemma Writer_new_ok:
  assumes "0 < rows" "0 < cols" "rows * 16 < usize_limit" "cols * 8 < usize_limit"
  shows "writer_ok (Writer_new rows cols)" and "displays (Writer_new rows cols) tty_start"
  using assms by (auto simp: writer_ok_def Writer_new_def displays_def tty_start_def view_def pad_Nil
      intro!: nth_equalityI)

section \<open>On the frame buffer\<close>

definition console_ok :: "PixcelWriter \<Rightarrow> u8 list list \<Rightarrow> nat \<Rightarrow> nat \<Rightarrow> memory \<Rightarrow> memory \<Rightarrow> bool" where
  "console_ok p font rows cols mem0 mem \<longleftrightarrow> fb_ok p mem0 mem \<and> glyphs_16 font \<and>
     cols * 8 \<le> pw_pixcels_per_scan_line p \<and> rows * 16 \<le> pw_vertical_resolution p"

lemma cell_in_screen:
  assumes "pixcel_wf p" "cols * 8 \<le> pw_pixcels_per_scan_line p" "rows * 16 \<le> pw_vertical_resolution p"
    and "x < cols" "y < rows"
  shows "frame_in (pixcel_inside p) (x * 8) (y * 16) 8 16"
  using assms by (intro frame_in_screen) auto

interpretation console: ascii_sink "write_ascii font (pixcel_write p)" "console_ok p font rows cols mem0" rows cols
  for font p rows cols mem0
proof
  fix s x y c bg fg assume ok: "console_ok p font rows cols mem0 s" "x < cols" "y < rows"
  then have "frame_in (pixcel_inside p) (x * 8) (y * 16) 8 16"
    by (intro cell_in_screen) (auto simp: console_ok_def fb_ok_def)
  with ok fb.draws_char[of font "pixcel_inside p" "x * 8" "y * 16" p mem0 c bg fg]
  show "\<exists>s'. write_ascii font (pixcel_write p) (x * 8) (y * 16) c bg fg s = Some s' \<and> console_ok p font rows cols mem0 s'"
    by (auto simp: console_ok_def fb.draws_def fb.paints_def)
qed

definition console_picture :: "u8 list list \<Rightarrow> Writer \<Rightarrow> picture" where
  "console_picture font w = (\<lambda>x y.
     if x div 8 < n_column w \<and> y div 16 < n_row w
     then char_picture font (w_buffer w ! (y div 16) ! (x div 8)) (x div 8 * 8) (y div 16 * 16)
            (background_color w) (foreground_color w) x y
     else None)"

lemma overs_console:
  assumes "glyphs_16 font"
  shows "overs (map (\<lambda>j. overs (map (\<lambda>i. char_picture font (w_buffer w ! j ! i) (i * 8) (j * 16)
           (background_color w) (foreground_color w)) [0..<n_column w])) [0..<n_row w]) x y
         = console_picture font w x y"
proof -
  let ?K = "\<lambda>j i. char_picture font (w_buffer w ! j ! i) (i * 8) (j * 16) (background_color w) (foreground_color w)"
  let ?row = "\<lambda>j x y. if x div 8 < n_column w then ?K j (x div 8) x y else None"
  have at: "x div 8 = i \<and> y div 16 = j" if "?K j i x y = Some d" for i j d
    using char_picture_bounds[OF assms that] by (auto intro: div_nat_eqI)
  have row: "overs (map (?K j) [0..<n_column w]) x y = ?row j x y" for j
  proof (rule overs_map_eqI[where p = "?row j"])
    fix i c assume "i \<in> set [0..<n_column w]" "?K j i x y = Some c"
    with at[of j i c] show "?row j x y = Some c" by auto
  qed (auto split: if_splits)
  show ?thesis
  proof (rule overs_map_eqI)
    fix j c assume "j \<in> set [0..<n_row w]" "overs (map (?K j) [0..<n_column w]) x y = Some c"
    with at[of j "x div 8" c] show "console_picture font w x y = Some c"
      unfolding row by (auto simp: console_picture_def split: if_splits)
  qed (auto simp: row console_picture_def split: if_splits)
qed

lemma draws_console_flush:
  assumes "writer_ok w" "glyphs_16 font" "pixcel_wf p"
    and "n_column w * 8 \<le> pw_pixcels_per_scan_line p" "n_row w * 16 \<le> pw_vertical_resolution p"
  shows "fb.draws p mem0 (pixcel_inside p) (flush (write_ascii font (pixcel_write p)) w) (console_picture font w)"
proof -
  let ?K = "\<lambda>j i. char_picture font (w_buffer w ! j ! i) (i * 8) (j * 16) (background_color w) (foreground_color w)"
  let ?f = "\<lambda>j i. write_ascii font (pixcel_write p) (i * 8) (j * 16) (w_buffer w ! j ! i) (background_color w) (foreground_color w)"
  have "fb.draws p mem0 (pixcel_inside p) (for_each [0..<n_row w] (\<lambda>j. for_each [0..<n_column w] (?f j)))
      (overs (map (\<lambda>j. overs (map (?K j) [0..<n_column w])) [0..<n_row w]))"
    using assms by (intro fb.draws_for_each fb.draws_char cell_in_screen) auto
  then have "fb.draws p mem0 (pixcel_inside p) (for_each [0..<n_row w] (\<lambda>j. for_each [0..<n_column w] (?f j)))
      (console_picture font w)"
    by (rule fb.draws_cong) (rule overs_console[OF assms(2)])
  moreover have "flush (write_ascii font (pixcel_write p)) w mem =
      for_each [0..<n_row w] (\<lambda>j. for_each [0..<n_column w] (?f j)) mem" for mem
    unfolding flush_def using assms(1)
    by (intro for_each_cong refl) (simp add: writer_ok_def)
  ultimately show ?thesis by (blast intro: fb.draws_eq)
qed

section \<open>Properties\<close>

text \<open>C25: Writing any text to a console on a frame buffer that has room for its grid never panics, and
  the console implements the abstract terminal: its grid is the view of the page the terminal computes,
  and the characters of the page, line after line, are exactly the characters of the text without
  the new lines, in order.\<close>

theorem put_string_refines_terminal:
  assumes "pixcel_wf p" "glyphs_16 font" "0 < rows" "0 < cols"
    and "cols * 8 \<le> pw_pixcels_per_scan_line p" "rows * 16 \<le> pw_vertical_resolution p"
  shows "\<exists>w mem' page off. put_string (write_ascii font (pixcel_write p)) str (Writer_new rows cols, mem) = Some (w, mem') \<and>
           fold (tty_put rows cols) str tty_start = (page, off) \<and> w_buffer w = view rows cols (page, off) \<and>
           concat page = filter (\<lambda>c. c \<noteq> 10) str \<and>
           (\<forall>a. \<not> in_frame_buffer p a \<longrightarrow> mem' a = mem a)"
proof -
  have lim: "rows * 16 < usize_limit" "cols * 8 < usize_limit"
    using assms by (auto simp: pixcel_wf_def)
  have ok: "console_ok p font rows cols mem mem" using assms by (simp add: console_ok_def fb_ok_def)
  note init = Writer_new_ok[OF assms(3,4) lim]
  have "n_row (Writer_new rows cols) = rows" "n_column (Writer_new rows cols) = cols" by (simp_all add: Writer_new_def)
  from console.put_string_displays[OF init(1) this ok init(2), of str]
  obtain w mem' where run: "put_string (write_ascii font (pixcel_write p)) str (Writer_new rows cols, mem) = Some (w, mem')"
    and w: "same_shape (Writer_new rows cols) w" "console_ok p font rows cols mem mem'"
      "displays w (fold (tty_put rows cols) str tty_start)" by blast
  obtain page off where page: "fold (tty_put rows cols) str tty_start = (page, off)"
    by (cases "fold (tty_put rows cols) str tty_start")
  have "concat page = filter (\<lambda>c. c \<noteq> 10) str"
    using tty_chars[of tty_start rows cols str] page by (simp add: tty_start_def)
  moreover have "w_buffer w = view rows cols (page, off)"
    using w(1,3) page by (simp add: displays_def same_shape_def Writer_new_def)
  ultimately show ?thesis using run page w(2) by (auto simp: console_ok_def fb_ok_def)
qed

theorem put_string_refines_terminal_witness:
  "\<exists>w mem' page off. put_string (write_ascii [replicate 16 0xff] (pixcel_write example_screen)) [65, 66, 67, 68, 69, 10, 70]
       (Writer_new 1 4, (\<lambda>_. 0)) = Some (w, mem') \<and>
     fold (tty_put 1 4) [65, 66, 67, 68, 69, 10, 70] tty_start = (page, off) \<and> w_buffer w = view 1 4 (page, off) \<and>
     concat page = filter (\<lambda>c. c \<noteq> 10) [65, 66, 67, 68, 69, 10, 70] \<and>
     (\<forall>a. \<not> in_frame_buffer example_screen a \<longrightarrow> mem' a = 0)"
  by (rule put_string_refines_terminal[OF example_screen_wf]) (simp_all add: glyphs_16_def)

text \<open>After a new line the screen agrees with the console: in the cell of every character with a
  glyph the frame buffer shows exactly that glyph in the console's colours.\<close>

theorem new_line_shows_buffer:
  assumes "pixcel_wf p" "glyphs_16 font" "writer_ok w" "displays w (page, off)"
    and "n_column w * 8 \<le> pw_pixcels_per_scan_line p" "n_row w * 16 \<le> pw_vertical_resolution p"
  shows "\<exists>w' mem'. put_char (write_ascii font (pixcel_write p)) 10 (w, mem) = Some (w', mem') \<and>
           n_row w' = n_row w \<and> n_column w' = n_column w \<and>
           (\<forall>x y. x div 8 < n_column w \<longrightarrow> y div 16 < n_row w \<longrightarrow> w_buffer w' ! (y div 16) ! (x div 8) < length font \<longrightarrow>
              pixcel_read p mem' x y =
                (if bit (font ! (w_buffer w' ! (y div 16) ! (x div 8)) ! (y mod 16)) (7 - x mod 8)
                 then foreground_color w else background_color w))"
proof -
  have ok: "console_ok p font (n_row w) (n_column w) mem mem" using assms by (simp add: console_ok_def fb_ok_def)
  from console.new_line_displays[OF assms(3) refl refl ok assms(4)]
  obtain w' mem' where nl: "new_line (write_ascii font (pixcel_write p)) (w, mem) = Some (w', mem')"
    and w': "writer_ok w'" "same_shape w w'" and fl: "flush (write_ascii font (pixcel_write p)) w' mem = Some mem'"
    by blast
  have sh: "n_row w' = n_row w" "n_column w' = n_column w" "foreground_color w' = foreground_color w"
    "background_color w' = background_color w" using w'(2) by (auto simp: same_shape_def)
  have "fb.draws p mem0 (pixcel_inside p) (flush (write_ascii font (pixcel_write p)) w') (console_picture font w')" for mem0
    using w'(1) assms(1,2,5,6) by (intro draws_console_flush) (simp_all add: sh)
  from fb_draw[OF this assms(1), of mem] fl
  have rd: "\<And>x y. pixcel_inside p x y \<Longrightarrow> pixcel_read p mem' x y =
      (case console_picture font w' x y of None \<Rightarrow> pixcel_read p mem x y | Some c \<Rightarrow> c)"
    by auto
  have "pixcel_read p mem' x y = (if bit (font ! (w_buffer w' ! (y div 16) ! (x div 8)) ! (y mod 16)) (7 - x mod 8)
      then foreground_color w else background_color w)"
    if "x div 8 < n_column w" "y div 16 < n_row w" "w_buffer w' ! (y div 16) ! (x div 8) < length font" for x y
  proof -
    have "x < n_column w * 8" "y < n_row w * 16" using that(1,2) by (auto simp: div_less_iff_less_mult)
    then have "pixcel_inside p x y" using assms(5,6) by (auto simp: pixcel_inside_def)
    moreover have "length (font ! (w_buffer w' ! (y div 16) ! (x div 8))) = 16" using assms(2) that(3) by (simp add: glyphs_16_def)
    moreover have "x - x div 8 * 8 = x mod 8" "y - y div 16 * 16 = y mod 16" "x < x div 8 * 8 + 8" "y < y div 16 * 16 + 16"
      by (simp_all add: minus_div_mult_eq_mod)
    ultimately show ?thesis
      using rd[of x y] that by (simp add: console_picture_def char_picture_def glyph_picture_def sh)
  qed
  then show ?thesis using nl sh by (auto simp: put_char_def)
qed

theorem new_line_shows_buffer_witness:
  "\<exists>w' mem'. put_char (write_ascii [replicate 16 0xff] (pixcel_write example_screen)) 10 (Writer_new 1 4, (\<lambda>_. 0)) = Some (w', mem')
     \<and> n_row w' = 1"
proof -
  have ok: "writer_ok (Writer_new 1 4)" "displays (Writer_new 1 4) ([[]], 0)"
    using Writer_new_ok[of 1 4] by (simp_all add: tty_start_def)
  have "n_column (Writer_new 1 4) * 8 \<le> pw_pixcels_per_scan_line example_screen"
    "n_row (Writer_new 1 4) * 16 \<le> pw_vertical_resolution example_screen" "n_row (Writer_new 1 4) = 1"
    by (simp_all add: Writer_new_def)
  with new_line_shows_buffer[OF example_screen_wf _ ok, of "[replicate 16 0xff]" "\<lambda>_. 0"] show ?thesis
    by (fastforce simp: glyphs_16_def)
qed

text \<open>A new line written while the cursor is already below the last row is lost: the next character
  leaves the same grid as if the new line had not been written, so blank lines disappear at the bottom
  of the screen.\<close>

theorem blank_line_swallowed:
  assumes "pixcel_wf p" "glyphs_16 font" "writer_ok w" "displays w (page, off)" "cur_y (w_position w) = n_row w"
    and "n_column w * 8 \<le> pw_pixcels_per_scan_line p" "n_row w * 16 \<le> pw_vertical_resolution p" "c \<noteq> 10"
  shows "\<exists>w1 m1 w2 m2. put_string (write_ascii font (pixcel_write p)) [10, c] (w, mem) = Some (w1, m1) \<and>
           put_string (write_ascii font (pixcel_write p)) [c] (w, mem) = Some (w2, m2) \<and>
           w_buffer w1 = w_buffer w2 \<and> w_position w1 = w_position w2"
proof -
  have ok: "console_ok p font (n_row w) (n_column w) mem mem" using assms by (simp add: console_ok_def fb_ok_def)
  note run = console.put_string_displays[OF assms(3) refl refl ok assms(4)]
  have y: "length page - 1 - off = n_row w" "0 < n_row w" "0 < n_column w" "length (last page) = 0"
    using assms(3-5) by (auto simp: displays_def writer_ok_def)
  have "fold (tty_put (n_row w) (n_column w)) [10, c] (page, off) = fold (tty_put (n_row w) (n_column w)) [c] (page, off)"
    using y assms(8) by (auto simp: tty_put_def Let_def)
  with run[of "[10, c]"] run[of "[c]"] obtain w1 m1 w2 m2 where
    "put_string (write_ascii font (pixcel_write p)) [10, c] (w, mem) = Some (w1, m1)"
    "put_string (write_ascii font (pixcel_write p)) [c] (w, mem) = Some (w2, m2)"
    "same_shape w w1" "same_shape w w2"
    "displays w1 (fold (tty_put (n_row w) (n_column w)) [c] (page, off))"
    "displays w2 (fold (tty_put (n_row w) (n_column w)) [c] (page, off))"
    by auto
  then show ?thesis by (auto simp: displays_def same_shape_def split: prod.splits)
qed

theorem blank_line_swallowed_witness:
  "\<exists>w1 m1 w2 m2. put_string (write_ascii [replicate 16 0xff] (pixcel_write example_screen)) [10, 65]
        (\<lparr>n_row = 1, n_column = 4, w_position = \<lparr>cur_x = 0, cur_y = 1\<rparr>, background_color = Color_black,
          foreground_color = Color_white, w_buffer = [[66, 32, 32, 32]]\<rparr>, (\<lambda>_. 0)) = Some (w1, m1) \<and>
     put_string (write_ascii [replicate 16 0xff] (pixcel_write example_screen)) [65]
        (\<lparr>n_row = 1, n_column = 4, w_position = \<lparr>cur_x = 0, cur_y = 1\<rparr>, background_color = Color_black,
          foreground_color = Color_white, w_buffer = [[66, 32, 32, 32]]\<rparr>, (\<lambda>_. 0)) = Some (w2, m2) \<and>
     w_buffer w1 = w_buffer w2 \<and> w_position w1 = w_position w2"
proof (rule blank_line_swallowed[OF example_screen_wf, where page = "[[66], []]" and off = 0])
  let ?w = "\<lparr>n_row = 1, n_column = 4, w_position = \<lparr>cur_x = 0, cur_y = 1\<rparr>, background_color = Color_black,
      foreground_color = Color_white, w_buffer = [[66, 32, 32, 32]]\<rparr>"
  show "writer_ok ?w" by code_simp
  show "displays ?w ([[66], []], 0)" by code_simp
qed (simp_all add: glyphs_16_def)

end
