(* ===== verification/Tasks.thy ===== *)
theory Tasks
  imports Rust_Prelude
begin

text \<open>
  Cooperative multitasking: the futures of \<^verbatim>\<open>kernel-lib/src/futures.rs\<close>, tasks and the executor of
  \<^verbatim>\<open>kernel/src/multitasking\<close>, and the queue of \<^verbatim>\<open>kernel/src/xhci/user_event_ring.rs\<close>. A future is its
  state together with a \<^verbatim>\<open>poll\<close> function, which may change the state \<open>'w\<close> of the kernel; a poll
  that panics is \<open>None\<close>.
\<close>

section \<open>Futures\<close>

datatype 'a Poll = Ready 'a | Pending

type_synonym ('f, 'w, 'a) poll_fn = "'f \<Rightarrow> 'w \<Rightarrow> ('f \<times> 'w \<times> 'a Poll) option"

text \<open>\<^verbatim>\<open>await_sync!\<close> polls until the future is ready; \<open>None\<close> is a panic or a loop that never ends.\<close>

partial_function (option) await_sync :: "('f, 'w, 'a) poll_fn \<Rightarrow> 'f \<Rightarrow> 'w \<Rightarrow> ('w \<times> 'a) option" where
  "await_sync poll f w = Option.bind (poll f w) (\<lambda>(f', w', r).
     case r of Ready v \<Rightarrow> Some (w', v) | Pending \<Rightarrow> await_sync poll f' w')"

definition await_once_noblocking :: "('f, 'w, 'a) poll_fn \<Rightarrow> 'f \<Rightarrow> 'w \<Rightarrow> ('w \<times> 'a option) option" where
  "await_once_noblocking poll f w = do {
     (f', w', r) \<leftarrow> poll f w;
     Some (w', case r of Ready v \<Rightarrow> Some v | Pending \<Rightarrow> None)
   }"

record PendingOnceFuture =
  polled :: bool

definition PendingOnceFuture_new :: PendingOnceFuture where
  "PendingOnceFuture_new = \<lparr>polled = False\<rparr>"

definition PendingOnceFuture_poll :: "(PendingOnceFuture, 'w, unit) poll_fn" where
  "PendingOnceFuture_poll f w =
     (if polled f then Some (f, w, Ready ()) else Some (f\<lparr>polled := True\<rparr>, w, Pending))"

definition yield_pending :: PendingOnceFuture where
  "yield_pending = PendingOnceFuture_new"

section \<open>Tasks and the executor\<close>

datatype Priority = High | Default

fun priority_repr :: "Priority \<Rightarrow> u8" where
  "priority_repr High = 0"
| "priority_repr Default = 10"

record 'f Task =
  task_priority :: Priority
  task_future :: 'f

definition Task_new :: "Priority \<Rightarrow> 'f \<Rightarrow> 'f Task" where
  "Task_new p f = \<lparr>task_priority = p, task_future = f\<rparr>"

definition Task_poll :: "('f, 'w, unit) poll_fn \<Rightarrow> 'f Task \<Rightarrow> 'w \<Rightarrow> ('f Task \<times> 'w \<times> unit Poll) option" where
  "Task_poll poll t w = do {
     (f', w', r) \<leftarrow> poll (task_future t) w;
     Some (t\<lparr>task_future := f'\<rparr>, w', r)
   }"

text \<open>\<^verbatim>\<open>Ord for Task\<close> compares the priorities in reverse.\<close>

datatype Ordering = Less | Equal | Greater

definition priority_cmp :: "Priority \<Rightarrow> Priority \<Rightarrow> Ordering" where
  "priority_cmp p q = (if priority_repr p < priority_repr q then Less
                       else if priority_repr p = priority_repr q then Equal else Greater)"

definition Task_cmp :: "'f Task \<Rightarrow> 'f Task \<Rightarrow> Ordering" where
  "Task_cmp a b = priority_cmp (task_priority b) (task_priority a)"

definition Task_partial_cmp :: "'f Task \<Rightarrow> 'f Task \<Rightarrow> Ordering option" where
  "Task_partial_cmp a b = Some (Task_cmp a b)"

definition Task_eq :: "'f Task \<Rightarrow> 'f Task \<Rightarrow> bool" where
  "Task_eq a b = (task_priority a = task_priority b)"

record 'f Executor =
  task_queue :: "'f Task list"

definition Executor_new :: "'f Executor" where
  "Executor_new = \<lparr>task_queue = []\<rparr>"

definition spawn :: "'f Task \<Rightarrow> 'f Executor \<Rightarrow> 'f Executor" where
  "spawn t ex = ex\<lparr>task_queue := task_queue ex @ [t]\<rparr>"

text \<open>One round of the loop of \<^verbatim>\<open>run\<close>, and the first \<open>n\<close> rounds; \<^verbatim>\<open>run\<close> itself never returns.\<close>

definition run_round :: "('f, 'w, unit) poll_fn \<Rightarrow> 'f Executor \<times> 'w \<Rightarrow> ('f Executor \<times> 'w) option" where
  "run_round poll = (\<lambda>(ex, w).
     case task_queue ex of
       [] \<Rightarrow> Some (ex, w)
     | t # rest \<Rightarrow> do {
         let ex = ex\<lparr>task_queue := rest\<rparr>;
         (t', w', r) \<leftarrow> Task_poll poll t w;
         (case r of
            Ready u \<Rightarrow> Some (ex, w')
          | Pending \<Rightarrow> Some (ex\<lparr>task_queue := task_queue ex @ [t']\<rparr>, w'))
       })"

primrec run_rounds :: "('f, 'w, unit) poll_fn \<Rightarrow> nat \<Rightarrow> 'f Executor \<times> 'w \<Rightarrow> ('f Executor \<times> 'w) option" where
  "run_rounds poll 0 s = Some s"
| "run_rounds poll (Suc n) s = do { s' \<leftarrow> run_round poll s; run_rounds poll n s' }"

section \<open>The user event ring\<close>

record InitPortDevice =
  ipd_port_index :: u8
  ipd_routing :: u32
  ipd_speed :: u8
  ipd_parent_hub_slot_id :: "u8 option"
  ipd_parent_port_index :: "u8 option"

datatype UserEvent = UE_InitPortDevice InitPortDevice

record UserEventRing =
  uer_data :: "UserEvent list"

definition UserEventRing_new :: UserEventRing where
  "UserEventRing_new = \<lparr>uer_data = []\<rparr>"

definition UserEventRing_push :: "UserEvent \<Rightarrow> UserEventRing \<Rightarrow> UserEventRing" where
  "UserEventRing_push e r = r\<lparr>uer_data := uer_data r @ [e]\<rparr>"

definition UserEventRing_pop :: "UserEventRing \<Rightarrow> UserEventRing \<times> UserEvent option" where
  "UserEventRing_pop r =
     (case uer_data r of [] \<Rightarrow> (r, None) | e # es \<Rightarrow> (r\<lparr>uer_data := es\<rparr>, Some e))"

section \<open>First-in first-out queues\<close>

locale fifo =
  fixes empty :: 'q and push :: "'e \<Rightarrow> 'q \<Rightarrow> 'q" and pop :: "'q \<Rightarrow> 'q \<times> 'e option" and content :: "'q \<Rightarrow> 'e list"
  assumes content_empty: "content empty = []"
    and content_push: "content (push e q) = content q @ [e]"
    and pop_empty: "content q = [] \<Longrightarrow> pop q = (q, None)"
    and pop_cons: "content q = e # es \<Longrightarrow> \<exists>q'. pop q = (q', Some e) \<and> content q' = es"
begin

primrec pops :: "nat \<Rightarrow> 'q \<Rightarrow> 'q \<times> 'e option list" where
  "pops 0 q = (q, [])"
| "pops (Suc n) q = (case pop q of (q', r) \<Rightarrow> case pops n q' of (q'', rs) \<Rightarrow> (q'', r # rs))"

lemma content_pushes: "content (fold push es q) = content q @ es"
  by (induction es arbitrary: q) (simp_all add: content_push)

lemma pops_content: "\<exists>q'. pops (length (content q)) q = (q', map Some (content q)) \<and> content q' = []"
proof (induction "content q" arbitrary: q)
  case Nil
  then show ?case by (metis list.map(1) list.size(3) pops.simps(1))
next
  case (Cons e es)
  obtain q' where "pop q = (q', Some e)" "content q' = es" using pop_cons[OF Cons(2)[symmetric]] by blast
  with Cons(1)[of q'] Cons(2)[symmetric] show ?case by auto
qed

lemma push_then_pop:
  "\<exists>q'. pops (length es) (fold push es empty) = (q', map Some es) \<and> content q' = []"
  using pops_content[of "fold push es empty"] by (simp add: content_pushes content_empty)

end

interpretation user_events: fifo UserEventRing_new UserEventRing_push UserEventRing_pop uer_data
  by unfold_locales (auto simp: UserEventRing_new_def UserEventRing_push_def UserEventRing_pop_def)

primrec pop_events :: "nat \<Rightarrow> UserEventRing \<Rightarrow> UserEventRing \<times> UserEvent option list" where
  "pop_events 0 r = (r, [])"
| "pop_events (Suc n) r = (case UserEventRing_pop r of (r', e) \<Rightarrow> case pop_events n r' of (r'', es) \<Rightarrow> (r'', e # es))"

lemma pop_events_eq: "pop_events n r = user_events.pops n r"
  by (induction n arbitrary: r) (simp_all split: prod.splits)

section \<open>Properties\<close>

text \<open>Polling a list of tasks once each, in order: the survivors and the kernel state.\<close>

fun poll_each :: "('f, 'w, unit) poll_fn \<Rightarrow> 'f Task list \<Rightarrow> 'w \<Rightarrow> ('f Task list \<times> 'w) option" where
  "poll_each poll [] w = Some ([], w)"
| "poll_each poll (t # ts) w = do {
     (t', w', r) \<leftarrow> Task_poll poll t w;
     (ts', w'') \<leftarrow> poll_each poll ts w';
     Some (case r of Ready u \<Rightarrow> ts' | Pending \<Rightarrow> t' # ts', w'')
   }"

lemma run_rounds_each:
  "run_rounds poll (length ts) (\<lparr>task_queue = ts @ done_ts\<rparr>, w) =
     do { (ts', w') \<leftarrow> poll_each poll ts w; Some (\<lparr>task_queue = done_ts @ ts'\<rparr>, w') }"
proof (induction ts arbitrary: done_ts w)
  case Nil
  then show ?case by simp
next
  case (Cons t ts)
  show ?case
  proof (cases "Task_poll poll t w")
    case None
    then show ?thesis by (simp add: run_round_def)
  next
    case (Some x)
    obtain t' w' r where x: "x = (t', w', r)" by (cases x)
    show ?thesis
      using Some x Cons.IH[of done_ts w'] Cons.IH[of "done_ts @ [t']" w']
      by (cases r) (auto simp: run_round_def split: bind_split)
  qed
qed

text \<open>C30: The executor is a fair round robin: in as many rounds as there are tasks in the queue it polls
  each of them exactly once, in order, drops those that are ready and keeps the others in their
  order.\<close>

theorem executor_round_robin:
  "run_rounds poll (length (task_queue ex)) (ex, w) =
     do { (ts', w') \<leftarrow> poll_each poll (task_queue ex) w; Some (ex\<lparr>task_queue := ts'\<rparr>, w') }"
proof (cases ex)
  case (fields ts)
  then show ?thesis using run_rounds_each[of poll ts "[]" w] by simp
qed

lemma await_sync_Pending:
  "poll f w = Some (f', w', Pending) \<Longrightarrow> await_sync poll f w = await_sync poll f' w'"
  by (subst await_sync.simps) simp

lemma await_sync_Ready: "poll f w = Some (f', w', Ready v) \<Longrightarrow> await_sync poll f w = Some (w', v)"
  by (subst await_sync.simps) simp

text \<open>The future is ready after \<open>n\<close> polls that are not.\<close>

fun ready_after :: "('f, 'w, 'a) poll_fn \<Rightarrow> nat \<Rightarrow> 'f \<Rightarrow> 'w \<Rightarrow> ('w \<times> 'a) option" where
  "ready_after poll 0 f w = (case poll f w of Some (f', w', Ready v) \<Rightarrow> Some (w', v) | _ \<Rightarrow> None)"
| "ready_after poll (Suc n) f w = (case poll f w of Some (f', w', Pending) \<Rightarrow> ready_after poll n f' w' | _ \<Rightarrow> None)"

text \<open>\<open>await_sync!\<close> returns the value of any future that becomes ready after finitely many polls, with
  the effects of exactly those polls.\<close>

theorem await_sync_returns:
  assumes "ready_after poll n f w = Some (w', v)"
  shows "await_sync poll f w = Some (w', v)"
  using assms
proof (induction n arbitrary: f w)
  case 0
  then show ?case by (auto intro: await_sync_Ready split: option.splits Poll.splits)
next
  case (Suc n)
  then obtain f' w1 where "poll f w = Some (f', w1, Pending)" "ready_after poll n f' w1 = Some (w', v)"
    by (auto split: option.splits Poll.splits)
  with Suc.IH[of f' w1] show ?case by (simp add: await_sync_Pending)
qed

theorem await_sync_returns_witness:
  "await_sync PendingOnceFuture_poll yield_pending (7 :: nat) = Some (7, ())"
  by (rule await_sync_returns[of _ 1])
    (simp add: PendingOnceFuture_poll_def yield_pending_def PendingOnceFuture_new_def)

text \<open>A task that awaits \<open>yield_pending\<close> gives up the processor exactly once: the first poll is pending
  and every later one is ready.\<close>

theorem yield_pending_once:
  "PendingOnceFuture_poll yield_pending w = Some (\<lparr>polled = True\<rparr>, w, Pending) \<and>
   PendingOnceFuture_poll \<lparr>polled = True\<rparr> w' = Some (\<lparr>polled = True\<rparr>, w', Ready ()) \<and>
   await_once_noblocking PendingOnceFuture_poll yield_pending w = Some (w, None)"
  by (simp add: PendingOnceFuture_poll_def yield_pending_def PendingOnceFuture_new_def await_once_noblocking_def)

text \<open>The user event ring is a first-in first-out queue: events come out in the order they were
  pushed, none lost and none added, and the next pop finds it empty.\<close>

theorem user_events_fifo:
  "\<exists>r. pop_events (length es) (fold UserEventRing_push es UserEventRing_new) = (r, map Some es) \<and>
       UserEventRing_pop r = (r, None)"
  using user_events.push_then_pop[of es] user_events.pop_empty by (fastforce simp: pop_events_eq)

end
