(* ===== verification/Desktop.thy ===== *)
theory Desktop
  imports Lifegame Console Tasks
begin

text \<open>
  The state the kernel's tasks share and the code that works on it: the initialisation of the graphics
  (\<^verbatim>\<open>kernel/src/graphics.rs\<close>), the game of life as a task (\<^verbatim>\<open>do_lifegame\<close> of \<^verbatim>\<open>kernel/src/lifegame.rs\<close>) and
  the callbacks of the mouse and keyboard drivers (\<^verbatim>\<open>kernel/src/usb/class_driver/callbacks.rs\<close>).

  The statics of the source are the components of \<open>World\<close>; a \<^verbatim>\<open>OnceCell\<close> is an \<open>option\<close>. The
  asynchronous function is a state machine: its state says at which \<^verbatim>\<open>yield_pending().await\<close> it is
  suspended, and a poll runs it to the next one.
\<close>

record World =
  GRAPHICS_INFO :: GraphicsInfo
  wd_mem :: memory
  UNSAFE_WRITER_BUF :: "PixcelWriter option"
  WRITER :: "Writer option"
  LAYER_MANAGER :: "LayerManager option"
  LATEST_UNUSED_ID :: usize
  CLICKED_POSITION_QUEUE :: "(usize \<times> usize) list"
  RUNNING :: bool
  MOUSE_LAYER_ID :: LayerId

definition N_CHAR_PER_LINE :: usize where "N_CHAR_PER_LINE = 80"
definition N_WRITEABLE_LINE :: usize where "N_WRITEABLE_LINE = 25"

definition init_graphics :: "GraphicsInfo \<Rightarrow> World \<Rightarrow> World option" where
  "init_graphics g w = do {
     mem \<leftarrow> clear_screen g (wd_mem w);
     let pixcel_writer = get_writer g;
     Some (w\<lparr>GRAPHICS_INFO := g, wd_mem := mem, UNSAFE_WRITER_BUF := Some pixcel_writer,
             WRITER := (case WRITER w of None \<Rightarrow> Some (Writer_new N_WRITEABLE_LINE N_CHAR_PER_LINE) | Some v \<Rightarrow> Some v),
             LAYER_MANAGER := (case LAYER_MANAGER w of None \<Rightarrow> Some (LayerManager_new pixcel_writer) | Some v \<Rightarrow> Some v)\<rparr>)
   }"

text \<open>\<^verbatim>\<open>_print\<close> and \<^verbatim>\<open>_print_and_flush\<close> of a formatted string.\<close>

definition print :: "u8 list list \<Rightarrow> code_point list \<Rightarrow> World \<Rightarrow> World option" where
  "print font str w = do {
     wr \<leftarrow> WRITER w;
     pw \<leftarrow> UNSAFE_WRITER_BUF w;
     ((wr', mem'), _) \<leftarrow> write_str (write_ascii font (pixcel_write pw)) str (wr, wd_mem w);
     Some (w\<lparr>WRITER := Some wr', wd_mem := mem'\<rparr>)
   }"

definition print_and_flush :: "u8 list list \<Rightarrow> code_point list \<Rightarrow> World \<Rightarrow> World option" where
  "print_and_flush font str w = do {
     wr \<leftarrow> WRITER w;
     pw \<leftarrow> UNSAFE_WRITER_BUF w;
     ((wr', mem'), _) \<leftarrow> write_str (write_ascii font (pixcel_write pw)) str (wr, wd_mem w);
     mem'' \<leftarrow> flush (write_ascii font (pixcel_write pw)) wr' mem';
     Some (w\<lparr>WRITER := Some wr', wd_mem := mem''\<rparr>)
   }"

definition world_new_layer :: "Window \<Rightarrow> World \<Rightarrow> (World \<times> LayerId) option" where
  "world_new_layer win w = do {
     lm \<leftarrow> LAYER_MANAGER w;
     ((u, lm'), lid) \<leftarrow> new_layer win (LATEST_UNUSED_ID w, lm);
     Some (w\<lparr>LATEST_UNUSED_ID := u, LAYER_MANAGER := Some lm'\<rparr>, lid)
   }"

section \<open>The game of life as a task\<close>

datatype LifePhase = LgStart | LgInner nat | LgFlushed | LgRendered

record LifegameTask =
  lg_phase :: LifePhase
  lg_id :: LayerId
  lg_board :: "bool list list"

text \<open>\<^verbatim>\<open>lock_layer_manager_mut!().layer_mut(id).unwrap().render_board(..)\<close>\<close>

definition render_board_layer :: "LayerId \<Rightarrow> bool list list \<Rightarrow> World \<Rightarrow> World option" where
  "render_board_layer lid board w = do {
     lm \<leftarrow> LAYER_MANAGER w;
     l \<leftarrow> layers lm lid;
     l' \<leftarrow> render_board layer_write board BOARD_POS PIXCEL_SIZE Color_green l;
     Some (w\<lparr>LAYER_MANAGER := Some (lm\<lparr>layers := (layers lm)(lid \<mapsto> l')\<rparr>)\<rparr>)
   }"

text \<open>The body of the inner loop, up to its \<^verbatim>\<open>yield_pending\<close>.\<close>

definition lifegame_inner :: "LifegameTask \<Rightarrow> World \<Rightarrow> (LifegameTask \<times> World) option" where
  "lifegame_inner t w = do {
     let queue = CLICKED_POSITION_QUEUE w;
     board \<leftarrow> drain_clicks queue (lg_board t);
     let w = w\<lparr>CLICKED_POSITION_QUEUE := []\<rparr>;
     w \<leftarrow> (if queue \<noteq> [] then render_board_layer (lg_id t) board w else Some w);
     Some (t\<lparr>lg_board := board\<rparr>, w)
   }"

definition lifegame_start :: "World \<Rightarrow> (LifegameTask \<times> World) option" where
  "lifegame_start w = do {
     win \<leftarrow> Window_new (LG_SIZE * PIXCEL_SIZE) (LG_SIZE * PIXCEL_SIZE) (new_rendering_handler (GRAPHICS_INFO w))
              None (Position_new 0 0);
     (w, lid) \<leftarrow> world_new_layer win w;
     Some (\<lparr>lg_phase = LgStart, lg_id = lid, lg_board = initial_cells\<rparr>, w)
   }"

definition lifegame_flush :: "World \<Rightarrow> World option" where
  "lifegame_flush w = do {
     lm \<leftarrow> LAYER_MANAGER w;
     mem \<leftarrow> layers_flush lm (wd_mem w);
     Some (w\<lparr>wd_mem := mem\<rparr>)
   }"

definition do_lifegame_poll :: "(LifegameTask, World, unit) poll_fn" where
  "do_lifegame_poll t w =
     (case lg_phase t of
        LgStart \<Rightarrow> do {
          (t, w) \<leftarrow> lifegame_start w;
          (t, w) \<leftarrow> lifegame_inner t w;
          Some (t\<lparr>lg_phase := LgInner 1\<rparr>, w, Pending)
        }
      | LgInner n \<Rightarrow>
          (if n < 100000 then do {
             (t, w) \<leftarrow> lifegame_inner t w;
             Some (t\<lparr>lg_phase := LgInner (n + 1)\<rparr>, w, Pending)
           } else do {
             w \<leftarrow> lifegame_flush w;
             Some (t\<lparr>lg_phase := LgFlushed\<rparr>, w, Pending)
           })
      | LgFlushed \<Rightarrow> do {
          board \<leftarrow> (if RUNNING w then process LG_SIZE (lg_board t) else Some (lg_board t));
          w \<leftarrow> render_board_layer (lg_id t) board w;
          Some (t\<lparr>lg_phase := LgRendered, lg_board := board\<rparr>, w, Pending)
        }
      | LgRendered \<Rightarrow> do {
          (t, w) \<leftarrow> lifegame_inner t w;
          Some (t\<lparr>lg_phase := LgInner 1\<rparr>, w, Pending)
        })"

section \<open>The drivers' callbacks\<close>

definition init_mouse_cursor_layer :: "World \<Rightarrow> (World \<times> LayerId) option" where
  "init_mouse_cursor_layer w = do {
     rows \<leftarrow> MOUSE_CURSOR_SHAPE;
     let shape = array_shape mouse_pixel_into_color MOUSE_CURSOR_WIDTH MOUSE_CURSOR_HEIGHT rows;
     win \<leftarrow> Window_new (get_width shape) (get_height shape) (new_rendering_handler (GRAPHICS_INFO w))
              (Some (mouse_pixel_into_color BackGround)) (Position_new 0 0);
     (w, lid) \<leftarrow> world_new_layer win w;
     lm \<leftarrow> LAYER_MANAGER w;
     lm \<leftarrow> layer_move_relative lid 0 0 lm;
     l \<leftarrow> layers lm lid;
     l' \<leftarrow> fill_shape layer_write (Vector2D_new 0 0) shape l;
     Some (w\<lparr>LAYER_MANAGER := Some (lm\<lparr>layers := (layers lm)(lid \<mapsto> l')\<rparr>), MOUSE_LAYER_ID := lid\<rparr>, lid)
   }"

definition mouse_callback :: "u8 list \<Rightarrow> World \<Rightarrow> World option" where
  "mouse_callback buf w = do {
     b1 \<leftarrow> get_idx buf 1;
     b2 \<leftarrow> get_idx buf 2;
     b0 \<leftarrow> get_idx buf 0;
     let x_diff = sint b1;
     let y_diff = sint b2;
     let left_click = (b0 AND 1 \<noteq> 0);
     w \<leftarrow> (if left_click then do {
             lm \<leftarrow> LAYER_MANAGER w;
             l \<leftarrow> layers lm (MOUSE_LAYER_ID w);
             let pos = win_position (layer_window l);
             r \<leftarrow> frame_buffer_position_to_board_position (Vector2D_new (pos_x pos) (pos_y pos));
             Some (case r of
                     Some p \<Rightarrow> w\<lparr>CLICKED_POSITION_QUEUE := CLICKED_POSITION_QUEUE w @ [p]\<rparr>
                   | None \<Rightarrow> w)
           } else Some w);
     lm \<leftarrow> LAYER_MANAGER w;
     lm' \<leftarrow> layer_move_relative (MOUSE_LAYER_ID w) x_diff y_diff lm;
     Some (w\<lparr>LAYER_MANAGER := Some lm'\<rparr>)
   }"

definition KEYCODE_MAP :: "code_point list" where
  "KEYCODE_MAP = [
     0, 0, 0, 0, 97, 98, 99, 100, 101, 102, 103, 104, 105, 106, 107, 108,
     109, 110, 111, 112, 113, 114, 115, 116, 117, 118, 119, 120, 121, 122, 49, 50,
     51, 52, 53, 54, 55, 56, 57, 48, 10, 8, 8, 9, 32, 45, 61, 91,
     93, 92, 35, 59, 39, 96, 44, 46, 47, 0, 0, 0, 0, 0, 0, 0,
     0, 0, 0, 0, 0, 0, 0, 0, 0, 0, 0, 0, 0, 0, 0, 0,
     0, 0, 0, 0, 47, 42, 45, 43, 10, 49, 50, 51, 52, 53, 54, 55,
     56, 57, 48, 46, 92, 0, 0, 61, 0, 0, 0, 0, 0, 0, 0, 0,
     0, 0, 0, 0, 0, 0, 0, 0, 0, 0, 0, 0, 0, 0, 0, 0,
     0, 0, 0, 0, 0, 0, 0, 0, 0, 92, 0, 0, 0, 0, 0, 0]"

definition KEYCODE_MAP_SHIFTED :: "code_point list" where
  "KEYCODE_MAP_SHIFTED = [
     0, 0, 0, 0, 65, 66, 67, 68, 69, 70, 71, 72, 73, 74, 75, 76,
     77, 78, 79, 80, 81, 82, 83, 84, 85, 86, 87, 88, 89, 90, 33, 64,
     35, 36, 37, 94, 38, 42, 40, 41, 10, 8, 8, 9, 32, 95, 43, 123,
     125, 124, 126, 58, 34, 126, 60, 62, 63, 0, 0, 0, 0, 0, 0, 0,
     0, 0, 0, 0, 0, 0, 0, 0, 0, 0, 0, 0, 0, 0, 0, 0,
     0, 0, 0, 0, 47, 42, 45, 43, 10, 49, 50, 51, 52, 53, 54, 55,
     56, 57, 48, 46, 92, 0, 0, 61, 0, 0, 0, 0, 0, 0, 0, 0,
     0, 0, 0, 0, 0, 0, 0, 0, 0, 0, 0, 0, 0, 0, 0, 0,
     0, 0, 0, 0, 0, 0, 0, 0, 0, 124, 0, 0, 0, 0, 0, 0]"

definition L_SHIFT_BITMASK :: u8 where "L_SHIFT_BITMASK = 2"
definition R_SHIFT_BITMASK :: u8 where "R_SHIFT_BITMASK = 32"

text \<open>One element of the lazy \<^verbatim>\<open>filter_map(..).for_each(..)\<close> chain.\<close>

definition keyboard_key :: "u8 list list \<Rightarrow> bool \<Rightarrow> u8 \<Rightarrow> World \<Rightarrow> World option" where
  "keyboard_key font shifted keycode w =
     (if keycode = 0 then Some w
      else do {
        c \<leftarrow> (if shifted then get_idx KEYCODE_MAP_SHIFTED (unat keycode) else get_idx KEYCODE_MAP (unat keycode));
        let w = (if c = 32 then w\<lparr>RUNNING := \<not> RUNNING w\<rparr> else w);
        print_and_flush font [c] w
      })"

definition keyboard_callback :: "u8 list list \<Rightarrow> u8 list \<Rightarrow> World \<Rightarrow> World option" where
  "keyboard_callback font buf w = do {
     b0 \<leftarrow> get_idx buf 0;
     let shifted = (b0 AND (L_SHIFT_BITMASK OR R_SHIFT_BITMASK) \<noteq> 0);
     keys \<leftarrow> slice buf 1 (length buf);
     for_each keys (keyboard_key font shifted) w
   }"

section \<open>Invariants\<close>

definition clicks_ok :: "World \<Rightarrow> bool" where
  "clicks_ok w \<longleftrightarrow> list_all (\<lambda>(x, y). x < LG_SIZE \<and> y < LG_SIZE) (CLICKED_POSITION_QUEUE w)"

text \<open>The layer manager is in order, its layers are on the screen, and the task's layer is a window of the
  board's size with a square board.\<close>

definition life_ok :: "LifegameTask \<Rightarrow> World \<Rightarrow> bool" where
  "life_ok t w \<longleftrightarrow> clicks_ok w \<and> square LG_SIZE (lg_board t) \<and>
     (\<exists>lm l. LAYER_MANAGER w = Some lm \<and> lm_ok (LATEST_UNUSED_ID w, lm) \<and> stack_on_screen lm \<and>
        layers lm (lg_id t) = Some l \<and> win_width (layer_window l) = 600 \<and> win_h (layer_window l) = 600)"

lemma life_ok_phase [simp]:
  "life_ok (t\<lparr>lg_phase := p\<rparr>) w = life_ok t w"
  "life_ok (t\<lparr>lg_phase := p, lg_board := b\<rparr>) w = life_ok (t\<lparr>lg_board := b\<rparr>) w"
  by (simp_all add: life_ok_def)

lemma on_screen_same:
  "same_layer l l' \<Longrightarrow> window_ok (layer_window l') \<Longrightarrow> on_screen w (layer_window l) \<Longrightarrow> on_screen w (layer_window l')"
  by (simp add: on_screen_def same_layer_def)

lemma stack_on_screen_update:
  assumes "stack_on_screen lm" "layers lm lid = Some l" "same_layer l l'" "window_ok (layer_window l')"
  shows "stack_on_screen (lm\<lparr>layers := (layers lm)(lid \<mapsto> l')\<rparr>)"
  using assms on_screen_same by (auto simp: stack_on_screen_def)

lemma board_picture_covers:
  assumes "x < 600" "y < 600" "length board = 20"
  shows "board_picture board 0 0 PIXCEL_SIZE Color_green x y \<noteq> None"
proof -
  have "x div 30 < 20" "y div 30 < 20" using assms by auto
  moreover have "cell (x div 30 * 30) (y div 30 * 30) 30 c x y \<noteq> None" for c
    by (rule cell_covers) simp_all
  ultimately show ?thesis using assms(3) by (simp add: board_picture_def PIXCEL_SIZE_def Let_def)
qed

lemma render_board_layer_ok:
  assumes "LAYER_MANAGER w = Some lm" "lm_ok (LATEST_UNUSED_ID w, lm)" "stack_on_screen lm"
    and "layers lm lid = Some l" "win_width (layer_window l) = 600" "win_h (layer_window l) = 600"
    and "square LG_SIZE board"
  shows "\<exists>l'. render_board_layer lid board w = Some (w\<lparr>LAYER_MANAGER := Some (lm\<lparr>layers := (layers lm)(lid \<mapsto> l')\<rparr>)\<rparr>) \<and>
           same_layer l l' \<and> window_ok (layer_window l') \<and>
           (\<forall>x < 600. \<forall>y < 600. board_picture board 0 0 PIXCEL_SIZE Color_green x y = Some (win_color (layer_window l') x y))"
proof -
  let ?I = "win_inside (layer_window l)"
  have ok: "layer_ok l l" using assms(2,4) by (auto simp: layer_ok_def same_layer_def lm_ok_def)
  have len: "length board = 20" "\<forall>row \<in> set board. length row = length board"
    using assms(7) by (auto simp: square_def LG_SIZE_def)
  have "frame_in ?I (vx BOARD_POS) (vy BOARD_POS) (length board * PIXCEL_SIZE) (length board * PIXCEL_SIZE)"
    using assms(5,6) len by (auto simp: frame_in_def win_inside_def BOARD_POS_def Vector2D_new_def PIXCEL_SIZE_def)
  from layer.draws_board[OF this _ len(2), of l Color_green]
  have draws: "layer.draws l ?I (render_board layer_write board BOARD_POS PIXCEL_SIZE Color_green)
      (board_picture board (vx BOARD_POS) (vy BOARD_POS) PIXCEL_SIZE Color_green)" by (simp add: PIXCEL_SIZE_def)
  obtain l' where l': "render_board layer_write board BOARD_POS PIXCEL_SIZE Color_green l = Some l'" "layer_ok l l'"
    "\<And>x y. ?I x y \<Longrightarrow> win_color (layer_window l') x y =
       (case board_picture board (vx BOARD_POS) (vy BOARD_POS) PIXCEL_SIZE Color_green x y of
          None \<Rightarrow> win_color (layer_window l) x y | Some c \<Rightarrow> c)"
    using layer.drawsE[OF draws ok refl] by blast
  have "board_picture board 0 0 PIXCEL_SIZE Color_green x y = Some (win_color (layer_window l') x y)"
    if "x < 600" "y < 600" for x y
  proof -
    have "board_picture board 0 0 PIXCEL_SIZE Color_green x y \<noteq> None"
      using that len(1) by (rule board_picture_covers)
    then show ?thesis using l'(3)[of x y] that assms(5,6)
      by (auto simp: win_inside_def BOARD_POS_def Vector2D_new_def)
  qed
  then show ?thesis using l'(1,2) assms(1,4) by (auto simp: render_board_layer_def layer_ok_def)
qed

lemma life_ok_render:
  assumes "life_ok t w" "square LG_SIZE board"
  shows "\<exists>w'. render_board_layer (lg_id t) board w = Some w' \<and> life_ok (t\<lparr>lg_board := board\<rparr>) w' \<and>
           (\<exists>lm l. LAYER_MANAGER w' = Some lm \<and> layers lm (lg_id t) = Some l \<and>
              (\<forall>x < 600. \<forall>y < 600. board_picture board 0 0 PIXCEL_SIZE Color_green x y = Some (win_color (layer_window l) x y)))"
proof -
  from assms(1) obtain lm l where lm: "LAYER_MANAGER w = Some lm" "lm_ok (LATEST_UNUSED_ID w, lm)" "stack_on_screen lm"
    "layers lm (lg_id t) = Some l" "win_width (layer_window l) = 600" "win_h (layer_window l) = 600"
    by (auto simp: life_ok_def)
  from render_board_layer_ok[OF lm assms(2)] obtain l' where
    run: "render_board_layer (lg_id t) board w = Some (w\<lparr>LAYER_MANAGER := Some (lm\<lparr>layers := (layers lm)(lg_id t \<mapsto> l')\<rparr>)\<rparr>)"
    and l': "same_layer l l'" "window_ok (layer_window l')"
      "\<forall>x < 600. \<forall>y < 600. board_picture board 0 0 PIXCEL_SIZE Color_green x y = Some (win_color (layer_window l') x y)"
    by blast
  have "l' = l\<lparr>layer_window := layer_window l'\<rparr>" using l'(1) by (simp add: same_layer_def)
  then have "lm_ok (LATEST_UNUSED_ID w, lm\<lparr>layers := (layers lm)(lg_id t \<mapsto> l')\<rparr>)"
    using lm_ok_update[OF lm(2,4) l'(2)] by metis
  with stack_on_screen_update[OF lm(3,4) l'(1,2)] l'(1) lm(5,6) assms
  have "life_ok (t\<lparr>lg_board := board\<rparr>) (w\<lparr>LAYER_MANAGER := Some (lm\<lparr>layers := (layers lm)(lg_id t \<mapsto> l')\<rparr>)\<rparr>)"
    by (auto simp: life_ok_def clicks_ok_def same_layer_def)
  with run l'(3) show ?thesis by auto
qed

lemma life_ok_inner:
  assumes "life_ok t w"
  shows "\<exists>t' w'. lifegame_inner t w = Some (t', w') \<and> life_ok t' w' \<and> CLICKED_POSITION_QUEUE w' = [] \<and>
           (\<forall>x < LG_SIZE. \<forall>y < LG_SIZE. lg_board t' ! y ! x = (lg_board t ! y ! x \<or> (x, y) \<in> set (CLICKED_POSITION_QUEUE w)))"
proof -
  have sq: "square LG_SIZE (lg_board t)" and q: "list_all (\<lambda>(x, y). x < LG_SIZE \<and> y < LG_SIZE) (CLICKED_POSITION_QUEUE w)"
    using assms by (auto simp: life_ok_def clicks_ok_def)
  obtain b where b: "drain_clicks (CLICKED_POSITION_QUEUE w) (lg_board t) = Some b" "square LG_SIZE b"
    "\<forall>x < LG_SIZE. \<forall>y < LG_SIZE. b ! y ! x = (lg_board t ! y ! x \<or> (x, y) \<in> set (CLICKED_POSITION_QUEUE w))"
    using drain_clicks_ok[OF sq q] by blast
  let ?w = "w\<lparr>CLICKED_POSITION_QUEUE := []\<rparr>"
  have ok: "life_ok t ?w" using assms by (auto simp: life_ok_def clicks_ok_def)
  show ?thesis
  proof (cases "CLICKED_POSITION_QUEUE w = []")
    case True
    have "life_ok (t\<lparr>lg_board := b\<rparr>) ?w" using ok b(2) by (auto simp: life_ok_def)
    then show ?thesis using b True by (auto simp: lifegame_inner_def)
  next
    case False
    obtain w' where "render_board_layer (lg_id t) b ?w = Some w'" "life_ok (t\<lparr>lg_board := b\<rparr>) w'"
      using life_ok_render[OF ok b(2)] by blast
    moreover from this(1) have "CLICKED_POSITION_QUEUE w' = []"
      by (auto simp: render_board_layer_def bind_eq_Some_conv)
    ultimately show ?thesis using b False by (auto simp: lifegame_inner_def)
  qed
qed

lemma life_ok_flush:
  assumes "life_ok t w"
  shows "\<exists>w'. lifegame_flush w = Some w' \<and> life_ok t w'"
proof -
  from assms obtain lm where lm: "LAYER_MANAGER w = Some lm" "stack_on_screen lm" by (auto simp: life_ok_def)
  then have "pixcel_wf (lm_writer lm)" by (simp add: stack_on_screen_def)
  from fb_draw[OF draws_layers_flush[OF lm(2)] this, of "wd_mem w"] obtain mem' where "layers_flush lm (wd_mem w) = Some mem'"
    by blast
  then show ?thesis using lm(1) assms by (auto simp: lifegame_flush_def life_ok_def clicks_ok_def)
qed

lemma life_poll_ok:
  assumes "life_ok t w" "lg_phase t \<noteq> LgStart"
  shows "\<exists>t' w'. do_lifegame_poll t w = Some (t', w', Pending) \<and> life_ok t' w' \<and> lg_phase t' \<noteq> LgStart"
proof (cases "lg_phase t")
  case (LgInner n)
  with life_ok_inner[OF assms(1)] life_ok_flush[OF assms(1)] show ?thesis
    by (cases "n < 100000") (auto simp: do_lifegame_poll_def)
next
  case LgFlushed
  have "square LG_SIZE (lg_board t)" using assms(1) by (simp add: life_ok_def)
  then obtain b where "(if RUNNING w then process LG_SIZE (lg_board t) else Some (lg_board t)) = Some b" "square LG_SIZE b"
    using process_spec[of LG_SIZE "lg_board t"] by (cases "RUNNING w") auto
  with life_ok_render[OF assms(1), of b] LgFlushed show ?thesis by (auto simp: do_lifegame_poll_def)
next
  case LgRendered
  with life_ok_inner[OF assms(1)] show ?thesis by (auto simp: do_lifegame_poll_def)
qed (use assms(2) in simp)

section \<open>Properties\<close>

text \<open>C27: Once started, the game's task never panics and never finishes while its layers are on the screen:
  every poll runs to the next yield and re-establishes the invariant (a square board, its layer
  registered, pending clicks on the board).\<close>

theorem lifegame_never_panics:
  assumes "life_ok t w" "lg_phase t \<noteq> LgStart"
  shows "\<exists>t' w'. do_lifegame_poll t w = Some (t', w', Pending) \<and> life_ok t' w' \<and> lg_phase t' \<noteq> LgStart"
  by (rule life_poll_ok[OF assms])

definition example_life_world :: World where
  "example_life_world = \<lparr>GRAPHICS_INFO = GraphicsInfo_new 640 640 640 4096 Bgr, wd_mem = (\<lambda>_. 0),
     UNSAFE_WRITER_BUF = Some (new_raw Bgr 4096 640 640 640), WRITER = None,
     LAYER_MANAGER = Some \<lparr>lm_writer = new_raw Bgr 4096 640 640 640, layer_stack = [0],
       layers = [0 \<mapsto> \<lparr>layer_id = 0, layer_window = the (Window_new 600 600 Bgr None \<lparr>pos_x = 0, pos_y = 0\<rparr>)\<rparr>]\<rparr>,
     LATEST_UNUSED_ID = 1, CLICKED_POSITION_QUEUE = [(3, 4)], RUNNING = True, MOUSE_LAYER_ID = 0\<rparr>"

definition example_life_task :: "LifePhase \<Rightarrow> LifegameTask" where
  "example_life_task p = \<lparr>lg_phase = p, lg_id = 0, lg_board = initial_cells\<rparr>"

lemma initial_cells_square: "square LG_SIZE initial_cells"
  by (simp add: square_def LG_SIZE_def initial_cells_def initial_board_def)

lemma example_life_ok: "life_ok (example_life_task p) example_life_world"
proof -
  obtain win where win: "Window_new 600 600 Bgr None \<lparr>pos_x = 0, pos_y = 0\<rparr> = Some win" "window_ok win"
    "win_width win = 600" "win_h win = 600" "transparent_color win = None" "rendering_handler win = Bgr"
    "win_position win = \<lparr>pos_x = 0, pos_y = 0\<rparr>"
    using Window_new_ok[of 600 600 Bgr None "\<lparr>pos_x = 0, pos_y = 0\<rparr>"] by auto
  have "on_screen (new_raw Bgr 4096 640 640 640) win" using win by (simp add: on_screen_def new_raw_def)
  then show ?thesis
    using win initial_cells_square
    by (simp add: life_ok_def clicks_ok_def example_life_world_def example_life_task_def lm_ok_def stack_on_screen_def
        pixcel_wf_def new_raw_def LG_SIZE_def)
qed

theorem lifegame_never_panics_witness:
  "\<exists>t' w'. do_lifegame_poll (example_life_task (LgInner 5)) example_life_world = Some (t', w', Pending) \<and>
     life_ok t' w' \<and> lg_phase t' \<noteq> LgStart"
  by (rule lifegame_never_panics[OF example_life_ok]) (simp add: example_life_task_def)

text \<open>The generation step of the task: when the game runs, the task's board becomes the next generation
  under Conway's rule, when it is paused the board stays, and the task's window then shows the board.\<close>

theorem lifegame_generation:
  assumes "life_ok t w" "lg_phase t = LgFlushed"
  shows "\<exists>t' w' lm l. do_lifegame_poll t w = Some (t', w', Pending) \<and>
           (\<forall>i < LG_SIZE. \<forall>j < LG_SIZE. lg_board t' ! i ! j =
              (if RUNNING w then conway LG_SIZE (lg_board t) i j else lg_board t ! i ! j)) \<and>
           LAYER_MANAGER w' = Some lm \<and> layers lm (lg_id t) = Some l \<and>
           (\<forall>x < 600. \<forall>y < 600. board_picture (lg_board t') 0 0 PIXCEL_SIZE Color_green x y =
              Some (win_color (layer_window l) x y))"
proof -
  have "square LG_SIZE (lg_board t)" using assms(1) by (simp add: life_ok_def)
  then obtain b where b: "(if RUNNING w then process LG_SIZE (lg_board t) else Some (lg_board t)) = Some b" "square LG_SIZE b"
    "\<forall>i < LG_SIZE. \<forall>j < LG_SIZE. b ! i ! j = (if RUNNING w then conway LG_SIZE (lg_board t) i j else lg_board t ! i ! j)"
    using process_spec[of LG_SIZE "lg_board t"] by (cases "RUNNING w") auto
  obtain w' lm l where "render_board_layer (lg_id t) b w = Some w'" "LAYER_MANAGER w' = Some lm" "layers lm (lg_id t) = Some l"
    "\<forall>x < 600. \<forall>y < 600. board_picture b 0 0 PIXCEL_SIZE Color_green x y = Some (win_color (layer_window l) x y)"
    using life_ok_render[OF assms(1) b(2)] by blast
  with b assms(2) show ?thesis by (auto simp: do_lifegame_poll_def)
qed

theorem lifegame_generation_witness:
  "\<exists>t' w' lm l. do_lifegame_poll (example_life_task LgFlushed) example_life_world = Some (t', w', Pending) \<and>
     (\<forall>i < LG_SIZE. \<forall>j < LG_SIZE. lg_board t' ! i ! j =
        (if RUNNING example_life_world then conway LG_SIZE (lg_board (example_life_task LgFlushed)) i j
         else lg_board (example_life_task LgFlushed) ! i ! j)) \<and>
     LAYER_MANAGER w' = Some lm \<and> layers lm (lg_id (example_life_task LgFlushed)) = Some l \<and>
     (\<forall>x < 600. \<forall>y < 600. board_picture (lg_board t') 0 0 PIXCEL_SIZE Color_green x y =
        Some (win_color (layer_window l) x y))"
  by (rule lifegame_generation[OF example_life_ok]) (simp add: example_life_task_def)

lemma get_writer_sel:
  "pw_pixcel_format (get_writer g) = gi_pixcel_format g" "pw_pixcels_per_scan_line (get_writer g) = gi_pixels_per_scan_line g"
  "pw_vertical_resolution (get_writer g) = gi_vertical_resolution g" "pw_horizontal_resolution (get_writer g) = gi_horizontal_resolution g"
  by (cases "gi_pixcel_format g"; simp add: get_writer_def new_raw_def)+

lemma handler_format: "new_rendering_handler g = gi_pixcel_format g"
  by (cases "gi_pixcel_format g") (simp_all add: new_rendering_handler_def)

lemma init_mouse_layer_ok:
  assumes "LAYER_MANAGER w = Some lm" "lm_ok (LATEST_UNUSED_ID w, lm)" "LATEST_UNUSED_ID w < 1000"
  shows "\<exists>l. init_mouse_cursor_layer w = Some (w\<lparr>LATEST_UNUSED_ID := LATEST_UNUSED_ID w + 1,
             LAYER_MANAGER := Some (lm\<lparr>layer_stack := LATEST_UNUSED_ID w # layer_stack lm,
                                       layers := (layers lm)(LATEST_UNUSED_ID w \<mapsto> l)\<rparr>),
             MOUSE_LAYER_ID := LATEST_UNUSED_ID w\<rparr>, LATEST_UNUSED_ID w) \<and>
           layer_id l = LATEST_UNUSED_ID w \<and> window_ok (layer_window l) \<and> win_position (layer_window l) = \<lparr>pos_x = 0, pos_y = 0\<rparr> \<and>
           rendering_handler (layer_window l) = new_rendering_handler (GRAPHICS_INFO w) \<and>
           win_width (layer_window l) = 15 \<and> win_h (layer_window l) = 24"
proof -
  let ?f = "new_rendering_handler (GRAPHICS_INFO w)" and ?u = "LATEST_UNUSED_ID w"
  obtain rows where rows: "MOUSE_CURSOR_SHAPE = Some rows" "\<And>x y. x < 15 \<Longrightarrow> y < 24 \<Longrightarrow>
      get_pixel (array_shape mouse_pixel_into_color MOUSE_CURSOR_WIDTH MOUSE_CURSOR_HEIGHT rows) x y \<noteq> None"
    using mouse_cursor_pixels by (auto simp: MOUSE_CURSOR_WIDTH_def MOUSE_CURSOR_HEIGHT_def)
  let ?sh = "array_shape mouse_pixel_into_color MOUSE_CURSOR_WIDTH MOUSE_CURSOR_HEIGHT rows"
  have dim: "get_width ?sh = 15" "get_height ?sh = 24"
    by (simp_all add: array_shape_def MOUSE_CURSOR_WIDTH_def MOUSE_CURSOR_HEIGHT_def)
  obtain win where win: "Window_new 15 24 ?f (Some (mouse_pixel_into_color BackGround)) \<lparr>pos_x = 0, pos_y = 0\<rparr> = Some win"
    "window_ok win" "win_width win = 15" "win_h win = 24" "rendering_handler win = ?f" "win_position win = \<lparr>pos_x = 0, pos_y = 0\<rparr>"
    using Window_new_ok[of 15 24 ?f "Some (mouse_pixel_into_color BackGround)" "\<lparr>pos_x = 0, pos_y = 0\<rparr>"] by auto
  let ?l = "\<lparr>layer_id = ?u, layer_window = win\<rparr>"
  have new: "new_layer win (?u, lm) = Some ((?u + 1, lm\<lparr>layer_stack := ?u # layer_stack lm, layers := (layers lm)(?u \<mapsto> ?l)\<rparr>), ?u)"
    using assms(3) by (simp add: new_layer_def Layer_new_def LayerId_uninitialized_def)
  have mv: "window_move_relative 0 0 win = Some win"
    using win(6) by (simp add: window_move_relative_def usize_as_isize_def iadd_def isize_try_into_usize_def)
  have ok: "layer_ok ?l ?l" using win(2) by (simp add: layer_ok_def same_layer_def)
  have fr: "frame_in (win_inside (layer_window ?l)) (vx (Vector2D_new 0 0)) (vy (Vector2D_new 0 0)) (get_width ?sh) (get_height ?sh)"
    using win(3,4) by (simp add: frame_in_def win_inside_def dim Vector2D_new_def)
  have "layer.draws ?l (win_inside (layer_window ?l)) (fill_shape layer_write (Vector2D_new 0 0) ?sh)
      (shape_picture ?sh (vx (Vector2D_new 0 0)) (vy (Vector2D_new 0 0)))"
    using rows(2) by (intro layer.draws_shape[OF fr]) (simp add: dim)
  from layer.drawsE[OF this ok refl] obtain l' where
    l': "fill_shape layer_write (Vector2D_new 0 0) ?sh ?l = Some l'" "layer_ok ?l l'" by blast
  have "init_mouse_cursor_layer w = Some (w\<lparr>LATEST_UNUSED_ID := ?u + 1,
             LAYER_MANAGER := Some (lm\<lparr>layer_stack := ?u # layer_stack lm, layers := (layers lm)(?u \<mapsto> l')\<rparr>),
             MOUSE_LAYER_ID := ?u\<rparr>, ?u)"
    using win(1) assms(1) new mv l'(1) unfolding init_mouse_cursor_layer_def rows(1)
    by (simp add: dim Position_new_def world_new_layer_def layer_move_relative_def)
  then show ?thesis using l'(2) win by (auto simp: layer_ok_def same_layer_def)
qed

lemma lifegame_start_ok:
  assumes "LAYER_MANAGER w = Some lm" "lm_ok (LATEST_UNUSED_ID w, lm)" "LATEST_UNUSED_ID w < 1000" "stack_on_screen lm"
    and "gi_pixcel_format (GRAPHICS_INFO w) = pw_pixcel_format (lm_writer lm)" "clicks_ok w"
    and "600 \<le> pw_vertical_resolution (lm_writer lm)"
  shows "\<exists>t w' lm'. lifegame_start w = Some (t, w') \<and> life_ok t w' \<and> LAYER_MANAGER w' = Some lm' \<and>
           layer_stack lm' = lg_id t # layer_stack lm \<and> lg_board t = initial_cells"
proof -
  let ?f = "new_rendering_handler (GRAPHICS_INFO w)" and ?u = "LATEST_UNUSED_ID w"
  obtain win where win: "Window_new 600 600 ?f None \<lparr>pos_x = 0, pos_y = 0\<rparr> = Some win"
    "window_ok win" "win_width win = 600" "win_h win = 600" "rendering_handler win = ?f" "win_position win = \<lparr>pos_x = 0, pos_y = 0\<rparr>"
    using Window_new_ok[of 600 600 ?f None "\<lparr>pos_x = 0, pos_y = 0\<rparr>"] by auto
  let ?l = "\<lparr>layer_id = ?u, layer_window = win\<rparr>"
  let ?lm = "lm\<lparr>layer_stack := ?u # layer_stack lm, layers := (layers lm)(?u \<mapsto> ?l)\<rparr>"
  have new: "new_layer win (?u, lm) = Some ((?u + 1, ?lm), ?u)"
    using assms(3) by (simp add: new_layer_def Layer_new_def LayerId_uninitialized_def)
  have ok: "lm_ok (?u + 1, ?lm)" "?u \<notin> dom (layers lm)" using lm_ok_new_layer[OF assms(2) win(2) new] by auto
  have "on_screen (lm_writer lm) win"
    using win assms(5,7) by (simp add: on_screen_def handler_format)
  then have "stack_on_screen ?lm" using assms(4) ok(2) by (auto simp: stack_on_screen_def)
  moreover have "lifegame_start w = Some (\<lparr>lg_phase = LgStart, lg_id = ?u, lg_board = initial_cells\<rparr>,
      w\<lparr>LATEST_UNUSED_ID := ?u + 1, LAYER_MANAGER := Some ?lm\<rparr>)"
    using win(1) assms(1) new
    by (simp add: lifegame_start_def LG_SIZE_def PIXCEL_SIZE_def Position_new_def world_new_layer_def)
  ultimately show ?thesis using ok(1) win(3,4) initial_cells_square assms(6)
    by (auto simp: life_ok_def clicks_ok_def)
qed

text \<open>Booting the desktop never panics on a screen with at least 600 lines, whatever is drawn on the frame buffer in between: after the graphics, the mouse
  cursor's layer and the first poll of the game of life, the stack holds the game below the cursor, so
  the cursor is drawn over the board, and the task's invariant holds.\<close>

lemma desktop_boots:
  assumes "pixcel_wf (get_writer g)" "600 \<le> gi_vertical_resolution g" "LAYER_MANAGER w = None"
    and "LATEST_UNUSED_ID w = 0" "CLICKED_POSITION_QUEUE w = []"
  obtains w1 where "init_graphics g w = Some w1" "UNSAFE_WRITER_BUF w1 = Some (get_writer g)"
    "\<And>mem. \<exists>w2 t w3 lm. init_mouse_cursor_layer (w1\<lparr>wd_mem := mem\<rparr>) = Some (w2, 0) \<and>
       do_lifegame_poll \<lparr>lg_phase = LgStart, lg_id = 0, lg_board = []\<rparr> w2 = Some (t, w3, Pending) \<and>
       life_ok t w3 \<and> LAYER_MANAGER w3 = Some lm \<and> layer_stack lm = [lg_id t, 0]"
proof -
  let ?pw = "get_writer g"
  obtain mem0 where mem: "clear_screen g (wd_mem w) = Some mem0"
    using fb_draw[OF draws_clear_screen[OF assms(1)] assms(1), of "wd_mem w"] by blast
  let ?w0 = "the (init_graphics g w)"
  have w0: "init_graphics g w = Some ?w0" "UNSAFE_WRITER_BUF ?w0 = Some ?pw" using mem by (simp_all add: init_graphics_def Let_def)
  have "\<exists>w2 t w3 lm. init_mouse_cursor_layer (?w0\<lparr>wd_mem := mem1\<rparr>) = Some (w2, 0) \<and>
       do_lifegame_poll \<lparr>lg_phase = LgStart, lg_id = 0, lg_board = []\<rparr> w2 = Some (t, w3, Pending) \<and>
       life_ok t w3 \<and> LAYER_MANAGER w3 = Some lm \<and> layer_stack lm = [lg_id t, 0]" for mem1
  proof -
    let ?w1 = "?w0\<lparr>wd_mem := mem1\<rparr>"
    have w1: "LAYER_MANAGER ?w1 = Some (LayerManager_new ?pw)" "LATEST_UNUSED_ID ?w1 = 0" "GRAPHICS_INFO ?w1 = g" "CLICKED_POSITION_QUEUE ?w1 = []"
      using mem assms(3-5) by (simp_all add: init_graphics_def Let_def)
    have ok1: "lm_ok (LATEST_UNUSED_ID ?w1, LayerManager_new ?pw)" using lm_ok_new w1(2) by simp
    obtain l where l: "init_mouse_cursor_layer ?w1 = Some (?w1\<lparr>LATEST_UNUSED_ID := 1,
        LAYER_MANAGER := Some ((LayerManager_new ?pw)\<lparr>layer_stack := [0], layers := [0 \<mapsto> l]\<rparr>), MOUSE_LAYER_ID := 0\<rparr>, 0)"
      "layer_id l = 0" "window_ok (layer_window l)" "win_position (layer_window l) = \<lparr>pos_x = 0, pos_y = 0\<rparr>"
      "rendering_handler (layer_window l) = gi_pixcel_format g" "win_width (layer_window l) = 15" "win_h (layer_window l) = 24"
      using init_mouse_layer_ok[OF w1(1) ok1] unfolding w1(2,3) by (auto simp: LayerManager_new_def handler_format)
    let ?lm2 = "(LayerManager_new ?pw)\<lparr>layer_stack := [0], layers := [0 \<mapsto> l]\<rparr>"
    let ?w2 = "?w1\<lparr>LATEST_UNUSED_ID := 1, LAYER_MANAGER := Some ?lm2, MOUSE_LAYER_ID := 0\<rparr>"
    have "on_screen ?pw (layer_window l)" using l assms(2) by (simp add: on_screen_def get_writer_sel)
    then have on: "stack_on_screen ?lm2" using assms(1) by (simp add: stack_on_screen_def LayerManager_new_def)
    have ok2: "lm_ok (LATEST_UNUSED_ID ?w2, ?lm2)" using l by (simp add: lm_ok_def)
    have w2: "GRAPHICS_INFO ?w2 = g" "CLICKED_POSITION_QUEUE ?w2 = []" using w1(3,4) by simp_all
    obtain t w3 lm3 where st: "lifegame_start ?w2 = Some (t, w3)" "life_ok t w3" "LAYER_MANAGER w3 = Some lm3"
      "layer_stack lm3 = [lg_id t, 0]"
      using lifegame_start_ok[of ?w2 ?lm2, OF _ ok2 _ on] w2 assms(2)
      by (auto simp: LayerManager_new_def get_writer_sel clicks_ok_def)
    have q: "CLICKED_POSITION_QUEUE w3 = []"
      using st(1) w2(2) by (auto simp: lifegame_start_def world_new_layer_def bind_eq_Some_conv)
    have "lifegame_inner t w3 = Some (t, w3)" using q by (simp add: lifegame_inner_def)
    then show ?thesis using l(1) st by (auto simp: do_lifegame_poll_def)
  qed
  with that w0 show ?thesis by blast
qed

text \<open>A screen of 640 by 640 pixels.\<close>

lemma example_screen_boots: "pixcel_wf (get_writer (GraphicsInfo_new 640 640 640 4096 Bgr))" "600 \<le> gi_vertical_resolution (GraphicsInfo_new 640 640 640 4096 Bgr)"
  by (simp_all add: get_writer_def GraphicsInfo_new_def new_raw_def pixcel_wf_def)

text \<open>A mouse report never panics when it has its three bytes and the cursor's layer is registered: the
  cursor moves by the signed displacements, clamped at zero on each axis; a click adds the cell under
  the cursor to the queue and every queued cell stays on the board.\<close>

theorem mouse_callback_moves:
  assumes "clicks_ok w" "LAYER_MANAGER w = Some lm" "layers lm (MOUSE_LAYER_ID w) = Some l"
    and "win_position (layer_window l) = \<lparr>pos_x = px, pos_y = py\<rparr>" "px < 4611686018427387904" "py < 4611686018427387904"
  shows "\<exists>w' lm' l'. mouse_callback (b0 # b1 # b2 # rest) w = Some w' \<and> clicks_ok w' \<and>
           LAYER_MANAGER w' = Some lm' \<and> layers lm' (MOUSE_LAYER_ID w) = Some l' \<and>
           win_position (layer_window l') = \<lparr>pos_x = nat (int px + sint b1), pos_y = nat (int py + sint b2)\<rparr> \<and>
           (CLICKED_POSITION_QUEUE w' = CLICKED_POSITION_QUEUE w \<or>
            b0 AND 1 \<noteq> 0 \<and> px < LG_SIZE * PIXCEL_SIZE \<and> py < LG_SIZE * PIXCEL_SIZE \<and>
            CLICKED_POSITION_QUEUE w' = CLICKED_POSITION_QUEUE w @ [(px div PIXCEL_SIZE, py div PIXCEL_SIZE)])"
proof -
  have s: "- 128 \<le> sint b1" "sint b1 < 128" "- 128 \<le> sint b2" "sint b2 < 128"
    using sint_greater_eq[of b1] sint_less[of b1] sint_greater_eq[of b2] sint_less[of b2] by simp_all
  let ?win = "(layer_window l)\<lparr>win_position := \<lparr>pos_x = nat (int px + sint b1), pos_y = nat (int py + sint b2)\<rparr>\<rparr>"
  have "window_move_relative (sint b1) (sint b2) (layer_window l) = Some ?win"
    using s assms(4-6) by (auto simp: window_move_relative_def usize_as_isize_def iadd_def isize_try_into_usize_def)
  then have mv: "layer_move_relative (MOUSE_LAYER_ID w) (sint b1) (sint b2) lm =
      Some (lm\<lparr>layers := (layers lm)(MOUSE_LAYER_ID w \<mapsto> l\<lparr>layer_window := ?win\<rparr>)\<rparr>)"
    using assms(3) by (simp add: layer_move_relative_def)
  have pos: "frame_buffer_position_to_board_position (Vector2D_new px py) = Some
      (if 20 \<le> px div 30 \<or> 20 \<le> py div 30 then None else Some (px div 30, py div 30))"
    using assms(5,6) by (simp add: frame_buffer_position_to_board_position_def usize_as_isize_def iadd_def BOARD_POS_def
        Vector2D_new_def LG_SIZE_def PIXCEL_SIZE_def Let_def)
  show ?thesis
    using assms(1-4) mv pos
    by (auto simp: mouse_callback_def clicks_ok_def LG_SIZE_def PIXCEL_SIZE_def)
qed

theorem mouse_callback_moves_witness:
  "\<exists>w' lm' l'. mouse_callback [1, 0xff, 5] example_life_world = Some w' \<and> clicks_ok w' \<and>
     LAYER_MANAGER w' = Some lm' \<and> layers lm' (MOUSE_LAYER_ID example_life_world) = Some l' \<and>
     win_position (layer_window l') = \<lparr>pos_x = nat (int 0 + sint (0xff :: u8)), pos_y = nat (int 0 + sint (5 :: u8))\<rparr> \<and>
     (CLICKED_POSITION_QUEUE w' = CLICKED_POSITION_QUEUE example_life_world \<or>
      (1 :: u8) AND 1 \<noteq> 0 \<and> 0 < LG_SIZE * PIXCEL_SIZE \<and> 0 < LG_SIZE * PIXCEL_SIZE \<and>
      CLICKED_POSITION_QUEUE w' = CLICKED_POSITION_QUEUE example_life_world @ [(0 div PIXCEL_SIZE, 0 div PIXCEL_SIZE)])"
proof (rule mouse_callback_moves)
  show "clicks_ok example_life_world" by (simp add: clicks_ok_def example_life_world_def LG_SIZE_def)
  show "LAYER_MANAGER example_life_world = Some (the (LAYER_MANAGER example_life_world))"
    by (simp add: example_life_world_def)
  show "layers (the (LAYER_MANAGER example_life_world)) (MOUSE_LAYER_ID example_life_world) =
      Some \<lparr>layer_id = 0, layer_window = the (Window_new 600 600 Bgr None \<lparr>pos_x = 0, pos_y = 0\<rparr>)\<rparr>"
    by (simp add: example_life_world_def)
  show "win_position (layer_window \<lparr>layer_id = 0, layer_window = the (Window_new 600 600 Bgr None \<lparr>pos_x = 0, pos_y = 0\<rparr>)\<rparr>)
      = \<lparr>pos_x = 0, pos_y = 0\<rparr>"
    by (simp add: Window_new_def)
qed simp_all

text \<open>A keyboard report with a key code of 144 or more (the HID usage table goes on to 231) as its first key
  makes the kernel panic: the tables of key codes have 144 entries and are indexed unchecked.\<close>

theorem keyboard_keycode_panics:
  assumes "144 \<le> unat k"
  shows "keyboard_callback font (b0 # k # rest) w = None"
proof -
  have "length KEYCODE_MAP = 144" "length KEYCODE_MAP_SHIFTED = 144" by (simp_all add: KEYCODE_MAP_def KEYCODE_MAP_SHIFTED_def)
  moreover have "k \<noteq> 0" using assms by auto
  ultimately show ?thesis using assms by (simp add: keyboard_callback_def keyboard_key_def Let_def)
qed

theorem keyboard_keycode_panics_witness: "keyboard_callback [] [2, 0xe0, 0] example_life_world = None"
  by (rule keyboard_keycode_panics) simp

end
