(* ===== verification/Logging.thy ===== *)
theory Logging
  imports Desktop
begin

text \<open>
  Formatted output: \<^verbatim>\<open>kernel-lib/src/write_to.rs\<close>, the log decoration of \<^verbatim>\<open>kernel-lib/src/logger.rs\<close> and the
  global logger of \<^verbatim>\<open>kernel/src/graphics.rs\<close>.

  \<^verbatim>\<open>fmt::Arguments\<close> are the pieces that \<^verbatim>\<open>core::fmt\<close> passes to \<^verbatim>\<open>write_str\<close> one after the other, stopping at the
  first error. Text is a list of code points, \<^verbatim>\<open>WriteTo\<close> works on the bytes of its UTF-8 encoding.
\<close>

section \<open>Writing into a buffer\<close>

record WriteTo =
  wt_buffer :: "u8 list"
  wt_used :: usize

datatype fmt_error = FmtError

definition WriteTo_new :: "u8 list \<Rightarrow> WriteTo" where
  "WriteTo_new buffer = \<lparr>wt_buffer = buffer, wt_used = 0\<rparr>"

definition as_str :: "WriteTo \<Rightarrow> u8 list option option" where
  "as_str w =
     (if wt_used w \<le> length (wt_buffer w)
      then do { s \<leftarrow> slice (wt_buffer w) 0 (wt_used w); Some (Some s) }
      else Some None)"

definition WriteTo_write_str :: "u8 list \<Rightarrow> WriteTo \<Rightarrow> (WriteTo \<times> (fmt_error + unit)) option" where
  "WriteTo_write_str raw_s w =
     (if length (wt_buffer w) < wt_used w then Some (w, Inl FmtError)
      else do {
        remaining_len \<leftarrow> usub (length (wt_buffer w)) (wt_used w);
        let write_num = min (length raw_s) remaining_len;
        part \<leftarrow> slice raw_s 0 write_num;
        buffer \<leftarrow> copy_from_slice (wt_buffer w) (wt_used w) (wt_used w + write_num) part;
        used \<leftarrow> uadd (wt_used w) (length raw_s);
        let w = \<lparr>wt_buffer = buffer, wt_used = used\<rparr>;
        Some (w, if write_num < length raw_s then Inl FmtError else Inr ())
      })"

text \<open>\<^verbatim>\<open>fmt::write\<close>.\<close>

fun fmt_write :: "('s \<Rightarrow> u8 list \<Rightarrow> ('s \<times> (fmt_error + unit)) option) \<Rightarrow> 's \<Rightarrow> u8 list list \<Rightarrow> ('s \<times> (fmt_error + unit)) option" where
  "fmt_write f s [] = Some (s, Inr ())"
| "fmt_write f s (p # ps) = do {
     (s, r) \<leftarrow> f s p;
     (case r of Inl e \<Rightarrow> Some (s, Inl e) | Inr _ \<Rightarrow> fmt_write f s ps)
   }"

definition show_args :: "u8 list \<Rightarrow> u8 list list \<Rightarrow> (fmt_error + u8 list) option" where
  "show_args buffer args = do {
     (w, r) \<leftarrow> fmt_write (\<lambda>w s. WriteTo_write_str s w) (WriteTo_new buffer) args;
     (case r of
        Inl e \<Rightarrow> Some (Inl e)
      | Inr _ \<Rightarrow> do { s \<leftarrow> as_str w; Some (case s of Some s \<Rightarrow> Inr s | None \<Rightarrow> Inl FmtError) })
   }"

section \<open>Decorated log lines\<close>

datatype Level = Error | Warn | Info | Debug | Trace

fun level_nat :: "Level \<Rightarrow> nat" where
  "level_nat Error = 1" | "level_nat Warn = 2" | "level_nat Info = 3" | "level_nat Debug = 4" | "level_nat Trace = 5"

definition text_of :: "string \<Rightarrow> code_point list" where
  "text_of s = map of_char s"

fun level_text :: "Level \<Rightarrow> code_point list" where
  "level_text Error = text_of ''ERROR''" | "level_text Warn = text_of ''WARN''" | "level_text Info = text_of ''INFO''"
| "level_text Debug = text_of ''DEBUG''" | "level_text Trace = text_of ''TRACE''"

definition newline :: code_point where "newline = 10"

text \<open>\<^verbatim>\<open>str::lines\<close>: the lines without their terminators (a newline, or a carriage return and a newline); no empty line after the last newline.\<close>

definition strip_cr :: "code_point list \<Rightarrow> code_point list" where
  "strip_cr l = (if l \<noteq> [] \<and> last l = 13 then butlast l else l)"

fun split_lines :: "code_point list \<Rightarrow> code_point list \<Rightarrow> code_point list list" where
  "split_lines acc [] = (if acc = [] then [] else [acc])"
| "split_lines acc (c # cs) = (if c = newline then strip_cr acc # split_lines [] cs else split_lines (acc @ [c]) cs)"

definition str_lines :: "code_point list \<Rightarrow> code_point list list" where
  "str_lines s = split_lines [] s"

fun decimal :: "nat \<Rightarrow> code_point list" where
  "decimal n = (if n < 10 then [48 + n] else decimal (n div 10) @ [48 + n mod 10])"

declare decimal.simps [simp del]

definition pad_left :: "code_point \<Rightarrow> nat \<Rightarrow> code_point list \<Rightarrow> code_point list" where
  "pad_left c n s = replicate (n - length s) c @ s"

record DecoratedLog =
  dl_level :: Level
  dl_at_line_start :: bool
  dl_file :: "code_point list"
  dl_line :: nat

definition log_header :: "DecoratedLog \<Rightarrow> code_point list" where
  "log_header d = text_of ''['' @ pad_left 32 5 (level_text (dl_level d)) @ text_of '']: '' @ pad_left 32 12 (dl_file d) @
     text_of ''@'' @ pad_left 48 3 (decimal (dl_line d)) @ text_of '': ''"

text \<open>\<^verbatim>\<open>write_str\<close> of the decoration: the text it passes on to the writer behind it.\<close>

definition DecoratedLog_write_str :: "DecoratedLog \<Rightarrow> code_point list \<Rightarrow> DecoratedLog \<times> code_point list" where
  "DecoratedLog_write_str d s =
     (let lines = str_lines s;
          first = (case lines of [] \<Rightarrow> [] | l # _ \<Rightarrow> l);
          out = (if dl_at_line_start d then log_header d else []) @ first;
          d = d\<lparr>dl_at_line_start := False\<rparr>;
          out = out @ concat (map (\<lambda>l. newline # level_text (dl_level d) @ text_of '': '' @ l) (tl lines)) in
      if s \<noteq> [] \<and> last s = newline then (d\<lparr>dl_at_line_start := True\<rparr>, out @ [newline]) else (d, out))"

fun decorate_pieces :: "DecoratedLog \<Rightarrow> code_point list list \<Rightarrow> code_point list" where
  "decorate_pieces d [] = []"
| "decorate_pieces d (p # ps) = (let (d', out) = DecoratedLog_write_str d p in out @ decorate_pieces d' ps)"

text \<open>\<^verbatim>\<open>DecoratedLog::write\<close>: \<^verbatim>\<open>writeln!\<close> passes the pieces of the message and then a newline.\<close>

definition DecoratedLog_write :: "Level \<Rightarrow> code_point list list \<Rightarrow> code_point list \<Rightarrow> nat \<Rightarrow> code_point list" where
  "DecoratedLog_write level args file line =
     decorate_pieces \<lparr>dl_level = level, dl_at_line_start = True, dl_file = file, dl_line = line\<rparr> (args @ [[newline]])"

section \<open>The global logger\<close>

text \<open>The state of the kernel and the text sent to the serial port so far.\<close>

definition log_enabled :: "World \<Rightarrow> bool" where
  "log_enabled w \<longleftrightarrow> WRITER w \<noteq> None"

definition char_writer_log ::
  "u8 list list \<Rightarrow> Level \<Rightarrow> code_point list list \<Rightarrow> code_point list \<Rightarrow> nat \<Rightarrow> World \<Rightarrow> World option" where
  "char_writer_log font level args file line w =
     (if log_enabled w then print font (DecoratedLog_write level args file line) w else Some w)"

definition global_log ::
  "u8 list list \<Rightarrow> Level \<Rightarrow> code_point list list \<Rightarrow> code_point list \<Rightarrow> nat \<Rightarrow> World \<times> code_point list \<Rightarrow>
   (World \<times> code_point list) option"
where
  "global_log font level args file line = (\<lambda>(w, serial).
     if log_enabled w then
       if level_nat level \<le> level_nat Info then do {
         let text = DecoratedLog_write level args file line;
         w \<leftarrow> print font text w;
         Some (w, serial @ text)
       } else Some (w, serial @ DecoratedLog_write level args file line)
     else Some (w, serial))"

section \<open>Lemmas\<close>

lemma WriteTo_write_str_fits:
  assumes "wt_used w + length s \<le> length (wt_buffer w)" "length (wt_buffer w) < usize_limit"
  shows "WriteTo_write_str s w = Some (\<lparr>wt_buffer = take (wt_used w) (wt_buffer w) @ s @ drop (wt_used w + length s) (wt_buffer w),
    wt_used = wt_used w + length s\<rparr>, Inr ())"
proof -
  have "min (length s) (length (wt_buffer w) - wt_used w) = length s" using assms(1) by simp
  then show ?thesis using assms by (simp add: WriteTo_write_str_def Let_def)
qed

lemma WriteTo_write_str_overflows:
  assumes "length (wt_buffer w) < wt_used w + length s" "wt_used w + length s < usize_limit" "wt_used w \<le> length (wt_buffer w)"
  shows "\<exists>w'. WriteTo_write_str s w = Some (w', Inl FmtError)"
proof -
  have "min (length s) (length (wt_buffer w) - wt_used w) = length (wt_buffer w) - wt_used w" using assms by simp
  moreover have "length (wt_buffer w) - wt_used w < length s" using assms by simp
  ultimately show ?thesis using assms by (simp add: WriteTo_write_str_def Let_def)
qed

lemma fmt_write_spec:
  assumes "wt_used w \<le> length (wt_buffer w)" "length (wt_buffer w) < usize_limit" "wt_used w + length (concat args) < usize_limit"
  shows "\<exists>w' r. fmt_write (\<lambda>w s. WriteTo_write_str s w) w args = Some (w', r) \<and>
    (if wt_used w + length (concat args) \<le> length (wt_buffer w)
     then r = Inr () \<and> wt_used w' = wt_used w + length (concat args) \<and> length (wt_buffer w') = length (wt_buffer w) \<and>
          take (wt_used w') (wt_buffer w') = take (wt_used w) (wt_buffer w) @ concat args
     else r = Inl FmtError)"
  using assms
proof (induction args arbitrary: w)
  case (Cons p ps)
  show ?case
  proof (cases "wt_used w + length p \<le> length (wt_buffer w)")
    case True
    define w1 where "w1 = \<lparr>wt_buffer = take (wt_used w) (wt_buffer w) @ p @ drop (wt_used w + length p) (wt_buffer w),
      wt_used = wt_used w + length p\<rparr>"
    have w1: "wt_used w1 = wt_used w + length p" "length (wt_buffer w1) = length (wt_buffer w)"
      "take (wt_used w1) (wt_buffer w1) = take (wt_used w) (wt_buffer w) @ p" using True by (simp_all add: w1_def)
    have "fmt_write (\<lambda>w s. WriteTo_write_str s w) w (p # ps) = fmt_write (\<lambda>w s. WriteTo_write_str s w) w1 ps"
      using WriteTo_write_str_fits[OF True Cons.prems(2)] by (simp add: w1_def)
    moreover have "wt_used w1 \<le> length (wt_buffer w1)" "length (wt_buffer w1) < usize_limit"
      "wt_used w1 + length (concat ps) < usize_limit" using True w1 Cons.prems by auto
    ultimately show ?thesis
      using Cons.IH[of w1] w1 by (cases "wt_used w + length (concat (p # ps)) \<le> length (wt_buffer w)") (simp_all add: add.assoc)
  next
    case False
    from WriteTo_write_str_overflows[of w p] False Cons.prems obtain w' where
      "WriteTo_write_str p w = Some (w', Inl FmtError)" by force
    with False show ?thesis by simp
  qed
qed simp

lemma text_of_no_newline: "\<forall>c \<in> set s. (of_char c :: nat) \<noteq> 10 \<Longrightarrow> newline \<notin> set (text_of s)"
  by (auto simp: text_of_def newline_def)

lemma decimal_no_newline: "newline \<notin> set (decimal n)"
  by (induction n rule: decimal.induct) (subst decimal.simps, auto simp: newline_def)

lemma level_text_no_newline: "newline \<notin> set (level_text l)"
  by (cases l; simp; intro text_of_no_newline; simp)

lemma log_header_no_newline: "newline \<notin> set (dl_file d) \<Longrightarrow> newline \<notin> set (log_header d)"
  using decimal_no_newline[of "dl_line d"] level_text_no_newline[of "dl_level d"]
  by (auto simp: log_header_def pad_left_def text_of_def newline_def)

lemma split_lines_length:
  "length (split_lines acc s) =
     count_list s newline + (if (s = [] \<and> acc = []) \<or> (s \<noteq> [] \<and> last s = newline) then 0 else 1)"
  by (induction acc s rule: split_lines.induct) auto

lemma split_lines_no_newline: "newline \<notin> set acc \<Longrightarrow> l \<in> set (split_lines acc s) \<Longrightarrow> newline \<notin> set l"
proof (induction acc s rule: split_lines.induct)
  case (2 acc c cs)
  have "newline \<notin> set (strip_cr acc)" using 2(3) by (auto simp: strip_cr_def dest: in_set_butlastD)
  with 2 show ?case by (auto split: if_splits)
qed (auto split: if_splits)

lemma split_lines_one: "newline \<notin> set s \<Longrightarrow> split_lines acc s = (if acc @ s = [] then [] else [acc @ s])"
  by (induction acc s rule: split_lines.induct) auto

lemma count_list_0: "x \<notin> set xs \<Longrightarrow> count_list xs x = 0"
  by (induction xs) auto

lemma DecoratedLog_write_str_count:
  assumes "newline \<notin> set (dl_file d)" "DecoratedLog_write_str d s = (d', out)"
  shows "count_list out newline = count_list s newline" "dl_file d' = dl_file d"
proof -
  let ?ls = "str_lines s" and ?f = "\<lambda>l. newline # level_text (dl_level d) @ text_of '': '' @ l"
  have nn: "newline \<notin> set l" if "l \<in> set ?ls" for l using that split_lines_no_newline[of "[]" l s] by (simp add: str_lines_def)
  have colon: "newline \<notin> set (text_of '': '')" by (rule text_of_no_newline) simp
  have "count_list (concat (map ?f ls)) newline = length ls" if "set ls \<subseteq> set ?ls" for ls
    using that nn colon level_text_no_newline[of "dl_level d"] by (induction ls) (auto simp: count_list_0)
  moreover have "set (tl ?ls) \<subseteq> set ?ls" by (cases ?ls) auto
  ultimately have tls: "count_list (concat (map ?f (tl ?ls))) newline = length ?ls - 1" by simp
  have first: "count_list (case ?ls of [] \<Rightarrow> [] | l # _ \<Rightarrow> l) newline = 0"
    using nn by (cases ?ls) (auto simp: count_list_0)
  have hd: "count_list (if dl_at_line_start d then log_header d else []) newline = 0"
    using log_header_no_newline[OF assms(1)] by (simp add: count_list_0)
  have len: "length ?ls = count_list s newline + (if s = [] \<or> last s = newline then 0 else 1)"
    using split_lines_length[of "[]" s] by (auto simp: str_lines_def)
  have pos: "s \<noteq> [] \<and> last s = newline \<Longrightarrow> 0 < count_list s newline"
    by (metis count_list_0_iff last_in_set not_gr_zero)
  show "count_list out newline = count_list s newline" "dl_file d' = dl_file d"
    using assms(2) tls first hd len pos by (auto simp: DecoratedLog_write_str_def Let_def split: if_splits)
qed

lemma decorate_pieces_count:
  assumes "newline \<notin> set (dl_file d)"
  shows "count_list (decorate_pieces d ps) newline = count_list (concat ps) newline"
  using assms
proof (induction ps arbitrary: d)
  case (Cons p ps)
  obtain d' out where "DecoratedLog_write_str d p = (d', out)" by (cases "DecoratedLog_write_str d p")
  with DecoratedLog_write_str_count[OF Cons.prems this] Cons show ?case by simp
qed simp

lemma decorate_pieces_plain:
  assumes "newline \<notin> set (concat ps)"
  shows "decorate_pieces d (ps @ [[newline]]) = (if dl_at_line_start d then log_header d else []) @ concat ps @ [newline]"
  using assms
proof (induction ps arbitrary: d)
  case Nil
  then show ?case by (auto simp: DecoratedLog_write_str_def str_lines_def strip_cr_def Let_def)
next
  case (Cons p ps)
  have "\<not> (p \<noteq> [] \<and> last p = newline)" using Cons.prems by (metis UN_I concat.simps(2) last_in_set list.set_intros(1) set_concat Un_iff set_append)
  then have "DecoratedLog_write_str d p = (d\<lparr>dl_at_line_start := False\<rparr>, (if dl_at_line_start d then log_header d else []) @ p)"
    using Cons.prems split_lines_one[of p "[]"] by (simp add: DecoratedLog_write_str_def Let_def str_lines_def)
  with Cons show ?case by simp
qed

section \<open>Properties\<close>

text \<open>\<^verbatim>\<open>show\<close> formats into a caller's buffer without ever panicking: it returns exactly the concatenation of the pieces when
  they fit, and an error when they do not; the fit is exact (a text as long as the buffer still succeeds).\<close>

theorem show_exact:
  assumes "length buffer < usize_limit" "length (concat args) < usize_limit"
  shows "show_args buffer args =
    Some (if length (concat args) \<le> length buffer then Inr (concat args) else Inl FmtError)"
proof -
  obtain w' r where r: "fmt_write (\<lambda>w s. WriteTo_write_str s w) (WriteTo_new buffer) args = Some (w', r)"
    "if length (concat args) \<le> length buffer
     then r = Inr () \<and> wt_used w' = length (concat args) \<and> length (wt_buffer w') = length buffer \<and>
          take (wt_used w') (wt_buffer w') = concat args
     else r = Inl FmtError"
    using fmt_write_spec[of "WriteTo_new buffer" args] assms
    by (cases "length (concat args) \<le> length buffer") (auto simp: WriteTo_new_def)
  then show ?thesis by (auto simp: show_args_def as_str_def split: if_splits)
qed

theorem show_exact_witness:
  "show_args [0, 0, 0] [[104], [105]] = Some (Inr [104, 105]) \<and> show_args [0] [[104], [105]] = Some (Inl FmtError)"
  using show_exact[of "[0, 0, 0]" "[[104], [105]]"] show_exact[of "[0]" "[[104], [105]]"] by simp

text \<open>A log record never loses or merges lines: the decorated text has exactly one line more than the message has line
  breaks, whichever way the message is split into pieces, and a one-line message comes out as the header, the message
  unchanged and a line break.\<close>

theorem decorated_log_lines:
  assumes "newline \<notin> set file"
  shows "count_list (DecoratedLog_write level args file line) newline = count_list (concat args) newline + 1 \<and>
    (newline \<notin> set (concat args) \<longrightarrow> DecoratedLog_write level args file line =
       log_header \<lparr>dl_level = level, dl_at_line_start = True, dl_file = file, dl_line = line\<rparr> @ concat args @ [newline])"
proof -
  let ?d = "\<lparr>dl_level = level, dl_at_line_start = True, dl_file = file, dl_line = line\<rparr>"
  have "count_list (DecoratedLog_write level args file line) newline = count_list (concat (args @ [[newline]])) newline"
    unfolding DecoratedLog_write_def by (rule decorate_pieces_count) (use assms in simp)
  then show ?thesis using decorate_pieces_plain[of args ?d] by (simp add: DecoratedLog_write_def)
qed

theorem decorated_log_lines_witness:
  "DecoratedLog_write Info [text_of ''ports: '', text_of ''4''] (text_of ''main.rs'') 64 =
   text_of ''[ INFO]:      main.rs@064: ports: 4'' @ [newline]"
proof -
  have "newline \<notin> set (text_of ''main.rs'')" by code_simp
  from decorated_log_lines[OF this, of Info "[text_of ''ports: '', text_of ''4'']" 64]
  have "newline \<notin> set (concat [text_of ''ports: '', text_of ''4'']) \<longrightarrow>
      DecoratedLog_write Info [text_of ''ports: '', text_of ''4''] (text_of ''main.rs'') 64 =
      log_header \<lparr>dl_level = Info, dl_at_line_start = True, dl_file = text_of ''main.rs'', dl_line = 64\<rparr> @
      concat [text_of ''ports: '', text_of ''4''] @ [newline]" by (rule conjunct2)
  moreover have "newline \<notin> set (concat [text_of ''ports: '', text_of ''4''])" by code_simp
  moreover have "log_header \<lparr>dl_level = Info, dl_at_line_start = True, dl_file = text_of ''main.rs'', dl_line = 64\<rparr> @
      concat [text_of ''ports: '', text_of ''4''] @ [newline] = text_of ''[ INFO]:      main.rs@064: ports: 4'' @ [newline]"
    by code_simp
  ultimately show ?thesis by simp
qed

end
