(* ===== verification/Bump_Allocator.thy ===== *)
theory Bump_Allocator
  imports Boundary_Alloc
begin

text \<open>
  The kernel's global allocator: \<^verbatim>\<open>kernel-lib/src/allocator/bump_allocator.rs\<close> and
  the wrappers of \<^verbatim>\<open>kernel/src/alloc/alloc.rs\<close>. The spin lock around the state is held for
  the whole of each operation, so an operation is one step on the state.
\<close>

record BumpAllocator =
  heap_start :: usize
  heap_end :: usize
  bump_next :: usize
  n_allocations :: usize

definition bump_new :: BumpAllocator where
  "bump_new = \<lparr>heap_start = 0, heap_end = 0, bump_next = 0, n_allocations = 0\<rparr>"

definition bump_init :: "BumpAllocator \<Rightarrow> usize \<Rightarrow> usize \<Rightarrow> BumpAllocator" where
  "bump_init a hs he = a\<lparr>heap_start := hs, heap_end := he, bump_next := hs\<rparr>"

definition bump_alloc :: "BumpAllocator \<Rightarrow> Layout \<Rightarrow> usize \<Rightarrow> (BumpAllocator \<times> usize) option" where
  "bump_alloc a layout boundary = do {
     r \<leftarrow> align_and_boundary_to (bump_next a) layout boundary;
     (case r of
        Inl _ \<Rightarrow> Some (a, 0)
      | Inr (start, end_ptr) \<Rightarrow>
          if end_ptr \<ge> heap_end a then Some (a, 0)
          else do {
            n \<leftarrow> uadd (n_allocations a) 1;
            Some (a\<lparr>bump_next := end_ptr, n_allocations := n\<rparr>, start)
          })
   }"

definition bump_dealloc :: "BumpAllocator \<Rightarrow> usize \<Rightarrow> Layout \<Rightarrow> BumpAllocator option" where
  "bump_dealloc a ptr layout = do {
     n \<leftarrow> usub (n_allocations a) 1;
     Some (if n = 0 then a\<lparr>n_allocations := n, bump_next := heap_start a\<rparr>
           else a\<lparr>n_allocations := n\<rparr>)
   }"

text \<open>The wrappers of \<^verbatim>\<open>kernel/src/alloc/alloc.rs\<close> fix the allocator to the global one.\<close>

definition init_allocator :: "BumpAllocator \<Rightarrow> usize \<Rightarrow> usize \<Rightarrow> BumpAllocator" where
  "init_allocator a hs he = bump_init a hs he"

definition kernel_alloc_with_boundary ::
  "usize \<Rightarrow> BumpAllocator \<Rightarrow> usize \<Rightarrow> usize \<Rightarrow> (BumpAllocator \<times> (AllocationError + usize)) option"
where
  "kernel_alloc_with_boundary size_of a alignment boundary =
     alloc_with_boundary bump_alloc size_of a alignment boundary"

definition kernel_alloc_with_boundary_with_default_else ::
  "usize \<Rightarrow> BumpAllocator \<Rightarrow> usize \<Rightarrow> usize \<Rightarrow> (BumpAllocator \<Rightarrow> (BumpAllocator \<times> 'v) option) \<Rightarrow>
   (BumpAllocator \<times> (AllocationError + 'v Box)) option"
where
  "kernel_alloc_with_boundary_with_default_else size_of a alignment boundary dflt =
     alloc_with_boundary_with_default_else bump_alloc size_of a alignment boundary dflt"

definition kernel_alloc_array_with_boundary ::
  "usize \<Rightarrow> BumpAllocator \<Rightarrow> usize \<Rightarrow> usize \<Rightarrow> usize \<Rightarrow>
   (BumpAllocator \<times> (AllocationError + usize \<times> usize)) option"
where
  "kernel_alloc_array_with_boundary size_of a len alignment boundary =
     alloc_array_with_boundary bump_alloc size_of a len alignment boundary"

definition kernel_alloc_array_with_boundary_with_default_else ::
  "usize \<Rightarrow> BumpAllocator \<Rightarrow> usize \<Rightarrow> usize \<Rightarrow> usize \<Rightarrow>
   (BumpAllocator \<Rightarrow> (BumpAllocator \<times> 'v) option) \<Rightarrow>
   (BumpAllocator \<times> (AllocationError + 'v list Box)) option"
where
  "kernel_alloc_array_with_boundary_with_default_else size_of a len alignment boundary dflt =
     alloc_array_with_boundary_with_default_else bump_alloc size_of a len alignment boundary dflt"

section \<open>The invariant\<close>

text \<open>
  The blocks handed out lie between the start of the heap and the bump pointer, do not
  overlap, and are counted by \<open>n_allocations\<close>; with no block handed out the pointer is
  back at the start.
\<close>

definition bump_holds :: "BumpAllocator \<Rightarrow> block list \<Rightarrow> bool" where
  "bump_holds a live \<longleftrightarrow>
     0 < heap_start a \<and> heap_start a \<le> bump_next a \<and> bump_next a \<le> heap_end a \<and>
     n_allocations a = length live \<and>
     (\<forall>x \<in> set live. block_within (heap_start a) (bump_next a) x) \<and>
     blocks_disjoint live \<and> (live = [] \<longrightarrow> bump_next a = heap_start a)"

lemma bump_alloc_cases:
  assumes "bump_alloc a l b = Some (a', p)"
  obtains (null) "a' = a" "p = 0"
  | (block) e where "align_and_boundary_to (bump_next a) l b = Some (Inr (p, e))"
      "e < heap_end a" "a' = a\<lparr>bump_next := e, n_allocations := Suc (n_allocations a)\<rparr>"
proof -
  from assms obtain r where r: "align_and_boundary_to (bump_next a) l b = Some r"
    by (auto simp: bump_alloc_def bind_eq_Some_conv)
  show thesis
  proof (cases "a' = a \<and> p = 0")
    case True
    with null show thesis by blast
  next
    case False
    with assms r obtain e where "r = Inr (p, e)" "e < heap_end a"
      "a' = a\<lparr>bump_next := e, n_allocations := Suc (n_allocations a)\<rparr>"
      by (cases r) (auto simp: bump_alloc_def bind_eq_Some_conv uadd_eq_Some simp del: uadd_ok
          split: if_splits)
    with r block show thesis by blast
  qed
qed

lemma bump_alloc_holds:
  assumes "bump_holds a live" "layout_ok l b" "bump_alloc a l b = Some (a', p)" "p \<noteq> 0"
  shows "bump_holds a' ((p, layout_size l) # live)" and "layout_fits l b p"
proof -
  from assms(3,4) obtain e where
    al: "align_and_boundary_to (bump_next a) l b = Some (Inr (p, e))" and e: "e < heap_end a"
    and a': "a' = a\<lparr>bump_next := e, n_allocations := Suc (n_allocations a)\<rparr>"
    by (auto elim: bump_alloc_cases)
  note spec = align_and_boundary_to_spec[OF assms(2) al]
  show "layout_fits l b p" by (fact spec(3))
  have "block_disjoint (p, layout_size l) x" if "x \<in> set live" for x
    using assms(1) that spec(4) block_disjoint_above[of "heap_start a" "bump_next a" x]
    by (simp add: bump_holds_def)
  moreover have "block_within (heap_start a) e x" if "x \<in> set live" for x
    using assms(1) that spec(2,4) by (auto simp: bump_holds_def block_within_def)
  ultimately show "bump_holds a' ((p, layout_size l) # live)"
    using assms(1) spec(2,4) e a' by (auto simp: bump_holds_def block_within_def)
qed

lemma bump_alloc_null:
  assumes "bump_holds a live" "layout_ok l b" "bump_alloc a l b = Some (a', 0)"
  shows "a' = a"
  using assms(3)
proof (cases rule: bump_alloc_cases)
  case (block e)
  with align_and_boundary_to_spec(4)[OF assms(2) block(1)] assms(1)
  show ?thesis by (simp add: bump_holds_def)
qed

lemma bump_dealloc_holds:
  assumes "bump_holds a live" "(p, layout_size l) \<in> set live"
  shows "\<exists>a'. bump_dealloc a p l = Some a' \<and> bump_holds a' (remove1 (p, layout_size l) live)"
proof -
  let ?live = "remove1 (p, layout_size l) live"
  have len: "length ?live = n_allocations a - 1" "1 \<le> n_allocations a"
    using assms by (auto simp: bump_holds_def length_remove1 Suc_le_eq length_pos_if_in_set)
  have "set ?live \<subseteq> set live" by (rule set_remove1_subset)
  then have within: "\<forall>x \<in> set ?live. block_within (heap_start a) (bump_next a) x"
    using assms(1) by (auto simp: bump_holds_def)
  have disj: "blocks_disjoint ?live"
    using assms(1) by (simp add: bump_holds_def blocks_disjoint_remove1)
  show ?thesis
  proof (cases "n_allocations a = 1")
    case True
    with len have "?live = []" by simp
    with True assms(1) show ?thesis by (simp add: bump_dealloc_def bump_holds_def)
  next
    case False
    with len have "?live \<noteq> []" by auto
    with False len within disj assms(1) show ?thesis
      by (auto simp: bump_dealloc_def bump_holds_def)
  qed
qed

interpretation bump: boundary_allocator bump_alloc bump_dealloc bump_holds heap_start heap_end
proof unfold_locales
  fix a live x assume "bump_holds a live" "x \<in> set live"
  then have "block_within (heap_start a) (bump_next a) x" "bump_next a \<le> heap_end a"
    by (simp_all add: bump_holds_def)
  then show "block_within (heap_start a) (heap_end a) x" by (auto simp: block_within_def)
next
  fix a l b a' p assume "bump_alloc a l b = Some (a', p)"
  then show "heap_start a' = heap_start a \<and> heap_end a' = heap_end a"
    by (auto elim: bump_alloc_cases)
next
  fix a p l a' assume "bump_dealloc a p l = Some a'"
  then show "heap_start a' = heap_start a \<and> heap_end a' = heap_end a"
    by (auto simp: bump_dealloc_def bind_eq_Some_conv)
next
  fix a live assume "bump_holds a live"
  then show "blocks_disjoint live" by (simp add: bump_holds_def)
qed (fact bump_alloc_holds(2) bump_alloc_holds(1) bump_alloc_null bump_dealloc_holds)+

section \<open>Properties\<close>

lemma bump_init_holds:
  "0 < hs \<Longrightarrow> hs \<le> he \<Longrightarrow> bump_holds (bump_init bump_new hs he) []"
  by (simp add: bump_holds_def bump_init_def bump_new_def)

text \<open>C4: Starting from \<^verbatim>\<open>init\<close> on a non-null heap, in every state that a client can reach by
  allocating with valid layouts and returning blocks it holds, the blocks it holds do not
  overlap, lie inside the heap, and their number is the allocator's counter.\<close>

theorem bump_blocks_safe:
  assumes "0 < hs" "hs \<le> he"
    and "(heap_step bump_alloc bump_dealloc)\<^sup>*\<^sup>* (bump_init bump_new hs he, []) (a, live)"
  shows "blocks_disjoint live \<and> (\<forall>x \<in> set live. block_within hs he x) \<and> n_allocations a = length live"
proof -
  have init: "bump_holds (bump_init bump_new hs he) []" using assms(1,2) by (rule bump_init_holds)
  have "bump_holds a live" using bump.heap_run_holds[OF assms(3) init] by simp
  with bump.heap_run_safe[OF assms(3) init] show ?thesis
    by (auto simp: bump_holds_def bump_init_def)
qed

lemma bump_example_alloc:
  "bump_alloc (bump_init bump_new 4096 8192) \<lparr>layout_size = 100, layout_align = 64\<rparr> 1024
   = Some (\<lparr>heap_start = 4096, heap_end = 8192, bump_next = 4196, n_allocations = 1\<rparr>, 4096)"
  by code_simp

lemma bump_example_step:
  "heap_step bump_alloc bump_dealloc (bump_init bump_new 4096 8192, [])
     (\<lparr>heap_start = 4096, heap_end = 8192, bump_next = 4196, n_allocations = 1\<rparr>, [(4096, 100)])"
proof -
  let ?l = "\<lparr>layout_size = 100, layout_align = 64\<rparr>"
  have ok: "layout_ok ?l 1024" by code_simp
  have "4096 \<noteq> (0::nat)" by simp
  from heap_alloc[of ?l 1024 bump_alloc, OF ok bump_example_alloc this] show ?thesis by simp
qed

lemma bump_example_run:
  "(heap_step bump_alloc bump_dealloc)\<^sup>*\<^sup>* (bump_init bump_new 4096 8192, [])
     (\<lparr>heap_start = 4096, heap_end = 8192, bump_next = 4196, n_allocations = 1\<rparr>, [(4096, 100)])"
  by (rule r_into_rtranclp) (rule bump_example_step)

theorem bump_blocks_safe_witness:
  "blocks_disjoint [(4096, 100)] \<and> block_within 4096 8192 (4096, 100) \<and>
   n_allocations \<lparr>heap_start = 4096, heap_end = 8192, bump_next = 4196, n_allocations = 1\<rparr>
     = length [(4096::nat, 100::nat)]"
  using bump_blocks_safe[OF _ _ bump_example_run] by simp

text \<open>With room for the rounding below the end of the heap, \<^verbatim>\<open>alloc\<close> neither panics nor
  returns null, and the block starts at the least address from the bump pointer on that is
  aligned and does not straddle the boundary.\<close>

theorem bump_alloc_progress:
  assumes "bump_holds a live" "layout_ok l boundary"
    and "bump_next a + layout_align l + boundary + layout_size l < heap_end a"
    and "heap_end a < usize_limit" "length live < 1000000"
  shows "\<exists>a' p. bump_alloc a l boundary = Some (a', p) \<and> bump_next a \<le> p \<and> p \<noteq> 0 \<and>
           layout_fits l boundary p \<and> bump_next a' = p + layout_size l \<and>
           (\<forall>x. bump_next a \<le> x \<longrightarrow> layout_fits l boundary x \<longrightarrow> p \<le> x)"
proof -
  from align_and_boundary_to_total[OF assms(2), of "bump_next a"] assms(3,4)
  obtain p e where pe: "align_and_boundary_to (bump_next a) l boundary = Some (Inr (p, e))" by auto
  note spec = align_and_boundary_to_spec[OF assms(2) pe]
  have "e < heap_end a" using align_and_boundary_to_upper[OF assms(2) pe] assms(3) spec(2) by simp
  moreover have "n_allocations a + 1 < usize_limit" using assms(1,5) by (simp add: bump_holds_def)
  moreover have "p \<noteq> 0" using spec(4) assms(1) by (simp add: bump_holds_def)
  ultimately show ?thesis using pe spec by (simp add: bump_alloc_def)
qed

theorem bump_alloc_progress_witness:
  "\<exists>a' p. bump_alloc (bump_init bump_new 4096 8192) \<lparr>layout_size = 100, layout_align = 64\<rparr> 1024
     = Some (a', p) \<and> 4096 \<le> p \<and> p \<noteq> 0 \<and> bump_next a' = p + 100"
proof -
  have "bump_holds (bump_init bump_new 4096 8192) []" by (rule bump_init_holds) simp_all
  moreover have "layout_ok \<lparr>layout_size = 100, layout_align = 64\<rparr> 1024" by code_simp
  ultimately show ?thesis
    using bump_alloc_progress[of "bump_init bump_new 4096 8192" "[]"
        "\<lparr>layout_size = 100, layout_align = 64\<rparr>" 1024]
    by (auto simp: bump_init_def)
qed

text \<open>Once a client has returned every block, the whole heap is available again: the
  allocator is in the state \<^verbatim>\<open>init\<close> left it in.\<close>

theorem bump_reset_when_empty:
  assumes "0 < hs" "hs \<le> he"
    and "(heap_step bump_alloc bump_dealloc)\<^sup>*\<^sup>* (bump_init bump_new hs he, []) (a, [])"
  shows "a = bump_init bump_new hs he"
proof -
  have init: "bump_holds (bump_init bump_new hs he) []" using assms(1,2) by (rule bump_init_holds)
  from bump.heap_run_holds[OF assms(3) init] show ?thesis
    by (simp add: bump_holds_def bump_init_def bump_new_def)
qed

lemma bump_example_cycle:
  "(heap_step bump_alloc bump_dealloc)\<^sup>*\<^sup>* (bump_init bump_new 4096 8192, [])
     (\<lparr>heap_start = 4096, heap_end = 8192, bump_next = 4096, n_allocations = 0\<rparr>, [])"
proof -
  let ?a = "\<lparr>heap_start = 4096, heap_end = 8192, bump_next = 4196, n_allocations = 1\<rparr>"
  let ?l = "\<lparr>layout_size = 100, layout_align = 64\<rparr>"
  have d: "bump_dealloc ?a 4096 ?l =
      Some \<lparr>heap_start = 4096, heap_end = 8192, bump_next = 4096, n_allocations = 0\<rparr>"
    by (simp add: bump_dealloc_def)
  have "heap_step bump_alloc bump_dealloc (?a, [(4096, 100)])
      (\<lparr>heap_start = 4096, heap_end = 8192, bump_next = 4096, n_allocations = 0\<rparr>, [])"
    using heap_dealloc[of 4096 ?l "[(4096, 100)]" bump_dealloc ?a, OF _ d] by simp
  with bump_example_run show ?thesis by (rule rtranclp.rtrancl_into_rtrancl)
qed

theorem bump_reset_when_empty_witness:
  "\<lparr>heap_start = 4096, heap_end = 8192, bump_next = 4096, n_allocations = 0\<rparr>
   = bump_init bump_new 4096 8192"
  by (rule bump_reset_when_empty[OF _ _ bump_example_cycle]) simp_all

lemma kernel_alloc_box_spec:
  assumes "bump_holds a live"
    and "boundary = 0 \<or> is_power_of_two boundary \<and> size_of \<le> boundary"
    and "kernel_alloc_with_boundary_with_default_else size_of a alignment boundary dflt = Some (a', Inr bx)"
  shows "\<exists>a1. dflt a1 = Some (a', box_val bx) \<and> alignment dvd box_ptr bx \<and> within_boundary boundary (box_ptr bx) size_of \<and>
    bump_holds a1 ((box_ptr bx, size_of) # live)"
proof -
  obtain a1 r where r: "alloc_with_boundary bump_alloc size_of a alignment boundary = Some (a1, r)"
    "(case r of Inl e \<Rightarrow> Some (a1, Inl e) | Inr ptr \<Rightarrow> if ptr = 0 then Some (a1, Inl AllocationError)
        else do { (s'', v) \<leftarrow> dflt a1; Some (s'', Inr \<lparr>box_ptr = ptr, box_val = v\<rparr>) }) = Some (a', Inr bx)"
    using assms(3) unfolding kernel_alloc_with_boundary_with_default_else_def alloc_with_boundary_with_default_else_def
    by (auto simp: bind_eq_Some_conv)
  then obtain ptr v where run: "alloc_with_boundary bump_alloc size_of a alignment boundary = Some (a1, Inr ptr)"
    "dflt a1 = Some (a', v)" "bx = \<lparr>box_ptr = ptr, box_val = v\<rparr>"
    by (cases r) (auto simp: bind_eq_Some_conv split: if_splits)
  with bump.alloc_with_boundary_ok[OF assms(1,2) run(1)] show ?thesis by auto
qed

lemma kernel_alloc_array_spec:
  assumes "bump_holds a live"
    and "boundary = 0 \<or> is_power_of_two boundary \<and> len * size_of \<le> boundary"
    and "kernel_alloc_array_with_boundary_with_default_else size_of a len alignment boundary
           (\<lambda>s. Some (s, v)) = Some (a', Inr bx)"
  shows "alignment dvd box_ptr bx \<and> within_boundary boundary (box_ptr bx) (len * size_of) \<and>
         box_val bx = replicate len v \<and> bump_holds a' ((box_ptr bx, len * size_of) # live)"
proof -
  have fill: "fill_default (\<lambda>s. Some (s, v)) n s = Some (s, replicate n v)" for n and s :: BumpAllocator
    by (induction n) auto
  obtain a1 r where run:
    "alloc_array_with_boundary bump_alloc size_of a len alignment boundary = Some (a1, r)"
    using assms(3) by (auto simp: kernel_alloc_array_with_boundary_with_default_else_def
        alloc_array_with_boundary_with_default_else_def bind_eq_Some_conv)
  show ?thesis
  proof (cases r)
    case (Inl e)
    with run assms(3) show ?thesis
      by (simp add: kernel_alloc_array_with_boundary_with_default_else_def
          alloc_array_with_boundary_with_default_else_def)
  next
    case (Inr pn)
    obtain ptr n where pn: "pn = (ptr, n)" by (cases pn)
    with run Inr assms(3) have "a' = a1" "bx = \<lparr>box_ptr = ptr, box_val = replicate n v\<rparr>"
      by (simp_all add: kernel_alloc_array_with_boundary_with_default_else_def
          alloc_array_with_boundary_with_default_else_def fill)
    with bump.alloc_array_with_boundary_ok[OF assms(1,2)] run Inr pn show ?thesis by simp
  qed
qed

text \<open>The kernel's array allocation (used for every xHCI ring and context array) returns, when
  it succeeds, as many values as asked for in a block that is aligned, does not straddle the
  boundary and is added to the blocks held; the block is disjoint from all of them.\<close>

theorem kernel_alloc_array_ok:
  assumes "bump_holds a live"
    and "boundary = 0 \<or> is_power_of_two boundary \<and> len * size_of \<le> boundary"
    and "kernel_alloc_array_with_boundary_with_default_else size_of a len alignment boundary
           (\<lambda>s. Some (s, v)) = Some (a', Inr bx)"
  shows "alignment dvd box_ptr bx \<and> within_boundary boundary (box_ptr bx) (len * size_of) \<and>
         box_val bx = replicate len v \<and> bump_holds a' ((box_ptr bx, len * size_of) # live)"
  using assms by (rule kernel_alloc_array_spec)

theorem kernel_alloc_array_ok_witness:
  "64 dvd box_ptr \<lparr>box_ptr = 4096, box_val = [0, 0 :: u32]\<rparr> \<and>
   within_boundary 1024 (box_ptr \<lparr>box_ptr = 4096, box_val = [0, 0 :: u32]\<rparr>) (2 * 4) \<and>
   box_val \<lparr>box_ptr = 4096, box_val = [0, 0 :: u32]\<rparr> = replicate 2 0 \<and>
   bump_holds \<lparr>heap_start = 4096, heap_end = 8192, bump_next = 4104, n_allocations = 1\<rparr>
     [(box_ptr \<lparr>box_ptr = 4096, box_val = [0, 0 :: u32]\<rparr>, 2 * 4)]"
proof (rule kernel_alloc_array_ok[of "bump_init bump_new 4096 8192"])
  show "bump_holds (bump_init bump_new 4096 8192) []" by (rule bump_init_holds) simp_all
qed (code_simp, code_simp)

end
