(* ===== verification/Boot.thy ===== *)
theory Boot
  imports Layers Bump_Allocator
begin

text \<open>
  From the boot loader to the kernel's heap: loading the segments of the kernel's ELF file
  (\<^verbatim>\<open>bootloader/src/main.rs\<close>), handing the memory map over (\<^verbatim>\<open>MemMapEntry\<close> and \<^verbatim>\<open>MemMapIter\<close> of
  \<^verbatim>\<open>common/src/types.rs\<close>) and choosing the heap from it (\<^verbatim>\<open>kernel_main2\<close> of \<^verbatim>\<open>kernel/src/main.rs\<close>).

  The program headers come from the crate \<^verbatim>\<open>elf\<close> and the memory descriptors from the firmware: both are inputs.
  Addresses and sizes are 64-bit numbers with checked arithmetic, as \<^verbatim>\<open>usize\<close>.
\<close>

section \<open>Loading the kernel\<close>

record ProgramHeader =
  p_type :: u32
  p_offset :: usize
  p_vaddr :: usize
  p_filesz :: usize
  p_memsz :: usize

text \<open>\<open>pt_load\<close> is \<^verbatim>\<open>elf::abi::PT_LOAD\<close>.\<close>

definition calc_load_address_range :: "u32 \<Rightarrow> ProgramHeader list \<Rightarrow> (usize \<times> usize) option" where
  "calc_load_address_range pt_load segments =
     for_each segments (\<lambda>h (lo, hi).
       if p_type h = pt_load then do {
         let lo = min lo (p_vaddr h);
         e \<leftarrow> uadd (p_vaddr h) (p_memsz h);
         Some (lo, max hi e)
       } else Some (lo, hi)) (usize_limit - 1, 0)"

definition n_pages :: "usize \<times> usize \<Rightarrow> usize option" where
  "n_pages = (\<lambda>(load_min_addr, load_max_addr). do {
     d \<leftarrow> usub load_max_addr load_min_addr;
     d \<leftarrow> uadd d 0xfff;
     Some (d div 0x1000)
   })"

text \<open>Reading past the end of the file's buffer is \<open>None\<close>.\<close>

definition copy_load_segments :: "u32 \<Rightarrow> ProgramHeader list \<Rightarrow> u8 list \<Rightarrow> memory \<Rightarrow> memory option" where
  "copy_load_segments pt_load segments kernel_loaded_buffer mem =
     for_each segments (\<lambda>h mem.
       if p_type h = pt_load then do {
         bytes \<leftarrow> slice kernel_loaded_buffer (p_offset h) (p_offset h + p_filesz h);
         let mem = copy_to_mem (p_vaddr h) bytes mem;
         remain_bytes \<leftarrow> usub (p_memsz h) (p_filesz h);
         Some (copy_to_mem (p_vaddr h + p_filesz h) (replicate remain_bytes 0) mem)
       } else Some mem) mem"

section \<open>The memory map\<close>

datatype MemoryType = CONVENTIONAL | BOOT_SERVICES_CODE | BOOT_SERVICES_DATA | OtherMemoryType u32

record MemoryDescriptor =
  md_ty :: MemoryType
  md_phys_start :: usize
  md_page_count :: usize

text \<open>The block that is handed over: the header \<^verbatim>\<open>MemMapEntry\<close> and the descriptor slots behind it.\<close>

record MemMapEntry =
  mm_size :: usize
  mm_slots :: "MemoryDescriptor list"

definition new_inplace :: "usize \<Rightarrow> MemoryDescriptor list \<Rightarrow> MemMapEntry \<Rightarrow> MemMapEntry option" where
  "new_inplace sz descs entry = do {
     let entry = entry\<lparr>mm_size := sz\<rparr>;
     for_each (zip [0..<length descs] descs) (\<lambda>(i, desc) entry. do {
       slots \<leftarrow> set_idx (mm_slots entry) i desc;
       Some (entry\<lparr>mm_slots := slots\<rparr>)
     }) entry
   }"

text \<open>What the loader passes to the kernel; the pointer to the block is the block.\<close>

record KernelMainArg =
  ka_graphics_info :: GraphicsInfo
  ka_memory_map_entry :: MemMapEntry

record MemMapIter =
  mi_index :: usize
  mi_size :: usize
  mi_current :: "MemoryDescriptor list"

definition mm_into_iter :: "MemMapEntry \<Rightarrow> MemMapIter" where
  "mm_into_iter entry = \<lparr>mi_index = 0, mi_size = mm_size entry, mi_current = mm_slots entry\<rparr>"

definition mm_next :: "MemMapIter \<Rightarrow> (MemMapIter \<times> MemoryDescriptor option) option" where
  "mm_next it =
     (if mi_size it \<le> mi_index it then Some (it, None)
      else do {
        current \<leftarrow> get_idx (mi_current it) (mi_index it);
        i \<leftarrow> uadd (mi_index it) 1;
        Some (it\<lparr>mi_index := i\<rparr>, Some current)
      })"

definition mm_len :: "MemMapIter \<Rightarrow> usize" where
  "mm_len it = mi_size it"

text \<open>\<^verbatim>\<open>collect\<close>: the descriptors the iterator still yields.\<close>

function mm_collect :: "MemMapIter \<Rightarrow> MemoryDescriptor list option" where
  "mm_collect it =
     (case mm_next it of
        None \<Rightarrow> None
      | Some (it', None) \<Rightarrow> Some []
      | Some (it', Some d) \<Rightarrow> map_option ((#) d) (mm_collect it'))"
  by pat_completeness auto

termination
  by (relation "measure (\<lambda>it. mi_size it - mi_index it)")
     (auto simp: mm_next_def bind_eq_Some_conv rust_simps split: if_splits)

section \<open>The heap\<close>

fun usable_type :: "MemoryType \<Rightarrow> bool" where
  "usable_type CONVENTIONAL = True"
| "usable_type BOOT_SERVICES_CODE = True"
| "usable_type BOOT_SERVICES_DATA = True"
| "usable_type (OtherMemoryType _) = False"

fun usable_ranges :: "MemoryDescriptor list \<Rightarrow> (usize \<times> usize) list option" where
  "usable_ranges [] = Some []"
| "usable_ranges (desc # descs) =
     (if usable_type (md_ty desc) then do {
        n \<leftarrow> umul (md_page_count desc) 4096;
        e \<leftarrow> uadd (md_phys_start desc) n;
        rs \<leftarrow> usable_ranges descs;
        Some ((md_phys_start desc, e) # rs)
      } else usable_ranges descs)"

text \<open>\<^verbatim>\<open>max_by_key\<close> keeps the last of several maximal elements.\<close>

fun max_by_size :: "(usize \<times> usize) list \<Rightarrow> (usize \<times> usize) option" where
  "max_by_size [] = None"
| "max_by_size (r # rs) =
     (case max_by_size rs of
        None \<Rightarrow> Some r
      | Some r' \<Rightarrow> if snd r' - fst r' < snd r - fst r then Some r else Some r')"

definition choose_heap :: "MemoryDescriptor list \<Rightarrow> (usize \<times> usize) option" where
  "choose_heap descs = do {
     ranges \<leftarrow> usable_ranges descs;
     max_by_size ranges
   }"

definition init_heap :: "MemMapEntry \<Rightarrow> (BumpAllocator \<times> MemoryDescriptor list) option" where
  "init_heap entry = do {
     let memory_map_iter = mm_into_iter entry;
     descs \<leftarrow> mm_collect memory_map_iter;
     (s, e) \<leftarrow> choose_heap descs;
     Some (init_allocator bump_new s e, descs)
   }"

section \<open>Lemmas\<close>

declare mm_collect.simps [simp del]

lemma mm_collect_eq:
  assumes "mi_size it \<le> length (mi_current it)" "length (mi_current it) < usize_limit"
  shows "mm_collect it = Some (take (mi_size it - mi_index it) (drop (mi_index it) (mi_current it)))"
  using assms
proof (induction it rule: mm_collect.induct)
  case (1 it)
  show ?case
  proof (cases "mi_size it \<le> mi_index it")
    case True
    then have "mm_next it = Some (it, None)" by (simp add: mm_next_def)
    with True show ?thesis by (subst mm_collect.simps) simp
  next
    case False
    let ?it = "it\<lparr>mi_index := mi_index it + 1\<rparr>"
    have nxt: "mm_next it = Some (?it, Some (mi_current it ! mi_index it))" using False 1(2,3) by (simp add: mm_next_def)
    have d: "drop (mi_index it) (mi_current it) = mi_current it ! mi_index it # drop (mi_index it + 1) (mi_current it)"
      "mi_size it - mi_index it = Suc (mi_size it - (mi_index it + 1))"
      using False 1(2) Cons_nth_drop_Suc[of "mi_index it" "mi_current it"] by simp_all
    have "mm_collect ?it = Some (take (mi_size ?it - mi_index ?it) (drop (mi_index ?it) (mi_current ?it)))"
      by (rule 1(1)[OF nxt refl refl]) (use 1(2,3) in auto)
    then show ?thesis unfolding d by (subst mm_collect.simps) (simp add: nxt)
  qed
qed

lemma new_inplace_eq:
  assumes "length descs \<le> length (mm_slots entry)"
  shows "new_inplace sz descs entry = Some \<lparr>mm_size = sz, mm_slots = descs @ drop (length descs) (mm_slots entry)\<rparr>"
proof -
  let ?z = "zip [0..<length descs] descs"
  let ?f = "\<lambda>(i, desc) entry. do { slots \<leftarrow> set_idx (mm_slots entry) i desc; Some (entry\<lparr>mm_slots := slots\<rparr>) }"
  let ?P = "\<lambda>pre s. s = \<lparr>mm_size = sz, mm_slots = map snd pre @ drop (length pre) (mm_slots entry)\<rparr>"
  have "\<exists>s'. for_each ?z ?f (entry\<lparr>mm_size := sz\<rparr>) = Some s' \<and> ?P ?z s'"
  proof (rule for_each_rule[where P = ?P])
    fix pre x post and s :: MemMapEntry
    assume z: "?z = pre @ x # post" and P: "?P pre s"
    have "length ?z = length pre + 1 + length post" using z by simp
    then have lt: "length pre < length descs" by simp
    have "x = ?z ! length pre" using z by (metis nth_append_length)
    then have x: "x = (length pre, descs ! length pre)" using lt by simp
    have "drop (length pre) (mm_slots entry) = mm_slots entry ! length pre # drop (length pre + 1) (mm_slots entry)"
      using lt assms Cons_nth_drop_Suc[of "length pre" "mm_slots entry"] by simp
    then show "\<exists>s'. ?f x s = Some s' \<and> ?P (pre @ [x]) s'"
      using lt assms by (simp add: x P list_update_append)
  qed simp
  then show ?thesis by (simp add: new_inplace_def)
qed

lemma usable_ranges_eq:
  assumes "\<forall>d \<in> set descs. usable_type (md_ty d) \<longrightarrow> md_phys_start d + md_page_count d * 4096 < usize_limit"
  shows "usable_ranges descs =
    Some (map (\<lambda>d. (md_phys_start d, md_phys_start d + md_page_count d * 4096)) (filter (\<lambda>d. usable_type (md_ty d)) descs))"
  using assms by (induction descs) (auto simp: umul_def uadd_def)

lemma max_by_size_spec:
  assumes "rs \<noteq> []"
  shows "\<exists>r. max_by_size rs = Some r \<and> r \<in> set rs \<and> (\<forall>r' \<in> set rs. snd r' - fst r' \<le> snd r - fst r)"
  using assms
proof (induction rs)
  case (Cons x rs)
  show ?case
  proof (cases "rs = []")
    case False
    with Cons obtain r where "max_by_size rs = Some r" "r \<in> set rs" "\<forall>r' \<in> set rs. snd r' - fst r' \<le> snd r - fst r" by blast
    then show ?thesis by (cases "snd r - fst r < snd x - fst x") (force intro!: exI[of _ x], force intro!: exI[of _ r])
  qed simp
qed simp

text \<open>The heap that the kernel chooses from a memory map.\<close>

lemma init_heap_largest:
  assumes "mm_size e \<le> length (mm_slots e)" "length (mm_slots e) < usize_limit" "descs = take (mm_size e) (mm_slots e)"
    and "\<forall>d \<in> set descs. usable_type (md_ty d) \<longrightarrow> md_phys_start d + md_page_count d * 4096 < usize_limit"
    and "\<exists>d \<in> set descs. usable_type (md_ty d)"
  shows "\<exists>a. init_heap e = Some (a, descs) \<and> n_allocations a = 0 \<and>
           (\<exists>d \<in> set descs. usable_type (md_ty d) \<and> heap_start a = md_phys_start d \<and> bump_next a = heap_start a \<and>
              heap_end a = md_phys_start d + md_page_count d * 4096) \<and>
           (\<forall>d \<in> set descs. usable_type (md_ty d) \<longrightarrow> md_page_count d * 4096 \<le> heap_end a - heap_start a)"
proof -
  let ?rs = "map (\<lambda>d. (md_phys_start d, md_phys_start d + md_page_count d * 4096)) (filter (\<lambda>d. usable_type (md_ty d)) descs)"
  have col: "mm_collect (mm_into_iter e) = Some descs"
    using mm_collect_eq[of "mm_into_iter e"] assms(1-3) by (simp add: mm_into_iter_def)
  have "?rs \<noteq> []" using assms(5) by (auto simp: filter_empty_conv)
  then obtain r where r: "max_by_size ?rs = Some r" "r \<in> set ?rs" "\<forall>r' \<in> set ?rs. snd r' - fst r' \<le> snd r - fst r"
    using max_by_size_spec by blast
  have "init_heap e = Some (init_allocator bump_new (fst r) (snd r), descs)"
    using col r(1) usable_ranges_eq[OF assms(4)] by (simp add: init_heap_def choose_heap_def case_prod_beta)
  with r(2,3) show ?thesis
    by (auto simp: init_allocator_def bump_init_def bump_new_def)
qed

section \<open>Properties\<close>

text \<open>C37: The kernel's heap is the largest usable region of the firmware's memory map: the map written by the boot loader is read
  back by the kernel unchanged, the allocator is initialised on the range of a descriptor of a usable type, and no usable
  descriptor describes a longer range; nothing overflows when the usable regions lie in the 64-bit address space.\<close>

theorem heap_is_largest_region:
  assumes "length descs \<le> length (mm_slots entry)" "length (mm_slots entry) < usize_limit"
    and "\<forall>d \<in> set descs. usable_type (md_ty d) \<longrightarrow> md_phys_start d + md_page_count d * 4096 < usize_limit"
    and "\<exists>d \<in> set descs. usable_type (md_ty d)"
  shows "\<exists>entry' a. new_inplace (length descs) descs entry = Some entry' \<and> init_heap entry' = Some (a, descs) \<and>
           (\<exists>d \<in> set descs. usable_type (md_ty d) \<and> heap_start a = md_phys_start d \<and> bump_next a = heap_start a \<and>
              heap_end a = md_phys_start d + md_page_count d * 4096) \<and>
           (\<forall>d \<in> set descs. usable_type (md_ty d) \<longrightarrow> md_page_count d * 4096 \<le> heap_end a - heap_start a)"
proof -
  let ?e = "\<lparr>mm_size = length descs, mm_slots = descs @ drop (length descs) (mm_slots entry)\<rparr>"
  have "new_inplace (length descs) descs entry = Some ?e" by (rule new_inplace_eq[OF assms(1)])
  moreover have "mm_size ?e \<le> length (mm_slots ?e)" "length (mm_slots ?e) < usize_limit" "descs = take (mm_size ?e) (mm_slots ?e)" using assms(1,2) by simp_all
  ultimately show ?thesis using init_heap_largest[OF _ _ _ assms(3,4), of ?e] by blast
qed

theorem heap_is_largest_region_witness:
  "\<exists>entry' a. new_inplace 2 [\<lparr>md_ty = CONVENTIONAL, md_phys_start = 4096, md_page_count = 2\<rparr>,
       \<lparr>md_ty = OtherMemoryType 5, md_phys_start = 16384, md_page_count = 100\<rparr>]
     \<lparr>mm_size = 0, mm_slots = replicate 4 \<lparr>md_ty = CONVENTIONAL, md_phys_start = 0, md_page_count = 0\<rparr>\<rparr> = Some entry' \<and>
     init_heap entry' = Some (a, [\<lparr>md_ty = CONVENTIONAL, md_phys_start = 4096, md_page_count = 2\<rparr>,
       \<lparr>md_ty = OtherMemoryType 5, md_phys_start = 16384, md_page_count = 100\<rparr>]) \<and> heap_start a = 4096 \<and> heap_end a = 12288"
  using heap_is_largest_region[of "[\<lparr>md_ty = CONVENTIONAL, md_phys_start = 4096, md_page_count = 2\<rparr>,
       \<lparr>md_ty = OtherMemoryType 5, md_phys_start = 16384, md_page_count = 100\<rparr>]"
     "\<lparr>mm_size = 0, mm_slots = replicate 4 \<lparr>md_ty = CONVENTIONAL, md_phys_start = 0, md_page_count = 0\<rparr>\<rparr>"]
  by (auto simp: numeral_2_eq_2)

text \<open>What a loaded segment looks like in memory.\<close>

definition in_segment :: "ProgramHeader \<Rightarrow> usize \<Rightarrow> bool" where
  "in_segment h a \<longleftrightarrow> p_vaddr h \<le> a \<and> a < p_vaddr h + p_memsz h"

definition segment_loaded :: "u8 list \<Rightarrow> ProgramHeader \<Rightarrow> memory \<Rightarrow> bool" where
  "segment_loaded buf h mem \<longleftrightarrow>
     (\<forall>k < p_memsz h. mem (p_vaddr h + k) = (if k < p_filesz h then buf ! (p_offset h + k) else 0))"

definition header_ok :: "u8 list \<Rightarrow> ProgramHeader \<Rightarrow> bool" where
  "header_ok buf h \<longleftrightarrow> p_filesz h \<le> p_memsz h \<and> p_offset h + p_filesz h \<le> length buf \<and> p_vaddr h + p_memsz h < usize_limit - 4096"

definition load_segment :: "u8 list \<Rightarrow> ProgramHeader \<Rightarrow> memory \<Rightarrow> memory" where
  "load_segment buf h mem =
     (\<lambda>a. if in_segment h a then (if a - p_vaddr h < p_filesz h then buf ! (p_offset h + (a - p_vaddr h)) else 0) else mem a)"

lemma copy_segment:
  assumes "header_ok buf h"
  shows "do { bytes \<leftarrow> slice buf (p_offset h) (p_offset h + p_filesz h);
      let mem = copy_to_mem (p_vaddr h) bytes mem;
      remain_bytes \<leftarrow> usub (p_memsz h) (p_filesz h);
      Some (copy_to_mem (p_vaddr h + p_filesz h) (replicate remain_bytes 0) mem) } = Some (load_segment buf h mem)"
  using assms by (auto simp: header_ok_def load_segment_def copy_to_mem_def in_segment_def fun_eq_iff)

lemma copy_load_segments_eq:
  assumes "\<forall>h \<in> set hs. p_type h = pt \<longrightarrow> header_ok buf h"
  shows "copy_load_segments pt hs buf mem = Some (fold (load_segment buf) (filter (\<lambda>h. p_type h = pt) hs) mem)"
proof -
  have "for_each ls f mem = Some (fold g ls mem)" if "\<forall>l \<in> set ls. \<forall>m. f l m = Some (g l m)"
    for ls and f :: "ProgramHeader \<Rightarrow> memory \<Rightarrow> memory option" and g and mem
    using that by (induction ls arbitrary: mem) auto
  from this[of "filter (\<lambda>h. p_type h = pt) hs" _ "load_segment buf"] show ?thesis
    using assms copy_segment unfolding copy_load_segments_def for_each_filter by simp
qed

lemma fold_load_segment:
  assumes "sorted_wrt (\<lambda>h h'. \<forall>a. \<not> (in_segment h a \<and> in_segment h' a)) hs"
  shows "(\<forall>h \<in> set hs. segment_loaded buf h (fold (load_segment buf) hs mem)) \<and>
         (\<forall>a. (\<forall>h \<in> set hs. \<not> in_segment h a) \<longrightarrow> fold (load_segment buf) hs mem a = mem a)"
  using assms
proof (induction hs arbitrary: mem)
  case (Cons h hs)
  let ?m = "fold (load_segment buf) hs (load_segment buf h mem)"
  have IH: "\<forall>h \<in> set hs. segment_loaded buf h ?m"
    "\<forall>a. (\<forall>h \<in> set hs. \<not> in_segment h a) \<longrightarrow> ?m a = load_segment buf h mem a"
    using Cons.IH[of "load_segment buf h mem"] Cons.prems by auto
  have "?m (p_vaddr h + k) = load_segment buf h mem (p_vaddr h + k)" if "k < p_memsz h" for k
  proof -
    have "in_segment h (p_vaddr h + k)" using that by (simp add: in_segment_def)
    with Cons.prems IH(2) show ?thesis by auto
  qed
  then have "segment_loaded buf h ?m" by (simp add: segment_loaded_def load_segment_def in_segment_def)
  moreover have "load_segment buf h mem a = mem a" if "\<not> in_segment h a" for a using that by (simp add: load_segment_def)
  ultimately show ?case using IH by simp
qed simp

lemma calc_range_spec:
  assumes "\<forall>h \<in> set hs. p_type h = pt \<longrightarrow> header_ok buf h"
  shows "\<exists>lo hi. calc_load_address_range pt hs = Some (lo, hi) \<and> (hi = 0 \<or> hi < usize_limit - 4096) \<and> lo < usize_limit \<and>
    (\<forall>h \<in> set hs. p_type h = pt \<longrightarrow> lo \<le> p_vaddr h \<and> p_vaddr h + p_memsz h \<le> hi)"
proof -
  let ?ls = "filter (\<lambda>h. p_type h = pt) hs"
  let ?f = "\<lambda>h (lo, hi). do { let lo = min lo (p_vaddr h); e \<leftarrow> uadd (p_vaddr h) (p_memsz h); Some (lo, max hi e) }"
  let ?P = "\<lambda>pre s. (snd s = 0 \<or> snd s < usize_limit - 4096) \<and> fst s < usize_limit \<and>
      (\<forall>h \<in> set pre. fst s \<le> p_vaddr h \<and> p_vaddr h + p_memsz h \<le> snd s)"
  have "\<exists>s'. for_each ?ls ?f (usize_limit - 1, 0) = Some s' \<and> ?P ?ls s'"
  proof (rule for_each_rule[where P = ?P])
    fix pre h post and s :: "nat \<times> nat"
    assume ls: "?ls = pre @ h # post" and P: "?P pre s"
    have "h \<in> set ?ls" using ls by simp
    then have "header_ok buf h" using assms by simp
    with P show "\<exists>s'. ?f h s = Some s' \<and> ?P (pre @ [h]) s'"
      by (cases s) (fastforce simp: header_ok_def min_def max_def)
  qed simp
  moreover have "calc_load_address_range pt hs = for_each ?ls ?f (usize_limit - 1, 0)"
    unfolding calc_load_address_range_def for_each_filter[symmetric] by (rule for_each_cong) auto
  ultimately show ?thesis by auto
qed

lemma n_pages_cover:
  assumes "n_pages (lo, hi) = Some n"
  shows "hi \<le> lo + n * 4096"
proof -
  have n: "n = (hi - lo + 4095) div 4096" "lo \<le> hi" using assms by (auto simp: n_pages_def bind_eq_Some_conv rust_simps)
  have "hi - lo + 4095 = n * 4096 + (hi - lo + 4095) mod 4096" unfolding n(1) by (rule div_mult_mod_eq[symmetric])
  moreover have "(hi - lo + 4095) mod 4096 < 4096" by simp
  ultimately show ?thesis using n(2) by linarith
qed

text \<open>
  Loading the kernel puts every loadable segment of the ELF file where it belongs: when the segments are disjoint and lie
  inside the file and the address space, the load never panics, each byte of a segment is the file's byte and the rest of it is
  zero, memory outside the segments keeps its contents, and the pages requested from the firmware cover all segments.
\<close>

lemma kernel_segments_loaded:
  assumes "\<forall>h \<in> set hs. p_type h = pt \<longrightarrow> header_ok buf h"
    and "sorted_wrt (\<lambda>h h'. \<forall>a. \<not> (in_segment h a \<and> in_segment h' a)) (filter (\<lambda>h. p_type h = pt) hs)"
    and "\<exists>h \<in> set hs. p_type h = pt"
  shows "\<exists>lo hi n mem'. calc_load_address_range pt hs = Some (lo, hi) \<and> n_pages (lo, hi) = Some n \<and>
           copy_load_segments pt hs buf mem = Some mem' \<and>
           (\<forall>h \<in> set hs. p_type h = pt \<longrightarrow> segment_loaded buf h mem' \<and> lo \<le> p_vaddr h \<and> p_vaddr h + p_memsz h \<le> lo + n * 4096) \<and>
           (\<forall>a. (\<forall>h \<in> set hs. p_type h = pt \<longrightarrow> \<not> in_segment h a) \<longrightarrow> mem' a = mem a)"
proof -
  from calc_range_spec[OF assms(1)] obtain lo hi where rg: "calc_load_address_range pt hs = Some (lo, hi)"
    "hi = 0 \<or> hi < usize_limit - 4096" "\<forall>h \<in> set hs. p_type h = pt \<longrightarrow> lo \<le> p_vaddr h \<and> p_vaddr h + p_memsz h \<le> hi" by blast
  with assms(3) have le: "lo \<le> hi" by force
  obtain n where n: "n_pages (lo, hi) = Some n" using le rg(2) by (auto simp: n_pages_def)
  with rg(3) n_pages_cover[OF n] have "\<forall>h \<in> set hs. p_type h = pt \<longrightarrow> lo \<le> p_vaddr h \<and> p_vaddr h + p_memsz h \<le> lo + n * 4096"
    by (meson order_trans)
  with rg(1) n copy_load_segments_eq[OF assms(1)] fold_load_segment[OF assms(2), of buf mem] show ?thesis by simp
qed

end
