(* ===== verification/Loader.thy ===== *)
theory Loader
  imports Boot Logging
begin

text \<open>
  The boot loader as a whole, \<^verbatim>\<open>main\<close> of \<^verbatim>\<open>bootloader/src/main.rs\<close>: reading \<^verbatim>\<open>kernel.elf\<close>, loading it with the functions of \<open>Boot\<close>, describing
  the frame buffer, leaving the boot services and jumping into the kernel with the memory map.

  The services of the UEFI firmware, the ELF parser and the disassembler are parameters. A firmware service takes the state of the firmware and answers with a status or a value; every
  \<^verbatim>\<open>Err\<close> that the loader sees ends in a panic. The loader sets the log level to \<^verbatim>\<open>Info\<close> at once, so the arguments of its debug messages are never evaluated; only the
  two print functions, whose loops run in any case, have the level as an argument.
\<close>

section \<open>The firmware and the libraries\<close>

type_synonym uefi_status = u64
type_synonym handle = nat
type_synonym ('u, 'a) service = "'u \<Rightarrow> 'u \<times> (uefi_status + 'a)"

datatype GopPixelFormat = GopRgb | GopBgr | GopBitmask | GopBltOnly

record GraphicsOutput =
  gop_resolution :: "usize \<times> usize"
  gop_stride :: usize
  gop_pixel_format :: GopPixelFormat
  gop_frame_buffer :: usize

record FileInfo =
  file_name :: string
  file_size :: usize

record 'u Uefi =
  ue_init :: "('u, unit) service"
  ue_get_handle_for_text :: "('u, handle) service"
  ue_open_text :: "handle \<Rightarrow> ('u, unit) service"
  ue_reset_text :: "bool \<Rightarrow> ('u, unit) service"
  ue_map_size :: "'u \<Rightarrow> usize"
  ue_memory_map :: "usize \<Rightarrow> ('u, MemoryDescriptor list) service"
  ue_image_file_system :: "('u, unit) service"
  ue_open_volume :: "('u, unit) service"
  ue_read_entry :: "usize \<Rightarrow> ('u, FileInfo option) service"
  ue_open_file :: "string \<Rightarrow> ('u, unit) service"
  ue_read_file :: "u8 list \<Rightarrow> ('u, u8 list) service"
  ue_allocate_pages :: "usize \<Rightarrow> MemoryType \<Rightarrow> usize \<Rightarrow> ('u, usize) service"
  ue_allocate_pool :: "usize \<Rightarrow> ('u, usize) service"
  ue_gop_handles :: "('u, handle list) service"
  ue_open_gop :: "handle \<Rightarrow> ('u, GraphicsOutput) service"
  ue_exit_boot_services :: "usize \<Rightarrow> ('u, MemoryDescriptor list) service"

text \<open>A parsed file has its entry point, and its program and section headers when it has such tables.\<close>

record ElfFile =
  elf_entry :: usize
  elf_segments :: "ProgramHeader list option"
  elf_section_headers :: "nat list option"

record ElfLib =
  elf_minimal_parse :: "u8 list \<Rightarrow> string + ElfFile"
  elf_PT_LOAD :: u32

text \<open>The disassembler gives the length and the text of the instruction at a position of a buffer that starts at an address.\<close>

type_synonym Disassembler = "u8 list \<Rightarrow> usize \<Rightarrow> usize \<Rightarrow> usize \<times> code_point list"

text \<open>The answer of a service, where an error is a panic.\<close>

definition fw_unwrap :: "'u \<times> (uefi_status + 'a) \<Rightarrow> ('u \<times> 'a) option" where
  "fw_unwrap = (\<lambda>(u, r). case r of Inl e \<Rightarrow> None | Inr x \<Rightarrow> Some (u, x))"

lemma fw_unwrap_simps [simp]: "fw_unwrap (u, Inr x) = Some (u, x)" "fw_unwrap (u, Inl e) = None"
  by (simp_all add: fw_unwrap_def)

lemma fw_unwrap_eq_Some [rust_simps]: "fw_unwrap a = Some (u, x) \<longleftrightarrow> a = (u, Inr x)"
  by (cases a; cases "snd a") auto

section \<open>The helpers\<close>

definition reset_text_output :: "'u Uefi \<Rightarrow> 'u \<Rightarrow> 'u option" where
  "reset_text_output U u = do {
     (u, handle) \<leftarrow> fw_unwrap (ue_get_handle_for_text U u);
     (u, _) \<leftarrow> fw_unwrap (ue_open_text U handle u);
     (u, _) \<leftarrow> fw_unwrap (ue_reset_text U True u);
     Some u
   }"

definition get_memory_map_iter :: "'u Uefi \<Rightarrow> usize \<Rightarrow> 'u \<Rightarrow> ('u \<times> MemoryDescriptor list) option" where
  "get_memory_map_iter U buf_len u = fw_unwrap (ue_memory_map U buf_len u)"

text \<open>The arguments of each line that is printed: first and last address, type and size in KiB.\<close>

definition pretty_print_memory_map :: "Level \<Rightarrow> MemoryDescriptor list \<Rightarrow> (usize \<times> usize \<times> MemoryType \<times> usize) list option" where
  "pretty_print_memory_map max_level descs =
     for_each descs (\<lambda>d lines.
       if level_nat Debug \<le> level_nat max_level then do {
         kib \<leftarrow> umul (md_page_count d) 4;
         bytes \<leftarrow> umul kib 1024;
         e \<leftarrow> uadd bytes (md_phys_start d);
         last_addr \<leftarrow> usub e 1;
         Some (lines @ [(md_phys_start d, last_addr, md_ty d, kib)])
       } else Some lines) []"

definition construct_graphics_info :: "'u Uefi \<Rightarrow> 'u \<Rightarrow> ('u \<times> GraphicsInfo) option" where
  "construct_graphics_info U u = do {
     (u, handles) \<leftarrow> fw_unwrap (ue_gop_handles U u);
     handle \<leftarrow> get_idx handles 1;
     (u, gop) \<leftarrow> fw_unwrap (ue_open_gop U handle u);
     pixcel_format \<leftarrow> (case gop_pixel_format gop of GopRgb \<Rightarrow> Some Rgb | GopBgr \<Rightarrow> Some Bgr | GopBitmask \<Rightarrow> None | GopBltOnly \<Rightarrow> None);
     Some (u, GraphicsInfo_new (fst (gop_resolution gop)) (snd (gop_resolution gop)) (gop_stride gop) (gop_frame_buffer gop) pixcel_format)
   }"

text \<open>\<^verbatim>\<open>{:X}\<close>: the digits of a number to the base 16.\<close>

fun hex_upper :: "nat \<Rightarrow> code_point list" where
  "hex_upper n = (if n < 16 then [if n < 10 then 48 + n else 55 + n] else hex_upper (n div 16) @ [if n mod 16 < 10 then 48 + n mod 16 else 55 + n mod 16])"

declare hex_upper.simps [simp del]

text \<open>
  The loop of \<^verbatim>\<open>pretty_print_entry_point_asm\<close>, at a position of the buffer and with the text printed so far. The instruction pointer wraps around at the end of the address space.
\<close>

partial_function (option) print_asm_loop :: "Disassembler \<Rightarrow> u8 list \<Rightarrow> usize \<Rightarrow> usize \<Rightarrow> code_point list \<Rightarrow> code_point list option" where
  "print_asm_loop D buf entry_pointer position out =
     (if position < length buf then
        case D buf entry_pointer position of (len, output) \<Rightarrow>
        Option.bind (usub ((entry_pointer + position) mod usize_limit) entry_pointer) (\<lambda>start_index.
        Option.bind (slice buf start_index (start_index + len)) (\<lambda>instr_bytes.
          print_asm_loop D buf entry_pointer (position + len)
            (out @ pad_left 48 16 (hex_upper ((entry_pointer + position) mod usize_limit)) @ [32, newline]
             @ concat (map (\<lambda>b. pad_left 48 2 (hex_upper (unat b))) instr_bytes)
             @ (if length instr_bytes < 10 then replicate (2 * (10 - length instr_bytes)) 32 else [])
             @ [32] @ output @ [newline])))
      else Some out)"

declare print_asm_loop.simps [code]

definition pretty_print_entry_point_asm :: "Disassembler \<Rightarrow> memory \<Rightarrow> usize \<Rightarrow> code_point list option" where
  "pretty_print_entry_point_asm D mem entry_pointer = print_asm_loop D (map (\<lambda>i. mem (entry_pointer + i)) [0..<20]) entry_pointer 0 []"

section \<open>Reading the kernel's file\<close>

text \<open>The loop over the entries of the root directory.\<close>

partial_function (option) find_kernel_entry :: "'u Uefi \<Rightarrow> 'u \<Rightarrow> ('u \<times> FileInfo) option" where
  "find_kernel_entry U u =
     (case ue_read_entry U 10000 u of
        (u, Inr (Some file_info)) \<Rightarrow> if file_name file_info = ''kernel.elf'' then Some (u, file_info) else find_kernel_entry U u
      | (u, Inr None) \<Rightarrow> None
      | (u, Inl e) \<Rightarrow> None)"

declare find_kernel_entry.simps [code]

definition read_kernel_file :: "'u Uefi \<Rightarrow> 'u \<Rightarrow> ('u \<times> u8 list) option" where
  "read_kernel_file U u = do {
     (u, _) \<leftarrow> fw_unwrap (ue_image_file_system U u);
     (u, _) \<leftarrow> fw_unwrap (ue_open_volume U u);
     (u, kernel_file_info) \<leftarrow> find_kernel_entry U u;
     (u, _) \<leftarrow> fw_unwrap (ue_open_file U ''kernel.elf'' u);
     fw_unwrap (ue_read_file U (replicate (file_size kernel_file_info) 0) u)
   }"

definition parse_kernel :: "ElfLib \<Rightarrow> u8 list \<Rightarrow> ElfFile option" where
  "parse_kernel E kernel_buffer = do {
     elf \<leftarrow> (case elf_minimal_parse E kernel_buffer of Inl err \<Rightarrow> None | Inr elf \<Rightarrow> Some elf);
     _ \<leftarrow> elf_section_headers elf;
     Some elf
   }"

section \<open>Loading it\<close>

abbreviation LOADER_DATA :: MemoryType where
  "LOADER_DATA \<equiv> OtherMemoryType 2"

text \<open>The descriptor of the region that an address lies in; \<open>None\<close> is the panic when there is none, or of the arithmetic in the predicate.\<close>

fun find_region :: "usize \<Rightarrow> MemoryDescriptor list \<Rightarrow> MemoryDescriptor option" where
  "find_region p [] = None"
| "find_region p (d # ds) =
     (if md_phys_start d \<le> p then do {
        kib \<leftarrow> umul (md_page_count d) 4;
        bytes \<leftarrow> umul kib 1024;
        e \<leftarrow> uadd (md_phys_start d) bytes;
        if p < e then Some d else find_region p ds
      } else find_region p ds)"

definition memory_type_at :: "usize \<Rightarrow> MemoryDescriptor list \<Rightarrow> MemoryType option" where
  "memory_type_at p descs = map_option md_ty (find_region p descs)"

definition allocate_kernel_pages :: "'u Uefi \<Rightarrow> ElfLib \<Rightarrow> ElfFile \<Rightarrow> 'u \<Rightarrow> ('u \<times> usize) option" where
  "allocate_kernel_pages U E elf u = do {
     segments \<leftarrow> elf_segments elf;
     (load_min_addr, load_max_addr) \<leftarrow> calc_load_address_range (elf_PT_LOAD E) segments;
     n \<leftarrow> n_pages (load_min_addr, load_max_addr);
     fw_unwrap (ue_allocate_pages U load_min_addr LOADER_DATA n u)
   }"

section \<open>Handing over\<close>

text \<open>
  The block for the memory map, of \<open>capacity\<close> bytes at \<open>ptr\<close>: the header of 8 bytes and descriptors of 40 bytes each, as many as fit; \<open>junk\<close> is what
  uninitialised memory holds. A store behind the block is \<open>None\<close>.
\<close>

definition uninit_block :: "MemoryDescriptor \<Rightarrow> usize \<Rightarrow> MemMapEntry" where
  "uninit_block junk capacity = \<lparr>mm_size = 0, mm_slots = replicate ((capacity - 8) div 40) junk\<rparr>"

definition store_memory_map :: "MemoryDescriptor list \<Rightarrow> MemMapEntry \<Rightarrow> MemMapEntry option" where
  "store_memory_map memory_map header = do {
     let header = header\<lparr>mm_size := length memory_map\<rparr>;
     for_each (zip [0..<length memory_map] memory_map) (\<lambda>(i, desc) header. do {
       slots \<leftarrow> set_idx (mm_slots header) i desc;
       Some (header\<lparr>mm_slots := slots\<rparr>)
     }) header
   }"

record Handover =
  ho_entry_point :: usize
  ho_arg :: KernelMainArg
  ho_block_ptr :: usize
  ho_block_len :: usize
  ho_printed :: "code_point list"

definition leave_boot_services :: "'u Uefi \<Rightarrow> MemoryDescriptor \<Rightarrow> 'u \<Rightarrow> ('u \<times> usize \<times> usize \<times> MemMapEntry) option" where
  "leave_boot_services U junk u = do {
     buf_size \<leftarrow> uadd (ue_map_size U u) 1024;
     (u, mem_map_buf) \<leftarrow> fw_unwrap (ue_allocate_pool U buf_size u);
     (u, memory_map) \<leftarrow> fw_unwrap (ue_exit_boot_services U buf_size u);
     block \<leftarrow> store_memory_map memory_map (uninit_block junk buf_size);
     Some (u, mem_map_buf, buf_size, block)
   }"

text \<open>\<^verbatim>\<open>main\<close> up to the jump, with the memory of the machine; the kernel starts with what is handed over.\<close>

definition loader_main :: "'u Uefi \<Rightarrow> ElfLib \<Rightarrow> Disassembler \<Rightarrow> MemoryDescriptor \<Rightarrow> 'u \<Rightarrow> memory \<Rightarrow> ('u \<times> memory \<times> Handover) option" where
  "loader_main U E D junk u mem = do {
     (u, _) \<leftarrow> fw_unwrap (ue_init U u);
     u \<leftarrow> reset_text_output U u;
     buf_size \<leftarrow> uadd (ue_map_size U u) 1024;
     (u, memory_maps) \<leftarrow> get_memory_map_iter U buf_size u;
     _ \<leftarrow> pretty_print_memory_map Info memory_maps;
     _ \<leftarrow> pretty_print_memory_map Info (filter (\<lambda>d. md_ty d = CONVENTIONAL) memory_maps);
     (u, kernel_buffer) \<leftarrow> read_kernel_file U u;
     elf \<leftarrow> parse_kernel E kernel_buffer;
     (u, allocated_pointer) \<leftarrow> allocate_kernel_pages U E elf u;
     _ \<leftarrow> memory_type_at allocated_pointer memory_maps;
     (u, memory_maps) \<leftarrow> get_memory_map_iter U buf_size u;
     _ \<leftarrow> memory_type_at allocated_pointer memory_maps;
     segments \<leftarrow> elf_segments elf;
     mem \<leftarrow> copy_load_segments (elf_PT_LOAD E) segments kernel_buffer mem;
     printed \<leftarrow> pretty_print_entry_point_asm D mem (elf_entry elf);
     (u, graphics_info) \<leftarrow> construct_graphics_info U u;
     (u, ptr, len, block) \<leftarrow> leave_boot_services U junk u;
     Some (u, mem, \<lparr>ho_entry_point = elf_entry elf, ho_arg = \<lparr>ka_graphics_info = graphics_info, ka_memory_map_entry = block\<rparr>,
                    ho_block_ptr = ptr, ho_block_len = len, ho_printed = printed\<rparr>)
   }"
section \<open>The loops\<close>

text \<open>Successive reads of the directory give these entries.\<close>

fun dir_reads :: "'u Uefi \<Rightarrow> 'u \<Rightarrow> FileInfo list \<Rightarrow> 'u \<Rightarrow> bool" where
  "dir_reads U u [] u' \<longleftrightarrow> u' = u"
| "dir_reads U u (f # fs) u' \<longleftrightarrow> (\<exists>v. ue_read_entry U 10000 u = (v, Inr (Some f)) \<and> dir_reads U v fs u')"

lemma find_kernel_entry_found:
  assumes "dir_reads U u (fs @ [f]) u'" "\<forall>g \<in> set fs. file_name g \<noteq> ''kernel.elf''" "file_name f = ''kernel.elf''"
  shows "find_kernel_entry U u = Some (u', f)"
  using assms
proof (induction fs arbitrary: u)
  case Nil
  then show ?case by (subst find_kernel_entry.simps) auto
next
  case (Cons g fs)
  then obtain v where v: "ue_read_entry U 10000 u = (v, Inr (Some g))" "dir_reads U v (fs @ [f]) u'" by auto
  from Cons.IH[OF v(2)] Cons.prems(2,3) have "find_kernel_entry U v = Some (u', f)" by simp
  with Cons.prems(2) v(1) show ?case by (subst find_kernel_entry.simps) simp
qed

text \<open>The file is not there: the end of the directory is reached and the loader panics.\<close>

lemma find_kernel_entry_missing:
  assumes "dir_reads U u fs u'" "\<forall>g \<in> set fs. file_name g \<noteq> ''kernel.elf''" "snd (ue_read_entry U 10000 u') = Inr None"
  shows "find_kernel_entry U u = None"
  using assms
proof (induction fs arbitrary: u)
  case Nil
  then show ?case by (subst find_kernel_entry.simps) (cases "ue_read_entry U 10000 u'", simp)
next
  case (Cons g fs)
  then obtain v where v: "ue_read_entry U 10000 u = (v, Inr (Some g))" "dir_reads U v fs u'" by auto
  from Cons.IH[OF v(2)] Cons.prems(2,3) have "find_kernel_entry U v = None" by simp
  with Cons.prems(2) v(1) show ?case by (subst find_kernel_entry.simps) simp
qed

text \<open>The disassembler consumes at least a byte and stays inside its buffer.\<close>

definition disassembler_ok :: "Disassembler \<Rightarrow> bool" where
  "disassembler_ok D \<longleftrightarrow> (\<forall>buf a p. p < length buf \<longrightarrow> 0 < fst (D buf a p) \<and> p + fst (D buf a p) \<le> length buf)"

lemma print_asm_loop_ends:
  assumes "disassembler_ok D" "a + length buf < usize_limit"
  shows "\<exists>str. print_asm_loop D buf a p out = Some str"
proof (induction "length buf - p" arbitrary: p out rule: less_induct)
  case less
  show ?case
  proof (cases "p < length buf")
    case True
    obtain len shown where d: "D buf a p = (len, shown)" by fastforce
    with assms(1) True have len: "0 < len" "p + len \<le> length buf" unfolding disassembler_ok_def by (metis fst_conv)+
    have wrap: "(a + p) mod usize_limit = a + p" using assms(2) True by simp
    have "length buf - (p + len) < length buf - p" using len True by linarith
    from less[OF this] obtain str where
      "print_asm_loop D buf a (p + len) (out @ pad_left 48 16 (hex_upper (a + p)) @ [32, newline]
        @ concat (map (\<lambda>b. pad_left 48 2 (hex_upper (unat b))) (take len (drop p buf)))
        @ (if length (take len (drop p buf)) < 10 then replicate (2 * (10 - length (take len (drop p buf)))) 32 else [])
        @ [32] @ shown @ [newline]) = Some str" by blast
    then show ?thesis by (subst print_asm_loop.simps) (simp only: True d wrap if_True prod.case len usub_ok slice_ok le_add1 bind.bind_lunit add_diff_cancel_left' option.inject simp_thms)
  qed (subst print_asm_loop.simps, simp)
qed

lemma pretty_print_quiet: "pretty_print_memory_map Info descs = Some []"
proof -
  have "for_each descs (\<lambda>d lines. Some lines) [] = Some ([] :: 'x list)" by (induction descs) simp_all
  then show ?thesis by (simp add: pretty_print_memory_map_def)
qed

text \<open>A map in which an address lies in a region, all of whose regions end below the limit of the address space.\<close>

definition region_known :: "usize \<Rightarrow> MemoryDescriptor list \<Rightarrow> bool" where
  "region_known p descs \<longleftrightarrow> (\<forall>d \<in> set descs. md_phys_start d + md_page_count d * 4096 < usize_limit) \<and>
     (\<exists>d \<in> set descs. md_phys_start d \<le> p \<and> p < md_phys_start d + md_page_count d * 4096)"

lemma memory_type_at_known:
  assumes "region_known p descs"
  shows "\<exists>ty. memory_type_at p descs = Some ty"
proof -
  have "\<exists>d. find_region p descs = Some d" using assms
  proof (induction descs)
    case (Cons d descs)
    have lim: "md_phys_start d + md_page_count d * 4096 < usize_limit" using Cons.prems by (simp add: region_known_def)
    show ?case
    proof (cases "md_phys_start d \<le> p \<and> p < md_phys_start d + md_page_count d * 4096")
      case True
      with lim show ?thesis by simp
    next
      case False
      with Cons.prems have "region_known p descs" by (auto simp: region_known_def)
      from Cons.IH[OF this] obtain r where "find_region p descs = Some r" by blast
      with lim False show ?thesis by auto
    qed
  qed (simp add: region_known_def)
  then show ?thesis by (auto simp: memory_type_at_def)
qed

lemma store_memory_map_eq: "store_memory_map descs entry = new_inplace (length descs) descs entry"
  by (simp add: store_memory_map_def new_inplace_def)
section \<open>A firmware that lets the loader through\<close>

text \<open>
  The firmware answers the calls of the loader one after the other: the root directory has the entry \<open>info\<close> of the kernel's file, whose contents are \<open>buf\<close>; \<open>n\<close> pages from \<open>lo\<close> on are free;
  there are two graphics handles, the second of which has the mode \<open>gop\<close>; \<open>final\<close> is the memory map at the end, which fits into the block that the loader provides for it.
\<close>

definition firmware_answers ::
  "'u Uefi \<Rightarrow> 'u \<Rightarrow> FileInfo \<Rightarrow> u8 list \<Rightarrow> usize \<Rightarrow> usize \<Rightarrow> GraphicsOutput \<Rightarrow> MemoryDescriptor list \<Rightarrow> 'u \<Rightarrow> bool"
where
  "firmware_answers U u0 info buf lo n gop final u' \<longleftrightarrow>
     (\<exists>u1 u2 u3 u4 u5 u6 u7 u8 u9 u10 u11 u12 u13 u14 u15 h maps fs maps' handles p.
        ue_init U u0 = (u1, Inr ()) \<and> ue_get_handle_for_text U u1 = (u2, Inr h) \<and>
        ue_open_text U h u2 = (u3, Inr ()) \<and> ue_reset_text U True u3 = (u4, Inr ()) \<and>
        ue_map_size U u4 + 1024 < usize_limit \<and> ue_memory_map U (ue_map_size U u4 + 1024) u4 = (u5, Inr maps) \<and> region_known lo maps \<and>
        ue_image_file_system U u5 = (u6, Inr ()) \<and> ue_open_volume U u6 = (u7, Inr ()) \<and>
        dir_reads U u7 (fs @ [info]) u8 \<and> (\<forall>g \<in> set fs. file_name g \<noteq> ''kernel.elf'') \<and> file_name info = ''kernel.elf'' \<and>
        ue_open_file U ''kernel.elf'' u8 = (u9, Inr ()) \<and> ue_read_file U (replicate (file_size info) 0) u9 = (u10, Inr buf) \<and>
        ue_allocate_pages U lo LOADER_DATA n u10 = (u11, Inr lo) \<and>
        ue_memory_map U (ue_map_size U u4 + 1024) u11 = (u12, Inr maps') \<and> region_known lo maps' \<and>
        ue_gop_handles U u12 = (u13, Inr handles) \<and> 1 < length handles \<and> ue_open_gop U (handles ! 1) u13 = (u14, Inr gop) \<and>
        ue_map_size U u14 + 1024 < usize_limit \<and> ue_allocate_pool U (ue_map_size U u14 + 1024) u14 = (u15, Inr p) \<and>
        ue_exit_boot_services U (ue_map_size U u14 + 1024) u15 = (u', Inr final) \<and>
        8 + 40 * length final \<le> ue_map_size U u14 + 1024)"

lemma read_kernel_file_ok:
  assumes "ue_image_file_system U u5 = (u6, Inr ())" "ue_open_volume U u6 = (u7, Inr ())" "dir_reads U u7 (fs @ [info]) u8"
    "\<forall>g \<in> set fs. file_name g \<noteq> ''kernel.elf''" "file_name info = ''kernel.elf''"
    "ue_open_file U ''kernel.elf'' u8 = (u9, Inr ())" "ue_read_file U (replicate (file_size info) 0) u9 = (u10, Inr buf)"
  shows "read_kernel_file U u5 = Some (u10, buf)"
  using find_kernel_entry_found[OF assms(3-5)] assms(1,2,6,7) by (simp add: read_kernel_file_def)

text \<open>The pixel format that the kernel is told.\<close>

definition kernel_pixel_format :: "GopPixelFormat \<Rightarrow> PixcelFormat option" where
  "kernel_pixel_format f = (case f of GopRgb \<Rightarrow> Some Rgb | GopBgr \<Rightarrow> Some Bgr | GopBitmask \<Rightarrow> None | GopBltOnly \<Rightarrow> None)"

lemma construct_graphics_info_ok:
  assumes "ue_gop_handles U u = (u1, Inr handles)" "1 < length handles" "ue_open_gop U (handles ! 1) u1 = (u2, Inr gop)"
    "kernel_pixel_format (gop_pixel_format gop) = Some f"
  shows "construct_graphics_info U u =
    Some (u2, GraphicsInfo_new (fst (gop_resolution gop)) (snd (gop_resolution gop)) (gop_stride gop) (gop_frame_buffer gop) f)"
  using assms by (auto simp: construct_graphics_info_def kernel_pixel_format_def split: GopPixelFormat.splits)

text \<open>With a single graphics handle the loader panics, although it is the one of the screen.\<close>

lemma single_gop_handle_panics:
  assumes "ue_gop_handles U u = (u1, Inr [h])"
  shows "construct_graphics_info U u = None"
  using assms by (simp add: construct_graphics_info_def)

text \<open>A stored map is read back by the kernel as it was.\<close>

lemma stored_map_reads_back:
  assumes "8 + 40 * length final \<le> capacity" "capacity < usize_limit"
  shows "\<exists>block. store_memory_map final (uninit_block junk capacity) = Some block \<and> mm_collect (mm_into_iter block) = Some final"
proof -
  have len: "length final \<le> (capacity - 8) div 40" using assms(1) by (simp add: less_eq_div_iff_mult_less_eq)
  let ?block = "\<lparr>mm_size = length final, mm_slots = final @ drop (length final) (mm_slots (uninit_block junk capacity))\<rparr>"
  have "store_memory_map final (uninit_block junk capacity) = Some ?block"
    unfolding store_memory_map_eq by (rule new_inplace_eq) (use len in \<open>simp add: uninit_block_def\<close>)
  moreover have "mm_collect (mm_into_iter ?block) = Some final"
    using mm_collect_eq[of "mm_into_iter ?block"] len assms(2) by (simp add: mm_into_iter_def uninit_block_def)
  ultimately show ?thesis by blast
qed
section \<open>From power-on to the kernel\<close>

text \<open>The program headers of a kernel that can be loaded: the loadable segments lie inside the file and the address space and are disjoint.\<close>

definition loadable :: "u32 \<Rightarrow> u8 list \<Rightarrow> ProgramHeader list \<Rightarrow> bool" where
  "loadable pt buf hs \<longleftrightarrow> (\<forall>h \<in> set hs. p_type h = pt \<longrightarrow> header_ok buf h) \<and>
     sorted_wrt (\<lambda>h h'. \<forall>a. \<not> (in_segment h a \<and> in_segment h' a)) (filter (\<lambda>h. p_type h = pt) hs) \<and> (\<exists>h \<in> set hs. p_type h = pt)"

lemma loader_main_runs:
  assumes fw: "firmware_answers U u info buf lo n gop final u'"
    and elf: "elf_minimal_parse E buf = Inr elf" "elf_section_headers elf = Some shs" "elf_segments elf = Some hs" "loadable (elf_PT_LOAD E) buf hs"
    and pages: "calc_load_address_range (elf_PT_LOAD E) hs = Some (lo, hi)" "n_pages (lo, hi) = Some n"
    and asm: "disassembler_ok D" "elf_entry elf + 20 < usize_limit"
    and format: "kernel_pixel_format (gop_pixel_format gop) = Some f"
  shows "\<exists>mem' ho. loader_main U E D junk u mem = Some (u', mem', ho) \<and> ho_entry_point ho = elf_entry elf \<and>
    (\<forall>h \<in> set hs. p_type h = elf_PT_LOAD E \<longrightarrow> segment_loaded buf h mem') \<and>
    (\<forall>a. (\<forall>h \<in> set hs. p_type h = elf_PT_LOAD E \<longrightarrow> \<not> in_segment h a) \<longrightarrow> mem' a = mem a) \<and>
    ka_graphics_info (ho_arg ho) = GraphicsInfo_new (fst (gop_resolution gop)) (snd (gop_resolution gop)) (gop_stride gop) (gop_frame_buffer gop) f \<and>
    mm_collect (mm_into_iter (ka_memory_map_entry (ho_arg ho))) = Some final \<and>
    1024 \<le> ho_block_len ho \<and> (\<exists>v v'. ue_allocate_pool U (ho_block_len ho) v = (v', Inr (ho_block_ptr ho)))"
proof -
  obtain u1 u2 u3 u4 u5 u6 u7 u8 u9 u10 u11 u12 u13 u14 u15 h maps fs maps' handles p where
    start: "ue_init U u = (u1, Inr ())" "ue_get_handle_for_text U u1 = (u2, Inr h)" "ue_open_text U h u2 = (u3, Inr ())" "ue_reset_text U True u3 = (u4, Inr ())"
    and maps: "ue_map_size U u4 + 1024 < usize_limit" "ue_memory_map U (ue_map_size U u4 + 1024) u4 = (u5, Inr maps)" "region_known lo maps"
    and files: "ue_image_file_system U u5 = (u6, Inr ())" "ue_open_volume U u6 = (u7, Inr ())" "dir_reads U u7 (fs @ [info]) u8"
      "\<forall>g \<in> set fs. file_name g \<noteq> ''kernel.elf''" "file_name info = ''kernel.elf''"
      "ue_open_file U ''kernel.elf'' u8 = (u9, Inr ())" "ue_read_file U (replicate (file_size info) 0) u9 = (u10, Inr buf)"
    and alloc: "ue_allocate_pages U lo LOADER_DATA n u10 = (u11, Inr lo)" "ue_memory_map U (ue_map_size U u4 + 1024) u11 = (u12, Inr maps')" "region_known lo maps'"
    and graphics: "ue_gop_handles U u12 = (u13, Inr handles)" "1 < length handles" "ue_open_gop U (handles ! 1) u13 = (u14, Inr gop)"
    and leave: "ue_map_size U u14 + 1024 < usize_limit" "ue_allocate_pool U (ue_map_size U u14 + 1024) u14 = (u15, Inr p)"
      "ue_exit_boot_services U (ue_map_size U u14 + 1024) u15 = (u', Inr final)" "8 + 40 * length final \<le> ue_map_size U u14 + 1024"
    using fw unfolding firmware_answers_def by (elim exE conjE) (rule that; assumption)
  obtain mem' where mem': "copy_load_segments (elf_PT_LOAD E) hs buf mem = Some mem'"
    "\<forall>h \<in> set hs. p_type h = elf_PT_LOAD E \<longrightarrow> segment_loaded buf h mem'"
    "\<forall>a. (\<forall>h \<in> set hs. p_type h = elf_PT_LOAD E \<longrightarrow> \<not> in_segment h a) \<longrightarrow> mem' a = mem a"
    using kernel_segments_loaded[of hs "elf_PT_LOAD E" buf mem] elf(4) unfolding loadable_def by blast
  obtain ty ty' where types: "memory_type_at lo maps = Some ty" "memory_type_at lo maps' = Some ty'" using memory_type_at_known maps(3) alloc(3) by blast
  obtain str where str: "pretty_print_entry_point_asm D mem' (elf_entry elf) = Some str"
    using print_asm_loop_ends[OF asm(1), of "elf_entry elf" "map (\<lambda>i. mem' (elf_entry elf + i)) [0..<20]"] asm(2) by (auto simp: pretty_print_entry_point_asm_def)
  obtain block where block: "store_memory_map final (uninit_block junk (ue_map_size U u14 + 1024)) = Some block" "mm_collect (mm_into_iter block) = Some final"
    using stored_map_reads_back[OF leave(4,1)] by blast
  have pool: "\<exists>v v'. ue_allocate_pool U (ue_map_size U u14 + 1024) v = (v', Inr p)" using leave(2) by blast
  have "reset_text_output U u1 = Some u4" using start by (simp add: reset_text_output_def)
  moreover have "parse_kernel E buf = Some elf" using elf(1,2) by (simp add: parse_kernel_def)
  moreover have "allocate_kernel_pages U E elf u10 = Some (u11, lo)" using elf(3) pages alloc(1) by (simp add: allocate_kernel_pages_def)
  moreover have "leave_boot_services U junk u14 = Some (u', p, ue_map_size U u14 + 1024, block)" using leave block(1) by (simp add: leave_boot_services_def)
  ultimately show ?thesis
    using start(1) maps alloc(2) types mem' str pool block(2) elf(3) read_kernel_file_ok[OF files] construct_graphics_info_ok[OF graphics format]
    by (simp add: loader_main_def get_memory_map_iter_def pretty_print_quiet)
qed
text \<open>C13: The boot loader boots: when the firmware answers its calls, \<^verbatim>\<open>kernel.elf\<close> parses into disjoint segments that lie inside the file, the pages asked for are the ones the segments
  need, and the screen has one of the two supported pixel formats, \<^verbatim>\<open>main\<close> reaches the jump. The kernel starts at the entry point of the file, every loadable segment is at its address with its tail zeroed,
  all other memory is as it was, the graphics information describes the mode of the second graphics handle, and the kernel's iterator yields the firmware's final memory map.\<close>

theorem loader_boots_kernel:
  assumes fw: "firmware_answers U u info buf lo n gop final u'"
    and elf: "elf_minimal_parse E buf = Inr elf" "elf_section_headers elf = Some shs" "elf_segments elf = Some hs" "loadable (elf_PT_LOAD E) buf hs"
    and pages: "calc_load_address_range (elf_PT_LOAD E) hs = Some (lo, hi)" "n_pages (lo, hi) = Some n"
    and asm: "disassembler_ok D" "elf_entry elf + 20 < usize_limit"
    and format: "kernel_pixel_format (gop_pixel_format gop) = Some f"
  shows "\<exists>mem' ho. loader_main U E D junk u mem = Some (u', mem', ho) \<and> ho_entry_point ho = elf_entry elf \<and>
    (\<forall>h \<in> set hs. p_type h = elf_PT_LOAD E \<longrightarrow> segment_loaded buf h mem') \<and>
    (\<forall>a. (\<forall>h \<in> set hs. p_type h = elf_PT_LOAD E \<longrightarrow> \<not> in_segment h a) \<longrightarrow> mem' a = mem a) \<and>
    ka_graphics_info (ho_arg ho) = GraphicsInfo_new (fst (gop_resolution gop)) (snd (gop_resolution gop)) (gop_stride gop) (gop_frame_buffer gop) f \<and>
    mm_collect (mm_into_iter (ka_memory_map_entry (ho_arg ho))) = Some final"
  using loader_main_runs[OF assms, of junk mem] by blast

text \<open>A concrete firmware: its state counts the directory entries that were read.\<close>

definition example_memory_map :: "MemoryDescriptor list" where
  "example_memory_map = [\<lparr>md_ty = LOADER_DATA, md_phys_start = 4096, md_page_count = 2\<rparr>, \<lparr>md_ty = CONVENTIONAL, md_phys_start = 16384, md_page_count = 4\<rparr>]"

definition example_gop :: GraphicsOutput where
  "example_gop = \<lparr>gop_resolution = (32, 20), gop_stride = 40, gop_pixel_format = GopBgr, gop_frame_buffer = 65536\<rparr>"

definition example_kernel_file :: FileInfo where
  "example_kernel_file = \<lparr>file_name = ''kernel.elf'', file_size = 3\<rparr>"

definition example_firmware :: "nat Uefi" where
  "example_firmware =
     \<lparr>ue_init = (\<lambda>u. (u, Inr ())), ue_get_handle_for_text = (\<lambda>u. (u, Inr 7)), ue_open_text = (\<lambda>h u. (u, Inr ())), ue_reset_text = (\<lambda>b u. (u, Inr ())),
      ue_map_size = (\<lambda>u. 96), ue_memory_map = (\<lambda>n u. (u, Inr example_memory_map)), ue_image_file_system = (\<lambda>u. (u, Inr ())), ue_open_volume = (\<lambda>u. (u, Inr ())),
      ue_read_entry = (\<lambda>n u. (Suc u, Inr (if u = 0 then Some \<lparr>file_name = ''EFI'', file_size = 0\<rparr> else if u = 1 then Some example_kernel_file else None))),
      ue_open_file = (\<lambda>f u. (u, Inr ())), ue_read_file = (\<lambda>b u. (u, Inr [9, 8, 7])),
      ue_allocate_pages = (\<lambda>a ty n u. if a = 4096 \<and> n = 1 then (u, Inr a) else (u, Inl 9)),
      ue_allocate_pool = (\<lambda>n u. if n \<le> 4096 then (u, Inr 8192) else (u, Inl 9)),
      ue_gop_handles = (\<lambda>u. (u, Inr [3, 4])), ue_open_gop = (\<lambda>h u. if h = 4 then (u, Inr example_gop) else (u, Inl 14)),
      ue_exit_boot_services = (\<lambda>n u. (u, Inr example_memory_map))\<rparr>"

definition example_header :: ProgramHeader where
  "example_header = \<lparr>p_type = 1, p_offset = 1, p_vaddr = 4096, p_filesz = 2, p_memsz = 4\<rparr>"

definition example_elf :: ElfFile where
  "example_elf = \<lparr>elf_entry = 4096, elf_segments = Some [example_header], elf_section_headers = Some []\<rparr>"

definition example_elf_lib :: ElfLib where
  "example_elf_lib = \<lparr>elf_minimal_parse = (\<lambda>buf. Inr example_elf), elf_PT_LOAD = 1\<rparr>"

definition example_disassembler :: Disassembler where
  "example_disassembler buf a p = (1, [46])"

lemmas example_loader_defs = example_firmware_def example_memory_map_def example_gop_def example_kernel_file_def example_header_def example_elf_def
  example_elf_lib_def example_disassembler_def

lemma example_firmware_answers: "firmware_answers example_firmware 0 example_kernel_file [9, 8, 7] 4096 1 example_gop example_memory_map 2"
  unfolding firmware_answers_def
  by (rule exI[of _ "0"], rule exI[of _ "0"], rule exI[of _ "0"], rule exI[of _ "0"], rule exI[of _ "0"], rule exI[of _ "0"], rule exI[of _ "0"], rule
    exI[of _ "2"], rule exI[of _ "2"], rule exI[of _ "2"], rule exI[of _ "2"], rule exI[of _ "2"], rule exI[of _ "2"], rule exI[of _ "2"], rule exI[of _
    "2"], rule exI[of _ "7"], rule exI[of _ "example_memory_map"], rule exI[of _ "[\<lparr>file_name = ''EFI'', file_size = 0\<rparr>]"], rule exI[of _
    "example_memory_map"], rule exI[of _ "[3, 4]"], rule exI[of _ "8192"])
    (simp add: example_loader_defs region_known_def)

lemma example_range: "calc_load_address_range 1 [example_header] = Some (4096, 4100)" "n_pages (4096, 4100) = Some 1"
  by (simp_all add: calc_load_address_range_def n_pages_def example_header_def)

theorem loader_boots_kernel_witness:
  "\<exists>mem' ho. loader_main example_firmware example_elf_lib example_disassembler (hd example_memory_map) 0 (\<lambda>_. 5) = Some (2, mem', ho) \<and>
     ho_entry_point ho = 4096 \<and> mem' 4097 = 7 \<and> mem' 4098 = 0 \<and> mem' 4100 = 5 \<and> ka_graphics_info (ho_arg ho) = GraphicsInfo_new 32 20 40 65536 Bgr \<and>
     mm_collect (mm_into_iter (ka_memory_map_entry (ho_arg ho))) = Some example_memory_map"
proof -
  have hs: "loadable 1 [9, 8, 7] [example_header]" by (simp add: loadable_def header_ok_def example_header_def)
  obtain mem' ho where r: "loader_main example_firmware example_elf_lib example_disassembler (hd example_memory_map) 0 (\<lambda>_. 5) = Some (2, mem', ho)"
    "ho_entry_point ho = 4096" "ka_graphics_info (ho_arg ho) = GraphicsInfo_new 32 20 40 65536 Bgr"
    "mm_collect (mm_into_iter (ka_memory_map_entry (ho_arg ho))) = Some example_memory_map"
    and s: "segment_loaded [9, 8, 7] example_header mem'" and o: "\<forall>a. \<not> in_segment example_header a \<longrightarrow> mem' a = 5"
    using loader_boots_kernel[OF example_firmware_answers, of example_elf_lib example_elf "[]" "[example_header]" 4100 example_disassembler Bgr "hd example_memory_map" "\<lambda>_. 5"]
      hs example_range
    by (auto simp: example_elf_lib_def example_elf_def example_gop_def kernel_pixel_format_def disassembler_ok_def example_disassembler_def example_header_def)
  have "mem' (4096 + 1) = 7" "mem' (4096 + 2) = 0"
    using s[unfolded segment_loaded_def, rule_format, of 1] s[unfolded segment_loaded_def, rule_format, of 2]
    by (simp_all add: example_header_def numeral_2_eq_2)
  moreover have "mem' 4100 = 5" using o by (simp add: in_segment_def example_header_def)
  ultimately show ?thesis using r by auto
qed
section \<open>The heap and the kernel\<close>

definition in_region :: "MemoryDescriptor \<Rightarrow> usize \<Rightarrow> bool" where
  "in_region d x \<longleftrightarrow> md_phys_start d \<le> x \<and> x < md_phys_start d + md_page_count d * 4096"

text \<open>
  A memory map that reports the blocks in use: each of their addresses lies in a region of type \<^verbatim>\<open>LOADER_DATA\<close>, and regions do not overlap.
  \<open>held\<close> are the pages and the pool memory that the loader has got from the firmware, which keeps them over the calls that follow and reports them when the boot services end.
\<close>

definition reports_held :: "MemoryDescriptor list \<Rightarrow> (usize \<times> usize) set \<Rightarrow> bool" where
  "reports_held descs blocks \<longleftrightarrow>
     (\<forall>(a, len) \<in> blocks. \<forall>x. a \<le> x \<and> x < a + len \<longrightarrow> (\<exists>d \<in> set descs. md_ty d = LOADER_DATA \<and> in_region d x)) \<and>
     (\<forall>d \<in> set descs. \<forall>d' \<in> set descs. \<forall>x. in_region d x \<and> in_region d' x \<longrightarrow> d = d')"

definition firmware_tracks :: "'u Uefi \<Rightarrow> ('u \<Rightarrow> (usize \<times> usize) set) \<Rightarrow> bool" where
  "firmware_tracks U held \<longleftrightarrow>
     (\<forall>n u u' m. ue_memory_map U n u = (u', Inr m) \<longrightarrow> held u \<subseteq> held u') \<and>
     (\<forall>u u' hs. ue_gop_handles U u = (u', Inr hs) \<longrightarrow> held u \<subseteq> held u') \<and>
     (\<forall>h u u' g. ue_open_gop U h u = (u', Inr g) \<longrightarrow> held u \<subseteq> held u') \<and>
     (\<forall>a n u u' p. ue_allocate_pages U a LOADER_DATA n u = (u', Inr p) \<longrightarrow> insert (a, n * 4096) (held u) \<subseteq> held u') \<and>
     (\<forall>n u u' p. ue_allocate_pool U n u = (u', Inr p) \<longrightarrow> insert (p, n) (held u) \<subseteq> held u') \<and>
     (\<forall>n u u' m. ue_exit_boot_services U n u = (u', Inr m) \<longrightarrow> reports_held m (held u))"

lemma firmware_tracksD:
  assumes "firmware_tracks U held"
  shows "ue_memory_map U n u = (u', Inr m) \<Longrightarrow> held u \<subseteq> held u'" "ue_gop_handles U u = (u', Inr hs) \<Longrightarrow> held u \<subseteq> held u'"
    "ue_open_gop U h u = (u', Inr g) \<Longrightarrow> held u \<subseteq> held u'" "ue_allocate_pages U a LOADER_DATA n u = (u', Inr p) \<Longrightarrow> insert (a, n * 4096) (held u) \<subseteq> held u'"
    "ue_allocate_pool U n u = (u', Inr p) \<Longrightarrow> insert (p, n) (held u) \<subseteq> held u'" "ue_exit_boot_services U n u = (u', Inr m) \<Longrightarrow> reports_held m (held u)"
  using assms unfolding firmware_tracks_def by meson+

lemma max_by_size_mem: "max_by_size rs = Some r \<Longrightarrow> r \<in> set rs"
  by (cases "rs = []") (use max_by_size_spec[of rs] in auto)

lemma usable_ranges_from:
  assumes "usable_ranges descs = Some rs" "r \<in> set rs"
  shows "\<exists>d \<in> set descs. usable_type (md_ty d) \<and> r = (md_phys_start d, md_phys_start d + md_page_count d * 4096)"
  using assms
proof (induction descs arbitrary: rs)
  case (Cons d descs)
  show ?case
  proof (cases "usable_type (md_ty d)")
    case True
    then obtain rs' where "usable_ranges descs = Some rs'" "rs = (md_phys_start d, md_phys_start d + md_page_count d * 4096) # rs'"
      using Cons.prems(1) by (auto simp: bind_eq_Some_conv rust_simps)
    with Cons True show ?thesis by auto
  next
    case False
    with Cons show ?thesis by auto
  qed
qed simp

lemma choose_heap_from:
  assumes "choose_heap descs = Some (s, e)"
  shows "\<exists>d \<in> set descs. usable_type (md_ty d) \<and> s = md_phys_start d \<and> e = md_phys_start d + md_page_count d * 4096"
proof -
  obtain rs where rs: "usable_ranges descs = Some rs" "max_by_size rs = Some (s, e)" using assms by (auto simp: choose_heap_def bind_eq_Some_conv)
  from usable_ranges_from[OF rs(1) max_by_size_mem[OF rs(2)]] show ?thesis by simp
qed

text \<open>A heap taken from such a map meets none of the blocks.\<close>

lemma heap_spares_held:
  assumes "reports_held descs blocks" "choose_heap descs = Some (s, e)" "(a, len) \<in> blocks" "a \<le> x" "x < a + len"
  shows "\<not> (s \<le> x \<and> x < e)"
proof
  assume x: "s \<le> x \<and> x < e"
  from choose_heap_from[OF assms(2)] obtain d where d: "d \<in> set descs" "usable_type (md_ty d)" "in_region d x" using x by (auto simp: in_region_def)
  from assms(1,3,4,5) obtain d' where d': "d' \<in> set descs" "md_ty d' = LOADER_DATA" "in_region d' x" unfolding reports_held_def by blast
  with d assms(1) have "d = d'" unfolding reports_held_def by blast
  with d(2) d'(2) show False by simp
qed

text \<open>Loading changes memory only between the two addresses that were computed.\<close>

lemma calc_range_covers:
  assumes "for_each hs (\<lambda>h (lo, hi). if p_type h = pt then do { let lo = min lo (p_vaddr h); e \<leftarrow> uadd (p_vaddr h) (p_memsz h); Some (lo, max hi e) } else Some (lo, hi)) (lo0, hi0) = Some (lo, hi)"
  shows "lo \<le> lo0 \<and> hi0 \<le> hi \<and> (\<forall>h \<in> set hs. p_type h = pt \<longrightarrow> lo \<le> p_vaddr h \<and> p_vaddr h + p_memsz h \<le> hi)"
  using assms
proof (induction hs arbitrary: lo0 hi0)
  case (Cons h hs)
  show ?case
  proof (cases "p_type h = pt")
    case True
    from Cons.prems True have "for_each hs (\<lambda>h (lo, hi). if p_type h = pt then do { let lo = min lo (p_vaddr h); e \<leftarrow> uadd (p_vaddr h) (p_memsz h); Some (lo, max hi e) } else Some (lo, hi))
      (min lo0 (p_vaddr h), max hi0 (p_vaddr h + p_memsz h)) = Some (lo, hi)" by (auto simp: bind_eq_Some_conv rust_simps)
    from Cons.IH[OF this] show ?thesis by auto
  next
    case False
    with Cons show ?thesis by auto
  qed
qed simp

lemma copy_load_segments_within:
  assumes "copy_load_segments pt hs buf mem = Some mem'" "mem' x \<noteq> mem x"
  shows "\<exists>h \<in> set hs. p_type h = pt \<and> in_segment h x"
proof -
  let ?P = "\<lambda>m. \<forall>x. m x \<noteq> mem x \<longrightarrow> (\<exists>h \<in> set hs. p_type h = pt \<and> in_segment h x)"
  have "?P mem'"
  proof (rule for_each_preserves[OF assms(1)[unfolded copy_load_segments_def]])
    fix h and m m' :: memory
    assume h: "h \<in> set hs" and P: "?P m"
      and m': "(if p_type h = pt then do { bytes \<leftarrow> slice buf (p_offset h) (p_offset h + p_filesz h); let mem = copy_to_mem (p_vaddr h) bytes m;
        remain_bytes \<leftarrow> usub (p_memsz h) (p_filesz h); Some (copy_to_mem (p_vaddr h + p_filesz h) (replicate remain_bytes 0) mem) } else Some m) = Some m'"
    show "?P m'"
    proof (cases "p_type h = pt")
      case True
      with m' have "p_filesz h \<le> p_memsz h" "\<forall>x. m' x \<noteq> m x \<longrightarrow> in_segment h x"
        by (auto simp: bind_eq_Some_conv rust_simps Let_def slice_def copy_to_mem_def in_segment_def split: if_splits)
      with P h True show ?thesis by metis
    qed (use m' P in simp)
  qed simp
  with assms(2) show ?thesis by blast
qed
text \<open>A map that was stored did fit: the first store behind the block would have ended it.\<close>

lemma stores_inside:
  assumes "for_each xs (\<lambda>(i, desc) header. do { slots \<leftarrow> set_idx (mm_slots header) i desc; Some (header\<lparr>mm_slots := slots\<rparr>) }) entry = Some entry'" "(i, d) \<in> set xs"
  shows "i < length (mm_slots entry)"
  using assms by (induction xs arbitrary: entry) (fastforce simp: bind_eq_Some_conv rust_simps)+

lemma store_memory_map_fits:
  assumes "store_memory_map descs entry = Some entry'"
  shows "length descs \<le> length (mm_slots entry)"
proof (cases "descs = []")
  case False
  then have "(length descs - 1, last descs) \<in> set (zip [0..<length descs] descs)"
    by (auto simp: in_set_zip last_conv_nth intro!: exI[of _ "length descs - 1"])
  from stores_inside[OF assms[unfolded store_memory_map_def Let_def] this] show ?thesis by simp
qed simp

text \<open>The held blocks at the end of the boot services.\<close>

lemma leave_boot_services_reports:
  assumes "firmware_tracks U held" "leave_boot_services U junk u = Some (u', ptr, len, block)"
  shows "\<exists>final. mm_collect (mm_into_iter block) = Some final \<and> reports_held final (insert (ptr, len) (held u))"
proof -
  obtain u1 final where f: "len = ue_map_size U u + 1024" "len < usize_limit" "ue_allocate_pool U len u = (u1, Inr ptr)"
    "ue_exit_boot_services U len u1 = (u', Inr final)" "store_memory_map final (uninit_block junk len) = Some block"
    using assms(2) by (auto simp: leave_boot_services_def bind_eq_Some_conv rust_simps)
  have "insert (ptr, len) (held u) \<subseteq> held u1" "reports_held final (held u1)"
    by (rule firmware_tracksD(5)[OF assms(1) f(3)], rule firmware_tracksD(6)[OF assms(1) f(4)])
  then have "reports_held final (insert (ptr, len) (held u))" unfolding reports_held_def by (meson subsetD)
  moreover have "length final \<le> length (mm_slots (uninit_block junk len))" by (rule store_memory_map_fits[OF f(5)])
  then have "mm_collect (mm_into_iter block) = Some final"
    using f(5) new_inplace_eq[of final "uninit_block junk len" "length final"] mm_collect_eq[of "mm_into_iter block"] f(2)
    by (auto simp: store_memory_map_eq mm_into_iter_def uninit_block_def)
  ultimately show ?thesis by blast
qed

text \<open>C14: The kernel's heap never lies over the kernel: for a firmware whose final memory map reports the loader's pages and does not overlap itself, after the loader has reached the jump and the kernel has chosen its heap, no byte
  of memory that loading changed, and no byte of the block with the memory map, which the kernel still reads after its allocator is in use, lies in the heap. So no block that the allocator hands out can overwrite them.\<close>

theorem heap_spares_kernel:
  assumes "firmware_tracks U held" "loader_main U E D junk u mem = Some (u', mem', ho)" "init_heap (ka_memory_map_entry (ho_arg ho)) = Some (a, descs)"
  shows "(\<forall>x. mem' x \<noteq> mem x \<longrightarrow> \<not> (heap_start a \<le> x \<and> x < heap_end a)) \<and>
    (\<forall>x. ho_block_ptr ho \<le> x \<and> x < ho_block_ptr ho + ho_block_len ho \<longrightarrow> \<not> (heap_start a \<le> x \<and> x < heap_end a))"
proof -
  obtain elf hs buf bs u1 u2 p maps u3 g u4 where
    run: "allocate_kernel_pages U E elf u1 = Some (u2, p)" "get_memory_map_iter U bs u2 = Some (u3, maps)" "elf_segments elf = Some hs"
      "copy_load_segments (elf_PT_LOAD E) hs buf mem = Some mem'" "construct_graphics_info U u3 = Some (u4, g)"
      "leave_boot_services U junk u4 = Some (u', ho_block_ptr ho, ho_block_len ho, ka_memory_map_entry (ho_arg ho))"
    using assms(2) by (clarsimp simp: loader_main_def bind_eq_Some_conv)
  obtain lo hi n where rg: "calc_load_address_range (elf_PT_LOAD E) hs = Some (lo, hi)" "n_pages (lo, hi) = Some n" "ue_allocate_pages U lo LOADER_DATA n u1 = (u2, Inr p)"
    using run(1,3) by (auto simp: allocate_kernel_pages_def bind_eq_Some_conv rust_simps)
  obtain u5 hds h gop where gr: "ue_gop_handles U u3 = (u5, Inr hds)" "ue_open_gop U h u5 = (u4, Inr gop)"
    using run(5) by (auto simp: construct_graphics_info_def bind_eq_Some_conv rust_simps)
  have "(lo, n * 4096) \<in> held u2" using firmware_tracksD(4)[OF assms(1) rg(3)] by blast
  moreover have "held u2 \<subseteq> held u3" by (rule firmware_tracksD(1)[OF assms(1)]) (use run(2) in \<open>simp add: get_memory_map_iter_def rust_simps\<close>)
  ultimately have held: "(lo, n * 4096) \<in> held u4" using firmware_tracksD(2)[OF assms(1) gr(1)] firmware_tracksD(3)[OF assms(1) gr(2)] by blast
  obtain final where final: "mm_collect (mm_into_iter (ka_memory_map_entry (ho_arg ho))) = Some final"
    "reports_held final (insert (ho_block_ptr ho, ho_block_len ho) (held u4))" using leave_boot_services_reports[OF assms(1) run(6)] by blast
  have heap: "choose_heap final = Some (heap_start a, heap_end a)"
    using assms(3) final(1) by (auto simp: init_heap_def Let_def bind_eq_Some_conv init_allocator_def bump_init_def bump_new_def)
  have "lo \<le> x \<and> x < lo + n * 4096" if "mem' x \<noteq> mem x" for x
  proof -
    note changed = that
    obtain h where h: "h \<in> set hs" "p_type h = elf_PT_LOAD E" "in_segment h x" using copy_load_segments_within[OF run(4) changed] by blast
    with calc_range_covers[OF rg(1)[unfolded calc_load_address_range_def]] have "lo \<le> x \<and> x < hi" by (auto simp: in_segment_def)
    with n_pages_cover[OF rg(2)] show ?thesis by simp
  qed
  with heap_spares_held[OF final(2) heap] held show ?thesis by blast
qed
lemma example_firmware_tracks: "firmware_tracks example_firmware (\<lambda>u. insert (4096, 4096) {(8192, n) | n. n \<le> 4096})"
proof -
  have regions: "(\<exists>d \<in> set example_memory_map. md_ty d = LOADER_DATA \<and> in_region d x) \<longleftrightarrow> 4096 \<le> x \<and> x < 12288"
    "(\<forall>d \<in> set example_memory_map. \<forall>d' \<in> set example_memory_map. in_region d x \<and> in_region d' x \<longrightarrow> d = d')" for x
    by (auto simp: example_memory_map_def in_region_def)
  then have "reports_held example_memory_map (insert (4096, 4096) {(8192, n) | n. n \<le> 4096})" unfolding reports_held_def by auto
  then show ?thesis by (auto simp: firmware_tracks_def example_firmware_def split: if_splits)
qed

theorem heap_spares_kernel_witness:
  "\<exists>mem' ho a. loader_main example_firmware example_elf_lib example_disassembler (hd example_memory_map) 0 (\<lambda>_. 5) = Some (2, mem', ho) \<and>
     init_heap (ka_memory_map_entry (ho_arg ho)) = Some (a, example_memory_map) \<and> mem' 4097 = 7 \<and> \<not> (heap_start a \<le> 4097 \<and> 4097 < heap_end a) \<and>
     ho_block_ptr ho = 8192 \<and> \<not> (heap_start a \<le> 8192 \<and> 8192 < heap_end a)"
proof -
  have hs: "loadable 1 [9, 8, 7] [example_header]" by (simp add: loadable_def header_ok_def example_header_def)
  obtain mem' ho where run: "loader_main example_firmware example_elf_lib example_disassembler (hd example_memory_map) 0 (\<lambda>_. 5) = Some (2, mem', ho)"
    "mm_collect (mm_into_iter (ka_memory_map_entry (ho_arg ho))) = Some example_memory_map" "1024 \<le> ho_block_len ho"
    and s: "segment_loaded [9, 8, 7] example_header mem'"
    and pool: "\<exists>v v'. ue_allocate_pool example_firmware (ho_block_len ho) v = (v', Inr (ho_block_ptr ho))"
    using loader_main_runs[OF example_firmware_answers, of example_elf_lib example_elf "[]" "[example_header]" 4100 example_disassembler Bgr "hd example_memory_map" "\<lambda>_. 5"]
      hs example_range
    by (auto simp: example_elf_lib_def example_elf_def example_gop_def kernel_pixel_format_def disassembler_ok_def example_disassembler_def example_header_def)
  have "mem' (4096 + 1) = 7" using s[unfolded segment_loaded_def, rule_format, of 1] by (simp add: example_header_def numeral_2_eq_2)
  then have m: "mem' 4097 = 7" by simp
  have p: "ho_block_ptr ho = 8192" using pool by (auto simp: example_firmware_def split: if_splits)
  obtain a where a: "init_heap (ka_memory_map_entry (ho_arg ho)) = Some (a, example_memory_map)"
    using run(2) by (simp add: init_heap_def choose_heap_def example_memory_map_def)
  from heap_spares_kernel[OF example_firmware_tracks run(1) a] m p run(3) have "\<not> (heap_start a \<le> 4097 \<and> 4097 < heap_end a)" "\<not> (heap_start a \<le> 8192 \<and> 8192 < heap_end a)"
    by auto
  with run m p a show ?thesis by blast
qed

end
