(* ===== verification/Xhci_Rings.thy ===== *)
theory Xhci_Rings
  imports Bump_Allocator
begin

text \<open>
  The producer side of the xHCI rings: \<^verbatim>\<open>kernel/src/xhci/trb.rs\<close>, \<^verbatim>\<open>command_ring.rs\<close> and
  \<^verbatim>\<open>transfer_ring.rs\<close>. A TRB is its four 32-bit words.

  What the crates \<^verbatim>\<open>xhci\<close> and \<^verbatim>\<open>bit_field\<close> do with a TRB is the parameter \<open>TrbLib\<close>: reading and setting the
  cycle bit, building a link TRB and a normal TRB. The hypothesis \<open>trb_lib_ok\<close> says what their documentation
  promises: the cycle bit is bit 0 of the last word and setting it changes nothing else.
\<close>

section \<open>TRBs\<close>

type_synonym trb = "u32 list"

record TrbLib =
  trb_cycle_bit :: "trb \<Rightarrow> bool"
  trb_with_cycle_bit :: "bool \<Rightarrow> trb \<Rightarrow> trb"
  trb_link :: "u64 \<Rightarrow> trb"
  trb_is_link :: "trb \<Rightarrow> bool"
  trb_normal :: "u64 \<Rightarrow> u32 \<Rightarrow> trb"
  trb_as_normal :: "trb \<Rightarrow> (u64 \<times> u32) option"
  u32_set_bit_0 :: "bool \<Rightarrow> u32 \<Rightarrow> u32"

definition trb_lib_ok :: "TrbLib \<Rightarrow> bool" where
  "trb_lib_ok L \<longleftrightarrow>
     (\<forall>b t. length t = 4 \<longrightarrow> length (trb_with_cycle_bit L b t) = 4 \<and> trb_cycle_bit L (trb_with_cycle_bit L b t) = b \<and>
        (\<forall>i < 3. trb_with_cycle_bit L b t ! i = t ! i) \<and> trb_is_link L (trb_with_cycle_bit L b t) = trb_is_link L t) \<and>
     (\<forall>b c t. length t = 4 \<longrightarrow> trb_with_cycle_bit L b (trb_with_cycle_bit L c t) = trb_with_cycle_bit L b t) \<and>
     (\<forall>t t'. length t = 4 \<longrightarrow> length t' = 4 \<longrightarrow> t ! 3 = t' ! 3 \<longrightarrow> trb_cycle_bit L t = trb_cycle_bit L t') \<and>
     (\<forall>p. length (trb_link L p) = 4 \<and> trb_is_link L (trb_link L p)) \<and>
     (\<forall>p n. length (trb_normal L p n) = 4 \<and> \<not> trb_is_link L (trb_normal L p n)) \<and>
     (\<forall>b t. length t = 4 \<longrightarrow> t[3 := u32_set_bit_0 L b (t ! 3)] = trb_with_cycle_bit L b t) \<and>
     \<not> trb_cycle_bit L [0, 0, 0, 0] \<and> \<not> trb_is_link L [0, 0, 0, 0]"

definition TrbRaw_toggle_cycle_bit :: "TrbLib \<Rightarrow> trb \<Rightarrow> trb option" where
  "TrbRaw_toggle_cycle_bit L t = do {
     let toggled = (\<not> trb_cycle_bit L t);
     w \<leftarrow> get_idx t 3;
     set_idx t 3 (u32_set_bit_0 L toggled w)
   }"

text \<open>The states of memory during \<^verbatim>\<open>write_in_order\<close>, one after each volatile write.\<close>

fun write_in_order_steps :: "u32 list \<Rightarrow> trb \<Rightarrow> trb list" where
  "write_in_order_steps [] dst = [dst]"
| "write_in_order_steps (src # srcs) dst =
     (case dst of [] \<Rightarrow> [[]] | d # ds \<Rightarrow> dst # map (\<lambda>t. src # t) (write_in_order_steps srcs ds))"

definition write_in_order :: "trb \<Rightarrow> trb \<Rightarrow> trb" where
  "write_in_order dst src = last (write_in_order_steps src dst)"

section \<open>The command ring\<close>

definition PAGE_SIZE :: usize where "PAGE_SIZE = 4096"
definition size_of_TrbRaw :: usize where "size_of_TrbRaw = 16"

record CommandRing =
  cr_trb_buffer :: "trb list Box"
  cr_write_index :: usize
  cr_cycle_bit :: bool

definition CommandRing_new :: "BumpAllocator \<Rightarrow> usize \<Rightarrow> (BumpAllocator \<times> CommandRing) option" where
  "CommandRing_new a buf_size = do {
     (a, r) \<leftarrow> kernel_alloc_array_with_boundary_with_default_else size_of_TrbRaw a buf_size 64 (64 * PAGE_SIZE)
                 (\<lambda>a. Some (a, [0, 0, 0, 0]));
     (case r of
        Inl e \<Rightarrow> None
      | Inr buffer \<Rightarrow> Some (a, \<lparr>cr_trb_buffer = buffer, cr_write_index = 0, cr_cycle_bit = True\<rparr>))
   }"

definition CommandRing_toggle_cycle_bit :: "CommandRing \<Rightarrow> CommandRing" where
  "CommandRing_toggle_cycle_bit r = r\<lparr>cr_cycle_bit := \<not> cr_cycle_bit r\<rparr>"

definition CommandRing_write :: "usize \<Rightarrow> trb \<Rightarrow> CommandRing \<Rightarrow> CommandRing option" where
  "CommandRing_write i t r = do {
     old \<leftarrow> get_idx (box_val (cr_trb_buffer r)) i;
     buffer \<leftarrow> set_idx (box_val (cr_trb_buffer r)) i (write_in_order old t);
     Some (r\<lparr>cr_trb_buffer := (cr_trb_buffer r)\<lparr>box_val := buffer\<rparr>\<rparr>)
   }"

definition CommandRing_push :: "TrbLib \<Rightarrow> trb \<Rightarrow> CommandRing \<Rightarrow> (CommandRing \<times> usize) option" where
  "CommandRing_push L cmd r = do {
     let cmd = (if cr_cycle_bit r then trb_with_cycle_bit L True cmd else trb_with_cycle_bit L False cmd);
     r \<leftarrow> CommandRing_write (cr_write_index r) cmd r;
     let trb_ptr = box_ptr (cr_trb_buffer r) + size_of_TrbRaw * cr_write_index r;
     i \<leftarrow> uadd (cr_write_index r) 1;
     let r = r\<lparr>cr_write_index := i\<rparr>;
     n \<leftarrow> usub (length (box_val (cr_trb_buffer r))) 1;
     if cr_write_index r = n then do {
       let link = trb_link L (of_nat (box_ptr (cr_trb_buffer r)));
       let link = (if cr_cycle_bit r then trb_with_cycle_bit L True link else trb_with_cycle_bit L False link);
       r \<leftarrow> CommandRing_write (cr_write_index r) link r;
       Some (CommandRing_toggle_cycle_bit (r\<lparr>cr_write_index := 0\<rparr>), trb_ptr)
     } else Some (r, trb_ptr)
   }"

section \<open>Transfer rings\<close>

record TransferRing =
  tr_trb_buffer :: "trb list Box"
  tr_write_index :: usize
  tr_cycle_bit :: bool
  tr_cycle_count :: usize

definition TransferRing_new :: "BumpAllocator \<Rightarrow> usize \<Rightarrow> (BumpAllocator \<times> TransferRing) option" where
  "TransferRing_new a buf_size = do {
     (a, r) \<leftarrow> kernel_alloc_array_with_boundary_with_default_else size_of_TrbRaw a buf_size 64 (PAGE_SIZE div 4)
                 (\<lambda>a. Some (a, [0, 0, 0, 0]));
     (case r of
        Inl e \<Rightarrow> None
      | Inr buffer \<Rightarrow>
          Some (a, \<lparr>tr_trb_buffer = buffer, tr_write_index = 0, tr_cycle_bit = True, tr_cycle_count = 0\<rparr>))
   }"

text \<open>\<^verbatim>\<open>alloc_new\<close>: a ring in a box of its own; \<open>size_of_ring\<close> is \<^verbatim>\<open>size_of::<Self>()\<close>.\<close>

definition TransferRing_alloc_new ::
  "usize \<Rightarrow> BumpAllocator \<Rightarrow> usize \<Rightarrow> (BumpAllocator \<times> TransferRing Box) option" where
  "TransferRing_alloc_new size_of_ring a buf_size = do {
     (a, r) \<leftarrow> kernel_alloc_with_boundary_with_default_else size_of_ring a 64 PAGE_SIZE (\<lambda>a. TransferRing_new a buf_size);
     (case r of Inl e \<Rightarrow> None | Inr b \<Rightarrow> Some (a, b))
   }"

definition TransferRing_toggle_cycle_bit :: "TransferRing \<Rightarrow> TransferRing" where
  "TransferRing_toggle_cycle_bit r = r\<lparr>tr_cycle_bit := \<not> tr_cycle_bit r\<rparr>"

definition TransferRing_buffer_len :: "TransferRing \<Rightarrow> usize" where
  "TransferRing_buffer_len r = length (box_val (tr_trb_buffer r))"

definition TransferRing_buffer_range :: "TransferRing \<Rightarrow> usize \<times> usize" where
  "TransferRing_buffer_range r =
     (box_ptr (tr_trb_buffer r), box_ptr (tr_trb_buffer r) + size_of_TrbRaw * TransferRing_buffer_len r)"

definition TransferRing_write :: "usize \<Rightarrow> trb \<Rightarrow> TransferRing \<Rightarrow> TransferRing option" where
  "TransferRing_write i t r = do {
     old \<leftarrow> get_idx (box_val (tr_trb_buffer r)) i;
     buffer \<leftarrow> set_idx (box_val (tr_trb_buffer r)) i (write_in_order old t);
     Some (r\<lparr>tr_trb_buffer := (tr_trb_buffer r)\<lparr>box_val := buffer\<rparr>\<rparr>)
   }"

text \<open>The end of the ring, which \<^verbatim>\<open>push\<close> and \<^verbatim>\<open>flip_cycle_bit_at\<close> share word for word.\<close>

definition TransferRing_link :: "TrbLib \<Rightarrow> TransferRing \<Rightarrow> TransferRing option" where
  "TransferRing_link L r = do {
     let link = trb_link L (of_nat (box_ptr (tr_trb_buffer r)));
     let link = (if tr_cycle_bit r then trb_with_cycle_bit L True link else trb_with_cycle_bit L False link);
     r \<leftarrow> TransferRing_write (tr_write_index r) link r;
     Some (TransferRing_toggle_cycle_bit (r\<lparr>tr_write_index := 0\<rparr>))
   }"

definition TransferRing_push :: "TrbLib \<Rightarrow> trb \<Rightarrow> TransferRing \<Rightarrow> (TransferRing \<times> usize) option" where
  "TransferRing_push L cmd r = do {
     let cmd = (if tr_cycle_bit r then trb_with_cycle_bit L True cmd else trb_with_cycle_bit L False cmd);
     r \<leftarrow> TransferRing_write (tr_write_index r) cmd r;
     let trb_ptr = box_ptr (tr_trb_buffer r) + size_of_TrbRaw * tr_write_index r;
     i \<leftarrow> uadd (tr_write_index r) 1;
     let r = r\<lparr>tr_write_index := i\<rparr>;
     n \<leftarrow> usub (length (box_val (tr_trb_buffer r))) 1;
     if tr_write_index r = n then do {
       r \<leftarrow> TransferRing_link L r;
       Some (r, trb_ptr)
     } else Some (r, trb_ptr)
   }"

text \<open>\<^verbatim>\<open>push_with_existing_buf\<close> keeps the buffer of the normal TRB it overwrites; every other kind is \<^verbatim>\<open>todo!()\<close>.
  \<open>set_buf\<close> is \<^verbatim>\<open>set_data_buffer_pointer\<close> followed by \<^verbatim>\<open>set_trb_transfer_length\<close>.\<close>

definition push_with_existing_buf ::
  "TrbLib \<Rightarrow> (u64 \<Rightarrow> u32 \<Rightarrow> trb \<Rightarrow> trb) \<Rightarrow> trb \<Rightarrow> TransferRing \<Rightarrow> (TransferRing \<times> usize) option" where
  "push_with_existing_buf L set_buf cmd r = do {
     old \<leftarrow> get_idx (box_val (tr_trb_buffer r)) (tr_write_index r);
     (p, n) \<leftarrow> trb_as_normal L old;
     TransferRing_push L (set_buf p n cmd) r
   }"

definition fill_with_normal ::
  "TrbLib \<Rightarrow> usize \<Rightarrow> BumpAllocator \<times> TransferRing \<Rightarrow> (BumpAllocator \<times> TransferRing) option" where
  "fill_with_normal L buf_size = (\<lambda>(a, r). do {
     n \<leftarrow> usub (TransferRing_buffer_len r) 1;
     for_each [0..<n] (\<lambda>_ (a, r).
       case from_size_align buf_size PAGE_SIZE of
         Inl e \<Rightarrow> None
       | Inr layout \<Rightarrow> do {
           (a, buf) \<leftarrow> global_alloc bump_alloc a layout;
           (r, _) \<leftarrow> TransferRing_push L (trb_normal L (of_nat buf) (of_nat buf_size)) r;
           Some (a, r)
         }) (a, r)
   })"

definition flip_cycle_bit_at :: "TrbLib \<Rightarrow> u64 \<Rightarrow> bool \<Rightarrow> TransferRing \<Rightarrow> TransferRing option" where
  "flip_cycle_bit_at L trb_pointer prev_cycle_bit r = do {
     let (start, end_ptr) = TransferRing_buffer_range r;
     pos \<leftarrow> (if start \<le> unat trb_pointer \<and> unat trb_pointer < end_ptr then Some (unat trb_pointer - start) else None);
     let write_index = pos div size_of_TrbRaw;
     n \<leftarrow> usub (length (box_val (tr_trb_buffer r))) 1;
     rassert (write_index \<noteq> n);
     let r = r\<lparr>tr_write_index := write_index\<rparr>;
     t \<leftarrow> get_idx (box_val (tr_trb_buffer r)) write_index;
     rassert (trb_cycle_bit L t = prev_cycle_bit);
     t' \<leftarrow> TrbRaw_toggle_cycle_bit L t;
     buffer \<leftarrow> set_idx (box_val (tr_trb_buffer r)) write_index t';
     let r = r\<lparr>tr_trb_buffer := (tr_trb_buffer r)\<lparr>box_val := buffer\<rparr>\<rparr>;
     i \<leftarrow> uadd (tr_write_index r) 1;
     let r = r\<lparr>tr_write_index := i\<rparr>;
     if tr_write_index r = n then do {
       c \<leftarrow> uadd (tr_cycle_count r) 1;
       TransferRing_link L (r\<lparr>tr_cycle_count := c\<rparr>)
     } else Some r
   }"

section \<open>The controller's side\<close>

text \<open>
  The consumer of the xHCI specification: it reads the TRB at its position, owns it when its cycle bit is
  the consumer's cycle state, and follows a link TRB to the start of the ring, toggling that state.
\<close>

type_synonym hw_pos = "nat \<times> bool"

definition hw_read :: "TrbLib \<Rightarrow> trb list \<Rightarrow> hw_pos \<Rightarrow> trb option" where
  "hw_read L buf = (\<lambda>(i, c). if trb_cycle_bit L (buf ! i) = c then Some (buf ! i) else None)"

definition hw_fetch :: "TrbLib \<Rightarrow> trb list \<Rightarrow> hw_pos \<Rightarrow> hw_pos \<times> trb option" where
  "hw_fetch L buf = (\<lambda>(i, c).
     case hw_read L buf (i, c) of
       None \<Rightarrow> ((i, c), None)
     | Some t \<Rightarrow>
         if trb_is_link L t
         then (case hw_read L buf (0, \<not> c) of None \<Rightarrow> ((0, \<not> c), None) | Some t \<Rightarrow> ((1, \<not> c), Some t))
         else ((i + 1, c), Some t))"

text \<open>
  The TRBs \<open>q\<close> are queued between the consumer at \<open>i\<close> (with cycle state \<open>c\<close>) and the producer: the slots
  from \<open>i\<close> on, wrapping around before the link slot, hold them with the expected cycle bit, the slots behind
  them carry the other cycle bit.
\<close>

definition slot :: "nat \<Rightarrow> nat \<Rightarrow> nat \<Rightarrow> nat" where
  "slot m i k = (if i + k < m then i + k else i + k - m)"

definition phase :: "nat \<Rightarrow> nat \<Rightarrow> bool \<Rightarrow> nat \<Rightarrow> bool" where
  "phase m i c k = (if i + k < m then c else \<not> c)"

definition ring_inv :: "TrbLib \<Rightarrow> trb list \<Rightarrow> nat \<Rightarrow> bool \<Rightarrow> nat \<Rightarrow> bool \<Rightarrow> trb list \<Rightarrow> bool" where
  "ring_inv L buf w cy i c q \<longleftrightarrow>
     (let m = length buf - 1 in
      2 \<le> length buf \<and> (\<forall>t \<in> set buf. length t = 4) \<and> i < m \<and> length q < m \<and>
      (\<forall>t \<in> set q. length t = 4 \<and> \<not> trb_is_link L t) \<and>
      w = slot m i (length q) \<and> cy = phase m i c (length q) \<and>
      (\<forall>k < length q. buf ! slot m i k = trb_with_cycle_bit L (phase m i c k) (q ! k)) \<and>
      (\<forall>k < m. length q \<le> k \<longrightarrow> trb_cycle_bit L (buf ! slot m i k) = (\<not> phase m i c k)) \<and>
      (if m \<le> i + length q then trb_is_link L (buf ! m) \<and> trb_cycle_bit L (buf ! m) = c
       else trb_cycle_bit L (buf ! m) = (\<not> c)))"

definition ring_rel :: "TrbLib \<Rightarrow> trb list \<Rightarrow> nat \<Rightarrow> bool \<Rightarrow> hw_pos \<Rightarrow> trb list \<Rightarrow> bool" where
  "ring_rel L buf w cy = (\<lambda>(i, c) q.
     if i = length buf - 1 then trb_is_link L (buf ! i) \<and> ring_inv L buf w cy 0 (\<not> c) q
     else ring_inv L buf w cy i c q)"

lemma slot_less: "i < m \<Longrightarrow> k < m \<Longrightarrow> slot m i k < m"
  by (auto simp: slot_def)

lemma slot_inj: "i < m \<Longrightarrow> k < m \<Longrightarrow> k' < m \<Longrightarrow> slot m i k = slot m i k' \<longleftrightarrow> k = k'"
  by (auto simp: slot_def split: if_splits)

lemma trb_libD:
  assumes "trb_lib_ok L" "length t = 4"
  shows "length (trb_with_cycle_bit L b t) = 4" "trb_cycle_bit L (trb_with_cycle_bit L b t) = b"
    "trb_is_link L (trb_with_cycle_bit L b t) = trb_is_link L t"
  using assms unfolding trb_lib_ok_def by blast+

lemma trb_lib_linkD:
  assumes "trb_lib_ok L"
  shows "length (trb_link L p) = 4" "trb_is_link L (trb_link L p)"
  using assms unfolding trb_lib_ok_def by blast+

lemma write_in_order_eq: "length dst = length src \<Longrightarrow> write_in_order dst src = src"
proof -
  have "write_in_order_steps src dst \<noteq> [] \<and> last (write_in_order_steps src dst) = src" if "length dst = length src"
    using that
  proof (induction src arbitrary: dst)
    case (Cons s src)
    then obtain d ds where "dst = d # ds" "length ds = length src" by (cases dst) auto
    with Cons.IH[of ds] show ?case by (simp add: last_map)
  qed simp
  then show "length dst = length src \<Longrightarrow> write_in_order dst src = src" by (simp add: write_in_order_def)
qed

lemma ring_inv_empty:
  assumes "trb_lib_ok L" "2 \<le> n"
  shows "ring_inv L (replicate n [0, 0, 0, 0]) 0 True 0 True []"
  using assms by (auto simp: ring_inv_def Let_def slot_def phase_def trb_lib_ok_def)

text \<open>What a push does to the buffer.\<close>

definition pushed :: "TrbLib \<Rightarrow> trb list \<Rightarrow> nat \<Rightarrow> bool \<Rightarrow> trb \<Rightarrow> trb list \<Rightarrow> nat \<Rightarrow> bool \<Rightarrow> bool" where
  "pushed L buf w cy t buf' w' cy' \<longleftrightarrow>
     (if w + 1 = length buf - 1
      then (\<exists>link. trb_is_link L link \<and> trb_cycle_bit L link = cy \<and> length link = 4 \<and>
              buf' = buf[w := trb_with_cycle_bit L cy t, length buf - 1 := link]) \<and> w' = 0 \<and> cy' = (\<not> cy)
      else buf' = buf[w := trb_with_cycle_bit L cy t] \<and> w' = w + 1 \<and> cy' = cy)"

lemma ring_inv_push:
  assumes "trb_lib_ok L" "ring_inv L buf w cy i c q" "pushed L buf w cy t buf' w' cy'"
    and "length t = 4" "\<not> trb_is_link L t" "length q + 1 < length buf - 1"
  shows "ring_inv L buf' w' cy' i c (q @ [t])"
proof -
  let ?m = "length buf - 1" and ?n = "length q"
  have inv: "2 \<le> length buf" "\<forall>t \<in> set buf. length t = 4" "i < ?m" "?n < ?m" "\<forall>t \<in> set q. length t = 4 \<and> \<not> trb_is_link L t"
    "w = slot ?m i ?n" "cy = phase ?m i c ?n"
    "\<And>k. k < ?n \<Longrightarrow> buf ! slot ?m i k = trb_with_cycle_bit L (phase ?m i c k) (q ! k)"
    "\<And>k. k < ?m \<Longrightarrow> ?n \<le> k \<Longrightarrow> trb_cycle_bit L (buf ! slot ?m i k) = (\<not> phase ?m i c k)"
    "if ?m \<le> i + ?n then trb_is_link L (buf ! ?m) \<and> trb_cycle_bit L (buf ! ?m) = c else trb_cycle_bit L (buf ! ?m) = (\<not> c)"
    using assms(2) unfolding ring_inv_def Let_def by blast+
  note lib = trb_libD[OF assms(1,4)]
  have w: "w < ?m" using inv(3,4,6) slot_less by simp
  have full: "w + 1 = ?m \<longleftrightarrow> i + ?n + 1 = ?m" using inv(3,4,6) assms(6) by (auto simp: slot_def split: if_splits)
  have buf': "length buf' = length buf" "\<forall>t \<in> set buf'. length t = 4"
    "\<And>j. j < ?m \<Longrightarrow> buf' ! j = (if j = w then trb_with_cycle_bit L cy t else buf ! j)"
    using assms(3) inv(1,2) w lib(1)
    by (auto simp: pushed_def nth_list_update split: if_splits dest!: set_update_subset_insert[THEN subsetD])
  have "buf' ! ?m = buf ! ?m" if "w + 1 \<noteq> ?m" using assms(3) that w by (simp add: pushed_def)
  moreover have "trb_is_link L (buf' ! ?m) \<and> trb_cycle_bit L (buf' ! ?m) = c" if "w + 1 = ?m"
    using assms(3) that inv(1,7) full by (auto simp: pushed_def phase_def)
  ultimately have link: "if ?m \<le> i + (?n + 1) then trb_is_link L (buf' ! ?m) \<and> trb_cycle_bit L (buf' ! ?m) = c
      else trb_cycle_bit L (buf' ! ?m) = (\<not> c)"
    using inv(10) full by (auto split: if_splits)
  have slots: "buf' ! slot ?m i k = trb_with_cycle_bit L (phase ?m i c k) ((q @ [t]) ! k)" if "k < ?n + 1" for k
    using that inv(3,4,6,7,8) buf'(3)[of "slot ?m i k"] slot_less[of i ?m k] slot_inj[of i ?m k ?n] assms(6)
    by (auto simp: nth_append)
  have rest: "trb_cycle_bit L (buf' ! slot ?m i k) = (\<not> phase ?m i c k)" if "k < ?m" "?n + 1 \<le> k" for k
    using that inv(3,4,6,9) buf'(3)[of "slot ?m i k"] slot_less[of i ?m k] slot_inj[of i ?m k ?n] by auto
  have "w' = slot ?m i (?n + 1)" "cy' = phase ?m i c (?n + 1)"
    using assms(3,6) full inv(3,4,6,7) by (auto simp: pushed_def slot_def phase_def split: if_splits)
  then show ?thesis
    using inv(1,3,5) assms(4-6) buf'(1,2) slots rest link unfolding ring_inv_def Let_def by auto
qed

lemma ring_inv_fetch:
  assumes "trb_lib_ok L" "ring_inv L buf w cy i c (t # q)"
  shows "hw_read L buf (i, c) = Some (trb_with_cycle_bit L c t)" "\<not> trb_is_link L (trb_with_cycle_bit L c t)"
    "ring_rel L buf w cy (i + 1, c) q"
proof -
  let ?m = "length buf - 1" and ?n = "length q"
  have inv: "2 \<le> length buf" "\<forall>t \<in> set buf. length t = 4" "i < ?m" "?n + 1 < ?m" "length t = 4" "\<not> trb_is_link L t"
    "\<forall>t \<in> set q. length t = 4 \<and> \<not> trb_is_link L t" "w = slot ?m i (?n + 1)" "cy = phase ?m i c (?n + 1)"
    "\<And>k. k < ?n + 1 \<Longrightarrow> buf ! slot ?m i k = trb_with_cycle_bit L (phase ?m i c k) ((t # q) ! k)"
    "\<And>k. k < ?m \<Longrightarrow> ?n + 1 \<le> k \<Longrightarrow> trb_cycle_bit L (buf ! slot ?m i k) = (\<not> phase ?m i c k)"
    "if ?m \<le> i + (?n + 1) then trb_is_link L (buf ! ?m) \<and> trb_cycle_bit L (buf ! ?m) = c
     else trb_cycle_bit L (buf ! ?m) = (\<not> c)"
    using assms(2) unfolding ring_inv_def Let_def by auto
  note lib = trb_libD[OF assms(1) inv(5)]
  have at: "buf ! i = trb_with_cycle_bit L c t" using inv(10)[of 0] inv(3) by (simp add: slot_def phase_def)
  then show "hw_read L buf (i, c) = Some (trb_with_cycle_bit L c t)" by (simp add: hw_read_def lib)
  show "\<not> trb_is_link L (trb_with_cycle_bit L c t)" using inv(6) lib by simp
  let ?i = "if i + 1 = ?m then 0 else i + 1" and ?c = "if i + 1 = ?m then \<not> c else c"
  have sh: "slot ?m ?i k = slot ?m i (k + 1)" "phase ?m ?i ?c k = phase ?m i c (k + 1)" if "k + 1 < ?m" for k
    using that inv(3) by (auto simp: slot_def phase_def)
  have lst: "slot ?m ?i (?m - 1) = i" "phase ?m ?i ?c (?m - 1) = (\<not> c)"
    using inv(3,4) by (auto simp: slot_def phase_def)
  have slots: "buf ! slot ?m ?i k = trb_with_cycle_bit L (phase ?m ?i ?c k) (q ! k)" if "k < ?n" for k
    using inv(10)[of "k + 1"] that inv(4) sh[of k] by simp
  have rest: "trb_cycle_bit L (buf ! slot ?m ?i k) = (\<not> phase ?m ?i ?c k)" if "k < ?m" "?n \<le> k" for k
  proof (cases "k + 1 < ?m")
    case True
    with inv(11)[of "k + 1"] that sh[of k] show ?thesis by simp
  next
    case False
    then have "k = ?m - 1" using that(1) by simp
    then show ?thesis using lst at lib by simp
  qed
  have link: "if ?m \<le> ?i + ?n then trb_is_link L (buf ! ?m) \<and> trb_cycle_bit L (buf ! ?m) = ?c
      else trb_cycle_bit L (buf ! ?m) = (\<not> ?c)"
    using inv(3,4,12) by (auto split: if_splits)
  have "w = slot ?m ?i ?n" "cy = phase ?m ?i ?c ?n" using sh[of ?n] inv(4,8,9) by auto
  then have "ring_inv L buf w cy ?i ?c q"
    using inv(1-4,7) slots rest link unfolding ring_inv_def Let_def by auto
  moreover have "trb_is_link L (buf ! ?m)" if "i + 1 = ?m" using inv(12) that by (auto split: if_splits)
  ultimately show "ring_rel L buf w cy (i + 1, c) q" by (auto simp: ring_rel_def)
qed

lemma ring_rel_fetch:
  assumes "trb_lib_ok L" "ring_rel L buf w cy h (t # q)"
  shows "\<exists>h' b. hw_fetch L buf h = (h', Some (trb_with_cycle_bit L b t)) \<and> ring_rel L buf w cy h' q"
proof (cases h)
  case (Pair i c)
  show ?thesis
  proof (cases "i = length buf - 1")
    case False
    then have "ring_inv L buf w cy i c (t # q)" using assms(2) Pair by (simp add: ring_rel_def)
    from ring_inv_fetch[OF assms(1) this] Pair show ?thesis by (auto simp: hw_fetch_def)
  next
    case True
    then have inv: "ring_inv L buf w cy 0 (\<not> c) (t # q)" and lk: "trb_is_link L (buf ! i)"
      using assms(2) Pair by (auto simp: ring_rel_def)
    have "trb_cycle_bit L (buf ! i) = c" using inv True by (auto simp: ring_inv_def Let_def)
    then have "hw_read L buf (i, c) = Some (buf ! i)" by (simp add: hw_read_def)
    with lk ring_inv_fetch[OF assms(1) inv] Pair show ?thesis by (auto simp: hw_fetch_def)
  qed
qed

lemma ring_rel_idle:
  assumes "ring_rel L buf w cy h []"
  shows "\<exists>h'. hw_fetch L buf h = (h', None) \<and> ring_rel L buf w cy h' []"
proof (cases h)
  case (Pair i c)
  have none: "hw_read L buf (j, d) = None" if "ring_inv L buf w cy j d []" for j d
  proof -
    from that have "j < length buf - 1" "trb_cycle_bit L (buf ! slot (length buf - 1) j 0) = (\<not> phase (length buf - 1) j d 0)"
      unfolding ring_inv_def Let_def by auto
    then show ?thesis by (simp add: hw_read_def slot_def phase_def)
  qed
  show ?thesis
  proof (cases "i = length buf - 1")
    case False
    with none assms Pair show ?thesis by (simp add: hw_fetch_def ring_rel_def)
  next
    case True
    then have inv: "ring_inv L buf w cy 0 (\<not> c) []" and lk: "trb_is_link L (buf ! i)"
      using assms Pair by (auto simp: ring_rel_def)
    have "trb_cycle_bit L (buf ! i) = c" "0 < length buf - 1" using inv True by (auto simp: ring_inv_def Let_def)
    then have "hw_read L buf (i, c) = Some (buf ! i)" by (simp add: hw_read_def)
    with lk none[OF inv] inv Pair \<open>0 < length buf - 1\<close> show ?thesis by (simp add: hw_fetch_def ring_rel_def)
  qed
qed

lemma ring_rel_push:
  assumes "trb_lib_ok L" "ring_rel L buf w cy h q" "pushed L buf w cy t buf' w' cy'"
    and "length t = 4" "\<not> trb_is_link L t" "length q + 1 < length buf - 1"
  shows "ring_rel L buf' w' cy' h (q @ [t])" and "length buf' = length buf"
proof -
  show len: "length buf' = length buf" using assms(3) by (auto simp: pushed_def split: if_splits)
  obtain i c where h: "h = (i, c)" by (cases h)
  show "ring_rel L buf' w' cy' h (q @ [t])"
  proof (cases "i = length buf - 1")
    case False
    with assms ring_inv_push[OF assms(1) _ assms(3-6)] h len show ?thesis by (simp add: ring_rel_def)
  next
    case True
    then have inv: "ring_inv L buf w cy 0 (\<not> c) q" and lk: "trb_is_link L (buf ! i)"
      using assms(2) h by (auto simp: ring_rel_def)
    have w: "w = length q" using inv assms(6) by (auto simp: ring_inv_def Let_def slot_def)
    then have "buf' ! i = buf ! i" using assms(3,6) True by (auto simp: pushed_def)
    with lk ring_inv_push[OF assms(1) inv assms(3-6)] h True len show ?thesis by (simp add: ring_rel_def)
  qed
qed

section \<open>The interface of a producer\<close>

text \<open>
  The driver and the controller at work on one ring: the driver pushes while fewer TRBs are outstanding than
  the ring holds, the controller fetches. \<open>sent\<close> and \<open>got\<close> are the TRBs pushed and fetched so far.
\<close>

inductive ring_step :: "TrbLib \<Rightarrow> (trb \<Rightarrow> 'r \<Rightarrow> ('r \<times> usize) option) \<Rightarrow> ('r \<Rightarrow> trb list) \<Rightarrow>
    'r \<times> hw_pos \<times> trb list \<times> trb list \<Rightarrow> 'r \<times> hw_pos \<times> trb list \<times> trb list \<Rightarrow> bool"
  for L push buf
where
  ring_push: "push t r = Some (r', p) \<Longrightarrow> length t = 4 \<Longrightarrow> \<not> trb_is_link L t \<Longrightarrow>
     length sent - length got + 1 < length (buf r) - 1 \<Longrightarrow>
     ring_step L push buf (r, h, sent, got) (r', h, sent @ [t], got)"
| ring_fetch: "hw_fetch L (buf r) h = (h', Some t) \<Longrightarrow>
     ring_step L push buf (r, h, sent, got) (r, h', sent, got @ [t])"
| ring_idle: "hw_fetch L (buf r) h = (h', None) \<Longrightarrow>
     ring_step L push buf (r, h, sent, got) (r, h', sent, got)"

inductive_cases ring_stepE: "ring_step L push buf (r, h, sent, got) s'"

text \<open>What was fetched is what was pushed, up to the cycle bit the producer sets.\<close>

definition delivered :: "TrbLib \<Rightarrow> trb list \<Rightarrow> trb list \<Rightarrow> bool" where
  "delivered L sent got \<longleftrightarrow> length got \<le> length sent \<and>
     (\<forall>k < length got. \<exists>b. got ! k = trb_with_cycle_bit L b (sent ! k))"

locale producer_ring =
  fixes L :: TrbLib and push :: "trb \<Rightarrow> 'r \<Rightarrow> ('r \<times> usize) option"
    and buf :: "'r \<Rightarrow> trb list" and widx :: "'r \<Rightarrow> nat" and cyc :: "'r \<Rightarrow> bool"
  assumes push_law: "trb_lib_ok L \<Longrightarrow> length t = 4 \<Longrightarrow> 2 \<le> length (buf r) \<Longrightarrow> length (buf r) < usize_limit \<Longrightarrow>
      \<forall>t \<in> set (buf r). length t = 4 \<Longrightarrow> widx r < length (buf r) - 1 \<Longrightarrow>
      \<exists>r' p. push t r = Some (r', p) \<and> pushed L (buf r) (widx r) (cyc r) t (buf r') (widx r') (cyc r')"
begin

definition run_inv :: "'r \<times> hw_pos \<times> trb list \<times> trb list \<Rightarrow> bool" where
  "run_inv = (\<lambda>(r, h, sent, got). delivered L sent got \<and> length (buf r) < usize_limit \<and>
     ring_rel L (buf r) (widx r) (cyc r) h (drop (length got) sent))"

lemma ring_rel_shape:
  assumes "ring_rel L (buf r) (widx r) (cyc r) h q"
  shows "2 \<le> length (buf r)" "\<forall>t \<in> set (buf r). length t = 4" "widx r < length (buf r) - 1"
  using assms slot_less by (auto simp: ring_rel_def ring_inv_def Let_def split: if_splits)

lemma push_pushed:
  assumes "trb_lib_ok L" "run_inv (r, h, sent, got)" "length t = 4" "push t r = Some (r', p)"
  shows "pushed L (buf r) (widx r) (cyc r) t (buf r') (widx r') (cyc r')"
  using push_law[OF assms(1,3), of r] ring_rel_shape[of r h "drop (length got) sent"] assms(2,4)
  by (auto simp: run_inv_def)

lemma push_rel:
  assumes "trb_lib_ok L" "ring_rel L (buf r) (widx r) (cyc r) h q" "length (buf r) < usize_limit"
    and "length t = 4" "\<not> trb_is_link L t" "length q + 1 < length (buf r) - 1"
  shows "\<exists>r' p. push t r = Some (r', p) \<and> pushed L (buf r) (widx r) (cyc r) t (buf r') (widx r') (cyc r') \<and>
    ring_rel L (buf r') (widx r') (cyc r') h (q @ [t]) \<and> length (buf r') = length (buf r)"
proof -
  from push_law[OF assms(1,4) ring_rel_shape(1)[OF assms(2)] assms(3) ring_rel_shape(2,3)[OF assms(2)]]
  obtain r' p where "push t r = Some (r', p)" and pd: "pushed L (buf r) (widx r) (cyc r) t (buf r') (widx r') (cyc r')" by blast
  with ring_rel_push[OF assms(1,2) pd assms(4-6)] show ?thesis by blast
qed

lemma run_inv_step:
  assumes "trb_lib_ok L" "ring_step L push buf s s'" "run_inv s"
  shows "run_inv s'"
  using assms(2,3)
proof (induction rule: ring_step.induct)
  case (ring_push t r r' p sent got h)
  have pd: "pushed L (buf r) (widx r) (cyc r) t (buf r') (widx r') (cyc r')"
    using push_pushed[OF assms(1) ring_push(5,2,1)] .
  have rel: "ring_rel L (buf r) (widx r) (cyc r) h (drop (length got) sent)" "delivered L sent got" "length (buf r) < usize_limit"
    using ring_push(5) by (auto simp: run_inv_def)
  have "length (drop (length got) sent) + 1 < length (buf r) - 1" using ring_push(4) by simp
  from ring_rel_push[OF assms(1) rel(1) pd ring_push(2,3) this] rel(2,3)
  show ?case by (auto simp: run_inv_def delivered_def nth_append)
next
  case (ring_fetch r h h' t sent got)
  then have rel: "ring_rel L (buf r) (widx r) (cyc r) h (drop (length got) sent)" and del: "delivered L sent got"
    and lim: "length (buf r) < usize_limit" by (auto simp: run_inv_def)
  show ?case
  proof (cases "drop (length got) sent")
    case Nil
    with ring_rel_idle rel ring_fetch(1) show ?thesis by fastforce
  next
    case (Cons x q)
    then have lt: "length got < length sent" by (metis drop_all list.distinct(1) not_le)
    then have x: "length got < length sent" "x = sent ! length got" "q = drop (length (got @ [t])) sent"
      using Cons Cons_nth_drop_Suc[OF lt] by auto
    from ring_rel_fetch[OF assms(1) rel[unfolded Cons]] ring_fetch(1) obtain b where
      "t = trb_with_cycle_bit L b x" "ring_rel L (buf r) (widx r) (cyc r) h' q" by auto
    with x del lim show ?thesis by (auto simp: run_inv_def delivered_def nth_append less_Suc_eq)
  qed
next
  case (ring_idle r h h' sent got)
  then have rel: "ring_rel L (buf r) (widx r) (cyc r) h (drop (length got) sent)" by (auto simp: run_inv_def)
  show ?case
  proof (cases "drop (length got) sent")
    case Nil
    with ring_rel_idle[of L "buf r" "widx r" "cyc r" h] rel ring_idle show ?thesis by (auto simp: run_inv_def)
  next
    case (Cons x q)
    with ring_rel_fetch[OF assms(1), of "buf r" "widx r" "cyc r" h x q] rel ring_idle(1) show ?thesis by auto
  qed
qed

lemma run_inv_run:
  assumes "trb_lib_ok L" "(ring_step L push buf)\<^sup>*\<^sup>* s s'" "run_inv s"
  shows "run_inv s'"
  using assms(2,3) by (induction rule: rtranclp_induct) (auto dest: run_inv_step[OF assms(1)])

lemma run_inv_start:
  assumes "trb_lib_ok L" "buf r = replicate n [0, 0, 0, 0]" "2 \<le> n" "n < usize_limit" "widx r = 0" "cyc r"
  shows "run_inv (r, (0, True), [], [])"
proof -
  have "ring_inv L (replicate n [0, 0, 0, 0]) 0 True 0 True []" by (rule ring_inv_empty[OF assms(1,3)])
  then show ?thesis using assms by (simp add: run_inv_def delivered_def ring_rel_def)
qed

lemma run_fifo:
  assumes "trb_lib_ok L" "buf r = replicate n [0, 0, 0, 0]" "2 \<le> n" "n < usize_limit" "widx r = 0" "cyc r"
    and "(ring_step L push buf)\<^sup>*\<^sup>* (r, (0, True), [], []) (r', h, sent, got)"
  shows "delivered L sent got \<and>
    (if length got < length sent then \<exists>h' b. hw_fetch L (buf r') h = (h', Some (trb_with_cycle_bit L b (sent ! length got)))
     else \<exists>h'. hw_fetch L (buf r') h = (h', None))"
proof -
  have inv: "run_inv (r', h, sent, got)"
    using run_inv_run[OF assms(1,7) run_inv_start[OF assms(1-6)]] .
  then have rel: "ring_rel L (buf r') (widx r') (cyc r') h (drop (length got) sent)" and "delivered L sent got"
    by (auto simp: run_inv_def)
  moreover have "\<exists>h' b. hw_fetch L (buf r') h = (h', Some (trb_with_cycle_bit L b (sent ! length got)))"
    if "length got < length sent"
    using ring_rel_fetch[OF assms(1) rel[unfolded Cons_nth_drop_Suc[OF that, symmetric]]] by blast
  moreover have "\<exists>h'. hw_fetch L (buf r') h = (h', None)" if "\<not> length got < length sent"
    using ring_rel_idle[of L "buf r'" "widx r'" "cyc r'" h] rel that by auto
  ultimately show ?thesis by simp
qed

end

lemma CommandRing_write_eq:
  assumes "i < length (box_val (cr_trb_buffer r))" "length (box_val (cr_trb_buffer r) ! i) = length t"
  shows "CommandRing_write i t r =
    Some (r\<lparr>cr_trb_buffer := (cr_trb_buffer r)\<lparr>box_val := (box_val (cr_trb_buffer r))[i := t]\<rparr>\<rparr>)"
  using assms by (simp add: CommandRing_write_def write_in_order_eq)

lemma TransferRing_write_eq:
  assumes "i < length (box_val (tr_trb_buffer r))" "length (box_val (tr_trb_buffer r) ! i) = length t"
  shows "TransferRing_write i t r =
    Some (r\<lparr>tr_trb_buffer := (tr_trb_buffer r)\<lparr>box_val := (box_val (tr_trb_buffer r))[i := t]\<rparr>\<rparr>)"
  using assms by (simp add: TransferRing_write_def write_in_order_eq)

lemma TransferRing_link_eq:
  assumes "trb_lib_ok L" "tr_write_index r < length (box_val (tr_trb_buffer r))"
    and "length (box_val (tr_trb_buffer r) ! tr_write_index r) = 4"
  shows "\<exists>link. trb_is_link L link \<and> trb_cycle_bit L link = tr_cycle_bit r \<and> length link = 4 \<and>
    TransferRing_link L r = Some (r\<lparr>tr_trb_buffer := (tr_trb_buffer r)\<lparr>box_val :=
      (box_val (tr_trb_buffer r))[tr_write_index r := link]\<rparr>, tr_write_index := 0, tr_cycle_bit := \<not> tr_cycle_bit r\<rparr>)"
proof -
  let ?link = "trb_with_cycle_bit L (tr_cycle_bit r) (trb_link L (of_nat (box_ptr (tr_trb_buffer r))))"
  note lk = trb_lib_linkD[OF assms(1), of "of_nat (box_ptr (tr_trb_buffer r))"]
  note lib = trb_libD[OF assms(1) lk(1)]
  have "TransferRing_link L r = Some (r\<lparr>tr_trb_buffer := (tr_trb_buffer r)\<lparr>box_val :=
      (box_val (tr_trb_buffer r))[tr_write_index r := ?link]\<rparr>, tr_write_index := 0, tr_cycle_bit := \<not> tr_cycle_bit r\<rparr>)"
    using assms(2,3) lib(1) lk(1)
    by (cases "tr_cycle_bit r") (simp_all add: TransferRing_link_def TransferRing_write_eq TransferRing_toggle_cycle_bit_def)
  with lk lib show ?thesis by blast
qed

interpretation command_ring: producer_ring L "CommandRing_push L" "\<lambda>r. box_val (cr_trb_buffer r)" cr_write_index cr_cycle_bit
  for L
proof
  fix t :: trb and r :: CommandRing
  let ?b = "box_val (cr_trb_buffer r)" and ?w = "cr_write_index r" and ?t = "trb_with_cycle_bit L (cr_cycle_bit r) t"
  assume L: "trb_lib_ok L" "length t = 4" and shape: "2 \<le> length ?b" "length ?b < usize_limit" "\<forall>t \<in> set ?b. length t = 4" "?w < length ?b - 1"
  let ?link = "trb_with_cycle_bit L (cr_cycle_bit r) (trb_link L (of_nat (box_ptr (cr_trb_buffer r))))"
  note lk = trb_lib_linkD[OF L(1), of "of_nat (box_ptr (cr_trb_buffer r))"]
  note lib = trb_libD[OF L] and llib = trb_libD[OF L(1) lk(1)]
  have len: "length (?b ! ?w) = 4" "length (?b ! (length ?b - 1)) = 4" using shape by auto
  have t: "(if cr_cycle_bit r then trb_with_cycle_bit L True t else trb_with_cycle_bit L False t) = ?t" by simp
  show "\<exists>r' p. CommandRing_push L t r = Some (r', p) \<and>
      pushed L ?b ?w (cr_cycle_bit r) t (box_val (cr_trb_buffer r')) (cr_write_index r') (cr_cycle_bit r')"
  proof (cases "?w + 1 = length ?b - 1")
    case False
    then show ?thesis
      using shape len lib unfolding CommandRing_push_def t
      by (simp add: CommandRing_write_eq pushed_def)
  next
    case True
    then have "length (?b[?w := ?t] ! (?w + 1)) = 4" using len(2) shape by simp
    then show ?thesis
      using True shape len lib llib lk unfolding CommandRing_push_def t
      by (cases "cr_cycle_bit r")
        (auto simp: CommandRing_write_eq pushed_def CommandRing_toggle_cycle_bit_def Let_def intro!: exI[of _ ?link])
  qed
qed

interpretation transfer_ring: producer_ring L "TransferRing_push L" "\<lambda>r. box_val (tr_trb_buffer r)" tr_write_index tr_cycle_bit
  for L
proof
  fix t :: trb and r :: TransferRing
  let ?b = "box_val (tr_trb_buffer r)" and ?w = "tr_write_index r" and ?t = "trb_with_cycle_bit L (tr_cycle_bit r) t"
  assume L: "trb_lib_ok L" "length t = 4" and shape: "2 \<le> length ?b" "length ?b < usize_limit" "\<forall>t \<in> set ?b. length t = 4" "?w < length ?b - 1"
  note lib = trb_libD[OF L]
  have len: "length (?b ! ?w) = 4" "length (?b ! (length ?b - 1)) = 4" using shape by auto
  have t: "(if tr_cycle_bit r then trb_with_cycle_bit L True t else trb_with_cycle_bit L False t) = ?t" by simp
  let ?r = "r\<lparr>tr_trb_buffer := (tr_trb_buffer r)\<lparr>box_val := ?b[?w := ?t]\<rparr>, tr_write_index := ?w + 1\<rparr>"
  show "\<exists>r' p. TransferRing_push L t r = Some (r', p) \<and>
      pushed L ?b ?w (tr_cycle_bit r) t (box_val (tr_trb_buffer r')) (tr_write_index r') (tr_cycle_bit r')"
  proof (cases "?w + 1 = length ?b - 1")
    case False
    then show ?thesis
      using shape len lib unfolding TransferRing_push_def t
      by (simp add: TransferRing_write_eq pushed_def)
  next
    case True
    have "tr_write_index ?r < length (box_val (tr_trb_buffer ?r))"
      "length (box_val (tr_trb_buffer ?r) ! tr_write_index ?r) = 4"
      using True len(2) shape by auto
    from TransferRing_link_eq[OF L(1) this] obtain link where
      "trb_is_link L link" "trb_cycle_bit L link = tr_cycle_bit r" "length link = 4"
      "TransferRing_link L ?r = Some (?r\<lparr>tr_trb_buffer := (tr_trb_buffer ?r)\<lparr>box_val :=
         ?b[?w := ?t, ?w + 1 := link]\<rparr>, tr_write_index := 0, tr_cycle_bit := \<not> tr_cycle_bit r\<rparr>)"
      by (simp, blast)
    then show ?thesis
      using True shape len lib unfolding TransferRing_push_def t
      by (auto simp: TransferRing_write_eq pushed_def)
  qed
qed

section \<open>Properties\<close>

definition example_trb_lib :: TrbLib where
  "example_trb_lib = \<lparr>trb_cycle_bit = (\<lambda>t. bit (t ! 3) 0),
     trb_with_cycle_bit = (\<lambda>b t. t[3 := (if b then set_bit 0 (t ! 3) else unset_bit 0 (t ! 3))]),
     trb_link = (\<lambda>p. [of_nat (unat p), of_nat (unat p div 2 ^ 32), 0, 0x1802]),
     trb_is_link = (\<lambda>t. drop_bit 10 (t ! 3) AND 0x3f = 6),
     trb_normal = (\<lambda>p n. [of_nat (unat p), of_nat (unat p div 2 ^ 32), n, 0x424]),
     trb_as_normal = (\<lambda>t. None),
     u32_set_bit_0 = (\<lambda>b w. if b then set_bit 0 w else unset_bit 0 w)\<rparr>"

lemma drop_bit_set_bit_0: "0 < n \<Longrightarrow> drop_bit n (set_bit 0 (w :: u32)) = drop_bit n w"
  "0 < n \<Longrightarrow> drop_bit n (unset_bit 0 (w :: u32)) = drop_bit n w"
  by (rule bit_word_eqI; auto simp: bit_simps)+

lemma set_unset_bit_0:
  "set_bit 0 (unset_bit 0 (w :: u32)) = set_bit 0 w" "set_bit 0 (set_bit 0 w) = set_bit 0 w"
  "unset_bit 0 (set_bit 0 w) = unset_bit 0 w" "unset_bit 0 (unset_bit 0 w) = unset_bit 0 w"
  by (rule bit_word_eqI; auto simp: bit_simps)+

lemma example_trb_lib_ok: "trb_lib_ok example_trb_lib"
proof -
  have "drop_bit 10 (0x1802 :: u32) AND 0x3f = 6" "drop_bit 10 (0x424 :: u32) AND 0x3f \<noteq> 6" by code_simp+
  then show ?thesis
    unfolding trb_lib_ok_def example_trb_lib_def
    by (auto simp: drop_bit_set_bit_0 set_unset_bit_0 bit_simps)
qed


definition example_command_ring :: CommandRing where
  "example_command_ring = \<lparr>cr_trb_buffer = \<lparr>box_ptr = 4096, box_val = replicate 4 [0, 0, 0, 0]\<rparr>, cr_write_index = 0, cr_cycle_bit = True\<rparr>"



definition example_transfer_ring :: TransferRing where
  "example_transfer_ring = \<lparr>tr_trb_buffer = \<lparr>box_ptr = 4096, box_val = replicate 3 [0, 0, 0, 0]\<rparr>, tr_write_index = 0,
     tr_cycle_bit = True, tr_cycle_count = 0\<rparr>"


lemma list_4E:
  assumes "length xs = 4"
  obtains a b c d where "xs = [a, b, c, d]"
proof -
  have "xs = [xs ! 0, xs ! 1, xs ! 2, xs ! 3]"
    by (rule nth_equalityI) (auto simp: assms less_Suc_eq numeral_eq_Suc)
  then show ?thesis by (rule that)
qed

text \<open>The controller never sees a half-written TRB as its own: in every intermediate state of
  \<open>write_in_order\<close> the TRB still has its old cycle bit, and the last state is the new TRB.\<close>

theorem write_in_order_cycle_last:
  assumes "trb_lib_ok L" "length dst = 4" "length src = 4"
  shows "(\<forall>t \<in> set (butlast (write_in_order_steps src dst)). trb_cycle_bit L t = trb_cycle_bit L dst) \<and>
         write_in_order dst src = src"
proof -
  obtain a b c d where dst: "dst = [a, b, c, d]" using assms(2) by (rule list_4E)
  obtain a' b' c' d' where src: "src = [a', b', c', d']" using assms(3) by (rule list_4E)
  have "\<forall>t t'. length t = 4 \<longrightarrow> length t' = 4 \<longrightarrow> t ! 3 = t' ! 3 \<longrightarrow> trb_cycle_bit L t = trb_cycle_bit L t'"
    using assms(1) unfolding trb_lib_ok_def by (elim conjE)
  then have "trb_cycle_bit L [x, y, z, d] = trb_cycle_bit L [a, b, c, d]" for x y z
    by (metis assms(2) dst length_Cons nth_Cons_0 nth_Cons_Suc numeral_3_eq_3)
  then show ?thesis by (simp add: dst src write_in_order_def)
qed

theorem write_in_order_cycle_last_witness:
  "trb_cycle_bit example_trb_lib [1, 2, 3, 0] = trb_cycle_bit example_trb_lib [0, 0, 0, 0] \<and>
   write_in_order [0, 0, 0, 0] [1, 2, 3, 0x5c01] = [1, 2, 3, 0x5c01]"
  using write_in_order_cycle_last[OF example_trb_lib_ok, of "[0, 0, 0, 0]" "[1, 2, 3, 0x5c01]"] by simp

text \<open>A new transfer ring of at most 64 TRBs is placed in a fresh 64-byte aligned block that does not cross a
  1024-byte boundary, all its TRBs are zero (so that the controller owns none), and the driver's cycle
  state is set.\<close>

theorem transfer_ring_new_placed:
  assumes "bump_holds a live" "n \<le> 64" "TransferRing_new a n = Some (a', r)"
  shows "64 dvd box_ptr (tr_trb_buffer r) \<and> within_boundary 1024 (box_ptr (tr_trb_buffer r)) (n * 16) \<and>
         box_val (tr_trb_buffer r) = replicate n [0, 0, 0, 0] \<and> tr_write_index r = 0 \<and> tr_cycle_bit r \<and>
         bump_holds a' ((box_ptr (tr_trb_buffer r), n * 16) # live)"
proof -
  have p2: "is_power_of_two 1024" by code_simp
  from assms(3) obtain a1 x where x: "kernel_alloc_array_with_boundary_with_default_else 16 a n 64 1024
      (\<lambda>a. Some (a, [0, 0, 0, 0])) = Some (a1, x)"
    and rest: "(case x of Inl e \<Rightarrow> None | Inr buffer \<Rightarrow>
      Some (a1, \<lparr>tr_trb_buffer = buffer, tr_write_index = 0, tr_cycle_bit = True, tr_cycle_count = 0\<rparr>)) = Some (a', r)"
    unfolding TransferRing_new_def size_of_TrbRaw_def PAGE_SIZE_def by (auto simp: bind_eq_Some_conv)
  from rest obtain b where "x = Inr b" "a1 = a'"
    and r: "r = \<lparr>tr_trb_buffer = b, tr_write_index = 0, tr_cycle_bit = True, tr_cycle_count = 0\<rparr>"
    by (cases x) auto
  with x have al: "kernel_alloc_array_with_boundary_with_default_else 16 a n 64 1024
      (\<lambda>a. Some (a, [0, 0, 0, 0])) = Some (a', Inr b)" by simp
  have "1024 = 0 \<or> is_power_of_two 1024 \<and> n * 16 \<le> 1024" using p2 assms(2) by simp
  from kernel_alloc_array_spec[OF assms(1) this al] r show ?thesis by simp
qed

lemma example_transfer_ring_new:
  "TransferRing_new (bump_init bump_new 4096 65536) 3 =
   Some (\<lparr>heap_start = 4096, heap_end = 65536, bump_next = 4144, n_allocations = 1\<rparr>, example_transfer_ring)"
  by code_simp

theorem transfer_ring_new_placed_witness:
  "64 dvd box_ptr (tr_trb_buffer example_transfer_ring) \<and>
   within_boundary 1024 (box_ptr (tr_trb_buffer example_transfer_ring)) (3 * 16) \<and>
   box_val (tr_trb_buffer example_transfer_ring) = replicate 3 [0, 0, 0, 0] \<and>
   tr_write_index example_transfer_ring = 0 \<and> tr_cycle_bit example_transfer_ring \<and>
   bump_holds \<lparr>heap_start = 4096, heap_end = 65536, bump_next = 4144, n_allocations = 1\<rparr>
     [(box_ptr (tr_trb_buffer example_transfer_ring), 3 * 16)]"
proof (rule transfer_ring_new_placed[OF _ _ example_transfer_ring_new])
  show "bump_holds (bump_init bump_new 4096 65536) []" by (rule bump_init_holds) simp_all
qed simp

end
