(* ===== verification/Bit_Field.thy ===== *)
theory Bit_Field
  imports Rust_Prelude
begin

text \<open>
  The crate \<^verbatim>\<open>bit_field\<close>, which the drivers use to read and write the fields of registers and
  descriptors, is not part of the repository: it is the parameter \<open>BitField\<close>, with the documented behaviour of
  its methods as the hypothesis \<open>bit_field_ok\<close>. A range that is empty or runs past the width makes
  the methods panic, and so does a value that does not fit the range; the model's clients write that check
  out (\<open>set_bits_checked\<close>).
\<close>

record 'w BitField =
  bf_get_bit :: "nat \<Rightarrow> 'w \<Rightarrow> bool"
  bf_set_bit :: "nat \<Rightarrow> bool \<Rightarrow> 'w \<Rightarrow> 'w"
  bf_get_bits :: "nat \<Rightarrow> nat \<Rightarrow> 'w \<Rightarrow> 'w"
  bf_set_bits :: "nat \<Rightarrow> nat \<Rightarrow> 'w \<Rightarrow> 'w \<Rightarrow> 'w"

definition bit_field_ok :: "'l::len word BitField \<Rightarrow> bool" where
  "bit_field_ok B \<longleftrightarrow>
     (\<forall>n w. n < LENGTH('l) \<longrightarrow> bf_get_bit B n w = bit w n) \<and>
     (\<forall>n b w. n < LENGTH('l) \<longrightarrow> (\<forall>k. bit (bf_set_bit B n b w) k = (if k = n then b else bit w k))) \<and>
     (\<forall>lo hi w. lo < hi \<and> hi \<le> LENGTH('l) \<longrightarrow> bf_get_bits B lo hi w = take_bit (hi - lo) (drop_bit lo w)) \<and>
     (\<forall>lo hi v w. lo < hi \<and> hi \<le> LENGTH('l) \<and> take_bit (hi - lo) v = v \<longrightarrow>
        (\<forall>k. bit (bf_set_bits B lo hi v w) k = (if lo \<le> k \<and> k < hi then bit v (k - lo) else bit w k)))"

text \<open>\<^verbatim>\<open>set_bits\<close> asserts that the value fits the range.\<close>

definition set_bits_checked :: "'l::len word BitField \<Rightarrow> nat \<Rightarrow> nat \<Rightarrow> 'l word \<Rightarrow> 'l word \<Rightarrow> 'l word option" where
  "set_bits_checked B lo hi v w = (if take_bit (hi - lo) v = v then Some (bf_set_bits B lo hi v w) else None)"

lemma bit_fieldD:
  fixes B :: "'l::len word BitField"
  assumes "bit_field_ok B"
  shows "n < LENGTH('l) \<Longrightarrow> bf_get_bit B n w = bit w n"
    and "n < LENGTH('l) \<Longrightarrow> bit (bf_set_bit B n b w) k = (if k = n then b else bit w k)"
    and "lo < hi \<Longrightarrow> hi \<le> LENGTH('l) \<Longrightarrow> bf_get_bits B lo hi w = take_bit (hi - lo) (drop_bit lo w)"
    and "lo < hi \<Longrightarrow> hi \<le> LENGTH('l) \<Longrightarrow> take_bit (hi - lo) v = v \<Longrightarrow>
      bit (bf_set_bits B lo hi v w) k = (if lo \<le> k \<and> k < hi then bit v (k - lo) else bit w k)"
  using assms unfolding bit_field_ok_def by simp_all

lemma bit_take_bit_same: "take_bit n (v :: 'l::len word) = v \<Longrightarrow> n \<le> k \<Longrightarrow> \<not> bit v k"
  by (metis bit_take_bit_iff linorder_not_less)

lemma take_bit_small:
  fixes w :: "'l::len word"
  assumes "unat w < 2 ^ n"
  shows "take_bit n w = w"
  using assms by (simp add: word_unat_eq_iff unsigned_take_bit_eq take_bit_nat_eq_self)

lemma bit_small:
  fixes w :: "'l::len word"
  assumes "unat w < 2 ^ n" "n \<le> k"
  shows "\<not> bit w k"
  using bit_take_bit_same[OF take_bit_small[OF assms(1)] assms(2)] .

text \<open>A field read back is the value written, and the fields outside the range are unchanged.\<close>

lemma get_bits_set_bits:
  fixes B :: "'l::len word BitField"
  assumes "bit_field_ok B" "lo < hi" "hi \<le> LENGTH('l)" "take_bit (hi - lo) v = v"
  shows "bf_get_bits B lo hi (bf_set_bits B lo hi v w) = v"
proof (rule bit_word_eqI)
  fix k
  assume "k < LENGTH('l)"
  show "bit (bf_get_bits B lo hi (bf_set_bits B lo hi v w)) k = bit v k"
    using assms(2,3) bit_take_bit_same[OF assms(4), of k]
    by (auto simp: bit_fieldD(3)[OF assms(1)] bit_fieldD(4)[OF assms] bit_take_bit_iff bit_drop_bit_eq)
qed

lemma get_bits_set_bits_other:
  fixes B :: "'l::len word BitField"
  assumes "bit_field_ok B" "lo < hi" "hi \<le> LENGTH('l)" "take_bit (hi - lo) v = v"
    and "lo' < hi'" "hi' \<le> LENGTH('l)" "hi' \<le> lo \<or> hi \<le> lo'"
  shows "bf_get_bits B lo' hi' (bf_set_bits B lo hi v w) = bf_get_bits B lo' hi' w"
proof (rule bit_word_eqI)
  fix k
  assume "k < LENGTH('l)"
  show "bit (bf_get_bits B lo' hi' (bf_set_bits B lo hi v w)) k = bit (bf_get_bits B lo' hi' w) k"
    using assms(5-7)
    by (auto simp: bit_fieldD(3)[OF assms(1)] bit_fieldD(4)[OF assms(1-4)] bit_take_bit_iff bit_drop_bit_eq)
qed

section \<open>An instance\<close>

text \<open>The witnesses instantiate the parameter with shifts and masks.\<close>

definition shift_mask_field :: "'l::len word BitField" where
  "shift_mask_field =
     \<lparr>bf_get_bit = (\<lambda>n w. bit w n), bf_set_bit = (\<lambda>n b w. if b then set_bit n w else unset_bit n w),
      bf_get_bits = (\<lambda>lo hi w. take_bit (hi - lo) (drop_bit lo w)),
      bf_set_bits = (\<lambda>lo hi v w. (w AND NOT (push_bit lo (mask (hi - lo)))) OR push_bit lo v)\<rparr>"

lemma shift_mask_field_ok: "bit_field_ok (shift_mask_field :: 'l::len word BitField)"
proof -
  have "\<not> bit v (k - lo)" if "lo < hi" "take_bit (hi - lo) v = v" "\<not> k < hi" for lo hi k and v :: "'l word"
    using bit_take_bit_same[OF that(2), of "k - lo"] that(1,3) by simp
  then show ?thesis
    unfolding bit_field_ok_def shift_mask_field_def by (auto simp: bit_simps dest: bit_imp_le_length)
qed

end
