(* ===== verification/Event_Ring.thy ===== *)
theory Event_Ring
  imports Xhci_Rings Tasks Bit_Field "HOL-Library.Multiset"
begin

text \<open>
  The consumer side of the xHCI rings, \<^verbatim>\<open>kernel/src/xhci/event_ring.rs\<close>: the segment table entry, the event
  ring, and the futures that wait for a transfer event or a command completion.

  The memory of the segment is the value of the ring's box: the controller writes it, the driver
  reads it through raw pointers, and a read outside the segment or off the grid of TRBs is \<open>None\<close>. The parameters are
  the crates: \<open>TrbLib\<close> and \<open>BitField\<close>, the accessors of the interrupter's registers (\<open>ErdpLib\<close>), and
  \<open>try_from\<close>, which decodes a TRB into an event.
\<close>

section \<open>The segment table entry\<close>

record EventRingSegmentTableEntry =
  erst_data :: "u32 list"

definition set_ring_segment_base_address ::
  "u64 \<Rightarrow> EventRingSegmentTableEntry \<Rightarrow> EventRingSegmentTableEntry option" where
  "set_ring_segment_base_address address e = do {
     rassert (take_bit 6 address = 0);
     let upper = (ucast (drop_bit 32 address) :: u32);
     let lower = (ucast address :: u32);
     d \<leftarrow> set_idx (erst_data e) 1 upper;
     d \<leftarrow> set_idx d 0 lower;
     Some (e\<lparr>erst_data := d\<rparr>)
   }"

definition ring_segment_base_address :: "EventRingSegmentTableEntry \<Rightarrow> u64 option" where
  "ring_segment_base_address e = do {
     d1 \<leftarrow> get_idx (erst_data e) 1;
     d0 \<leftarrow> get_idx (erst_data e) 0;
     Some (push_bit 32 (ucast d1) OR ucast d0)
   }"

definition set_ring_segment_size ::
  "u32 BitField \<Rightarrow> u16 \<Rightarrow> EventRingSegmentTableEntry \<Rightarrow> EventRingSegmentTableEntry option" where
  "set_ring_segment_size B sz e = do {
     d2 \<leftarrow> get_idx (erst_data e) 2;
     w \<leftarrow> set_bits_checked B 0 16 (ucast sz) d2;
     d \<leftarrow> set_idx (erst_data e) 2 w;
     Some (e\<lparr>erst_data := d\<rparr>)
   }"

definition ring_segment_size :: "u32 BitField \<Rightarrow> EventRingSegmentTableEntry \<Rightarrow> u16 option" where
  "ring_segment_size B e = do {
     d2 \<leftarrow> get_idx (erst_data e) 2;
     let bits = bf_get_bits B 0 16 d2;
     if unat bits < 65536 then Some (ucast bits) else None
   }"

definition Erst_new :: "u32 BitField \<Rightarrow> u64 \<Rightarrow> u16 \<Rightarrow> EventRingSegmentTableEntry option" where
  "Erst_new B base sz = do {
     let entry = \<lparr>erst_data = [0, 0, 0, 0]\<rparr>;
     entry \<leftarrow> set_ring_segment_base_address base entry;
     set_ring_segment_size B sz entry
   }"

section \<open>Events and the interrupter\<close>

text \<open>The events as far as the driver looks into them; a completion code outside the specification is an error.\<close>

datatype CompletionCode = Success | ShortPacket | OtherCompletionCode u8

record TransferEvent =
  te_slot_id :: u8
  te_endpoint_id :: u8
  te_trb_pointer :: u64
  te_trb_transfer_length :: u32
  te_completion_code :: "u8 + CompletionCode"

record CommandCompletion =
  cc_slot_id :: u8
  cc_command_trb_pointer :: u64
  cc_completion_code :: "u8 + CompletionCode"

record PortStatusChange =
  psc_port_id :: u8
  psc_completion_code :: "u8 + CompletionCode"

datatype event_allowed =
    AllowedTransferEvent TransferEvent
  | AllowedCommandCompletion CommandCompletion
  | AllowedPortStatusChange PortStatusChange
  | AllowedOther trb

text \<open>The registers of an interrupter, and the accessors of the crate \<^verbatim>\<open>xhci\<close> for them.\<close>

record Interrupter =
  int_erstsz :: u32
  int_erdp :: u64
  int_erstba :: u64

record ErdpLib =
  erdp_pointer :: "u64 \<Rightarrow> u64"
  erdp_set_pointer :: "u64 \<Rightarrow> u64 \<Rightarrow> u64"
  erdp_clear_busy :: "u64 \<Rightarrow> u64"
  erstsz_set :: "u16 \<Rightarrow> u32 \<Rightarrow> u32"
  erstba_set :: "u64 \<Rightarrow> u64 \<Rightarrow> u64"

definition erdp_lib_ok :: "ErdpLib \<Rightarrow> bool" where
  "erdp_lib_ok E \<longleftrightarrow>
     (\<forall>p r. take_bit 4 p = 0 \<longrightarrow> erdp_pointer E (erdp_set_pointer E p r) = p) \<and>
     (\<forall>r. erdp_pointer E (erdp_clear_busy E r) = erdp_pointer E r)"

section \<open>The event ring\<close>

record EventRing =
  er_trb_buffer :: "trb list Box"
  er_popped :: "event_allowed list"
  er_event_ring_segment_table :: "EventRingSegmentTableEntry Box"
  er_cycle_bit :: bool
  er_n_pop :: usize

text \<open>\<open>link_new\<close> is \<^verbatim>\<open>trb::Link::new()\<close>; a segment table entry takes 64 bytes.\<close>

definition EventRing_new ::
  "TrbLib \<Rightarrow> u32 BitField \<Rightarrow> ErdpLib \<Rightarrow> trb \<Rightarrow> BumpAllocator \<Rightarrow> u16 \<Rightarrow> Interrupter \<Rightarrow>
   (BumpAllocator \<times> EventRing \<times> Interrupter) option"
where
  "EventRing_new L B E link_new a buf_size intr = do {
     let dflt = trb_with_cycle_bit L False link_new;
     (a, r) \<leftarrow> kernel_alloc_array_with_boundary_with_default_else size_of_TrbRaw a (unat buf_size) 64 (64 * PAGE_SIZE)
                 (\<lambda>a. Some (a, dflt));
     trb_buffer \<leftarrow> (case r of Inl e \<Rightarrow> None | Inr b \<Rightarrow> Some b);
     let base = (of_nat (box_ptr trb_buffer) :: u64);
     let sz = (of_nat (length (box_val trb_buffer)) :: u16);
     rassert (buf_size = sz);
     (a, r) \<leftarrow> kernel_alloc_with_boundary_with_default_else 64 a 64 (64 * 1024)
                 (\<lambda>a. do { e \<leftarrow> Erst_new B base sz; Some (a, e) });
     table \<leftarrow> (case r of Inl e \<Rightarrow> None | Inr b \<Rightarrow> Some b);
     let intr = intr\<lparr>int_erstsz := erstsz_set E 1 (int_erstsz intr)\<rparr>;
     let intr = intr\<lparr>int_erdp := erdp_set_pointer E base (int_erdp intr)\<rparr>;
     let intr = intr\<lparr>int_erstba := erstba_set E (of_nat (box_ptr table)) (int_erstba intr)\<rparr>;
     Some (a, \<lparr>er_trb_buffer = trb_buffer, er_popped = [], er_event_ring_segment_table = table,
               er_cycle_bit = True, er_n_pop = 0\<rparr>, intr)
   }"

definition pending_already_popped_queue :: "EventRing \<Rightarrow> bool" where
  "pending_already_popped_queue r \<longleftrightarrow> er_popped r \<noteq> []"

text \<open>\<^verbatim>\<open>Vec::push\<close> and \<^verbatim>\<open>Vec::pop\<close> both work at the end of the vector.\<close>

definition EventRing_push :: "event_allowed \<Rightarrow> EventRing \<Rightarrow> EventRing" where
  "EventRing_push t r = r\<lparr>er_popped := er_popped r @ [t]\<rparr>"

definition pop_already_popped :: "EventRing \<Rightarrow> EventRing \<times> event_allowed option" where
  "pop_already_popped r =
     (if er_popped r = [] then (r, None)
      else (r\<lparr>er_popped := butlast (er_popped r)\<rparr>, Some (last (er_popped r))))"

text \<open>\<^verbatim>\<open>(p as *const TrbRaw).read_volatile()\<close> in the memory of the segment.\<close>

definition read_trb :: "EventRing \<Rightarrow> u64 \<Rightarrow> trb option" where
  "read_trb r p =
     (let base = box_ptr (er_trb_buffer r); buf = box_val (er_trb_buffer r); off = unat p - base in
      if base \<le> unat p \<and> off mod size_of_TrbRaw = 0 \<and> off div size_of_TrbRaw < length buf
      then Some (buf ! (off div size_of_TrbRaw)) else None)"

definition EventRing_pop ::
  "u32 BitField \<Rightarrow> ErdpLib \<Rightarrow> (trb \<Rightarrow> trb + event_allowed) \<Rightarrow> Interrupter \<Rightarrow> EventRing \<Rightarrow>
   (EventRing \<times> Interrupter \<times> (trb + event_allowed)) option"
where
  "EventRing_pop B E try_from intr r = do {
     n_pop \<leftarrow> uadd (er_n_pop r) 1;
     let r = r\<lparr>er_n_pop := n_pop\<rparr>;
     let dequeue_pointer = erdp_pointer E (int_erdp intr);
     popped \<leftarrow> read_trb r dequeue_pointer;
     let next_ptr = dequeue_pointer + 16;
     segment_begin \<leftarrow> ring_segment_base_address (box_val (er_event_ring_segment_table r));
     sz \<leftarrow> ring_segment_size B (box_val (er_event_ring_segment_table r));
     let segment_end = segment_begin + 16 * ucast sz;
     let (next_ptr, r) = (if next_ptr = segment_end then (segment_begin, r\<lparr>er_cycle_bit := \<not> er_cycle_bit r\<rparr>)
                          else (next_ptr, r));
     let intr = intr\<lparr>int_erdp := erdp_clear_busy E (erdp_set_pointer E next_ptr (int_erdp intr))\<rparr>;
     Some (r, intr, try_from popped)
   }"

section \<open>The futures\<close>

datatype TransferEventWaitKind =
    WaitSlotId u8
  | WaitTrbPtr u64
  | WaitTrbPtrs "u64 list"

text \<open>The state a poll works on: the ring and the registers, each behind its mutex.\<close>

type_synonym event_state = "EventRing \<times> Interrupter"

text \<open>Is there an event at the dequeue pointer? Both futures look before they pop.\<close>

definition has_front :: "TrbLib \<Rightarrow> ErdpLib \<Rightarrow> event_state \<Rightarrow> bool option" where
  "has_front L E = (\<lambda>(r, intr). do {
     t \<leftarrow> read_trb r (erdp_pointer E (int_erdp intr));
     Some (trb_cycle_bit L t = er_cycle_bit r)
   })"

text \<open>The loop of the \<^verbatim>\<open>TrbPtrs\<close> branch: \<open>Some\<close> is the value it returns early.\<close>

fun scan_ptrs :: "(trb + event_allowed) \<Rightarrow> u64 list \<Rightarrow> TransferEvent Poll option" where
  "scan_ptrs popped_trb [] = None"
| "scan_ptrs popped_trb (ptr # ptrs) =
     (case popped_trb of
        Inr (AllowedTransferEvent event) \<Rightarrow>
          if te_trb_pointer event = ptr then Some (Ready event) else scan_ptrs popped_trb ptrs
      | Inr _ \<Rightarrow> scan_ptrs popped_trb ptrs
      | Inl _ \<Rightarrow> Some Pending)"

definition push_pending :: "event_allowed \<Rightarrow> event_state \<Rightarrow> event_state \<times> 'a Poll" where
  "push_pending t = (\<lambda>(r, intr). ((EventRing_push t r, intr), Pending))"

definition dispatch_transfer ::
  "TransferEventWaitKind \<Rightarrow> (trb + event_allowed) \<Rightarrow> event_state \<Rightarrow> (event_state \<times> TransferEvent Poll) option"
where
  "dispatch_transfer wait_on popped_trb s =
     (case wait_on of
        WaitSlotId slot_id \<Rightarrow>
          (case popped_trb of
             Inr (AllowedTransferEvent event) \<Rightarrow>
               if te_slot_id event = slot_id then Some (s, Ready event)
               else Some (push_pending (AllowedTransferEvent event) s)
           | Inr t \<Rightarrow> Some (push_pending t s)
           | Inl t \<Rightarrow> Some (s, Pending))
      | WaitTrbPtr ptr \<Rightarrow>
          (case popped_trb of
             Inr (AllowedTransferEvent event) \<Rightarrow>
               if te_trb_pointer event = ptr then Some (s, Ready event)
               else Some (push_pending (AllowedTransferEvent event) s)
           | Inr t \<Rightarrow> Some (push_pending t s)
           | Inl t \<Rightarrow> Some (s, Pending))
      | WaitTrbPtrs ptrs \<Rightarrow>
          (case scan_ptrs popped_trb ptrs of
             Some p \<Rightarrow> Some (s, p)
           | None \<Rightarrow> (case popped_trb of Inr t \<Rightarrow> Some (push_pending t s) | Inl t \<Rightarrow> None)))"

definition TransferEventFuture_poll ::
  "TrbLib \<Rightarrow> u32 BitField \<Rightarrow> ErdpLib \<Rightarrow> (trb \<Rightarrow> trb + event_allowed) \<Rightarrow>
   (TransferEventWaitKind, event_state, TransferEvent) poll_fn"
where
  "TransferEventFuture_poll L B E try_from wait_on s = do {
     front \<leftarrow> has_front L E s;
     if \<not> front then Some (wait_on, s, Pending)
     else do {
       (r, intr, popped_trb) \<leftarrow> EventRing_pop B E try_from (snd s) (fst s);
       (s, p) \<leftarrow> dispatch_transfer wait_on popped_trb (r, intr);
       Some (wait_on, s, p)
     }
   }"

definition CommandCompletionFuture_poll ::
  "TrbLib \<Rightarrow> u32 BitField \<Rightarrow> ErdpLib \<Rightarrow> (trb \<Rightarrow> trb + event_allowed) \<Rightarrow> (u64, event_state, CommandCompletion) poll_fn"
where
  "CommandCompletionFuture_poll L B E try_from wait_on s = do {
     front \<leftarrow> has_front L E s;
     if \<not> front then Some (wait_on, s, Pending)
     else do {
       (r, intr, t) \<leftarrow> EventRing_pop B E try_from (snd s) (fst s);
       (case t of
          Inr (AllowedCommandCompletion event) \<Rightarrow>
            if cc_command_trb_pointer event = wait_on then Some (wait_on, (r, intr), Ready event)
            else Some (wait_on, (EventRing_push (AllowedCommandCompletion event) r, intr), Pending)
        | Inr t \<Rightarrow> Some (wait_on, (EventRing_push t r, intr), Pending)
        | Inl t \<Rightarrow> Some (wait_on, (r, intr), Pending))
     }
   }"

text \<open>The asynchronous functions are the futures they await.\<close>

definition get_received_transfer_trb_on_slot ::
  "TrbLib \<Rightarrow> u32 BitField \<Rightarrow> ErdpLib \<Rightarrow> (trb \<Rightarrow> trb + event_allowed) \<Rightarrow> u8 \<Rightarrow> event_state \<Rightarrow>
   (TransferEventWaitKind \<times> event_state \<times> TransferEvent Poll) option"
where
  "get_received_transfer_trb_on_slot L B E try_from slot_id = TransferEventFuture_poll L B E try_from (WaitSlotId slot_id)"

definition get_received_transfer_trb_on_trb ::
  "TrbLib \<Rightarrow> u32 BitField \<Rightarrow> ErdpLib \<Rightarrow> (trb \<Rightarrow> trb + event_allowed) \<Rightarrow> u64 \<Rightarrow> event_state \<Rightarrow>
   (TransferEventWaitKind \<times> event_state \<times> TransferEvent Poll) option"
where
  "get_received_transfer_trb_on_trb L B E try_from trb_pointer =
     TransferEventFuture_poll L B E try_from (WaitTrbPtr trb_pointer)"

definition get_received_command_trb ::
  "TrbLib \<Rightarrow> u32 BitField \<Rightarrow> ErdpLib \<Rightarrow> (trb \<Rightarrow> trb + event_allowed) \<Rightarrow> u64 \<Rightarrow> event_state \<Rightarrow>
   (u64 \<times> event_state \<times> CommandCompletion Poll) option"
where
  "get_received_command_trb L B E try_from trb_ptr = CommandCompletionFuture_poll L B E try_from trb_ptr"

section \<open>The controller's side\<close>

text \<open>
  The controller posts events at its own position, with its own cycle state, and moves on around the segment.
\<close>

definition hw_post :: "TrbLib \<Rightarrow> trb \<Rightarrow> hw_pos \<Rightarrow> EventRing \<Rightarrow> EventRing \<times> hw_pos" where
  "hw_post L t = (\<lambda>(i, c) r.
     let buf = box_val (er_trb_buffer r) in
     (r\<lparr>er_trb_buffer := (er_trb_buffer r)\<lparr>box_val := buf[i := trb_with_cycle_bit L c t]\<rparr>\<rparr>,
      if i + 1 = length buf then (0, \<not> c) else (i + 1, c)))"

text \<open>
  The events \<open>q\<close> are outstanding: the slots from the dequeue pointer on hold them, with the cycle bit the driver
  expects there, and the slots behind them carry the other cycle bit.
\<close>

definition segment_ok :: "u32 BitField \<Rightarrow> EventRing \<Rightarrow> bool" where
  "segment_ok B r \<longleftrightarrow>
     (let n = length (box_val (er_trb_buffer r)); base = box_ptr (er_trb_buffer r) in
      0 < n \<and> n < 65536 \<and> 64 dvd base \<and> base + 16 * n < usize_limit \<and> (\<forall>t \<in> set (box_val (er_trb_buffer r)). length t = 4) \<and>
      ring_segment_base_address (box_val (er_event_ring_segment_table r)) = Some (of_nat base) \<and>
      ring_segment_size B (box_val (er_event_ring_segment_table r)) = Some (of_nat n))"

definition events_at :: "TrbLib \<Rightarrow> trb list \<Rightarrow> nat \<Rightarrow> bool \<Rightarrow> trb list \<Rightarrow> bool" where
  "events_at L buf i c q \<longleftrightarrow>
     (let n = length buf in
      i < n \<and> length q \<le> n \<and>
      (\<forall>k < length q. buf ! slot n i k = q ! k \<and> trb_cycle_bit L (q ! k) = phase n i c k) \<and>
      (\<forall>k < n. length q \<le> k \<longrightarrow> trb_cycle_bit L (buf ! slot n i k) = (\<not> phase n i c k)))"

definition event_inv :: "TrbLib \<Rightarrow> u32 BitField \<Rightarrow> ErdpLib \<Rightarrow> event_state \<Rightarrow> hw_pos \<Rightarrow> trb list \<Rightarrow> bool" where
  "event_inv L B E = (\<lambda>(r, intr) hw q.
     segment_ok B r \<and>
     (\<exists>i. erdp_pointer E (int_erdp intr) = of_nat (box_ptr (er_trb_buffer r) + 16 * i) \<and>
        events_at L (box_val (er_trb_buffer r)) i (er_cycle_bit r) q \<and>
        hw = (slot (length (box_val (er_trb_buffer r))) i (length q),
              phase (length (box_val (er_trb_buffer r))) i (er_cycle_bit r) (length q))))"

lemma unat_address:
  assumes "m < usize_limit"
  shows "unat (of_nat m :: u64) = m"
  using assms by (simp add: unat_of_nat)

lemma of_nat_u64_inj:
  assumes "a < usize_limit" "b < usize_limit"
  shows "(of_nat a :: u64) = of_nat b \<longleftrightarrow> a = b"
  using unat_address[OF assms(1)] unat_address[OF assms(2)] by metis

lemma read_trb_at:
  assumes "segment_ok B r" "i < length (box_val (er_trb_buffer r))"
  shows "read_trb r (of_nat (box_ptr (er_trb_buffer r) + 16 * i)) = Some (box_val (er_trb_buffer r) ! i)"
proof -
  have "box_ptr (er_trb_buffer r) + 16 * i < usize_limit" using assms by (simp add: segment_ok_def Let_def)
  then have "unat (of_nat (box_ptr (er_trb_buffer r) + 16 * i) :: u64) = box_ptr (er_trb_buffer r) + 16 * i"
    by (rule unat_address)
  then show ?thesis using assms(2) by (simp add: read_trb_def size_of_TrbRaw_def)
qed

lemma has_front_iff:
  assumes "event_inv L B E s hw q"
  shows "has_front L E s = Some (q \<noteq> [])"
proof -
  obtain r intr where s: "s = (r, intr)" by (cases s)
  let ?buf = "box_val (er_trb_buffer r)"
  from assms s obtain i where i: "segment_ok B r" "erdp_pointer E (int_erdp intr) = of_nat (box_ptr (er_trb_buffer r) + 16 * i)"
    "events_at L ?buf i (er_cycle_bit r) q" by (auto simp: event_inv_def)
  from i(3) have lt: "i < length ?buf" by (simp add: events_at_def Let_def)
  have "slot (length ?buf) i 0 = i" "phase (length ?buf) i (er_cycle_bit r) 0 = er_cycle_bit r"
    using lt by (auto simp: slot_def phase_def)
  then have "trb_cycle_bit L (?buf ! i) = er_cycle_bit r \<longleftrightarrow> q \<noteq> []"
    using i(3) lt unfolding events_at_def Let_def by (cases q) force+
  then show ?thesis by (simp add: has_front_def s i(2) read_trb_at[OF i(1) lt] del: of_nat_add of_nat_mult)
qed

lemma events_at_shift:
  assumes "events_at L buf i c (t # q)"
  shows "events_at L buf (if i + 1 = length buf then 0 else i + 1) (if i + 1 = length buf then \<not> c else c) q"
    and "buf ! i = t"
proof -
  let ?n = "length buf"
  let ?i = "if i + 1 = ?n then 0 else i + 1" and ?c = "if i + 1 = ?n then \<not> c else c"
  have inv: "i < ?n" "length q + 1 \<le> ?n"
    "\<And>k. k < length q + 1 \<Longrightarrow> buf ! slot ?n i k = (t # q) ! k \<and> trb_cycle_bit L ((t # q) ! k) = phase ?n i c k"
    "\<And>k. k < ?n \<Longrightarrow> length q + 1 \<le> k \<Longrightarrow> trb_cycle_bit L (buf ! slot ?n i k) = (\<not> phase ?n i c k)"
    using assms unfolding events_at_def Let_def by auto
  from inv(3)[of 0] inv(1) show t: "buf ! i = t" by (simp add: slot_def)
  have sh: "slot ?n ?i k = slot ?n i (k + 1)" "phase ?n ?i ?c k = phase ?n i c (k + 1)" if "k + 1 < ?n" for k
    using that inv(1) by (auto simp: slot_def phase_def)
  have lst: "slot ?n ?i (?n - 1) = i" "phase ?n ?i ?c (?n - 1) = (\<not> c)" using inv(1) by (auto simp: slot_def phase_def)
  have "trb_cycle_bit L (buf ! slot ?n ?i k) = (\<not> phase ?n ?i ?c k)" if "k < ?n" "length q \<le> k" for k
  proof (cases "k + 1 < ?n")
    case True
    then show ?thesis using inv(4)[of "k + 1"] that sh[of k] by simp
  next
    case False
    then have "k = ?n - 1" using that by simp
    then show ?thesis using lst t inv(3)[of 0] inv(1) by (simp add: phase_def)
  qed
  moreover have "buf ! slot ?n ?i k = q ! k \<and> trb_cycle_bit L (q ! k) = phase ?n ?i ?c k" if "k < length q" for k
    using inv(3)[of "k + 1"] that sh[of k] inv(2) by simp
  moreover have "?i < ?n" using inv(1) by auto
  ultimately show "events_at L buf ?i ?c q" using inv(2) unfolding events_at_def Let_def by simp
qed

lemma events_at_post:
  assumes "events_at L buf i c q" "length q < length buf" "length t = 4" "trb_lib_ok L"
  shows "events_at L (buf[slot (length buf) i (length q) := trb_with_cycle_bit L (phase (length buf) i c (length q)) t]) i c
           (q @ [trb_with_cycle_bit L (phase (length buf) i c (length q)) t])"
proof -
  let ?n = "length buf" and ?w = "slot (length buf) i (length q)"
  let ?t = "trb_with_cycle_bit L (phase ?n i c (length q)) t"
  have inv: "i < ?n" "\<And>k. k < length q \<Longrightarrow> buf ! slot ?n i k = q ! k \<and> trb_cycle_bit L (q ! k) = phase ?n i c k"
    "\<And>k. k < ?n \<Longrightarrow> length q \<le> k \<Longrightarrow> trb_cycle_bit L (buf ! slot ?n i k) = (\<not> phase ?n i c k)"
    using assms(1) unfolding events_at_def Let_def by auto
  have upd: "buf[?w := ?t] ! slot ?n i k = (if k = length q then ?t else buf ! slot ?n i k)" if "k < ?n" for k
    using that inv(1) assms(2) slot_less[of i ?n] slot_inj[of i ?n] by (auto simp: nth_list_update)
  show ?thesis
    unfolding events_at_def Let_def
    using inv upd assms(2) trb_libD(2)[OF assms(4,3)] by (auto simp: nth_append less_Suc_eq)
qed

lemma take_bit_16_aligned:
  assumes "16 dvd m" "m < usize_limit"
  shows "take_bit 4 (of_nat m :: u64) = 0"
proof -
  have "take_bit 4 (of_nat m :: u64) = of_nat (take_bit 4 m)" by (simp add: take_bit_of_nat)
  also have "take_bit 4 m = 0" using assms(1) by (simp add: take_bit_eq_mod dvd_imp_mod_0)
  finally show ?thesis by simp
qed

lemma segment_ok_cong:
  assumes "segment_ok B r" "box_ptr (er_trb_buffer r') = box_ptr (er_trb_buffer r)"
    and "length (box_val (er_trb_buffer r')) = length (box_val (er_trb_buffer r))"
    and "\<forall>t \<in> set (box_val (er_trb_buffer r')). length t = 4"
    and "er_event_ring_segment_table r' = er_event_ring_segment_table r"
  shows "segment_ok B r'"
  using assms by (simp add: segment_ok_def Let_def)

lemma event_pop:
  assumes "event_inv L B E (r, intr) hw (t # q)" "erdp_lib_ok E" "er_n_pop r + 1 < usize_limit"
  shows "\<exists>r' intr'. EventRing_pop B E try_from intr r = Some (r', intr', try_from t) \<and>
           event_inv L B E (r', intr') hw q \<and> er_popped r' = er_popped r \<and> er_n_pop r' = er_n_pop r + 1"
proof -
  let ?buf = "box_val (er_trb_buffer r)" and ?base = "box_ptr (er_trb_buffer r)" and ?n = "length (box_val (er_trb_buffer r))"
  from assms(1) obtain i where i: "segment_ok B r" "erdp_pointer E (int_erdp intr) = of_nat (?base + 16 * i)"
    "events_at L ?buf i (er_cycle_bit r) (t # q)"
    "hw = (slot ?n i (length q + 1), phase ?n i (er_cycle_bit r) (length q + 1))" by (auto simp: event_inv_def)
  let ?i = "if i + 1 = ?n then 0 else i + 1" and ?c = "if i + 1 = ?n then \<not> er_cycle_bit r else er_cycle_bit r"
  let ?p = "of_nat (?base + 16 * ?i) :: u64"
  have lt: "i < ?n" using i(3) by (simp add: events_at_def Let_def)
  have seg: "?n < 65536" "64 dvd ?base" "?base + 16 * ?n < usize_limit"
    "ring_segment_base_address (box_val (er_event_ring_segment_table r)) = Some (of_nat ?base)"
    "ring_segment_size B (box_val (er_event_ring_segment_table r)) = Some (of_nat ?n)"
    using i(1) by (auto simp: segment_ok_def Let_def)
  have rd: "read_trb (r\<lparr>er_n_pop := er_n_pop r + 1\<rparr>) (of_nat (?base + 16 * i)) = Some t"
    using read_trb_at[OF i(1) lt] events_at_shift(2)[OF i(3)] by (simp add: read_trb_def)
  have sz: "(ucast (of_nat ?n :: u16) :: u64) = of_nat ?n"
    using seg(1) by (simp add: unsigned_of_nat take_bit_nat_eq_self)
  have nxt: "(of_nat (?base + 16 * i) + 16 = (of_nat ?base :: u64) + 16 * of_nat ?n) = (i + 1 = ?n)"
  proof -
    have "(of_nat (?base + 16 * i) + 16 = (of_nat ?base :: u64) + 16 * of_nat ?n) =
        ((of_nat (?base + 16 * (i + 1)) :: u64) = of_nat (?base + 16 * ?n))" by (simp add: algebra_simps)
    also have "\<dots> = (?base + 16 * (i + 1) = ?base + 16 * ?n)"
      by (rule of_nat_u64_inj) (use lt seg(3) in simp_all)
    also have "\<dots> = (i + 1 = ?n)" by arith
    finally show ?thesis .
  qed
  let ?r = "r\<lparr>er_cycle_bit := ?c, er_n_pop := er_n_pop r + 1\<rparr>"
  let ?intr = "intr\<lparr>int_erdp := erdp_clear_busy E (erdp_set_pointer E ?p (int_erdp intr))\<rparr>"
  have run: "EventRing_pop B E try_from intr r = Some (?r, ?intr, try_from t)"
    using assms(3) rd nxt unfolding EventRing_pop_def i(2)
    by (simp add: seg(4,5) sz Let_def algebra_simps)
  have al: "take_bit 4 ?p = 0"
  proof (rule take_bit_16_aligned)
    have "16 dvd ?base" using seg(2) by (rule dvd_trans[rotated]) simp
    then show "16 dvd ?base + 16 * ?i" by simp
    show "?base + 16 * ?i < usize_limit" using seg(3) lt by (auto split: if_splits)
  qed
  have hw: "hw = (slot ?n ?i (length q), phase ?n ?i ?c (length q))"
    using i(3,4) by (auto simp: slot_def phase_def events_at_def Let_def)
  have "event_inv L B E (?r, ?intr) hw q"
    unfolding event_inv_def
    using segment_ok_cong[OF i(1), of ?r] i(1) events_at_shift(1)[OF i(3)] al assms(2) hw
    by (auto simp: erdp_lib_ok_def segment_ok_def Let_def simp del: of_nat_add of_nat_mult intro!: exI[of _ ?i])
  with run show ?thesis by auto
qed

section \<open>The interface of a waiting future\<close>

text \<open>
  What becomes of an event taken off the ring, given which events the future wants: a wanted one makes it
  ready, any other is kept in \<open>popped\<close>, and a TRB that is no event is dropped.
\<close>

definition hand_out :: "(event_allowed \<Rightarrow> 'a option) \<Rightarrow> trb + event_allowed \<Rightarrow> EventRing \<Rightarrow> EventRing \<times> 'a Poll" where
  "hand_out want t r =
     (case t of
        Inl _ \<Rightarrow> (r, Pending)
      | Inr e \<Rightarrow> (case want e of Some a \<Rightarrow> (r, Ready a) | None \<Rightarrow> (EventRing_push e r, Pending)))"

fun wants_transfer :: "TransferEventWaitKind \<Rightarrow> event_allowed \<Rightarrow> TransferEvent option" where
  "wants_transfer w (AllowedTransferEvent ev) =
     (if (case w of WaitSlotId s \<Rightarrow> te_slot_id ev = s | WaitTrbPtr p \<Rightarrow> te_trb_pointer ev = p
          | WaitTrbPtrs ps \<Rightarrow> te_trb_pointer ev \<in> set ps) then Some ev else None)"
| "wants_transfer w _ = None"

fun wants_command :: "u64 \<Rightarrow> event_allowed \<Rightarrow> CommandCompletion option" where
  "wants_command p (AllowedCommandCompletion ev) = (if cc_command_trb_pointer ev = p then Some ev else None)"
| "wants_command p _ = None"

text \<open>\<open>no_panic f t\<close>: the future \<open>f\<close> copes with the popped TRB \<open>t\<close>.\<close>

locale event_future =
  fixes L :: TrbLib and B :: "u32 BitField" and E :: ErdpLib and try_from :: "trb \<Rightarrow> trb + event_allowed"
    and poll :: "('f, event_state, 'a) poll_fn" and want :: "'f \<Rightarrow> event_allowed \<Rightarrow> 'a option"
    and wrap :: "'a \<Rightarrow> event_allowed" and no_panic :: "'f \<Rightarrow> trb + event_allowed \<Rightarrow> bool"
  assumes poll_idle: "has_front L E s = Some False \<Longrightarrow> poll f s = Some (f, s, Pending)"
    and poll_busy: "has_front L E s = Some True \<Longrightarrow>
      poll f s = do {
        (r, intr, t) \<leftarrow> EventRing_pop B E try_from (snd s) (fst s);
        if no_panic f t then Some (f, (fst (hand_out (want f) t r), intr), snd (hand_out (want f) t r)) else None
      }"
    and want_wrap: "want f e = Some a \<Longrightarrow> e = wrap a"
begin

definition delivered_events :: "'a Poll \<Rightarrow> event_allowed list" where
  "delivered_events p = (case p of Ready a \<Rightarrow> [wrap a] | Pending \<Rightarrow> [])"

text \<open>A poll either finds the ring empty and changes nothing, or takes the oldest event and hands it out.\<close>

lemma poll_effect:
  assumes "erdp_lib_ok E" "event_inv L B E (r, intr) hw q" "poll f (r, intr) = Some (f', (r', intr'), p)"
  shows "(q = [] \<and> r' = r \<and> intr' = intr \<and> p = Pending) \<or>
    (\<exists>t q'. q = t # q' \<and> event_inv L B E (r', intr') hw q' \<and> er_n_pop r' = er_n_pop r + 1 \<and>
       mset (case try_from t of Inl _ \<Rightarrow> [] | Inr e \<Rightarrow> [e]) + mset (er_popped r) =
       mset (delivered_events p) + mset (er_popped r'))"
proof (cases q)
  case Nil
  then have "has_front L E (r, intr) = Some False" using has_front_iff[OF assms(2)] by simp
  with assms(3) Nil poll_idle show ?thesis by simp
next
  case (Cons t q')
  then have "has_front L E (r, intr) = Some True" using has_front_iff[OF assms(2)] by simp
  with assms(3) poll_busy[of "(r, intr)" f] obtain x where x: "EventRing_pop B E try_from intr r = Some x"
    and rest: "(case x of (r, intr, t) \<Rightarrow>
      if no_panic f t then Some (f, (fst (hand_out (want f) t r), intr), snd (hand_out (want f) t r)) else None) =
      Some (f', (r', intr'), p)"
    by (auto simp: bind_eq_Some_conv)
  have "er_n_pop r + 1 < usize_limit" using x by (auto simp: EventRing_pop_def bind_eq_Some_conv rust_simps)
  from event_pop[OF assms(2)[unfolded Cons] assms(1) this, of try_from] x obtain r1 intr1 where
    r1: "x = (r1, intr1, try_from t)" "event_inv L B E (r1, intr1) hw q'" "er_popped r1 = er_popped r"
    "er_n_pop r1 = er_n_pop r + 1" by auto
  have push: "event_inv L B E (EventRing_push e r1, intr1) hw q'" for e
    using r1(2) by (simp add: event_inv_def segment_ok_def EventRing_push_def)
  show ?thesis
  proof (cases "try_from t")
    case (Inl a)
    with rest r1 Cons show ?thesis by (auto simp: hand_out_def delivered_events_def split: if_splits)
  next
    case (Inr e)
    show ?thesis
    proof (cases "want f e")
      case None
      with rest r1 Cons Inr push[of e] show ?thesis
        by (auto simp: hand_out_def delivered_events_def EventRing_push_def split: if_splits)
    next
      case (Some a)
      with rest r1 Cons Inr want_wrap[OF Some] show ?thesis
        by (auto simp: hand_out_def delivered_events_def split: if_splits)
    qed
  qed
qed

lemma poll_total:
  assumes "erdp_lib_ok E" "event_inv L B E (r, intr) hw q" "er_n_pop r + length q < usize_limit"
    and "\<And>t. no_panic f t"
  shows "\<exists>out. poll f (r, intr) = Some out"
proof (cases q)
  case Nil
  then have "has_front L E (r, intr) = Some False" using has_front_iff[OF assms(2)] by simp
  with poll_idle show ?thesis by blast
next
  case (Cons t q')
  then have fr: "has_front L E (r, intr) = Some True" using has_front_iff[OF assms(2)] by simp
  have "er_n_pop r + 1 < usize_limit" using assms(3) Cons by simp
  from event_pop[OF assms(2)[unfolded Cons] assms(1) this, of try_from] poll_busy[OF fr, of f] assms(4) show ?thesis
    by fastforce
qed

end

lemma scan_ptrs_eq:
  "scan_ptrs t ps =
     (case t of
        Inl _ \<Rightarrow> if ps = [] then None else Some Pending
      | Inr e \<Rightarrow> map_option Ready (wants_transfer (WaitTrbPtrs ps) e))"
proof (cases t)
  case (Inr e)
  then show ?thesis by (induction ps) (cases e; simp)+
qed (induction ps; simp)

interpretation transfer_future: event_future L B E try_from "TransferEventFuture_poll L B E try_from" wants_transfer
  AllowedTransferEvent "\<lambda>f t. f = WaitTrbPtrs [] \<longrightarrow> \<not> isl t"
  for L B E try_from
proof
  fix s :: event_state and f
  show "has_front L E s = Some False \<Longrightarrow> TransferEventFuture_poll L B E try_from f s = Some (f, s, Pending)"
    by (simp add: TransferEventFuture_poll_def)
  have "dispatch_transfer f t (r, intr) =
      (if f = WaitTrbPtrs [] \<longrightarrow> \<not> isl t
       then Some ((fst (hand_out (wants_transfer f) t r), intr), snd (hand_out (wants_transfer f) t r)) else None)" for t r intr
    by (cases f; cases t) (auto simp: dispatch_transfer_def hand_out_def push_pending_def scan_ptrs_eq split: event_allowed.splits option.splits)
  then show "has_front L E s = Some True \<Longrightarrow> TransferEventFuture_poll L B E try_from f s = do {
      (r, intr, t) \<leftarrow> EventRing_pop B E try_from (snd s) (fst s);
      if f = WaitTrbPtrs [] \<longrightarrow> \<not> isl t
      then Some (f, (fst (hand_out (wants_transfer f) t r), intr), snd (hand_out (wants_transfer f) t r)) else None }"
    by (auto simp: TransferEventFuture_poll_def intro!: Option.bind_cong split: prod.splits)
next
  show "wants_transfer f e = Some a \<Longrightarrow> e = AllowedTransferEvent a" for f e a
    by (cases e) (auto split: if_splits)
qed

interpretation command_future: event_future L B E try_from "CommandCompletionFuture_poll L B E try_from" wants_command
  AllowedCommandCompletion "\<lambda>f t. True"
  for L B E try_from
proof
  fix s :: event_state and f
  show "has_front L E s = Some False \<Longrightarrow> CommandCompletionFuture_poll L B E try_from f s = Some (f, s, Pending)"
    by (simp add: CommandCompletionFuture_poll_def)
  show "has_front L E s = Some True \<Longrightarrow> CommandCompletionFuture_poll L B E try_from f s = do {
      (r, intr, t) \<leftarrow> EventRing_pop B E try_from (snd s) (fst s);
      if True then Some (f, (fst (hand_out (wants_command f) t r), intr), snd (hand_out (wants_command f) t r)) else None }"
    by (auto simp: CommandCompletionFuture_poll_def hand_out_def intro!: Option.bind_cong split: prod.splits sum.splits event_allowed.splits)
next
  show "wants_command f e = Some a \<Longrightarrow> e = AllowedCommandCompletion a" for f e a
    by (cases e) (auto split: if_splits)
qed

section \<open>A new ring\<close>

lemma u64_halves: "push_bit 32 (ucast (ucast (drop_bit 32 (a :: u64)) :: u32)) OR ucast (ucast a :: u32) = a"
  by (rule bit_word_eqI) (auto simp: bit_simps)

lemma Erst_new_spec:
  assumes "bit_field_ok B" "take_bit 6 base = 0"
  shows "\<exists>e. Erst_new B base sz = Some e \<and> ring_segment_base_address e = Some base \<and> ring_segment_size B e = Some sz"
proof -
  have fits: "take_bit (16 - 0) (ucast sz :: u32) = ucast sz" by (rule bit_word_eqI) (auto simp: bit_simps dest: bit_imp_le_length)
  have rb: "bf_get_bits B 0 16 (bf_set_bits B 0 16 (ucast sz) 0) = ucast sz"
    by (rule get_bits_set_bits[OF assms(1)]) (use fits in simp_all)
  have "unat sz < 2 ^ LENGTH(16)" by (rule unsigned_less)
  then have "unat (ucast sz :: u32) < 65536" by (simp add: unsigned_ucast_eq take_bit_nat_eq_self)
  moreover have "ucast (ucast sz :: u32) = sz" by (rule bit_word_eqI) (auto simp: bit_simps)
  ultimately show ?thesis
    using assms(2) fits rb
    by (simp add: Erst_new_def set_ring_segment_base_address_def set_ring_segment_size_def set_bits_checked_def
        ring_segment_base_address_def ring_segment_size_def u64_halves)
qed

lemma kernel_alloc_box:
  assumes "bump_holds a live" "boundary = 0 \<or> is_power_of_two boundary \<and> size_of \<le> boundary"
    and "kernel_alloc_with_boundary_with_default_else size_of a alignment boundary (\<lambda>a. do { v \<leftarrow> dflt; Some (a, v) }) = Some (a', Inr b)"
  shows "dflt = Some (box_val b) \<and> bump_holds a' ((box_ptr b, size_of) # live)"
proof -
  obtain a1 x where x: "alloc_with_boundary bump_alloc size_of a alignment boundary = Some (a1, x)"
    using assms(3) by (auto simp: kernel_alloc_with_boundary_with_default_else_def alloc_with_boundary_with_default_else_def bind_eq_Some_conv)
  with assms(3) obtain ptr where ptr: "x = Inr ptr" "dflt = Some (box_val b)" "box_ptr b = ptr" "a1 = a'"
    by (cases x) (auto simp: kernel_alloc_with_boundary_with_default_else_def alloc_with_boundary_with_default_else_def
        bind_eq_Some_conv split: if_splits)
  from bump.alloc_with_boundary_ok[OF assms(1,2)] x ptr show ?thesis by auto
qed

lemma events_at_empty:
  assumes "0 < n" "length t = 4" "trb_lib_ok L"
  shows "events_at L (replicate n (trb_with_cycle_bit L False t)) 0 True []"
  using assms(1) trb_libD(2)[OF assms(3,2)] by (auto simp: events_at_def Let_def slot_def phase_def)

lemma EventRing_new_inv:
  assumes "trb_lib_ok L" "bit_field_ok B" "erdp_lib_ok E" "length link_new = 4" "bump_holds a live"
    and "0 < unat sz" "unat sz \<le> 16384" "EventRing_new L B E link_new a sz intr = Some (a', r, intr')" "heap_end a' < usize_limit"
  shows "event_inv L B E (r, intr') (0, True) [] \<and> er_popped r = [] \<and> er_n_pop r = 0"
proof -
  let ?d = "trb_with_cycle_bit L False link_new" and ?n = "unat sz"
  note [simp] = trb_libD[OF assms(1,4)]
  from assms(8) obtain a1 buf where al: "kernel_alloc_array_with_boundary_with_default_else 16 a ?n 64 262144 (\<lambda>a. Some (a, ?d)) = Some (a1, Inr buf)"
    and rest: "do {
      let base = (of_nat (box_ptr buf) :: u64);
      let sz' = (of_nat (length (box_val buf)) :: u16);
      rassert (sz = sz');
      (a, r) \<leftarrow> kernel_alloc_with_boundary_with_default_else 64 a1 64 (64 * 1024)
                 (\<lambda>a. do { e \<leftarrow> Erst_new B base sz'; Some (a, e) });
      table \<leftarrow> (case r of Inl e \<Rightarrow> None | Inr b \<Rightarrow> Some b);
      let intr = intr\<lparr>int_erstsz := erstsz_set E 1 (int_erstsz intr)\<rparr>;
      let intr = intr\<lparr>int_erdp := erdp_set_pointer E base (int_erdp intr)\<rparr>;
      let intr = intr\<lparr>int_erstba := erstba_set E (of_nat (box_ptr table)) (int_erstba intr)\<rparr>;
      Some (a, \<lparr>er_trb_buffer = buf, er_popped = [], er_event_ring_segment_table = table,
               er_cycle_bit = True, er_n_pop = 0\<rparr>, intr) } = Some (a', r, intr')"
    unfolding EventRing_new_def size_of_TrbRaw_def PAGE_SIZE_def
    by (auto simp: bind_eq_Some_conv unwrap_result_eq_Some)
  have p2: "is_power_of_two 262144" "is_power_of_two (64 * 1024)" by code_simp+
  from kernel_alloc_array_spec[OF assms(5) _ al] p2 assms(7)
  have buf: "64 dvd box_ptr buf" "box_val buf = replicate ?n ?d" "bump_holds a1 ((box_ptr buf, ?n * 16) # live)" by auto
  from rest buf(2) obtain table where tb: "kernel_alloc_with_boundary_with_default_else 64 a1 64 (64 * 1024)
        (\<lambda>a. do { e \<leftarrow> Erst_new B (of_nat (box_ptr buf)) sz; Some (a, e) }) = Some (a', Inr table)"
    and r: "r = \<lparr>er_trb_buffer = buf, er_popped = [], er_event_ring_segment_table = table, er_cycle_bit = True, er_n_pop = 0\<rparr>"
    and int': "int_erdp intr' = erdp_set_pointer E (of_nat (box_ptr buf)) (int_erdp intr)"
    by (auto simp: bind_eq_Some_conv rust_simps Let_def)
  from kernel_alloc_box[OF buf(3) _ tb] p2
  have tbl: "Erst_new B (of_nat (box_ptr buf)) sz = Some (box_val table)" "bump_holds a' ((box_ptr table, 64) # (box_ptr buf, ?n * 16) # live)"
    by auto
  then have lim: "box_ptr buf + ?n * 16 < usize_limit" using assms(9) by (auto simp: bump_holds_def block_within_def)
  have al6: "take_bit 6 (of_nat (box_ptr buf) :: u64) = 0" and al4: "take_bit 4 (of_nat (box_ptr buf) :: u64) = 0"
  proof -
    have "take_bit 6 (of_nat (box_ptr buf) :: u64) = of_nat (take_bit 6 (box_ptr buf))" by (simp add: take_bit_of_nat)
    then show "take_bit 6 (of_nat (box_ptr buf) :: u64) = 0" using buf(1) by (simp add: take_bit_eq_mod dvd_imp_mod_0)
    show "take_bit 4 (of_nat (box_ptr buf) :: u64) = 0"
      using buf(1) lim by (intro take_bit_16_aligned) (auto intro: dvd_trans[of 16 64])
  qed
  have seg: "segment_ok B r"
    using Erst_new_spec[OF assms(2) al6, of sz] tbl(1) buf(1,2) lim assms(6,7)
    by (simp add: segment_ok_def Let_def r mult.commute)
  have "erdp_pointer E (int_erdp intr') = of_nat (box_ptr buf)" using int' al4 assms(3) by (simp add: erdp_lib_ok_def)
  then have "event_inv L B E (r, intr') (0, True) []"
    using seg buf(2) assms(6) events_at_empty[OF assms(6,4,1)]
    unfolding event_inv_def by (auto simp: r slot_def phase_def intro!: exI[of _ 0])
  then show ?thesis by (simp add: r)
qed

section \<open>The driver and the controller together\<close>

text \<open>
  The steps on one event ring: the controller posts an event while the ring has room, a waiting future polls, and
  \<^verbatim>\<open>process_once_received\<close> takes an event that was set aside. \<open>posted\<close> are the TRBs posted so far, \<open>dn\<close> the events
  some part of the driver has received.
\<close>

type_synonym event_world = "EventRing \<times> Interrupter \<times> hw_pos \<times> trb list \<times> event_allowed list"

inductive event_step :: "TrbLib \<Rightarrow> u32 BitField \<Rightarrow> ErdpLib \<Rightarrow> (trb \<Rightarrow> trb + event_allowed) \<Rightarrow> event_world \<Rightarrow> event_world \<Rightarrow> bool"
  for L B E try_from
where
  ev_post: "length t = 4 \<Longrightarrow> length posted - er_n_pop r < length (box_val (er_trb_buffer r)) \<Longrightarrow> hw_post L t hw r = (r', hw') \<Longrightarrow>
     event_step L B E try_from (r, intr, hw, posted, dn) (r', intr, hw', posted @ [trb_with_cycle_bit L (snd hw) t], dn)"
| ev_transfer: "TransferEventFuture_poll L B E try_from w (r, intr) = Some (w', (r', intr'), p) \<Longrightarrow>
     event_step L B E try_from (r, intr, hw, posted, dn)
       (r', intr', hw, posted, dn @ (case p of Ready e \<Rightarrow> [AllowedTransferEvent e] | Pending \<Rightarrow> []))"
| ev_command: "CommandCompletionFuture_poll L B E try_from ptr (r, intr) = Some (ptr', (r', intr'), p') \<Longrightarrow>
     event_step L B E try_from (r, intr, hw, posted, dn)
       (r', intr', hw, posted, dn @ (case p' of Ready e \<Rightarrow> [AllowedCommandCompletion e] | Pending \<Rightarrow> []))"
| ev_take: "pop_already_popped r = (r', Some e) \<Longrightarrow>
     event_step L B E try_from (r, intr, hw, posted, dn) (r', intr, hw, posted, dn @ [e])"

text \<open>The events among some TRBs.\<close>

definition events_of :: "(trb \<Rightarrow> trb + event_allowed) \<Rightarrow> trb list \<Rightarrow> event_allowed list" where
  "events_of try_from ts = concat (map (\<lambda>t. case try_from t of Inl _ \<Rightarrow> [] | Inr e \<Rightarrow> [e]) ts)"

definition world_inv :: "TrbLib \<Rightarrow> u32 BitField \<Rightarrow> ErdpLib \<Rightarrow> (trb \<Rightarrow> trb + event_allowed) \<Rightarrow> event_world \<Rightarrow> bool" where
  "world_inv L B E try_from = (\<lambda>(r, intr, hw, posted, dn).
     er_n_pop r \<le> length posted \<and> event_inv L B E (r, intr) hw (drop (er_n_pop r) posted) \<and>
     mset (events_of try_from (take (er_n_pop r) posted)) = mset dn + mset (er_popped r))"

lemma hw_post_inv:
  assumes "trb_lib_ok L" "event_inv L B E (r, intr) hw q" "length t = 4" "length q < length (box_val (er_trb_buffer r))"
    and "hw_post L t hw r = (r', hw')"
  shows "event_inv L B E (r', intr) hw' (q @ [trb_with_cycle_bit L (snd hw) t]) \<and>
         er_n_pop r' = er_n_pop r \<and> er_popped r' = er_popped r"
proof -
  let ?buf = "box_val (er_trb_buffer r)" and ?n = "length (box_val (er_trb_buffer r))"
  from assms(2) obtain i where i: "segment_ok B r" "erdp_pointer E (int_erdp intr) = of_nat (box_ptr (er_trb_buffer r) + 16 * i)"
    "events_at L ?buf i (er_cycle_bit r) q"
    "hw = (slot ?n i (length q), phase ?n i (er_cycle_bit r) (length q))" by (auto simp: event_inv_def)
  let ?w = "slot ?n i (length q)" and ?c = "phase ?n i (er_cycle_bit r) (length q)"
  have lt: "i < ?n" using i(3) by (simp add: events_at_def Let_def)
  have r': "r' = r\<lparr>er_trb_buffer := (er_trb_buffer r)\<lparr>box_val := ?buf[?w := trb_with_cycle_bit L ?c t]\<rparr>\<rparr>"
    and hw': "hw' = (if ?w + 1 = ?n then (0, \<not> ?c) else (?w + 1, ?c))"
    using assms(5) i(4) by (auto simp: hw_post_def Let_def)
  have seg: "segment_ok B r'"
    using i(1) trb_libD(1)[OF assms(1,3)] r'
    by (intro segment_ok_cong[OF i(1)]) (auto simp: segment_ok_def Let_def dest!: set_update_subset_insert[THEN subsetD])
  have "hw' = (slot ?n i (length q + 1), phase ?n i (er_cycle_bit r) (length q + 1))"
    using lt assms(4) hw' by (auto simp: slot_def phase_def)
  with seg i(2,4) events_at_post[OF i(3) assms(4,3,1)] r' show ?thesis
    by (auto simp: event_inv_def)
qed

lemma poll_world_inv:
  assumes "world_inv L B E try_from (r, intr, hw, posted, dn)"
    and "(drop (er_n_pop r) posted = [] \<and> r' = r \<and> intr' = intr \<and> got = []) \<or>
      (\<exists>t q'. drop (er_n_pop r) posted = t # q' \<and> event_inv L B E (r', intr') hw q' \<and> er_n_pop r' = er_n_pop r + 1 \<and>
         mset (case try_from t of Inl _ \<Rightarrow> [] | Inr e \<Rightarrow> [e]) + mset (er_popped r) = mset got + mset (er_popped r'))"
  shows "world_inv L B E try_from (r', intr', hw, posted, dn @ got)"
  using assms(2)
proof
  assume "\<exists>t q'. drop (er_n_pop r) posted = t # q' \<and> event_inv L B E (r', intr') hw q' \<and> er_n_pop r' = er_n_pop r + 1 \<and>
         mset (case try_from t of Inl _ \<Rightarrow> [] | Inr e \<Rightarrow> [e]) + mset (er_popped r) = mset got + mset (er_popped r')"
  then obtain t q' where q: "drop (er_n_pop r) posted = t # q'" and r': "event_inv L B E (r', intr') hw q'" "er_n_pop r' = er_n_pop r + 1"
    and ms: "mset (case try_from t of Inl _ \<Rightarrow> [] | Inr e \<Rightarrow> [e]) + mset (er_popped r) = mset got + mset (er_popped r')" by blast
  from q have lt: "er_n_pop r < length posted" by (metis drop_all list.distinct(1) not_le)
  with q have t: "t = posted ! er_n_pop r" "q' = drop (er_n_pop r + 1) posted" by (auto simp flip: Cons_nth_drop_Suc)
  have "mset (events_of try_from (take (er_n_pop r + 1) posted)) =
      mset (events_of try_from (take (er_n_pop r) posted)) + mset (case try_from t of Inl _ \<Rightarrow> [] | Inr e \<Rightarrow> [e])"
    using lt t by (simp add: take_Suc_conv_app_nth events_of_def)
  with assms(1) lt r' t ms show ?thesis by (simp add: world_inv_def add.commute[of "mset (er_popped r)"])
qed (use assms(1) in simp)

lemma world_inv_step:
  assumes "trb_lib_ok L" "erdp_lib_ok E" "event_step L B E try_from s s'" "world_inv L B E try_from s"
  shows "world_inv L B E try_from s'"
  using assms(3,4)
proof (induction rule: event_step.induct)
  case (ev_post t posted r hw r' hw' intr dn)
  then have "event_inv L B E (r, intr) hw (drop (er_n_pop r) posted)" "er_n_pop r \<le> length posted" by (auto simp: world_inv_def)
  with hw_post_inv[OF assms(1), of B E r intr hw "drop (er_n_pop r) posted" t r' hw'] ev_post show ?case
    by (auto simp: world_inv_def)
next
  case (ev_transfer w r intr w' r' intr' p hw posted dn)
  then have "event_inv L B E (r, intr) hw (drop (er_n_pop r) posted)" by (simp add: world_inv_def)
  from transfer_future.poll_effect[OF assms(2) this ev_transfer(1)] show ?case
    by (intro poll_world_inv[OF ev_transfer(2)]) (auto simp: transfer_future.delivered_events_def)
next
  case (ev_command ptr r intr ptr' r' intr' p hw posted dn)
  then have "event_inv L B E (r, intr) hw (drop (er_n_pop r) posted)" by (simp add: world_inv_def)
  from command_future.poll_effect[OF assms(2) this ev_command(1)] show ?case
    by (intro poll_world_inv[OF ev_command(2)]) (auto simp: command_future.delivered_events_def)
next
  case (ev_take r r' e intr hw posted dn)
  then have "er_popped r = butlast (er_popped r) @ [e]" "r' = r\<lparr>er_popped := butlast (er_popped r)\<rparr>"
    by (auto simp: pop_already_popped_def split: if_splits)
  then have "mset (er_popped r) = add_mset e (mset (er_popped r'))"
    by (metis EventRing.select_convs(2) EventRing.surjective EventRing.update_convs(2) mset.simps(2) mset_append union_mset_add_mset_right add.right_neutral mset.simps(1))
  with ev_take(2) \<open>r' = _\<close> show ?case by (simp add: world_inv_def event_inv_def segment_ok_def)
qed

lemma world_inv_run:
  assumes "trb_lib_ok L" "erdp_lib_ok E" "(event_step L B E try_from)\<^sup>*\<^sup>* s s'" "world_inv L B E try_from s"
  shows "world_inv L B E try_from s'"
  using assms(3,4) by (induction rule: rtranclp_induct) (auto dest: world_inv_step[OF assms(1,2)])

section \<open>Properties\<close>


definition example_erdp_lib :: ErdpLib where
  "example_erdp_lib = \<lparr>erdp_pointer = (\<lambda>r. r AND 0xfffffffffffffff0), erdp_set_pointer = (\<lambda>p r. p OR (r AND 0xf)),
     erdp_clear_busy = (\<lambda>r. r OR 8), erstsz_set = (\<lambda>n r. ucast n), erstba_set = (\<lambda>p r. p)\<rparr>"

definition example_event :: "trb \<Rightarrow> trb + event_allowed" where
  "example_event t =
     (if drop_bit 10 (t ! 3) AND 0x3f = 32
      then Inr (AllowedTransferEvent \<lparr>te_slot_id = ucast (drop_bit 24 (t ! 3)), te_endpoint_id = ucast (drop_bit 16 (t ! 3)) AND 0x1f,
        te_trb_pointer = push_bit 32 (ucast (t ! 1)) OR ucast (t ! 0), te_trb_transfer_length = t ! 2 AND 0xffffff,
        te_completion_code = Inr Success\<rparr>)
      else Inl t)"

lemma example_erdp_lib_ok: "erdp_lib_ok example_erdp_lib"
proof -
  have hi: "(0xfffffffffffffff0 :: u64) = NOT (mask 4)" "(0xf :: u64) = mask 4" by (simp_all add: mask_eq_exp_minus_1)
  have "(p OR (r AND 0xf)) AND 0xfffffffffffffff0 = p" if "take_bit 4 p = 0" for p r :: u64
  proof (rule bit_word_eqI)
    fix n
    assume "n < LENGTH(64)"
    have "\<not> (bit p n \<and> n < 4)" using that by (metis bit_0_eq bit_take_bit_iff bot_apply bot_bool_def)
    then show "bit ((p OR (r AND 0xf)) AND 0xfffffffffffffff0) n = bit p n"
      using \<open>n < LENGTH(64)\<close> unfolding hi by (auto simp: bit_simps)
  qed
  moreover have "(r OR 8) AND 0xfffffffffffffff0 = r AND 0xfffffffffffffff0" for r :: u64
  proof (rule bit_word_eqI)
    fix n
    assume n: "n < LENGTH(64)"
    have "bit (2 ^ 3 :: u64) n \<longleftrightarrow> n = 3" using n by (auto simp: bit_exp_iff simp del: power_numeral)
    then have "bit (8 :: u64) n \<longleftrightarrow> n = 3" by simp
    then show "bit ((r OR 8) AND 0xfffffffffffffff0) n = bit (r AND 0xfffffffffffffff0) n"
      using n unfolding hi by (auto simp: bit_simps)
  qed
  ultimately show ?thesis by (simp add: erdp_lib_ok_def example_erdp_lib_def)
qed

definition example_event_ring :: EventRing where
  "example_event_ring = \<lparr>er_trb_buffer = \<lparr>box_ptr = 4096, box_val = [[0, 0, 0, 0], [0, 0, 0, 0]]\<rparr>, er_popped = [],
     er_event_ring_segment_table = \<lparr>box_ptr = 4160, box_val = \<lparr>erst_data = [4096, 0, 2, 0]\<rparr>\<rparr>,
     er_cycle_bit = True, er_n_pop = 0\<rparr>"


text \<open>The event ring segment table entry gives back the base address and the size it was built from, for every 64-byte
  aligned address; an address that is not 64-byte aligned is refused by the assertion.\<close>

theorem erst_round_trip:
  assumes "bit_field_ok B"
  shows "(if take_bit 6 base = 0
          then \<exists>e. Erst_new B base sz = Some e \<and> ring_segment_base_address e = Some base \<and> ring_segment_size B e = Some sz
          else Erst_new B base sz = None)"
  using Erst_new_spec[OF assms] by (simp add: Erst_new_def set_ring_segment_base_address_def)

theorem erst_round_trip_witness:
  "\<exists>e. Erst_new shift_mask_field 0x123456780040 32 = Some e \<and> ring_segment_base_address e = Some 0x123456780040 \<and>
       ring_segment_size shift_mask_field e = Some 32"
  using erst_round_trip[OF shift_mask_field_ok, of "0x123456780040" "32"] by (simp add: take_bit_eq_mask mask_eq_exp_minus_1)

end
