(* ===== verification/Usb_Descriptor.thy ===== *)
theory Usb_Descriptor
  imports Rust_Prelude
begin

text \<open>
  USB descriptors and setup packets: \<^verbatim>\<open>kernel/src/usb/descriptor.rs\<close>, \<^verbatim>\<open>kernel/src/usb/setup_packet.rs\<close> and the endpoint
  searches of \<^verbatim>\<open>kernel/src/usb/class_driver/keyboard.rs\<close> and \<^verbatim>\<open>mouse.rs\<close>.

  The structures of the descriptors, their type codes and the parts of a setup packet belong to the crate
  \<^verbatim>\<open>usb_host\<close>, which is not part of the repository: they are the parameter \<open>UsbLib\<close>, and \<open>usb_lib_ok\<close> states
  what the crate and the USB 2.0 specification say of them.
\<close>

section \<open>The crate usb_host\<close>

datatype DescriptorType = DT_Device | DT_Configuration | DT_Interface | DT_Endpoint | DT_Other u8

text \<open>The fields of the crate's structures that the kernel reads.\<close>

record DeviceDescriptor =
  b_max_packet_size :: u8

record ConfigurationDescriptor =
  w_total_length :: u16
  b_configuration_value :: u8

record InterfaceDescriptor =
  b_interface_number :: u8
  b_interface_class :: u8
  b_interface_sub_class :: u8
  b_interface_protocol :: u8

record EndpointDescriptor =
  b_endpoint_address :: u8
  bm_attributes :: u8
  w_max_packet_size :: u16
  b_interval :: u8

datatype RequestDirection = HostToDevice | DeviceToHost
datatype RequestKind = Standard | Class | Vendor
datatype RequestRecipient = DeviceRecipient | InterfaceRecipient | EndpointRecipient | OtherRecipient
datatype RequestCode = GetStatus | ClearFeature | SetFeature | SetAddress | GetDescriptor | SetDescriptor
  | GetConfiguration | SetConfiguration | GetInterface | SetInterface | SynchFrame

text \<open>\<^verbatim>\<open>RequestType\<close> and \<^verbatim>\<open>WValue\<close> are wrappers of the bits below; the kernel builds them only with the crate's
  \<^verbatim>\<open>from\<close> and reads them only by transmuting them.\<close>

type_synonym RequestType = u8
type_synonym WValue = u16

record UsbLib =
  ul_descriptor_type :: "u8 \<Rightarrow> DescriptorType option"
  ul_descriptor_code :: "DescriptorType \<Rightarrow> u8"
  ul_device :: "u8 list \<Rightarrow> DeviceDescriptor"
  ul_configuration :: "u8 list \<Rightarrow> ConfigurationDescriptor"
  ul_interface :: "u8 list \<Rightarrow> InterfaceDescriptor"
  ul_endpoint :: "u8 list \<Rightarrow> EndpointDescriptor"
  ul_device_size :: usize
  ul_configuration_size :: usize
  ul_interface_size :: usize
  ul_endpoint_size :: usize
  ul_request_type :: "RequestDirection \<Rightarrow> RequestKind \<Rightarrow> RequestRecipient \<Rightarrow> RequestType"
  ul_request_code :: "RequestCode \<Rightarrow> u8"
  ul_w_value :: "u8 \<Rightarrow> u8 \<Rightarrow> WValue"

text \<open>A 16-bit field of a packed structure: the low byte first.\<close>

definition le16 :: "u8 \<Rightarrow> u8 \<Rightarrow> u16" where
  "le16 lo hi = push_bit 8 (ucast hi) OR ucast lo"

fun direction_bit :: "RequestDirection \<Rightarrow> u8" where
  "direction_bit HostToDevice = 0" | "direction_bit DeviceToHost = 0x80"

fun kind_bits :: "RequestKind \<Rightarrow> u8" where
  "kind_bits Standard = 0" | "kind_bits Class = 0x20" | "kind_bits Vendor = 0x40"

fun recipient_bits :: "RequestRecipient \<Rightarrow> u8" where
  "recipient_bits DeviceRecipient = 0" | "recipient_bits InterfaceRecipient = 1"
| "recipient_bits EndpointRecipient = 2" | "recipient_bits OtherRecipient = 3"

fun request_number :: "RequestCode \<Rightarrow> u8" where
  "request_number GetStatus = 0" | "request_number ClearFeature = 1" | "request_number SetFeature = 3"
| "request_number SetAddress = 5" | "request_number GetDescriptor = 6" | "request_number SetDescriptor = 7"
| "request_number GetConfiguration = 8" | "request_number SetConfiguration = 9" | "request_number GetInterface = 10"
| "request_number SetInterface = 11" | "request_number SynchFrame = 12"

definition usb_lib_ok :: "UsbLib \<Rightarrow> bool" where
  "usb_lib_ok L \<longleftrightarrow>
     (\<forall>b. (ul_descriptor_type L b = Some DT_Configuration \<longleftrightarrow> b = 2) \<and> (ul_descriptor_type L b = Some DT_Interface \<longleftrightarrow> b = 4) \<and>
          (ul_descriptor_type L b = Some DT_Endpoint \<longleftrightarrow> b = 5)) \<and>
     ul_descriptor_code L DT_Device = 1 \<and> ul_descriptor_code L DT_Configuration = 2 \<and>
     ul_device_size L = 18 \<and> ul_configuration_size L = 9 \<and> ul_interface_size L = 9 \<and> ul_endpoint_size L = 7 \<and>
     (\<forall>m. 18 \<le> length m \<longrightarrow> ul_device L m = \<lparr>b_max_packet_size = m ! 7\<rparr>) \<and>
     (\<forall>m. 9 \<le> length m \<longrightarrow> ul_configuration L m = \<lparr>w_total_length = le16 (m ! 2) (m ! 3), b_configuration_value = m ! 5\<rparr>) \<and>
     (\<forall>m. 9 \<le> length m \<longrightarrow> ul_interface L m =
        \<lparr>b_interface_number = m ! 2, b_interface_class = m ! 5, b_interface_sub_class = m ! 6, b_interface_protocol = m ! 7\<rparr>) \<and>
     (\<forall>m. 7 \<le> length m \<longrightarrow> ul_endpoint L m =
        \<lparr>b_endpoint_address = m ! 2, bm_attributes = m ! 3, w_max_packet_size = le16 (m ! 4) (m ! 5), b_interval = m ! 6\<rparr>) \<and>
     (\<forall>d k r. ul_request_type L d k r = direction_bit d OR kind_bits k OR recipient_bits r) \<and>
     (\<forall>c. ul_request_code L c = request_number c) \<and>
     (\<forall>lo hi. ul_w_value L lo hi = le16 lo hi)"

section \<open>Descriptors\<close>

datatype DescriptorRef =
    Configuration ConfigurationDescriptor
  | Interface InterfaceDescriptor
  | Endpoint EndpointDescriptor
  | Unknown

text \<open>The owned \<^verbatim>\<open>Descriptor\<close> has the same variants, with the structures in place of the references.\<close>

type_synonym Descriptor = DescriptorRef

fun descriptor_from :: "DescriptorRef \<Rightarrow> Descriptor" where
  "descriptor_from (Configuration configuration) = Configuration configuration"
| "descriptor_from (Interface interface) = Interface interface"
| "descriptor_from (Endpoint endpoint) = Endpoint endpoint"
| "descriptor_from Unknown = Unknown"

text \<open>\<^verbatim>\<open>DescriptorRef::new\<close> casts the pointer of the slice \<open>data\<close> to a structure, which may be longer than the slice.
  \<open>mem\<close> is what follows the pointer in the buffer; a structure that does not fit there is
  undefined behaviour, which the model does not let return.\<close>

definition DescriptorRef_new :: "UsbLib \<Rightarrow> u8 list \<Rightarrow> u8 list \<Rightarrow> DescriptorRef option" where
  "DescriptorRef_new L data mem = do {
     ty \<leftarrow> get_idx data 1;
     (case ul_descriptor_type L ty of
        Some DT_Configuration \<Rightarrow> do { rassert (ul_configuration_size L \<le> length mem); Some (Configuration (ul_configuration L mem)) }
      | Some DT_Interface \<Rightarrow> do { rassert (ul_interface_size L \<le> length mem); Some (Interface (ul_interface L mem)) }
      | Some DT_Endpoint \<Rightarrow> do { rassert (ul_endpoint_size L \<le> length mem); Some (Endpoint (ul_endpoint L mem)) }
      | _ \<Rightarrow> Some Unknown)
   }"

record DescriptorIter =
  it_data :: "u8 list"
  it_read_bytes :: usize

definition DescriptorIter_new :: "u8 list \<Rightarrow> DescriptorIter" where
  "DescriptorIter_new data = \<lparr>it_data = data, it_read_bytes = 0\<rparr>"

definition desc_next :: "UsbLib \<Rightarrow> DescriptorIter \<Rightarrow> (DescriptorIter \<times> DescriptorRef option) option" where
  "desc_next L it =
     (if it_read_bytes it \<ge> length (it_data it) then Some (it, None)
      else do {
        b \<leftarrow> get_idx (it_data it) (it_read_bytes it);
        let next_descriptor_length = unat b;
        end_index \<leftarrow> uadd (it_read_bytes it) next_descriptor_length;
        data \<leftarrow> slice (it_data it) (it_read_bytes it) end_index;
        descriptor \<leftarrow> DescriptorRef_new L data (drop (it_read_bytes it) (it_data it));
        Some (it\<lparr>it_read_bytes := end_index\<rparr>, Some descriptor)
      })"

text \<open>Every item takes at least the two bytes of its header.\<close>

lemma desc_next_progress:
  assumes "desc_next L it = Some (it', Some d)"
  shows "it_read_bytes it + 2 \<le> it_read_bytes it'" "it_read_bytes it' \<le> length (it_data it)" "it_data it' = it_data it"
proof -
  from assms obtain b e s where b: "it_read_bytes it < length (it_data it)" "b = it_data it ! it_read_bytes it"
    and e: "e = it_read_bytes it + unat b" and s: "slice (it_data it) (it_read_bytes it) e = Some s"
    and d: "DescriptorRef_new L s (drop (it_read_bytes it) (it_data it)) = Some d" and it': "it' = it\<lparr>it_read_bytes := e\<rparr>"
    by (auto simp: desc_next_def rust_simps bind_eq_Some_conv split: if_splits)
  from d have "1 < length s" by (auto simp: DescriptorRef_new_def bind_eq_Some_conv rust_simps)
  with s it' e show "it_read_bytes it + 2 \<le> it_read_bytes it'" "it_read_bytes it' \<le> length (it_data it)" "it_data it' = it_data it"
    by (auto simp: slice_def split: if_splits)
qed

lemma desc_next_decreases:
  "desc_next L it = Some (it', Some d) \<Longrightarrow> length (it_data it') - it_read_bytes it' < length (it_data it) - it_read_bytes it"
  using desc_next_progress[of L it it' d] by auto

text \<open>\<^verbatim>\<open>for desc in iter\<close> with a body that goes on with a state (\<open>Inl\<close>) or returns from the function (\<open>Inr\<close>).\<close>

function desc_loop :: "UsbLib \<Rightarrow> ('s \<Rightarrow> DescriptorRef \<Rightarrow> 's + 'r) \<Rightarrow> 's \<Rightarrow> DescriptorIter \<Rightarrow> ('s + 'r) option" where
  "desc_loop L f s it =
     (case desc_next L it of
        None \<Rightarrow> None
      | Some (it', None) \<Rightarrow> Some (Inl s)
      | Some (it', Some d) \<Rightarrow> (case f s d of Inl s' \<Rightarrow> desc_loop L f s' it' | Inr r \<Rightarrow> Some (Inr r)))"
  by pat_completeness auto
termination
  by (relation "measure (\<lambda>(L, f, s, it). length (it_data it) - it_read_bytes it)") (auto dest: desc_next_decreases)

declare desc_loop.simps [simp del]

text \<open>\<^verbatim>\<open>DescriptorIter::new(buf).map(Into::into).collect()\<close>.\<close>

definition collect_step :: "Descriptor list \<Rightarrow> DescriptorRef \<Rightarrow> Descriptor list + unit" where
  "collect_step ds d = Inl (ds @ [descriptor_from d])"

definition desc_collect :: "UsbLib \<Rightarrow> u8 list \<Rightarrow> Descriptor list option" where
  "desc_collect L buf =
     (case desc_loop L collect_step [] (DescriptorIter_new buf) of
        Some (Inl ds) \<Rightarrow> Some ds
      | _ \<Rightarrow> None)"

record HubDescriptor =
  b_desc_length :: u8
  b_descriptor_type :: u8
  b_nbr_ports :: u8
  w_hub_characteristics :: u16
  b_pwr_on_2_pwr_good :: u8
  b_hub_contr_current :: u8

definition HubDescriptor_default :: HubDescriptor where
  "HubDescriptor_default =
     \<lparr>b_desc_length = 0, b_descriptor_type = 0, b_nbr_ports = 0, w_hub_characteristics = 0, b_pwr_on_2_pwr_good = 0,
      b_hub_contr_current = 0\<rparr>"

section \<open>Setup packets\<close>

record SetupPacket =
  sp_request_type :: RequestType
  sp_request :: RequestCode
  sp_value :: WValue
  sp_index :: u16
  sp_length :: u16

definition setup_descriptor :: "UsbLib \<Rightarrow> DescriptorType \<Rightarrow> u8 \<Rightarrow> u16 \<Rightarrow> SetupPacket" where
  "setup_descriptor L descriptor_type descriptor_index len =
     \<lparr>sp_request_type = ul_request_type L DeviceToHost Standard DeviceRecipient, sp_request = GetDescriptor,
      sp_value = ul_w_value L descriptor_index (ul_descriptor_code L descriptor_type), sp_index = 0, sp_length = len\<rparr>"

record SetupPacketRaw =
  raw_request_type :: u8
  raw_request :: u8
  raw_value :: u16
  raw_index :: u16
  raw_length :: u16

definition setup_packet_raw :: "UsbLib \<Rightarrow> SetupPacket \<Rightarrow> SetupPacketRaw" where
  "setup_packet_raw L p =
     \<lparr>raw_request_type = sp_request_type p, raw_request = ul_request_code L (sp_request p), raw_value = sp_value p,
      raw_index = sp_index p, raw_length = sp_length p\<rparr>"

definition setup_packet_eq :: "UsbLib \<Rightarrow> SetupPacket \<Rightarrow> SetupPacket \<Rightarrow> bool" where
  "setup_packet_eq L a b \<longleftrightarrow> setup_packet_raw L a = setup_packet_raw L b"

section \<open>The endpoint of a keyboard or a mouse\<close>

record EndpointInfo =
  ei_interface_num :: u8
  ei_endpoint :: EndpointDescriptor

fun kbd_step :: "u8 option \<Rightarrow> DescriptorRef \<Rightarrow> u8 option + EndpointInfo" where
  "kbd_step interface_found (Interface idesc) =
     Inl (if b_interface_class idesc = 3 \<and> b_interface_sub_class idesc = 1 \<and> b_interface_protocol idesc = 1
          then Some (b_interface_number idesc) else None)"
| "kbd_step interface_found (Endpoint edesc) =
     (if (drop_bit 7 (b_endpoint_address edesc), bm_attributes edesc AND 3, w_max_packet_size edesc) = (1, 3, 8)
      then (case interface_found of
              Some interface_num \<Rightarrow> Inr \<lparr>ei_interface_num = interface_num, ei_endpoint = edesc\<rparr>
            | None \<Rightarrow> Inl interface_found)
      else Inl interface_found)"
| "kbd_step interface_found _ = Inl interface_found"

definition ep_for_bootkbd :: "UsbLib \<Rightarrow> u8 list \<Rightarrow> EndpointInfo option option" where
  "ep_for_bootkbd L buf = do {
     r \<leftarrow> desc_loop L kbd_step None (DescriptorIter_new buf);
     Some (case r of Inl _ \<Rightarrow> None | Inr info \<Rightarrow> Some info)
   }"

fun mouse_step :: "u8 option \<Rightarrow> DescriptorRef \<Rightarrow> u8 option + EndpointInfo" where
  "mouse_step interface_found (Interface idesc) =
     Inl (if b_interface_class idesc = 3 \<and> b_interface_sub_class idesc = 1 \<and> b_interface_protocol idesc = 2
          then Some (b_interface_number idesc) else None)"
| "mouse_step interface_found (Endpoint edesc) =
     (if (drop_bit 7 (b_endpoint_address edesc), bm_attributes edesc AND 3) = (1, 3)
      then (case interface_found of
              Some interface_num \<Rightarrow> Inr \<lparr>ei_interface_num = interface_num, ei_endpoint = edesc\<rparr>
            | None \<Rightarrow> Inl interface_found)
      else Inl interface_found)"
| "mouse_step interface_found _ = Inl interface_found"

definition ep_for_mouse :: "UsbLib \<Rightarrow> u8 list \<Rightarrow> EndpointInfo option option" where
  "ep_for_mouse L buf = do {
     r \<leftarrow> desc_loop L mouse_step None (DescriptorIter_new buf);
     Some (case r of Inl _ \<Rightarrow> None | Inr info \<Rightarrow> Some info)
   }"


section \<open>Iterating over well-formed descriptors\<close>

text \<open>The loop over a list of descriptors that are there already.\<close>

fun list_loop :: "('s \<Rightarrow> 'd \<Rightarrow> 's + 'r) \<Rightarrow> 's \<Rightarrow> 'd list \<Rightarrow> 's + 'r" where
  "list_loop f s [] = Inl s"
| "list_loop f s (d # ds) = (case f s d of Inl s' \<Rightarrow> list_loop f s' ds | Inr r \<Rightarrow> Inr r)"

lemma descriptor_from_id [simp]: "descriptor_from d = d"
  by (cases d) simp_all

lemma list_loop_snoc: "list_loop collect_step acc xs = Inl (acc @ xs)"
  by (induction xs arbitrary: acc) (simp_all add: collect_step_def)

text \<open>What a well-formed descriptor of the USB 2.0 specification, chapter 9.6, decodes to.\<close>

definition decode_descriptor :: "u8 list \<Rightarrow> DescriptorRef" where
  "decode_descriptor d =
     (if d ! 1 = 2 then Configuration \<lparr>w_total_length = le16 (d ! 2) (d ! 3), b_configuration_value = d ! 5\<rparr>
      else if d ! 1 = 4 then Interface \<lparr>b_interface_number = d ! 2, b_interface_class = d ! 5, b_interface_sub_class = d ! 6,
        b_interface_protocol = d ! 7\<rparr>
      else if d ! 1 = 5 then Endpoint \<lparr>b_endpoint_address = d ! 2, bm_attributes = d ! 3, w_max_packet_size = le16 (d ! 4) (d ! 5),
        b_interval = d ! 6\<rparr>
      else Unknown)"

definition descriptor_block :: "u8 list \<Rightarrow> bool" where
  "descriptor_block d \<longleftrightarrow> 2 \<le> length d \<and> length d < 256 \<and> d ! 0 = of_nat (length d) \<and>
     (d ! 1 \<in> {2, 4} \<longrightarrow> 9 \<le> length d) \<and> (d ! 1 = 5 \<longrightarrow> 7 \<le> length d)"

lemma usb_libD:
  assumes "usb_lib_ok L"
  shows "ul_descriptor_type L b = Some DT_Configuration \<longleftrightarrow> b = 2" "ul_descriptor_type L b = Some DT_Interface \<longleftrightarrow> b = 4"
    "ul_descriptor_type L b = Some DT_Endpoint \<longleftrightarrow> b = 5"
    "ul_device_size L = 18" "ul_configuration_size L = 9" "ul_interface_size L = 9" "ul_endpoint_size L = 7"
    "9 \<le> length m \<Longrightarrow> ul_configuration L m = \<lparr>w_total_length = le16 (m ! 2) (m ! 3), b_configuration_value = m ! 5\<rparr>"
    "9 \<le> length m \<Longrightarrow> ul_interface L m =
      \<lparr>b_interface_number = m ! 2, b_interface_class = m ! 5, b_interface_sub_class = m ! 6, b_interface_protocol = m ! 7\<rparr>"
    "7 \<le> length m \<Longrightarrow> ul_endpoint L m =
      \<lparr>b_endpoint_address = m ! 2, bm_attributes = m ! 3, w_max_packet_size = le16 (m ! 4) (m ! 5), b_interval = m ! 6\<rparr>"
    "ul_request_type L d k r = direction_bit d OR kind_bits k OR recipient_bits r" "ul_request_code L c = request_number c"
    "ul_w_value L lo hi = le16 lo hi" "ul_descriptor_code L DT_Device = 1" "ul_descriptor_code L DT_Configuration = 2"
  using assms unfolding usb_lib_ok_def by blast+

lemma usb_lib_types:
  assumes "usb_lib_ok L"
  shows "ul_descriptor_type L 2 = Some DT_Configuration" "ul_descriptor_type L 4 = Some DT_Interface" "ul_descriptor_type L 5 = Some DT_Endpoint"
  by (simp_all add: usb_libD[OF assms])

lemma DescriptorRef_new_block:
  assumes L: "usb_lib_ok L" and d: "descriptor_block d"
  shows "DescriptorRef_new L d (d @ rest) = Some (decode_descriptor d)"
proof -
  have nth: "(d @ rest) ! k = d ! k" if "k < length d" for k using that by (simp add: nth_append)
  note ty = usb_libD(1-3)[OF L, of "d ! 1"]
  consider "d ! 1 = 2" | "d ! 1 = 4" | "d ! 1 = 5" | "d ! 1 \<notin> {2, 4, 5}" by blast
  then show ?thesis
  proof cases
    case 4
    then have "DescriptorRef_new L d (d @ rest) = Some Unknown"
      using d ty by (auto simp: DescriptorRef_new_def descriptor_block_def split: option.split DescriptorType.split)
    with 4 show ?thesis by (simp add: decode_descriptor_def)
  qed (use d in \<open>simp_all add: DescriptorRef_new_def descriptor_block_def decode_descriptor_def usb_lib_types[OF L] usb_libD(4-10)[OF L] nth\<close>)
qed

lemma desc_next_block:
  assumes L: "usb_lib_ok L" and d: "descriptor_block d" and len: "length (pre @ d @ rest) < usize_limit"
  shows "desc_next L \<lparr>it_data = pre @ d @ rest, it_read_bytes = length pre\<rparr> =
    Some (\<lparr>it_data = (pre @ d) @ rest, it_read_bytes = length (pre @ d)\<rparr>, Some (decode_descriptor d))"
proof -
  have "(d @ rest) ! 0 = d ! 0" "d \<noteq> []" using d by (auto simp: nth_append descriptor_block_def)
  moreover have "unat (d ! 0) = length d" using d by (simp add: descriptor_block_def unat_of_nat)
  ultimately show ?thesis
    using DescriptorRef_new_block[OF L d, of rest] len by (simp add: desc_next_def nth_append)
qed

lemma desc_loop_blocks:
  assumes L: "usb_lib_ok L"
  shows "\<forall>d \<in> set ds. descriptor_block d \<Longrightarrow> length (pre @ concat ds @ rest) < usize_limit \<Longrightarrow>
    desc_loop L f s \<lparr>it_data = pre @ concat ds @ rest, it_read_bytes = length pre\<rparr> =
      (case list_loop f s (map decode_descriptor ds) of
         Inl s' \<Rightarrow> desc_loop L f s' \<lparr>it_data = (pre @ concat ds) @ rest, it_read_bytes = length (pre @ concat ds)\<rparr>
       | Inr r \<Rightarrow> Some (Inr r))"
proof (induction ds arbitrary: pre s)
  case (Cons d ds)
  have next': "desc_next L \<lparr>it_data = pre @ concat (d # ds) @ rest, it_read_bytes = length pre\<rparr> =
      Some (\<lparr>it_data = (pre @ d) @ concat ds @ rest, it_read_bytes = length (pre @ d)\<rparr>, Some (decode_descriptor d))"
    using desc_next_block[OF L, of d pre "concat ds @ rest"] Cons.prems by simp
  have "desc_loop L f s' \<lparr>it_data = (pre @ d) @ concat ds @ rest, it_read_bytes = length (pre @ d)\<rparr> =
      (case list_loop f s' (map decode_descriptor ds) of
         Inl s'' \<Rightarrow> desc_loop L f s'' \<lparr>it_data = ((pre @ d) @ concat ds) @ rest, it_read_bytes = length ((pre @ d) @ concat ds)\<rparr>
       | Inr r \<Rightarrow> Some (Inr r))" for s'
    using Cons.prems by (intro Cons.IH) auto
  then show ?case by (subst desc_loop.simps, simp only: next') (simp split: sum.split)
qed simp

text \<open>At the end of the buffer the loop ends; at a descriptor shorter than its header it panics.\<close>

lemma desc_loop_end: "desc_loop L f s \<lparr>it_data = data @ [], it_read_bytes = length data\<rparr> = Some (Inl s)"
  by (simp add: desc_loop.simps[of L f s] desc_next_def)

lemma desc_loop_short:
  assumes "unat b < 2" "length (data @ b # rest) < usize_limit"
  shows "desc_loop L f s \<lparr>it_data = data @ b # rest, it_read_bytes = length data\<rparr> = None"
proof -
  have "get_idx (take (unat b) (b # rest)) 1 = None" using assms(1) by simp
  then have "desc_next L \<lparr>it_data = data @ b # rest, it_read_bytes = length data\<rparr> = None"
    using assms by (auto simp: desc_next_def DescriptorRef_new_def nth_append slice_def)
  then show ?thesis by (simp add: desc_loop.simps[of L f s])
qed

lemma desc_collect_blocks:
  assumes "usb_lib_ok L" "\<forall>d \<in> set ds. descriptor_block d" "length (concat ds) < usize_limit"
  shows "desc_collect L (concat ds) = Some (map decode_descriptor ds)"
  using desc_loop_blocks[OF assms(1,2), of "[]" "[]" collect_step "[]"] assms(3)
    desc_loop_end[of L collect_step "map decode_descriptor ds" "concat ds"]
  by (simp add: desc_collect_def DescriptorIter_new_def list_loop_snoc)

text \<open>Whatever the buffer is: when the whole of it can be collected, a loop over it is the loop over the list.\<close>

lemma desc_loop_collect:
  fixes f :: "'s \<Rightarrow> DescriptorRef \<Rightarrow> 's + 'r"
  shows "desc_loop L collect_step acc it = Some (Inl ds) \<Longrightarrow>
   \<exists>xs. ds = acc @ xs \<and> (\<forall>s. desc_loop L f s it = Some (list_loop f s xs))"
proof (induction "length (it_data it) - it_read_bytes it" arbitrary: acc it rule: less_induct)
  case less
  from less.prems obtain it' d where "desc_next L it = Some (it', d)"
    by (subst (asm) desc_loop.simps) (auto split: option.splits)
  then consider "desc_next L it = Some (it', None)" | x where "desc_next L it = Some (it', Some x)" by (cases d) auto
  then show ?case
  proof cases
    case 1
    then show ?thesis using less.prems by (intro exI[of _ "[]"]) (simp add: desc_loop.simps[of _ _ _ it])
  next
    case (2 x)
    then have "desc_loop L collect_step (acc @ [x]) it' = Some (Inl ds)"
      using less.prems by (subst (asm) desc_loop.simps) (simp add: collect_step_def)
    from less.hyps[OF desc_next_decreases[OF 2] this] obtain xs where
      "ds = acc @ [x] @ xs" "\<forall>s. desc_loop L f s it' = Some (list_loop f s xs)" by auto
    with 2 show ?thesis by (intro exI[of _ "x # xs"]) (auto simp: desc_loop.simps[of _ _ _ it] split: sum.split)
  qed
qed

lemma desc_loop_of_collect:
  assumes "desc_collect L buf = Some ds"
  shows "desc_loop L f s (DescriptorIter_new buf) = Some (list_loop f s ds)"
  using assms desc_loop_collect[of L "[]" "DescriptorIter_new buf" ds f]
  by (auto simp: desc_collect_def split: option.splits sum.splits)


section \<open>The search for an endpoint\<close>

text \<open>The endpoints of a configuration, each with the interface it belongs to: the last one before it.\<close>

fun endpoints_of :: "InterfaceDescriptor option \<Rightarrow> DescriptorRef list \<Rightarrow> (InterfaceDescriptor \<times> EndpointDescriptor) list" where
  "endpoints_of g [] = []"
| "endpoints_of g (Interface i # ds) = endpoints_of (Some i) ds"
| "endpoints_of g (Endpoint e # ds) = (case g of Some i \<Rightarrow> (i, e) # endpoints_of g ds | None \<Rightarrow> endpoints_of g ds)"
| "endpoints_of g (d # ds) = endpoints_of g ds"

text \<open>What the two searches have in common: an interface that is wanted is remembered, another one makes the search
  forget it, and the first fitting endpoint of a remembered interface is the result.\<close>

locale endpoint_search =
  fixes step :: "u8 option \<Rightarrow> DescriptorRef \<Rightarrow> u8 option + EndpointInfo"
    and wanted :: "InterfaceDescriptor \<Rightarrow> bool"
    and fits :: "EndpointDescriptor \<Rightarrow> bool"
  assumes step_interface: "step found (Interface i) = Inl (if wanted i then Some (b_interface_number i) else None)"
    and step_endpoint: "step found (Endpoint e) =
      (case found of Some n \<Rightarrow> if fits e then Inr \<lparr>ei_interface_num = n, ei_endpoint = e\<rparr> else Inl found | None \<Rightarrow> Inl found)"
    and step_other: "step found (Configuration c) = Inl found" "step found Unknown = Inl found"
begin

definition first_fit :: "(InterfaceDescriptor \<times> EndpointDescriptor) list \<Rightarrow> EndpointInfo option" where
  "first_fit ps = map_option (\<lambda>(i, e). \<lparr>ei_interface_num = b_interface_number i, ei_endpoint = e\<rparr>)
     (find (\<lambda>(i, e). wanted i \<and> fits e) ps)"

definition remembered :: "InterfaceDescriptor option \<Rightarrow> u8 option" where
  "remembered g = (case g of Some i \<Rightarrow> if wanted i then Some (b_interface_number i) else None | None \<Rightarrow> None)"

lemma search_list:
  "(case list_loop step (remembered g) ds of Inl _ \<Rightarrow> None | Inr info \<Rightarrow> Some info) = first_fit (endpoints_of g ds)"
proof (induction g ds rule: endpoints_of.induct)
  case (2 g i ds)
  then show ?case by (simp add: step_interface remembered_def)
next
  case (3 g e ds)
  then show ?case by (auto simp: step_endpoint remembered_def first_fit_def split: option.splits)
qed (simp_all add: step_other first_fit_def)

lemma search_collected:
  assumes "desc_collect L buf = Some ds"
  shows "Option.bind (desc_loop L step None (DescriptorIter_new buf)) (\<lambda>r. Some (case r of Inl _ \<Rightarrow> None | Inr info \<Rightarrow> Some info)) =
    Some (first_fit (endpoints_of None ds))"
  using search_list[of None ds] by (simp add: desc_loop_of_collect[OF assms] remembered_def)

end

definition is_boot_keyboard :: "InterfaceDescriptor \<Rightarrow> bool" where
  "is_boot_keyboard i \<longleftrightarrow> b_interface_class i = 3 \<and> b_interface_sub_class i = 1 \<and> b_interface_protocol i = 1"

definition is_boot_mouse :: "InterfaceDescriptor \<Rightarrow> bool" where
  "is_boot_mouse i \<longleftrightarrow> b_interface_class i = 3 \<and> b_interface_sub_class i = 1 \<and> b_interface_protocol i = 2"

definition is_interrupt_in :: "EndpointDescriptor \<Rightarrow> bool" where
  "is_interrupt_in e \<longleftrightarrow> drop_bit 7 (b_endpoint_address e) = 1 \<and> bm_attributes e AND 3 = 3"

interpretation keyboard_search: endpoint_search kbd_step is_boot_keyboard "\<lambda>e. is_interrupt_in e \<and> w_max_packet_size e = 8"
  by unfold_locales (auto simp: is_boot_keyboard_def is_interrupt_in_def split: option.split)

interpretation mouse_search: endpoint_search mouse_step is_boot_mouse is_interrupt_in
  by unfold_locales (auto simp: is_boot_mouse_def is_interrupt_in_def split: option.split)

lemma ep_for_blocks:
  assumes "usb_lib_ok L" "\<forall>d \<in> set ds. descriptor_block d" "length (concat ds) < usize_limit"
  shows "ep_for_bootkbd L (concat ds) =
      Some (map_option (\<lambda>(i, e). \<lparr>ei_interface_num = b_interface_number i, ei_endpoint = e\<rparr>)
        (find (\<lambda>(i, e). is_boot_keyboard i \<and> is_interrupt_in e \<and> w_max_packet_size e = 8)
          (endpoints_of None (map decode_descriptor ds))))"
    and "ep_for_mouse L (concat ds) =
      Some (map_option (\<lambda>(i, e). \<lparr>ei_interface_num = b_interface_number i, ei_endpoint = e\<rparr>)
        (find (\<lambda>(i, e). is_boot_mouse i \<and> is_interrupt_in e) (endpoints_of None (map decode_descriptor ds))))"
  using keyboard_search.search_collected[OF desc_collect_blocks[OF assms]] mouse_search.search_collected[OF desc_collect_blocks[OF assms]]
  by (simp_all add: ep_for_bootkbd_def ep_for_mouse_def keyboard_search.first_fit_def mouse_search.first_fit_def)

section \<open>An instance of the crate, and an example configuration\<close>

definition example_usb_lib :: UsbLib where
  "example_usb_lib =
     \<lparr>ul_descriptor_type = (\<lambda>b. if b = 1 then Some DT_Device else if b = 2 then Some DT_Configuration
        else if b = 4 then Some DT_Interface else if b = 5 then Some DT_Endpoint else if b \<in> {3, 6, 7, 8} then Some (DT_Other b) else None),
      ul_descriptor_code = (\<lambda>t. case t of DT_Device \<Rightarrow> 1 | DT_Configuration \<Rightarrow> 2 | DT_Interface \<Rightarrow> 4 | DT_Endpoint \<Rightarrow> 5 | DT_Other b \<Rightarrow> b),
      ul_device = (\<lambda>m. \<lparr>b_max_packet_size = m ! 7\<rparr>),
      ul_configuration = (\<lambda>m. \<lparr>w_total_length = le16 (m ! 2) (m ! 3), b_configuration_value = m ! 5\<rparr>),
      ul_interface = (\<lambda>m. \<lparr>b_interface_number = m ! 2, b_interface_class = m ! 5, b_interface_sub_class = m ! 6, b_interface_protocol = m ! 7\<rparr>),
      ul_endpoint = (\<lambda>m. \<lparr>b_endpoint_address = m ! 2, bm_attributes = m ! 3, w_max_packet_size = le16 (m ! 4) (m ! 5), b_interval = m ! 6\<rparr>),
      ul_device_size = 18, ul_configuration_size = 9, ul_interface_size = 9, ul_endpoint_size = 7,
      ul_request_type = (\<lambda>d k r. direction_bit d OR kind_bits k OR recipient_bits r),
      ul_request_code = request_number, ul_w_value = le16\<rparr>"

lemma example_usb_lib_ok: "usb_lib_ok example_usb_lib"
  by (simp add: usb_lib_ok_def example_usb_lib_def)

text \<open>The configuration of a boot keyboard: configuration, interface, HID and endpoint descriptor.\<close>

definition example_blocks :: "u8 list list" where
  "example_blocks = [[9, 2, 34, 0, 1, 1, 0, 0xa0, 50], [9, 4, 0, 0, 1, 3, 1, 1, 0], [9, 0x21, 0x11, 1, 0, 1, 0x22, 63, 0], [7, 5, 0x81, 3, 8, 0, 10]]"

lemma example_blocks_ok: "\<forall>d \<in> set example_blocks. descriptor_block d" "length (concat example_blocks) < 2 ^ 64"
  by (simp_all add: example_blocks_def descriptor_block_def)

definition example_info :: EndpointInfo where
  "example_info = \<lparr>ei_interface_num = 0, ei_endpoint = \<lparr>b_endpoint_address = 0x81, bm_attributes = 3, w_max_packet_size = 8, b_interval = 10\<rparr>\<rparr>"

lemma example_keyboard_found: "ep_for_bootkbd example_usb_lib (concat example_blocks) = Some (Some example_info)"
  using ep_for_blocks(1)[OF example_usb_lib_ok example_blocks_ok(1)] example_blocks_ok(2)
  by (simp add: example_blocks_def decode_descriptor_def is_boot_keyboard_def is_interrupt_in_def le16_def example_info_def)

section \<open>Properties\<close>

text \<open>C33: Iterating over a buffer that is a sequence of well-formed descriptors never panics and gives exactly these descriptors,
  decoded field by field as the USB specification lays them out and in their order; descriptors of other kinds come
  out as unknown and are stepped over by their length.\<close>

theorem descriptor_iter_round_trip:
  assumes "usb_lib_ok L" "\<forall>d \<in> set ds. descriptor_block d" "length (concat ds) < 2 ^ 64"
  shows "desc_collect L (concat ds) = Some (map decode_descriptor ds)"
  using desc_collect_blocks assms by simp

theorem descriptor_iter_round_trip_witness:
  "desc_collect example_usb_lib (concat example_blocks) = Some (map decode_descriptor example_blocks) \<and>
   map decode_descriptor example_blocks ! 2 = Unknown"
  using descriptor_iter_round_trip[OF example_usb_lib_ok example_blocks_ok]
  by (simp add: example_blocks_def decode_descriptor_def)

text \<open>C35: The searches for the report endpoint, on a configuration of well-formed descriptors, return the first endpoint
  that fits together with the interface it belongs to: for a keyboard an interrupt IN endpoint of eight byte packets of a
  boot keyboard interface, for a mouse any interrupt IN endpoint of a boot mouse interface; and they return
  \<^verbatim>\<open>None\<close> when there is no such endpoint.\<close>

theorem endpoint_search_first:
  assumes "usb_lib_ok L" "\<forall>d \<in> set ds. descriptor_block d" "length (concat ds) < 2 ^ 64"
  shows "ep_for_bootkbd L (concat ds) =
      Some (map_option (\<lambda>(i, e). \<lparr>ei_interface_num = b_interface_number i, ei_endpoint = e\<rparr>)
        (find (\<lambda>(i, e). is_boot_keyboard i \<and> is_interrupt_in e \<and> w_max_packet_size e = 8)
          (endpoints_of None (map decode_descriptor ds)))) \<and>
    ep_for_mouse L (concat ds) =
      Some (map_option (\<lambda>(i, e). \<lparr>ei_interface_num = b_interface_number i, ei_endpoint = e\<rparr>)
        (find (\<lambda>(i, e). is_boot_mouse i \<and> is_interrupt_in e) (endpoints_of None (map decode_descriptor ds))))"
  using ep_for_blocks assms by simp

theorem endpoint_search_first_witness:
  "ep_for_bootkbd example_usb_lib (concat example_blocks) =
     Some (Some \<lparr>ei_interface_num = 0, ei_endpoint = \<lparr>b_endpoint_address = 0x81, bm_attributes = 3, w_max_packet_size = 8, b_interval = 10\<rparr>\<rparr>) \<and>
   ep_for_mouse example_usb_lib (concat example_blocks) = Some None"
  using endpoint_search_first[OF example_usb_lib_ok example_blocks_ok]
  by (simp add: example_blocks_def decode_descriptor_def is_boot_keyboard_def is_boot_mouse_def is_interrupt_in_def le16_def)

text \<open>A descriptor whose length byte is 0 or 1 makes the iteration panic, whatever follows it: the length comes from the
  device and is used as the bound of a slice whose second byte is then read.\<close>

theorem descriptor_short_panics:
  assumes "usb_lib_ok L" "\<forall>d \<in> set ds. descriptor_block d" "unat b < 2" "length (concat ds @ b # rest) < 2 ^ 64"
  shows "desc_collect L (concat ds @ b # rest) = None"
  using desc_loop_blocks[OF assms(1,2), of "[]" "b # rest" collect_step "[]"] assms(3,4)
    desc_loop_short[OF assms(3), of "concat ds" rest L collect_step "map decode_descriptor ds"]
  by (simp add: desc_collect_def DescriptorIter_new_def list_loop_snoc)


theorem descriptor_short_panics_witness:
  "desc_collect example_usb_lib (concat example_blocks @ 0 # [5, 0x81]) = None"
  by (rule descriptor_short_panics[OF example_usb_lib_ok example_blocks_ok(1)]) (simp_all add: example_blocks_def)

end
