(* ===== verification/Class_Driver.thy ===== *)
theory Class_Driver
  imports Usb_Descriptor
begin

text \<open>
  The driver for devices that only send reports, \<^verbatim>\<open>kernel/src/usb/class_driver.rs\<close>, and its two instances,
  \<^verbatim>\<open>keyboard.rs\<close> and \<^verbatim>\<open>mouse.rs\<close>: a state machine per device, driven by control transfers, and the table of the
  devices of a driver.

  The host of a device is a trait object: the record \<open>UsbHost\<close> has the trait's methods, acting on the state \<open>'w\<close>
  of everything outside the driver. An awaited call is one step of that state, which covers whatever the other tasks do
  while it waits. A call gets the buffer and returns the buffer as it is afterwards (the empty list when there is none);
  the endpoint argument is not changed by the only host there is, so it is passed by value.
\<close>

section \<open>Endpoints and the host\<close>

datatype TransferType = Control | Isochronous | Bulk | Interrupt
datatype Direction = Out | In
datatype TransferError = Retry string | Permanent string
datatype DriverError = DriverRetry u8 string | DriverPermanent u8 string

record Endpoint =
  ep_address :: u8
  ep_endpoint_num :: u8
  ep_interface_num :: u8
  ep_transfer_type :: TransferType
  ep_direction :: Direction
  ep_max_packet_size :: u16
  ep_in_toggle :: bool
  ep_out_toggle :: bool

definition Endpoint_new :: "u8 \<Rightarrow> u8 \<Rightarrow> u8 \<Rightarrow> TransferType \<Rightarrow> Direction \<Rightarrow> u16 \<Rightarrow> Endpoint" where
  "Endpoint_new address endpoint_num interface_num transfer_type direction max_packet_size =
     \<lparr>ep_address = address, ep_endpoint_num = endpoint_num, ep_interface_num = interface_num, ep_transfer_type = transfer_type,
      ep_direction = direction, ep_max_packet_size = max_packet_size, ep_in_toggle = False, ep_out_toggle = False\<rparr>"

definition set_in_toggle :: "bool \<Rightarrow> Endpoint \<Rightarrow> Endpoint" where
  "set_in_toggle toggle ep = ep\<lparr>ep_in_toggle := toggle\<rparr>"

definition set_out_toggle :: "bool \<Rightarrow> Endpoint \<Rightarrow> Endpoint" where
  "set_out_toggle toggle ep = ep\<lparr>ep_out_toggle := toggle\<rparr>"

text \<open>\<open>uh_uninit\<close> is what an uninitialised buffer of a given size happens to hold.\<close>

record 'w UsbHost =
  uh_control_transfer :: "Endpoint \<Rightarrow> RequestType \<Rightarrow> RequestCode \<Rightarrow> WValue \<Rightarrow> u16 \<Rightarrow> u8 list option \<Rightarrow> 'w \<Rightarrow>
    ('w \<times> u8 list \<times> (TransferError + usize)) option"
  uh_in_transfer :: "Endpoint \<Rightarrow> u8 list \<Rightarrow> 'w \<Rightarrow> ('w \<times> u8 list \<times> (TransferError + usize)) option"
  uh_register_hub :: "u8 \<Rightarrow> 'w \<Rightarrow> ('w \<times> (TransferError + unit)) option"
  uh_assign_address :: "u8 \<Rightarrow> u8 \<Rightarrow> bool \<Rightarrow> 'w \<Rightarrow> ('w \<times> (TransferError + unit)) option"
  uh_uninit :: "usize \<Rightarrow> u8 list"

text \<open>The request for a standard descriptor that the drivers make.\<close>

definition get_descriptor ::
  "UsbLib \<Rightarrow> 'w UsbHost \<Rightarrow> Endpoint \<Rightarrow> DescriptorType \<Rightarrow> u8 list \<Rightarrow> 'w \<Rightarrow> ('w \<times> u8 list \<times> (TransferError + usize)) option"
where
  "get_descriptor L H ep ty buf w =
     uh_control_transfer H ep (ul_request_type L DeviceToHost Standard DeviceRecipient) GetDescriptor
       (ul_w_value L 0 (ul_descriptor_code L ty)) 0 (Some buf) w"

section \<open>The state machine of a device\<close>

datatype DeviceState = Addressed | WaitForSettle usize | GetConfig | SetConfig u8 | SetProtocol | SetIdle | Running

type_synonym EndpointSearcher = "u8 list \<Rightarrow> EndpointInfo option option"

record InputOnlyDevice =
  id_addr :: u8
  id_ep0 :: Endpoint
  id_endpoints :: "Endpoint option list"
  id_state :: DeviceState
  id_endpoint_searcher :: EndpointSearcher

text \<open>The constant parameters of the types.\<close>

record DriverConsts =
  MAX_ENDPOINTS :: usize
  SETTLE_DELAY :: usize
  CONFIG_BUFFER_LEN :: usize
  N_IN_TRANSFER_BYTES :: usize
  MAX_DEVICES :: usize

definition InputOnlyDevice_new :: "DriverConsts \<Rightarrow> u8 \<Rightarrow> u8 \<Rightarrow> EndpointSearcher \<Rightarrow> InputOnlyDevice" where
  "InputOnlyDevice_new K addr max_packet_size endpoint_searcher =
     \<lparr>id_addr = addr, id_ep0 = Endpoint_new addr 0 0 Control In (ucast max_packet_size),
      id_endpoints = replicate (MAX_ENDPOINTS K) None, id_state = Addressed, id_endpoint_searcher = endpoint_searcher\<rparr>"

type_synonym 'w callback = "u8 \<Rightarrow> u8 list \<Rightarrow> 'w \<Rightarrow> 'w option"

definition fsm_wait_for_settle ::
  "UsbLib \<Rightarrow> 'w UsbHost \<Rightarrow> usize \<Rightarrow> usize \<Rightarrow> InputOnlyDevice \<Rightarrow> 'w \<Rightarrow> ('w \<times> InputOnlyDevice \<times> (TransferError + unit)) option"
where
  "fsm_wait_for_settle L H millis until d w =
     (if millis > until then do {
        (w, _, r) \<leftarrow> get_descriptor L H (id_ep0 d) DT_Device (uh_uninit H (ul_device_size L)) w;
        (case r of
           Inl e \<Rightarrow> Some (w, d, Inl e)
         | Inr len \<Rightarrow> do { rassert (len = ul_device_size L); Some (w, d\<lparr>id_state := GetConfig\<rparr>, Inr ()) })
      } else Some (w, d, Inr ()))"

definition fsm_get_config ::
  "DriverConsts \<Rightarrow> UsbLib \<Rightarrow> 'w UsbHost \<Rightarrow> InputOnlyDevice \<Rightarrow> 'w \<Rightarrow> ('w \<times> InputOnlyDevice \<times> (TransferError + unit)) option"
where
  "fsm_get_config K L H d w = do {
     (w, desc_buf, r) \<leftarrow> get_descriptor L H (id_ep0 d) DT_Configuration (uh_uninit H (ul_configuration_size L)) w;
     (case r of
        Inl e \<Rightarrow> Some (w, d, Inl e)
      | Inr len \<Rightarrow> do {
          rassert (len = ul_configuration_size L);
          let total = unat (w_total_length (ul_configuration L desc_buf));
          if total > CONFIG_BUFFER_LEN K then Some (w, d, Inl (Permanent ''config descriptor too large''))
          else if CONFIG_BUFFER_LEN K < total then Some (w, d, Inl (Permanent ''config descriptor too large''))
          else do {
            config_buf \<leftarrow> slice (uh_uninit H (CONFIG_BUFFER_LEN K)) 0 total;
            (w, config_buf, r) \<leftarrow> get_descriptor L H (id_ep0 d) DT_Configuration config_buf w;
            (case r of
               Inl e \<Rightarrow> Some (w, d, Inl e)
             | Inr len \<Rightarrow> do {
                 rassert (len = total);
                 found \<leftarrow> id_endpoint_searcher d config_buf;
                 info \<leftarrow> found;
                 endpoints \<leftarrow> set_idx (id_endpoints d) 0 (Some (Endpoint_new (id_addr d)
                   (b_endpoint_address (ei_endpoint info) AND 0x7f) (ei_interface_num info) Interrupt In
                   (w_max_packet_size (ei_endpoint info))));
                 Some (w, d\<lparr>id_endpoints := endpoints, id_state := SetConfig 1\<rparr>, Inr ())
               })
          }
        })
   }"

definition fsm_running ::
  "DriverConsts \<Rightarrow> 'w UsbHost \<Rightarrow> 'w callback \<Rightarrow> InputOnlyDevice \<Rightarrow> 'w \<Rightarrow> ('w \<times> InputOnlyDevice \<times> (TransferError + unit)) option"
where
  "fsm_running K H callback d w = do {
     ep \<leftarrow> get_idx (id_endpoints d) 0;
     (case ep of
        Some ep \<Rightarrow> do {
          (w, b, r) \<leftarrow> uh_in_transfer H ep (replicate (N_IN_TRANSFER_BYTES K) 0) w;
          (case r of
             Inl (Permanent msg) \<Rightarrow> Some (w, d, Inl (Permanent msg))
           | Inl (Retry _) \<Rightarrow> Some (w, d, Inr ())
           | Inr _ \<Rightarrow> do { w \<leftarrow> callback (id_addr d) b w; Some (w, d, Inr ()) })
        }
      | None \<Rightarrow> Some (w, d, Inl (Permanent ''no boot keyboard'')))
   }"

definition fsm_set_config :: "UsbLib \<Rightarrow> 'w UsbHost \<Rightarrow> u8 \<Rightarrow> InputOnlyDevice \<Rightarrow> 'w \<Rightarrow> ('w \<times> InputOnlyDevice \<times> (TransferError + unit)) option" where
  "fsm_set_config L H config_index d w = do {
     (w, _, r) \<leftarrow> uh_control_transfer H (id_ep0 d) (ul_request_type L HostToDevice Standard DeviceRecipient) SetConfiguration
       (ul_w_value L config_index 0) 0 None w;
     (case r of Inl e \<Rightarrow> Some (w, d, Inl e) | Inr _ \<Rightarrow> Some (w, d\<lparr>id_state := SetProtocol\<rparr>, Inr ()))
   }"

definition fsm_set_protocol :: "UsbLib \<Rightarrow> 'w UsbHost \<Rightarrow> InputOnlyDevice \<Rightarrow> 'w \<Rightarrow> ('w \<times> InputOnlyDevice \<times> (TransferError + unit)) option" where
  "fsm_set_protocol L H d w = do {
     ep \<leftarrow> get_idx (id_endpoints d) 0;
     (case ep of
        Some ep \<Rightarrow> do {
          (w, _, r) \<leftarrow> uh_control_transfer H (id_ep0 d) (ul_request_type L HostToDevice Class InterfaceRecipient) SetInterface
            (ul_w_value L 0 0) (ucast (ep_interface_num ep)) None w;
          (case r of Inl e \<Rightarrow> Some (w, d, Inl e) | Inr _ \<Rightarrow> Some (w, d\<lparr>id_state := SetIdle\<rparr>, Inr ()))
        }
      | None \<Rightarrow> Some (w, d, Inl (Permanent ''no boot keyboard'')))
   }"

definition fsm_set_idle :: "UsbLib \<Rightarrow> 'w UsbHost \<Rightarrow> InputOnlyDevice \<Rightarrow> 'w \<Rightarrow> ('w \<times> InputOnlyDevice \<times> (TransferError + unit)) option" where
  "fsm_set_idle L H d w = do {
     (w, _, r) \<leftarrow> uh_control_transfer H (id_ep0 d) (ul_request_type L HostToDevice Class InterfaceRecipient) GetInterface
       (ul_w_value L 0 0) 0 None w;
     (case r of Inl e \<Rightarrow> Some (w, d, Inl e) | Inr _ \<Rightarrow> Some (w, d\<lparr>id_state := Running\<rparr>, Inr ()))
   }"

definition fsm ::
  "DriverConsts \<Rightarrow> UsbLib \<Rightarrow> 'w UsbHost \<Rightarrow> 'w callback \<Rightarrow> usize \<Rightarrow> InputOnlyDevice \<Rightarrow> 'w \<Rightarrow> ('w \<times> InputOnlyDevice \<times> (TransferError + unit)) option"
where
  "fsm K L H callback millis d w =
     (case id_state d of
        Addressed \<Rightarrow> do { until \<leftarrow> uadd millis (SETTLE_DELAY K); Some (w, d\<lparr>id_state := WaitForSettle until\<rparr>, Inr ()) }
      | WaitForSettle until \<Rightarrow> fsm_wait_for_settle L H millis until d w
      | GetConfig \<Rightarrow> fsm_get_config K L H d w
      | SetConfig config_index \<Rightarrow> fsm_set_config L H config_index d w
      | SetProtocol \<Rightarrow> fsm_set_protocol L H d w
      | SetIdle \<Rightarrow> fsm_set_idle L H d w
      | Running \<Rightarrow> fsm_running K H callback d w)"

lemmas fsm_transfers = fsm_set_config_def fsm_set_protocol_def fsm_set_idle_def

text \<open>
  \<^verbatim>\<open>async_fsm\<close> is written out a second time in the source, over \<^verbatim>\<open>AsyncUSBHost\<close>: each call of the host is awaited, so the host's method below
  is the whole run of its future.
\<close>

definition async_wait_for_settle ::
  "UsbLib \<Rightarrow> 'w UsbHost \<Rightarrow> usize \<Rightarrow> usize \<Rightarrow> InputOnlyDevice \<Rightarrow> 'w \<Rightarrow> ('w \<times> InputOnlyDevice \<times> (TransferError + unit)) option"
where
  "async_wait_for_settle L H millis until d w =
     (if millis > until then do {
        (w, _, r) \<leftarrow> get_descriptor L H (id_ep0 d) DT_Device (uh_uninit H (ul_device_size L)) w;
        (case r of
           Inl e \<Rightarrow> Some (w, d, Inl e)
         | Inr len \<Rightarrow> do { rassert (len = ul_device_size L); Some (w, d\<lparr>id_state := GetConfig\<rparr>, Inr ()) })
      } else Some (w, d, Inr ()))"

definition async_get_config ::
  "DriverConsts \<Rightarrow> UsbLib \<Rightarrow> 'w UsbHost \<Rightarrow> InputOnlyDevice \<Rightarrow> 'w \<Rightarrow> ('w \<times> InputOnlyDevice \<times> (TransferError + unit)) option"
where
  "async_get_config K L H d w = do {
     (w, desc_buf, r) \<leftarrow> get_descriptor L H (id_ep0 d) DT_Configuration (uh_uninit H (ul_configuration_size L)) w;
     (case r of
        Inl e \<Rightarrow> Some (w, d, Inl e)
      | Inr len \<Rightarrow> do {
          rassert (len = ul_configuration_size L);
          let total = unat (w_total_length (ul_configuration L desc_buf));
          if total > CONFIG_BUFFER_LEN K then Some (w, d, Inl (Permanent ''config descriptor too large''))
          else if CONFIG_BUFFER_LEN K < total then Some (w, d, Inl (Permanent ''config descriptor too large''))
          else do {
            config_buf \<leftarrow> slice (uh_uninit H (CONFIG_BUFFER_LEN K)) 0 total;
            (w, config_buf, r) \<leftarrow> get_descriptor L H (id_ep0 d) DT_Configuration config_buf w;
            (case r of
               Inl e \<Rightarrow> Some (w, d, Inl e)
             | Inr len \<Rightarrow> do {
                 rassert (len = total);
                 found \<leftarrow> id_endpoint_searcher d config_buf;
                 info \<leftarrow> found;
                 endpoints \<leftarrow> set_idx (id_endpoints d) 0 (Some (Endpoint_new (id_addr d)
                   (b_endpoint_address (ei_endpoint info) AND 0x7f) (ei_interface_num info) Interrupt In
                   (w_max_packet_size (ei_endpoint info))));
                 Some (w, d\<lparr>id_endpoints := endpoints, id_state := SetConfig 1\<rparr>, Inr ())
               })
          }
        })
   }"

definition async_running ::
  "DriverConsts \<Rightarrow> 'w UsbHost \<Rightarrow> 'w callback \<Rightarrow> InputOnlyDevice \<Rightarrow> 'w \<Rightarrow> ('w \<times> InputOnlyDevice \<times> (TransferError + unit)) option"
where
  "async_running K H callback d w = do {
     ep \<leftarrow> get_idx (id_endpoints d) 0;
     (case ep of
        Some ep \<Rightarrow> do {
          (w, b, r) \<leftarrow> uh_in_transfer H ep (replicate (N_IN_TRANSFER_BYTES K) 0) w;
          (case r of
             Inl (Permanent msg) \<Rightarrow> Some (w, d, Inl (Permanent msg))
           | Inl (Retry _) \<Rightarrow> Some (w, d, Inr ())
           | Inr _ \<Rightarrow> do { w \<leftarrow> callback (id_addr d) b w; Some (w, d, Inr ()) })
        }
      | None \<Rightarrow> Some (w, d, Inl (Permanent ''no boot keyboard'')))
   }"

definition async_set_config :: "UsbLib \<Rightarrow> 'w UsbHost \<Rightarrow> u8 \<Rightarrow> InputOnlyDevice \<Rightarrow> 'w \<Rightarrow> ('w \<times> InputOnlyDevice \<times> (TransferError + unit)) option" where
  "async_set_config L H config_index d w = do {
     (w, _, r) \<leftarrow> uh_control_transfer H (id_ep0 d) (ul_request_type L HostToDevice Standard DeviceRecipient) SetConfiguration
       (ul_w_value L config_index 0) 0 None w;
     (case r of Inl e \<Rightarrow> Some (w, d, Inl e) | Inr _ \<Rightarrow> Some (w, d\<lparr>id_state := SetProtocol\<rparr>, Inr ()))
   }"

definition async_set_protocol :: "UsbLib \<Rightarrow> 'w UsbHost \<Rightarrow> InputOnlyDevice \<Rightarrow> 'w \<Rightarrow> ('w \<times> InputOnlyDevice \<times> (TransferError + unit)) option" where
  "async_set_protocol L H d w = do {
     ep \<leftarrow> get_idx (id_endpoints d) 0;
     (case ep of
        Some ep \<Rightarrow> do {
          (w, _, r) \<leftarrow> uh_control_transfer H (id_ep0 d) (ul_request_type L HostToDevice Class InterfaceRecipient) SetInterface
            (ul_w_value L 0 0) (ucast (ep_interface_num ep)) None w;
          (case r of Inl e \<Rightarrow> Some (w, d, Inl e) | Inr _ \<Rightarrow> Some (w, d\<lparr>id_state := SetIdle\<rparr>, Inr ()))
        }
      | None \<Rightarrow> Some (w, d, Inl (Permanent ''no boot keyboard'')))
   }"

definition async_set_idle :: "UsbLib \<Rightarrow> 'w UsbHost \<Rightarrow> InputOnlyDevice \<Rightarrow> 'w \<Rightarrow> ('w \<times> InputOnlyDevice \<times> (TransferError + unit)) option" where
  "async_set_idle L H d w = do {
     (w, _, r) \<leftarrow> uh_control_transfer H (id_ep0 d) (ul_request_type L HostToDevice Class InterfaceRecipient) GetInterface
       (ul_w_value L 0 0) 0 None w;
     (case r of Inl e \<Rightarrow> Some (w, d, Inl e) | Inr _ \<Rightarrow> Some (w, d\<lparr>id_state := Running\<rparr>, Inr ()))
   }"

definition async_fsm ::
  "DriverConsts \<Rightarrow> UsbLib \<Rightarrow> 'w UsbHost \<Rightarrow> 'w callback \<Rightarrow> usize \<Rightarrow> InputOnlyDevice \<Rightarrow> 'w \<Rightarrow> ('w \<times> InputOnlyDevice \<times> (TransferError + unit)) option"
where
  "async_fsm K L H callback millis d w =
     (case id_state d of
        Addressed \<Rightarrow> do { until \<leftarrow> uadd millis (SETTLE_DELAY K); Some (w, d\<lparr>id_state := WaitForSettle until\<rparr>, Inr ()) }
      | WaitForSettle until \<Rightarrow> async_wait_for_settle L H millis until d w
      | GetConfig \<Rightarrow> async_get_config K L H d w
      | SetConfig config_index \<Rightarrow> async_set_config L H config_index d w
      | SetProtocol \<Rightarrow> async_set_protocol L H d w
      | SetIdle \<Rightarrow> async_set_idle L H d w
      | Running \<Rightarrow> async_running K H callback d w)"

text \<open>The two versions do the same on every branch, errors included.\<close>

lemma async_fsm_eq: "async_fsm = fsm"
  unfolding async_fsm_def fsm_def async_wait_for_settle_def fsm_wait_for_settle_def async_get_config_def fsm_get_config_def
    async_set_config_def async_set_protocol_def async_set_idle_def fsm_transfers async_running_def fsm_running_def by (rule refl)

section \<open>The driver\<close>

record 'w InputOnlyDriver =
  io_devices :: "InputOnlyDevice option list"
  io_callback :: "'w callback"
  io_endpoint_searcher :: EndpointSearcher

definition InputOnlyDriver_new :: "DriverConsts \<Rightarrow> 'w callback \<Rightarrow> EndpointSearcher \<Rightarrow> 'w InputOnlyDriver" where
  "InputOnlyDriver_new K callback endpoint_searcher =
     \<lparr>io_devices = replicate (MAX_DEVICES K) None, io_callback = callback, io_endpoint_searcher = endpoint_searcher\<rparr>"

text \<open>
  The drivers for reports and for hubs bring their devices up with the same loops. They are written once, for devices of a
  type \<open>'d\<close> with their state machine \<open>step\<close>, a test for the final state and the address.

  One pass over the devices of \<^verbatim>\<open>tick_until_running_state\<close>: the new devices and time, and the error that stopped it.
\<close>

type_synonym ('d, 'w) device_step = "usize \<Rightarrow> 'd \<Rightarrow> 'w \<Rightarrow> ('w \<times> 'd \<times> (TransferError + unit)) option"

fun tick_round ::
  "('d \<Rightarrow> bool) \<Rightarrow> ('d \<Rightarrow> u8) \<Rightarrow> ('d, 'w) device_step \<Rightarrow> 'd option list \<Rightarrow> usize \<Rightarrow> 'w \<Rightarrow>
   ('w \<times> 'd option list \<times> usize \<times> DriverError option) option"
where
  "tick_round running addr step [] millis w = Some (w, [], millis, None)"
| "tick_round running addr step (None # ds) millis w = do {
     (w, ds, millis, e) \<leftarrow> tick_round running addr step ds millis w;
     Some (w, None # ds, millis, e)
   }"
| "tick_round running addr step (Some d # ds) millis w =
     (if running d then do {
        (w, ds, millis, e) \<leftarrow> tick_round running addr step ds millis w;
        Some (w, Some d # ds, millis, e)
      } else do {
        (w, d, r) \<leftarrow> step millis d w;
        (case r of
           Inl (Permanent e) \<Rightarrow> Some (w, Some d # ds, millis, Some (DriverPermanent (addr d) e))
         | _ \<Rightarrow> do {
             millis \<leftarrow> uadd millis 1;
             (w, ds, millis, e) \<leftarrow> tick_round running addr step ds millis w;
             Some (w, Some d # ds, millis, e)
           })
      })"

definition any_not :: "('d \<Rightarrow> bool) \<Rightarrow> 'd option list \<Rightarrow> bool" where
  "any_not P ds \<longleftrightarrow> list_ex (\<lambda>d. case d of Some dd \<Rightarrow> \<not> P dd | None \<Rightarrow> False) ds"

text \<open>The loops need not end: \<open>None\<close> is a panic or a loop for ever.\<close>

partial_function (option) tick_until_running_loop ::
  "('d \<Rightarrow> bool) \<Rightarrow> ('d \<Rightarrow> u8) \<Rightarrow> ('d, 'w) device_step \<Rightarrow> 'd option list \<Rightarrow> usize \<Rightarrow> 'w \<Rightarrow> ('w \<times> 'd option list \<times> (DriverError + unit)) option"
where
  "tick_until_running_loop running addr step ds millis w =
     (if any_not running ds
      then Option.bind (uadd millis 1) (\<lambda>millis.
        if millis mod 1000000 \<noteq> 0 then tick_until_running_loop running addr step ds millis w
        else Option.bind (tick_round running addr step ds millis w) (\<lambda>(w, ds, millis, e).
          case e of
            Some err \<Rightarrow> Some (w, ds, Inl err)
          | None \<Rightarrow> tick_until_running_loop running addr step ds millis w))
      else Some (w, ds, Inr ()))"

definition is_running :: "InputOnlyDevice \<Rightarrow> bool" where
  "is_running d \<longleftrightarrow> id_state d = Running"

definition tick_until_running_state ::
  "DriverConsts \<Rightarrow> UsbLib \<Rightarrow> 'w UsbHost \<Rightarrow> 'w InputOnlyDriver \<Rightarrow> 'w \<Rightarrow> ('w \<times> 'w InputOnlyDriver \<times> (DriverError + unit)) option"
where
  "tick_until_running_state K L H D w = do {
     (w, ds, r) \<leftarrow> tick_until_running_loop is_running id_addr (fsm K L H (io_callback D)) (io_devices D) 0 w;
     Some (w, D\<lparr>io_devices := ds\<rparr>, r)
   }"

partial_function (option) tick_until_loop ::
  "DriverConsts \<Rightarrow> UsbLib \<Rightarrow> 'w UsbHost \<Rightarrow> 'w callback \<Rightarrow> DeviceState \<Rightarrow> InputOnlyDevice option list \<Rightarrow> usize \<Rightarrow> 'w \<Rightarrow>
   ('w \<times> InputOnlyDevice option list \<times> (DriverError + unit)) option"
where
  "tick_until_loop K L H cb state ds millis w =
     (if any_not (\<lambda>d. id_state d = state) ds
      then Option.bind (tick_round is_running id_addr (fsm K L H cb) ds millis w) (\<lambda>(w, ds, millis, e).
        case e of
          Some err \<Rightarrow> Some (w, ds, Inl err)
        | None \<Rightarrow> tick_until_loop K L H cb state ds millis w)
      else Some (w, ds, Inr ()))"

definition tick_until ::
  "DriverConsts \<Rightarrow> UsbLib \<Rightarrow> 'w UsbHost \<Rightarrow> DeviceState \<Rightarrow> 'w InputOnlyDriver \<Rightarrow> 'w \<Rightarrow> ('w \<times> 'w InputOnlyDriver \<times> (DriverError + unit)) option"
where
  "tick_until K L H state D w = do {
     (w, ds, r) \<leftarrow> tick_until_loop K L H (io_callback D) state (io_devices D) 0 w;
     Some (w, D\<lparr>io_devices := ds\<rparr>, r)
   }"

definition has_addr :: "u8 \<Rightarrow> InputOnlyDevice option \<Rightarrow> bool" where
  "has_addr address d = (case d of Some dd \<Rightarrow> id_addr dd = address | None \<Rightarrow> False)"

definition call_callback_at :: "u8 \<Rightarrow> u8 list \<Rightarrow> 'w InputOnlyDriver \<Rightarrow> 'w \<Rightarrow> 'w option" where
  "call_callback_at address buffer D w = do {
     slot \<leftarrow> find (has_addr address) (io_devices D);
     d \<leftarrow> slot;
     rassert (id_state d = Running);
     io_callback D address buffer w
   }"

text \<open>\<^verbatim>\<open>endpoints_mut\<close> borrows the endpoints; the model has the value that is borrowed.\<close>

definition endpoints_mut :: "u8 \<Rightarrow> 'w InputOnlyDriver \<Rightarrow> Endpoint option list option" where
  "endpoints_mut address D = do {
     slot \<leftarrow> find (has_addr address) (io_devices D);
     d \<leftarrow> slot;
     Some (id_endpoints d)
   }"

definition want_device :: "'w InputOnlyDriver \<Rightarrow> DeviceDescriptor \<Rightarrow> bool" where
  "want_device D device = True"

text \<open>The index of the first element that satisfies a predicate, as \<^verbatim>\<open>iter_mut().find\<close> selects it.\<close>

fun find_index :: "('a \<Rightarrow> bool) \<Rightarrow> 'a list \<Rightarrow> nat option" where
  "find_index P [] = None"
| "find_index P (x # xs) = (if P x then Some 0 else map_option Suc (find_index P xs))"

definition add_device ::
  "DriverConsts \<Rightarrow> DeviceDescriptor \<Rightarrow> u8 \<Rightarrow> 'w InputOnlyDriver \<Rightarrow> 'w InputOnlyDriver \<times> (DriverError + unit)"
where
  "add_device K device address D =
     (case find_index Option.is_none (io_devices D) of
        Some i \<Rightarrow> (D\<lparr>io_devices := (io_devices D)[i := Some (InputOnlyDevice_new K address (b_max_packet_size device) (io_endpoint_searcher D))]\<rparr>, Inr ())
      | None \<Rightarrow> (D, Inl (DriverPermanent address ''out of devices'')))"

definition remove_device :: "u8 \<Rightarrow> 'w InputOnlyDriver \<Rightarrow> 'w InputOnlyDriver" where
  "remove_device address D =
     (case find_index (has_addr address) (io_devices D) of
        Some i \<Rightarrow> D\<lparr>io_devices := (io_devices D)[i := None]\<rparr>
      | None \<Rightarrow> D)"

fun tick_devices ::
  "('d \<Rightarrow> u8) \<Rightarrow> ('d, 'w) device_step \<Rightarrow> usize \<Rightarrow> 'd option list \<Rightarrow> 'w \<Rightarrow> ('w \<times> 'd option list \<times> (DriverError + unit)) option"
where
  "tick_devices addr step millis [] w = Some (w, [], Inr ())"
| "tick_devices addr step millis (None # ds) w = do {
     (w, ds, r) \<leftarrow> tick_devices addr step millis ds w;
     Some (w, None # ds, r)
   }"
| "tick_devices addr step millis (Some d # ds) w = do {
     (w, d, r) \<leftarrow> step millis d w;
     (case r of
        Inl (Permanent e) \<Rightarrow> Some (w, Some d # ds, Inl (DriverPermanent (addr d) e))
      | _ \<Rightarrow> do {
          (w, ds, r) \<leftarrow> tick_devices addr step millis ds w;
          Some (w, Some d # ds, r)
        })
   }"

definition driver_tick ::
  "DriverConsts \<Rightarrow> UsbLib \<Rightarrow> 'w UsbHost \<Rightarrow> usize \<Rightarrow> 'w InputOnlyDriver \<Rightarrow> 'w \<Rightarrow> ('w \<times> 'w InputOnlyDriver \<times> (DriverError + unit)) option"
where
  "driver_tick K L H millis D w = do {
     (w, ds, r) \<leftarrow> tick_devices id_addr (fsm K L H (io_callback D)) millis (io_devices D) w;
     Some (w, D\<lparr>io_devices := ds\<rparr>, r)
   }"

text \<open>\<^verbatim>\<open>AsyncDriver::tick\<close>.\<close>

definition async_driver_tick ::
  "DriverConsts \<Rightarrow> UsbLib \<Rightarrow> 'w UsbHost \<Rightarrow> usize \<Rightarrow> 'w InputOnlyDriver \<Rightarrow> 'w \<Rightarrow> ('w \<times> 'w InputOnlyDriver \<times> (DriverError + unit)) option"
where
  "async_driver_tick K L H millis D w = do {
     (w, ds, r) \<leftarrow> tick_devices id_addr (async_fsm K L H (io_callback D)) millis (io_devices D) w;
     Some (w, D\<lparr>io_devices := ds\<rparr>, r)
   }"

lemma async_driver_tick_eq: "async_driver_tick = driver_tick"
  by (intro ext) (simp add: async_driver_tick_def driver_tick_def async_fsm_eq)

text \<open>The two instances.\<close>

definition keyboard_consts :: DriverConsts where
  "keyboard_consts = \<lparr>MAX_ENDPOINTS = 2, SETTLE_DELAY = 2, CONFIG_BUFFER_LEN = 256, N_IN_TRANSFER_BYTES = 8, MAX_DEVICES = 32\<rparr>"

definition mouse_consts :: DriverConsts where
  "mouse_consts = \<lparr>MAX_ENDPOINTS = 2, SETTLE_DELAY = 2, CONFIG_BUFFER_LEN = 256, N_IN_TRANSFER_BYTES = 3, MAX_DEVICES = 32\<rparr>"

definition new_boot_keyboard :: "UsbLib \<Rightarrow> 'w callback \<Rightarrow> 'w InputOnlyDriver" where
  "new_boot_keyboard L callback = InputOnlyDriver_new keyboard_consts callback (ep_for_bootkbd L)"

definition new_mouse :: "UsbLib \<Rightarrow> 'w callback \<Rightarrow> 'w InputOnlyDriver" where
  "new_mouse L callback = InputOnlyDriver_new mouse_consts callback (ep_for_mouse L)"


section \<open>A host that serves a configuration\<close>

text \<open>A host on which transfers succeed: it answers the requests for the descriptors of a device with the configuration
  \<open>config\<close> as far as the buffer reaches, and keeps an invariant \<open>I\<close> of the outside.\<close>

definition host_serves :: "UsbLib \<Rightarrow> 'w UsbHost \<Rightarrow> ('w \<Rightarrow> bool) \<Rightarrow> u8 list \<Rightarrow> bool" where
  "host_serves L H I config \<longleftrightarrow>
     (\<forall>n. length (uh_uninit H n) = n) \<and>
     (\<forall>ep w. I w \<longrightarrow> (\<exists>w' b. get_descriptor L H ep DT_Device (uh_uninit H (ul_device_size L)) w = Some (w', b, Inr (ul_device_size L)) \<and> I w')) \<and>
     (\<forall>ep buf w. I w \<and> length buf \<le> length config \<longrightarrow>
        (\<exists>w'. get_descriptor L H ep DT_Configuration buf w = Some (w', take (length buf) config, Inr (length buf)) \<and> I w')) \<and>
     (\<forall>ep ty code v i w. I w \<longrightarrow> (\<exists>w' b n. uh_control_transfer H ep ty code v i None w = Some (w', b, Inr n) \<and> I w'))"

text \<open>A configuration that fits the buffer of the driver: its header states its length.\<close>

definition config_fits :: "DriverConsts \<Rightarrow> u8 list \<Rightarrow> bool" where
  "config_fits K config \<longleftrightarrow> 9 \<le> length config \<and> unat (le16 (config ! 2) (config ! 3)) = length config \<and> length config \<le> CONFIG_BUFFER_LEN K"

definition report_endpoint :: "u8 \<Rightarrow> EndpointInfo \<Rightarrow> Endpoint" where
  "report_endpoint addr info =
     Endpoint_new addr (b_endpoint_address (ei_endpoint info) AND 0x7f) (ei_interface_num info) Interrupt In (w_max_packet_size (ei_endpoint info))"

definition has_report_endpoint :: "EndpointInfo \<Rightarrow> InputOnlyDevice \<Rightarrow> bool" where
  "has_report_endpoint info d \<longleftrightarrow> id_endpoints d \<noteq> [] \<and> id_endpoints d ! 0 = Some (report_endpoint (id_addr d) info)"

text \<open>How many steps a state is away from \<^verbatim>\<open>Running\<close>.\<close>

fun rank :: "DeviceState \<Rightarrow> nat" where
  "rank Running = 0" | "rank SetIdle = 1" | "rank SetProtocol = 2" | "rank (SetConfig c) = 3" | "rank GetConfig = 4"
| "rank (WaitForSettle u) = 5" | "rank Addressed = 6"

lemma rank_0 [simp]: "rank s = 0 \<longleftrightarrow> s = Running"
  by (cases s) simp_all

lemma get_config_serves:
  assumes L: "usb_lib_ok L" and H: "host_serves L H I config" and config: "config_fits K config" and w: "I w"
    and d: "id_endpoint_searcher d config = Some (Some info)" "id_endpoints d \<noteq> []"
  shows "\<exists>w'. fsm_get_config K L H d w =
    Some (w', d\<lparr>id_endpoints := (id_endpoints d)[0 := Some (report_endpoint (id_addr d) info)], id_state := SetConfig 1\<rparr>, Inr ()) \<and> I w'"
proof -
  have un: "length (uh_uninit H n) = n" for n using H by (simp add: host_serves_def)
  have serve: "\<exists>w'. get_descriptor L H ep DT_Configuration buf w = Some (w', take (length buf) config, Inr (length buf)) \<and> I w'"
    if "I w" "length buf \<le> length config" for ep buf w
    using H that unfolding host_serves_def by blast
  let ?buf = "uh_uninit H 9"
  obtain w1 where w1: "get_descriptor L H (id_ep0 d) DT_Configuration ?buf w = Some (w1, take 9 config, Inr 9)" "I w1"
    using serve[OF w, of ?buf "id_ep0 d"] config un by (auto simp: config_fits_def)
  let ?cbuf = "take (length config) (uh_uninit H (CONFIG_BUFFER_LEN K))"
  have len: "length ?cbuf = length config" using config un by (simp add: config_fits_def)
  obtain w2 where w2: "get_descriptor L H (id_ep0 d) DT_Configuration ?cbuf w1 = Some (w2, config, Inr (length config))" "I w2"
    using serve[OF w1(2), of ?cbuf "id_ep0 d"] len by auto
  have total: "unat (w_total_length (ul_configuration L (take 9 config))) = length config"
    using config by (simp add: usb_libD(8)[OF L] config_fits_def)
  show ?thesis
    using w1 w2 d config un
    by (intro exI[of _ w2]) (simp add: fsm_get_config_def usb_libD(5)[OF L] total config_fits_def report_endpoint_def)
qed

text \<open>A device in its course: what it has become of what it was, and how far it is.\<close>

definition on_course :: "EndpointInfo \<Rightarrow> InputOnlyDevice \<Rightarrow> InputOnlyDevice \<Rightarrow> bool" where
  "on_course info d0 d \<longleftrightarrow>
     (if id_state d0 = Running then d = d0
      else id_addr d = id_addr d0 \<and> id_endpoint_searcher d = id_endpoint_searcher d0 \<and> id_endpoints d \<noteq> [] \<and>
        (rank (id_state d) \<le> 3 \<longrightarrow> has_report_endpoint info d))"

lemma fsm_advances:
  assumes L: "usb_lib_ok L" and H: "host_serves L H I config" and config: "config_fits K config" and w: "I w"
    and d: "on_course info d0 d" "id_endpoint_searcher d0 config = Some (Some info)" "id_state d \<noteq> Running"
    and time: "\<forall>u. id_state d = WaitForSettle u \<longrightarrow> u < millis" "millis + SETTLE_DELAY K < usize_limit"
  shows "\<exists>w' d'. fsm K L H cb millis d w = Some (w', d', Inr ()) \<and> I w' \<and> on_course info d0 d' \<and>
    Suc (rank (id_state d')) = rank (id_state d) \<and> (\<forall>u. id_state d' = WaitForSettle u \<longrightarrow> u = millis + SETTLE_DELAY K)"
proof -
  have r0: "id_state d0 \<noteq> Running" using d(1,3) by (auto simp: on_course_def)
  have ctl: "\<exists>w' b n. uh_control_transfer H ep ty code v i None w = Some (w', b, Inr n) \<and> I w'" for ep ty code v i
    using H w unfolding host_serves_def by blast
  show ?thesis
  proof (cases "id_state d")
    case Addressed
    then show ?thesis using d r0 time w by (simp add: fsm_def on_course_def)
  next
    case (WaitForSettle u)
    obtain w' b where "get_descriptor L H (id_ep0 d) DT_Device (uh_uninit H (ul_device_size L)) w = Some (w', b, Inr (ul_device_size L))" "I w'"
      using H w unfolding host_serves_def by blast
    with WaitForSettle d r0 time show ?thesis by (simp add: fsm_def fsm_wait_for_settle_def on_course_def)
  next
    case GetConfig
    from get_config_serves[OF L H config w, of d info] d r0 obtain w' where
      "fsm_get_config K L H d w = Some (w', d\<lparr>id_endpoints := (id_endpoints d)[0 := Some (report_endpoint (id_addr d) info)], id_state := SetConfig 1\<rparr>, Inr ())" "I w'"
      by (auto simp: on_course_def)
    with GetConfig d r0 show ?thesis by (simp add: fsm_def on_course_def has_report_endpoint_def)
  next
    case (SetConfig c)
    obtain w' b n where "uh_control_transfer H (id_ep0 d) (ul_request_type L HostToDevice Standard DeviceRecipient) SetConfiguration
        (ul_w_value L c 0) 0 None w = Some (w', b, Inr n)" "I w'" using ctl by blast
    with SetConfig d r0 show ?thesis by (simp add: fsm_def fsm_transfers on_course_def has_report_endpoint_def)
  next
    case SetProtocol
    with d r0 have ep: "id_endpoints d ! 0 = Some (report_endpoint (id_addr d) info)" "0 < length (id_endpoints d)"
      by (auto simp: on_course_def has_report_endpoint_def)
    obtain w' b n where "uh_control_transfer H (id_ep0 d) (ul_request_type L HostToDevice Class InterfaceRecipient) SetInterface
        (ul_w_value L 0 0) (ucast (ep_interface_num (report_endpoint (id_addr d) info))) None w = Some (w', b, Inr n)" "I w'" using ctl by blast
    with SetProtocol d r0 ep show ?thesis by (simp add: fsm_def fsm_transfers on_course_def has_report_endpoint_def)
  next
    case SetIdle
    obtain w' b n where "uh_control_transfer H (id_ep0 d) (ul_request_type L HostToDevice Class InterfaceRecipient) GetInterface
        (ul_w_value L 0 0) 0 None w = Some (w', b, Inr n)" "I w'" using ctl by blast
    with SetIdle d r0 show ?thesis by (simp add: fsm_def fsm_transfers on_course_def has_report_endpoint_def)
  qed (use d in simp)
qed

section \<open>The loops end when the devices make progress\<close>

text \<open>Devices make progress when a step of one that is due brings it closer to its final state and keeps an invariant \<open>P\<close> of all
  the devices and the outside. \<open>left\<close> bounds the steps left, \<open>due\<close> is the time a device waits for.\<close>

definition progresses ::
  "('d \<Rightarrow> bool) \<Rightarrow> ('d, 'w) device_step \<Rightarrow> ('d \<Rightarrow> nat) \<Rightarrow> ('d \<Rightarrow> nat) \<Rightarrow> nat \<Rightarrow> ('d option list \<Rightarrow> 'w \<Rightarrow> bool) \<Rightarrow> bool"
where
  "progresses running step left due delay P \<longleftrightarrow>
     (\<forall>d. left d = 0 \<longrightarrow> running d) \<and>
     (\<forall>ds w d i millis. P ds w \<and> i < length ds \<and> ds ! i = Some d \<and> \<not> running d \<and> due d < millis \<and> millis + delay < usize_limit \<longrightarrow>
        (\<exists>w' d'. step millis d w = Some (w', d', Inr ()) \<and> P (ds[i := Some d']) w' \<and> left d' < left d \<and> due d' \<le> millis + delay))"

lemma progressesD:
  assumes "progresses running step left due delay P" "P (pre @ Some d # post) w" "\<not> running d" "due d < millis" "millis + delay < usize_limit"
  obtains w' d' where "step millis d w = Some (w', d', Inr ())" "P ((pre @ [Some d']) @ post) w'" "left d' < left d" "due d' \<le> millis + delay"
proof -
  let ?ds = "pre @ Some d # post"
  have "length pre < length ?ds" "?ds ! length pre = Some d" by simp_all
  with assms obtain w' d' where "step millis d w = Some (w', d', Inr ())" "P (?ds[length pre := Some d']) w'" "left d' < left d" "due d' \<le> millis + delay"
    unfolding progresses_def by blast
  with that show thesis by simp
qed

definition slot_due :: "('d \<Rightarrow> bool) \<Rightarrow> ('d \<Rightarrow> nat) \<Rightarrow> ('d \<Rightarrow> nat) \<Rightarrow> nat \<Rightarrow> nat \<Rightarrow> 'd option \<Rightarrow> bool" where
  "slot_due running left due n M x = (case x of Some d \<Rightarrow> running d \<or> left d \<le> n \<and> due d \<le> M | None \<Rightarrow> True)"

lemma slot_due_mono: "slot_due running left due n M x \<Longrightarrow> M \<le> M' \<Longrightarrow> slot_due running left due n M' x"
  by (auto simp: slot_due_def split: option.splits)

lemma tick_round_progresses:
  assumes P: "progresses running step left due delay P"
  shows "P (pre @ ds) w \<Longrightarrow> \<forall>x \<in> set ds. slot_due running left due (Suc n) (M - 1) x \<Longrightarrow> 0 < M \<Longrightarrow> M + length ds + delay < usize_limit \<Longrightarrow>
    \<exists>w' ds' M'. tick_round running addr step ds M w = Some (w', ds', M', None) \<and> P (pre @ ds') w' \<and> M \<le> M' \<and> M' \<le> M + length ds \<and>
      length ds' = length ds \<and> (\<forall>x \<in> set ds'. slot_due running left due n (M' + delay) x)"
proof (induction ds arbitrary: pre M w)
  case (Cons x ds)
  have later: "\<forall>x \<in> set ds. slot_due running left due (Suc n) (Suc M - 1) x" using Cons.prems(2) slot_due_mono by fastforce
  consider (skip) "\<And>d. x = Some d \<Longrightarrow> running d" | (step) d where "x = Some d" "\<not> running d" by (cases x) auto
  then show ?case
  proof cases
    case skip
    from Cons.IH[of "pre @ [x]" w M] Cons.prems obtain w' ds' M' where r: "tick_round running addr step ds M w = Some (w', ds', M', None)"
      "P (pre @ x # ds') w'" "M \<le> M'" "M' \<le> M + length ds" "length ds' = length ds" "\<forall>x \<in> set ds'. slot_due running left due n (M' + delay) x" by auto
    moreover have "slot_due running left due n (M' + delay) x" using skip by (auto simp: slot_due_def split: option.split)
    ultimately show ?thesis using skip by (cases x) auto
  next
    case (step d)
    with Cons.prems(2,3) have d: "left d \<le> Suc n" "due d < M" by (auto simp: slot_due_def)
    from progressesD[OF P, of pre d ds w M] Cons.prems step d obtain w1 d1 where d1: "step M d w = Some (w1, d1, Inr ())"
      "P ((pre @ [Some d1]) @ ds) w1" "left d1 < left d" "due d1 \<le> M + delay" by auto
    from Cons.IH[OF d1(2) later] Cons.prems(4) obtain w' ds' M' where r: "tick_round running addr step ds (Suc M) w1 = Some (w', ds', M', None)"
      "P (pre @ Some d1 # ds') w'" "Suc M \<le> M'" "M' \<le> Suc M + length ds" "length ds' = length ds" "\<forall>x \<in> set ds'. slot_due running left due n (M' + delay) x" by auto
    moreover have "slot_due running left due n (M' + delay) (Some d1)" using d d1 r(3) by (auto simp: slot_due_def)
    ultimately show ?thesis using step d1 Cons.prems(4) by auto
  qed
qed simp

text \<open>The loop only counts until the time is a multiple of a million.\<close>

lemma tick_loop_counts:
  assumes "any_not running ds"
  shows "M mod 1000000 = 0 \<Longrightarrow> \<forall>j. m < j \<and> j < M \<longrightarrow> j mod 1000000 \<noteq> 0 \<Longrightarrow> m < M \<Longrightarrow> M < usize_limit \<Longrightarrow>
    tick_until_running_loop running addr step ds m w = Option.bind (tick_round running addr step ds M w) (\<lambda>(w, ds, millis, e).
      case e of Some err \<Rightarrow> Some (w, ds, Inl err) | None \<Rightarrow> tick_until_running_loop running addr step ds millis w)"
proof (induction "M - m" arbitrary: m)
  case (Suc k)
  have step: "tick_until_running_loop running addr step ds m w =
      (if Suc m mod 1000000 \<noteq> 0 then tick_until_running_loop running addr step ds (Suc m) w
       else Option.bind (tick_round running addr step ds (Suc m) w) (\<lambda>(w, ds, millis, e).
         case e of Some err \<Rightarrow> Some (w, ds, Inl err) | None \<Rightarrow> tick_until_running_loop running addr step ds millis w))"
    using assms Suc.prems by (subst tick_until_running_loop.simps) simp
  show ?case
  proof (cases "Suc m = M")
    case True
    then show ?thesis using step Suc.prems(1) by simp
  next
    case False
    then have "Suc m < M" using Suc.prems(3) by simp
    then have "Suc m mod 1000000 \<noteq> 0" using Suc.prems(2) by auto
    moreover have "tick_until_running_loop running addr step ds (Suc m) w = Option.bind (tick_round running addr step ds M w) (\<lambda>(w, ds, millis, e).
      case e of Some err \<Rightarrow> Some (w, ds, Inl err) | None \<Rightarrow> tick_until_running_loop running addr step ds millis w)"
      using Suc.prems \<open>Suc m < M\<close> Suc.hyps(2) by (intro Suc.hyps(1)) auto
    ultimately show ?thesis using step by simp
  qed
qed simp

lemma next_million:
  fixes m :: nat
  defines "M \<equiv> (m div 1000000 + 1) * 1000000"
  shows "M mod 1000000 = 0" "\<forall>j. m < j \<and> j < M \<longrightarrow> j mod 1000000 \<noteq> 0" "m < M" "M = m - m mod 1000000 + 1000000"
proof -
  show "M mod 1000000 = 0" "m < M" unfolding M_def by simp_all
  show "M = m - m mod 1000000 + 1000000" unfolding M_def by (simp add: minus_mod_eq_mult_div mult.commute)
  show "\<forall>j. m < j \<and> j < M \<longrightarrow> j mod 1000000 \<noteq> 0"
  proof (intro allI impI notI)
    fix j
    assume j: "m < j \<and> j < M" "j mod 1000000 = 0"
    then obtain q where q: "j = 1000000 * q" by blast
    with j(1) have "m < q * 1000000" and up: "q * 1000000 < (m div 1000000 + 1) * 1000000" by (simp_all add: M_def mult.commute)
    from this(1) have "m div 1000000 < q" by (rule less_mult_imp_div_less)
    moreover from up have "q < m div 1000000 + 1" unfolding mult_less_cancel2 by blast
    ultimately show False by simp
  qed
qed


lemma any_not_iff: "any_not P ds \<longleftrightarrow> (\<exists>d. Some d \<in> set ds \<and> \<not> P d)"
  by (auto simp: any_not_def list_ex_iff split: option.splits)

lemma tick_loop_ends:
  assumes P: "progresses running step left due delay P"
  shows "P ds w \<Longrightarrow> \<forall>x \<in> set ds. slot_due running left due n (m + delay) x \<Longrightarrow>
    m mod 1000000 \<le> length ds \<Longrightarrow> length ds + delay < 999999 \<Longrightarrow> m + (n + 1) * 2000000 < usize_limit \<Longrightarrow>
    \<exists>w' ds'. tick_until_running_loop running addr step ds m w = Some (w', ds', Inr ()) \<and> P ds' w' \<and> length ds' = length ds \<and> \<not> any_not running ds'"
proof (induction n arbitrary: m ds w)
  case 0
  have "running d" if "Some d \<in> set ds" for d using 0(2) that P by (fastforce simp: slot_due_def progresses_def)
  then have "\<not> any_not running ds" by (auto simp: any_not_iff)
  then show ?case using 0(1) by (subst tick_until_running_loop.simps) auto
next
  case (Suc n)
  show ?case
  proof (cases "any_not running ds")
    case False
    then show ?thesis using Suc.prems(1) by (subst tick_until_running_loop.simps) auto
  next
    case True
    define M where "M = (m div 1000000 + 1) * 1000000"
    note M = next_million[of m, folded M_def]
    have late: "m + delay \<le> M - 1" using M(4) Suc.prems(3,4) mod_less_eq_dividend[of m 1000000] by linarith
    have bound: "M \<le> m + 1000000" using M(4) by simp
    have "\<forall>x \<in> set ds. slot_due running left due (Suc n) (M - 1) x" using Suc.prems(2) slot_due_mono late by blast
    moreover have "M + length ds + delay < usize_limit" using bound Suc.prems(4,5) by simp
    ultimately obtain w1 ds1 M1 where r: "tick_round running addr step ds M w = Some (w1, ds1, M1, None)" "P ds1 w1" "M \<le> M1" "M1 \<le> M + length ds"
      "length ds1 = length ds" "\<forall>x \<in> set ds1. slot_due running left due n (M1 + delay) x"
      using tick_round_progresses[OF P, of "[]" ds w n M addr] Suc.prems(1) M(3) by auto
    have "M1 mod 1000000 = (M + (M1 - M)) mod 1000000" using r(3) by simp
    also have "\<dots> = (M1 - M) mod 1000000" using M(1) by (metis add_0 mod_add_left_eq)
    also have "\<dots> \<le> M1 - M" by (rule mod_less_eq_dividend)
    also have "\<dots> \<le> length ds" using r(4) by simp
    finally have "M1 mod 1000000 \<le> length ds1" by (simp add: r(5))
    moreover have "M1 + (n + 1) * 2000000 < usize_limit" using r(4) bound Suc.prems(4,5) by simp
    ultimately obtain w' ds' where "tick_until_running_loop running addr step ds1 M1 w1 = Some (w', ds', Inr ())" "P ds' w'"
      "length ds' = length ds1" "\<not> any_not running ds'"
      using Suc.IH[OF r(2,6)] Suc.prems(4) r(5) by auto
    moreover have "M < usize_limit" using bound Suc.prems(5) by simp
    ultimately show ?thesis using tick_loop_counts[OF True M(1-3), of addr step w] r(1,5) by auto
  qed
qed

text \<open>The devices of the driver for reports make progress on a host that serves them.\<close>

fun waits_for :: "DeviceState \<Rightarrow> nat" where
  "waits_for (WaitForSettle u) = u"
| "waits_for _ = 0"

definition served :: "EndpointInfo \<Rightarrow> u8 list \<Rightarrow> InputOnlyDevice \<Rightarrow> InputOnlyDevice \<Rightarrow> bool" where
  "served info config d0 d \<longleftrightarrow> on_course info d0 d \<and> (id_state d0 \<noteq> Running \<longrightarrow> id_endpoint_searcher d0 config = Some (Some info))"

definition all_on_course :: "EndpointInfo \<Rightarrow> u8 list \<Rightarrow> InputOnlyDevice option list \<Rightarrow> InputOnlyDevice option list \<Rightarrow> bool" where
  "all_on_course info config = list_all2 (rel_option (served info config))"

lemma all_on_course_nth:
  assumes "all_on_course info config ds0 ds" "i < length ds" "ds ! i = Some d"
  obtains d0 where "ds0 ! i = Some d0" "i < length ds0" "on_course info d0 d" "id_state d0 \<noteq> Running \<Longrightarrow> id_endpoint_searcher d0 config = Some (Some info)"
proof -
  from assms have "i < length ds0" by (simp add: all_on_course_def list_all2_lengthD)
  moreover have "rel_option (served info config) (ds0 ! i) (Some d)"
    using list_all2_nthD2[OF assms(1)[unfolded all_on_course_def] assms(2)] assms(3) by simp
  ultimately show thesis using that by (auto simp: option_rel_Some2 served_def)
qed

lemma fsm_progresses:
  assumes "usb_lib_ok L" "host_serves L H I config" "config_fits K config"
  shows "progresses is_running (fsm K L H cb) (\<lambda>d. rank (id_state d)) (\<lambda>d. waits_for (id_state d)) (SETTLE_DELAY K)
    (\<lambda>ds w. I w \<and> all_on_course info config ds0 ds)"
  unfolding progresses_def
proof (intro conjI allI impI)
  fix ds w d i millis
  assume a: "(I w \<and> all_on_course info config ds0 ds) \<and> i < length ds \<and> ds ! i = Some d \<and> \<not> is_running d \<and>
    waits_for (id_state d) < millis \<and> millis + SETTLE_DELAY K < usize_limit"
  then obtain d0 where d0: "ds0 ! i = Some d0" "i < length ds0" "on_course info d0 d" "id_state d0 \<noteq> Running \<Longrightarrow> id_endpoint_searcher d0 config = Some (Some info)"
    using all_on_course_nth by metis
  have r: "id_state d \<noteq> Running" "id_state d0 \<noteq> Running" using a d0(3) by (auto simp: is_running_def on_course_def)
  have "\<forall>u. id_state d = WaitForSettle u \<longrightarrow> u < millis" using a by auto
  from fsm_advances[OF assms _ d0(3) d0(4)[OF r(2)] r(1) this, of w cb] a obtain w' d' where
    d': "fsm K L H cb millis d w = Some (w', d', Inr ())" "I w'" "on_course info d0 d'" "Suc (rank (id_state d')) = rank (id_state d)"
      "\<forall>u. id_state d' = WaitForSettle u \<longrightarrow> u = millis + SETTLE_DELAY K" by blast
  have "rel_option (served info config) (ds0 ! i) (Some d')"
    using d0 d' by (simp add: served_def)
  then have "list_all2 (rel_option (served info config)) (ds0[i := ds0 ! i]) (ds[i := Some d'])"
    using a unfolding all_on_course_def by (intro list_all2_update_cong) simp_all
  then have "all_on_course info config ds0 (ds[i := Some d'])" by (simp add: all_on_course_def)
  moreover have "waits_for (id_state d') \<le> millis + SETTLE_DELAY K" using d'(5) by (cases "id_state d'") auto
  ultimately show "\<exists>w' d'. fsm K L H cb millis d w = Some (w', d', Inr ()) \<and> (I w' \<and> all_on_course info config ds0 (ds[i := Some d'])) \<and>
      rank (id_state d') < rank (id_state d) \<and> waits_for (id_state d') \<le> millis + SETTLE_DELAY K"
    using d' by (metis lessI)
qed (simp add: is_running_def)

section \<open>The table of devices\<close>

lemma find_index_Some:
  "find_index P xs = Some i \<longleftrightarrow> i < length xs \<and> P (xs ! i) \<and> (\<forall>j < i. \<not> P (xs ! j))"
proof (induction xs arbitrary: i)
  case (Cons x xs)
  then show ?case by (cases i) (auto simp: less_Suc_eq_0_disj)
qed simp

lemma find_index_None: "find_index P xs = None \<longleftrightarrow> (\<forall>x \<in> set xs. \<not> P x)"
  by (induction xs) auto

lemma find_index_update:
  assumes "i < length xs" "P y" "\<forall>x \<in> set xs. \<not> P x"
  shows "find_index P (xs[i := y]) = Some i"
  using assms by (simp add: find_index_Some)

lemma add_device_free:
  assumes "None \<in> set (io_devices D)"
  obtains i where "i < length (io_devices D)" "io_devices D ! i = None" "\<forall>j < i. io_devices D ! j \<noteq> None"
    "add_device K device address D =
      (D\<lparr>io_devices := (io_devices D)[i := Some (InputOnlyDevice_new K address (b_max_packet_size device) (io_endpoint_searcher D))]\<rparr>, Inr ())"
proof -
  from assms obtain i where i: "find_index Option.is_none (io_devices D) = Some i"
    by (metis find_index_None is_none_simps(1) option.exhaust)
  then have "i < length (io_devices D)" "io_devices D ! i = None" "\<forall>j < i. io_devices D ! j \<noteq> None"
    by (auto simp: find_index_Some Option.is_none_def)
  with i that show thesis by (simp add: add_device_def)
qed

lemma add_device_full:
  assumes "None \<notin> set (io_devices D)"
  shows "add_device K device address D = (D, Inl (DriverPermanent address ''out of devices''))"
proof -
  have "find_index Option.is_none (io_devices D) = None" using assms by (metis find_index_None Option.is_none_def not_None_eq is_none_code(2))
  then show ?thesis by (simp add: add_device_def)
qed

section \<open>Properties\<close>

text \<open>C23: Bringing up devices ends. On a host that serves a configuration in which the driver finds its endpoint,
  \<^verbatim>\<open>tick_until_running_state\<close> returns without an error or a panic: every device that was just addressed is then running,
  keeps its address and has the report endpoint the configuration describes; the devices that were running and the free
  slots are as before.\<close>

theorem driver_reaches_running:
  assumes "usb_lib_ok L" "host_serves L H I config" "config_fits K config" "I w" "length (io_devices D) + SETTLE_DELAY K < 999999"
    and "\<forall>d. Some d \<in> set (io_devices D) \<longrightarrow> id_state d = Running \<or>
      id_state d = Addressed \<and> id_endpoints d \<noteq> [] \<and> id_endpoint_searcher d config = Some (Some info)"
  shows "\<exists>w' D'. tick_until_running_state K L H D w = Some (w', D', Inr ()) \<and> I w' \<and>
    list_all2 (rel_option (\<lambda>d0 d. id_state d = Running \<and> id_addr d = id_addr d0 \<and>
      (if id_state d0 = Running then d = d0 else has_report_endpoint info d))) (io_devices D) (io_devices D')"
proof -
  have "all_on_course info config (io_devices D) (io_devices D)" unfolding all_on_course_def list_all2_same
  proof
    fix x
    assume "x \<in> set (io_devices D)"
    with assms(6) show "rel_option (served info config) x x"
      by (cases x) (auto simp: on_course_def served_def)
  qed
  moreover have "slot_due is_running (\<lambda>d. rank (id_state d)) (\<lambda>d. waits_for (id_state d)) 6 (0 + SETTLE_DELAY K) x" if "x \<in> set (io_devices D)" for x
    using assms(6) that by (cases x) (auto simp: slot_due_def is_running_def)
  ultimately obtain w' ds' where r: "tick_until_running_loop is_running id_addr (fsm K L H (io_callback D)) (io_devices D) 0 w = Some (w', ds', Inr ())" "I w'"
    "all_on_course info config (io_devices D) ds'" "\<not> any_not is_running ds'"
    using tick_loop_ends[OF fsm_progresses[OF assms(1-3)], where ds = "io_devices D" and n = 6 and m = 0 and addr = id_addr] assms(4,5) by fastforce
  have "rel_option (\<lambda>d0 d. id_state d = Running \<and> id_addr d = id_addr d0 \<and> (if id_state d0 = Running then d = d0 else has_report_endpoint info d)) x y"
    if "y \<in> set ds'" "rel_option (served info config) x y" for x y
    using that r(4) by (auto simp: any_not_iff is_running_def on_course_def served_def rel_option_iff split: option.splits if_splits)
  then have "list_all2 (rel_option (\<lambda>d0 d. id_state d = Running \<and> id_addr d = id_addr d0 \<and>
      (if id_state d0 = Running then d = d0 else has_report_endpoint info d))) (io_devices D) ds'"
    using r(3) unfolding all_on_course_def by (rule list.rel_mono_strong[rotated])
  with r show ?thesis by (simp add: tick_until_running_state_def)
qed

definition example_host :: "u8 list \<Rightarrow> nat UsbHost" where
  "example_host config =
     \<lparr>uh_control_transfer = (\<lambda>ep ty code v i buf w. Some (Suc w,
        (case buf of Some b \<Rightarrow> take (length b) config | None \<Rightarrow> []), Inr (case buf of Some b \<Rightarrow> length b | None \<Rightarrow> 0))),
      uh_in_transfer = (\<lambda>ep b w. Some (Suc w, b, Inr (length b))),
      uh_register_hub = (\<lambda>a w. Some (w, Inr ())), uh_assign_address = (\<lambda>a p l w. Some (w, Inr ())),
      uh_uninit = (\<lambda>n. replicate n 0)\<rparr>"

lemma example_host_serves: "host_serves L (example_host config) (\<lambda>_. True) config" if "18 \<le> length config" "usb_lib_ok L"
  using that by (simp add: host_serves_def example_host_def get_descriptor_def usb_libD)

definition example_driver :: "nat InputOnlyDriver" where
  "example_driver = fst (add_device keyboard_consts \<lparr>b_max_packet_size = 64\<rparr> 5 (new_boot_keyboard example_usb_lib (\<lambda>a b w. Some w)))"

lemma example_driver_devices:
  "io_devices example_driver = Some (InputOnlyDevice_new keyboard_consts 5 64 (ep_for_bootkbd example_usb_lib)) # replicate 31 None"
proof -
  have "replicate 32 None = None # replicate 31 (None :: InputOnlyDevice option)" by (simp add: numeral_eq_Suc)
  then show ?thesis
    by (simp add: example_driver_def add_device_def new_boot_keyboard_def InputOnlyDriver_new_def keyboard_consts_def)
qed

theorem driver_reaches_running_witness:
  "\<exists>w' D'. tick_until_running_state keyboard_consts example_usb_lib (example_host (concat example_blocks)) example_driver 0 = Some (w', D', Inr ())"
proof -
  let ?config = "concat example_blocks"
  have fits: "config_fits keyboard_consts ?config"
    by (simp add: config_fits_def example_blocks_def le16_def keyboard_consts_def)
  have serves: "host_serves example_usb_lib (example_host ?config) (\<lambda>_. True) ?config"
    by (rule example_host_serves) (simp_all add: example_usb_lib_ok example_blocks_def)
  have devs: "\<forall>d. Some d \<in> set (io_devices example_driver) \<longrightarrow> id_state d = Running \<or>
      id_state d = Addressed \<and> id_endpoints d \<noteq> [] \<and> id_endpoint_searcher d ?config = Some (Some example_info)"
    by (auto simp: example_driver_devices InputOnlyDevice_new_def keyboard_consts_def example_keyboard_found)
  have "length (io_devices example_driver) + SETTLE_DELAY keyboard_consts < 999999"
    by (simp add: example_driver_devices keyboard_consts_def)
  from driver_reaches_running[OF example_usb_lib_ok serves fits _ this devs, of 0] show ?thesis by auto
qed

text \<open>The table of a driver's devices: a new device takes the first free slot, in the state in which bringing up starts,
  and when there is no free slot the driver says so and changes nothing; removing a device frees its slot again, so that
  adding and then removing a device of a new address leaves the table as it was.\<close>

theorem add_remove_device:
  assumes "\<forall>d. Some d \<in> set (io_devices D) \<longrightarrow> id_addr d \<noteq> address"
  shows "if None \<in> set (io_devices D)
    then \<exists>i D'. add_device K device address D = (D', Inr ()) \<and> i < length (io_devices D) \<and> io_devices D ! i = None \<and>
      (\<forall>j < i. io_devices D ! j \<noteq> None) \<and>
      D' = D\<lparr>io_devices := (io_devices D)[i := Some (InputOnlyDevice_new K address (b_max_packet_size device) (io_endpoint_searcher D))]\<rparr> \<and>
      remove_device address D' = D
    else add_device K device address D = (D, Inl (DriverPermanent address ''out of devices''))"
proof (cases "None \<in> set (io_devices D)")
  case True
  let ?d = "Some (InputOnlyDevice_new K address (b_max_packet_size device) (io_endpoint_searcher D))"
  from add_device_free[OF True, of K device address] obtain i where i: "i < length (io_devices D)" "io_devices D ! i = None"
    "\<forall>j < i. io_devices D ! j \<noteq> None" "add_device K device address D = (D\<lparr>io_devices := (io_devices D)[i := ?d]\<rparr>, Inr ())" .
  have "find_index (has_addr address) ((io_devices D)[i := ?d]) = Some i"
    using i(1) assms by (intro find_index_update) (auto simp: has_addr_def InputOnlyDevice_new_def split: option.split)
  moreover have "(io_devices D)[i := None] = io_devices D" using i(2) by (metis list_update_id)
  ultimately have "remove_device address (D\<lparr>io_devices := (io_devices D)[i := ?d]\<rparr>) = D" by (simp add: remove_device_def)
  with True i show ?thesis by auto
qed (simp add: add_device_full)

theorem add_remove_device_witness:
  "\<exists>i D'. add_device keyboard_consts \<lparr>b_max_packet_size = 64\<rparr> 6 example_driver = (D', Inr ()) \<and> remove_device 6 D' = example_driver"
proof -
  have "\<forall>d. Some d \<in> set (io_devices example_driver) \<longrightarrow> id_addr d \<noteq> 6" by (auto simp: example_driver_devices InputOnlyDevice_new_def)
  from add_remove_device[OF this, of keyboard_consts "\<lparr>b_max_packet_size = 64\<rparr>"] show ?thesis by (auto simp: example_driver_devices)
qed

end
