(* ===== verification/Endpoint_Index.thy ===== *)
theory Endpoint_Index
  imports Class_Driver
begin

text \<open>
  The two small numberings of \<^verbatim>\<open>kernel/src/usb/device.rs\<close> and \<^verbatim>\<open>kernel/src/xhci.rs\<close>: device context indices, which select the
  ring and the context of an endpoint, and route strings, which say behind which ports of which hubs a device sits.
\<close>

section \<open>Device context indices\<close>

type_synonym DeviceContextIndex = u8

definition u8mul :: "u8 \<Rightarrow> u8 \<Rightarrow> u8 option" where
  "u8mul a b = (if unat a * unat b < 256 then Some (a * b) else None)"

definition checked_new :: "u8 \<Rightarrow> DeviceContextIndex option" where
  "checked_new dci = do { rassert (dci < 32); Some dci }"

definition calc_dci :: "u8 \<Rightarrow> Direction \<Rightarrow> u8 option" where
  "calc_dci endpoint_number direct = do {
     m \<leftarrow> u8mul endpoint_number 2;
     u8add m (if endpoint_number = 0 then 1 else case direct of In \<Rightarrow> 1 | Out \<Rightarrow> 0)
   }"

definition DeviceContextIndex_new :: "u8 \<Rightarrow> Direction \<Rightarrow> DeviceContextIndex option" where
  "DeviceContextIndex_new endpoint_number direct = do {
     dci \<leftarrow> calc_dci endpoint_number direct;
     checked_new dci
   }"

definition from_endpoint_address :: "u8 \<Rightarrow> DeviceContextIndex option" where
  "from_endpoint_address endpoint_address = do {
     m \<leftarrow> u8mul (endpoint_address AND 0xf) 2;
     dci \<leftarrow> u8add m (drop_bit 7 endpoint_address);
     checked_new dci
   }"

definition dci_from_descriptor :: "EndpointDescriptor \<Rightarrow> DeviceContextIndex option" where
  "dci_from_descriptor d = do {
     m \<leftarrow> u8mul (b_endpoint_address d AND 0xf) 2;
     dci \<leftarrow> u8add m (drop_bit 7 (b_endpoint_address d));
     checked_new dci
   }"

definition dci_ep0 :: DeviceContextIndex where "dci_ep0 = 1"

record EndpointId =
  eid_endpoint_number :: u8
  eid_direct :: Direction

definition EndpointId_new :: "u8 \<Rightarrow> Direction \<Rightarrow> EndpointId option" where
  "EndpointId_new endpoint_number direct_in = do {
     rassert (endpoint_number < 16);
     Some \<lparr>eid_endpoint_number = endpoint_number, eid_direct = direct_in\<rparr>
   }"

definition EndpointId_address :: "EndpointId \<Rightarrow> DeviceContextIndex option" where
  "EndpointId_address i = calc_dci (eid_endpoint_number i) (eid_direct i)"

definition dci_from_endpoint_id :: "EndpointId \<Rightarrow> DeviceContextIndex option" where
  "dci_from_endpoint_id i = DeviceContextIndex_new (eid_endpoint_number i) (eid_direct i)"

definition default_control_pipe :: EndpointId where
  "default_control_pipe = \<lparr>eid_endpoint_number = 0, eid_direct = Out\<rparr>"

text \<open>An endpoint is a trait object: one of a class driver, or an \<open>EndpointId\<close>, whose other methods are \<^verbatim>\<open>todo!()\<close>.\<close>

datatype dyn_endpoint = DriverEndpoint Endpoint | IdEndpoint EndpointId

fun dyn_endpoint_num :: "dyn_endpoint \<Rightarrow> u8" where
  "dyn_endpoint_num (DriverEndpoint ep) = ep_endpoint_num ep"
| "dyn_endpoint_num (IdEndpoint i) = eid_endpoint_number i"

fun dyn_direction :: "dyn_endpoint \<Rightarrow> Direction" where
  "dyn_direction (DriverEndpoint ep) = ep_direction ep"
| "dyn_direction (IdEndpoint i) = eid_direct i"

fun dyn_transfer_type :: "dyn_endpoint \<Rightarrow> TransferType option" where
  "dyn_transfer_type (DriverEndpoint ep) = Some (ep_transfer_type ep)"
| "dyn_transfer_type (IdEndpoint i) = None"

fun dyn_max_packet_size :: "dyn_endpoint \<Rightarrow> u16 option" where
  "dyn_max_packet_size (DriverEndpoint ep) = Some (ep_max_packet_size ep)"
| "dyn_max_packet_size (IdEndpoint i) = None"

definition EndpointId_from_endpoint :: "dyn_endpoint \<Rightarrow> EndpointId option" where
  "EndpointId_from_endpoint endpoint = EndpointId_new (dyn_endpoint_num endpoint) (dyn_direction endpoint)"

section \<open>Route strings\<close>

fun next_route_loop :: "nat \<Rightarrow> nat \<Rightarrow> u32 \<Rightarrow> u8 \<Rightarrow> u32" where
  "next_route_loop 0 shift routing port = 0"
| "next_route_loop (Suc n) shift routing port =
     (if routing AND push_bit shift 0xf = 0 then routing OR push_bit shift (ucast port)
      else next_route_loop n (shift + 4) routing port)"

definition next_route :: "u32 \<Rightarrow> u8 \<Rightarrow> u32" where
  "next_route routing port = next_route_loop 4 0 routing port"

section \<open>Lemmas\<close>

lemma u8_arith:
  "unat a * unat b < 256 \<Longrightarrow> unat (a * b :: u8) = unat a * unat b"
  "unat a + unat b < 256 \<Longrightarrow> unat (a + b :: u8) = unat a + unat b"
  by (simp_all add: unat_word_ariths)

definition dci_nat :: "nat \<Rightarrow> Direction \<Rightarrow> nat" where
  "dci_nat n d = 2 * n + (if n = 0 \<or> d = In then 1 else 0)"

lemma calc_dci_eq:
  assumes "unat n < 128"
  shows "\<exists>i. calc_dci n d = Some i \<and> unat i = dci_nat (unat n) d"
proof -
  let ?b = "(if n = 0 then 1 else case d of In \<Rightarrow> 1 | Out \<Rightarrow> 0) :: u8"
  have m: "unat (n * 2) = 2 * unat n" using assms u8_arith(1)[of n 2] by simp
  have b: "unat ?b = (if unat n = 0 \<or> d = In then 1 else 0)" by (cases d) (auto simp: unat_eq_zero)
  have "2 * unat n + unat ?b < 256" using assms b by auto
  then show ?thesis
    using assms m b u8_arith(2)[of "n * 2" ?b]
    by (simp add: calc_dci_def u8mul_def u8add_def dci_nat_def mult.commute)
qed

lemma dci_nat_inj:
  "dci_nat n d = dci_nat n' d' \<longleftrightarrow> n = n' \<and> (n = 0 \<or> d = d')"
  unfolding dci_nat_def by (cases d; cases d'; auto split: if_splits; presburger)

lemma route_nibble:
  fixes r :: u32
  assumes "s + 4 \<le> 32"
  shows "r AND push_bit s 0xf = 0 \<longleftrightarrow> take_bit 4 (drop_bit s r) = 0"
proof -
  have m: "(0xf :: u32) = mask 4" by (simp add: mask_eq_decr_exp)
  have "r AND push_bit s (mask 4) = push_bit s (take_bit 4 (drop_bit s r))"
    by (rule bit_word_eqI) (auto simp: bit_simps)
  moreover have "push_bit s (take_bit 4 (drop_bit s r)) = 0 \<longleftrightarrow> take_bit 4 (drop_bit s r) = 0"
  proof
    assume z: "push_bit s (take_bit 4 (drop_bit s r)) = 0"
    show "take_bit 4 (drop_bit s r) = 0"
    proof (rule bit_word_eqI)
      fix k assume "k < LENGTH(32)"
      from z have "\<not> bit (push_bit s (take_bit 4 (drop_bit s r))) (s + k)" by simp
      then show "bit (take_bit 4 (drop_bit s r)) k = bit 0 k" using assms by (auto simp: bit_simps dest: bit_imp_le_length)
    qed
  qed simp
  ultimately show ?thesis unfolding m by simp
qed

text \<open>The route to the port \<open>p\<^sub>n\<close> of the hub behind port \<open>p\<^sub>n\<^sub>-\<^sub>1\<close> and so on: four bits per hub, the one nearest
  to the root hub lowest.\<close>

fun route_of :: "u8 list \<Rightarrow> u32" where
  "route_of [] = 0"
| "route_of (p # ps) = ucast p OR push_bit 4 (route_of ps)"

definition hub_port :: "u8 \<Rightarrow> bool" where
  "hub_port p \<longleftrightarrow> 0 < p \<and> p < 16"

lemma hub_port_bits:
  assumes "hub_port p"
  shows "\<And>k. 4 \<le> k \<Longrightarrow> \<not> bit (ucast p :: u32) k" "take_bit 4 (ucast p :: u32) = ucast p" "(ucast p :: u32) \<noteq> 0"
proof -
  have "unat p < 2 ^ 4" using assms by (simp add: hub_port_def word_less_nat_alt)
  then have u: "unat (ucast p :: u32) = unat p" by (simp add: unsigned_ucast_eq take_bit_nat_eq_self)
  with \<open>unat p < 2 ^ 4\<close> have "unat (ucast p :: u32) < 2 ^ 4" by simp
  then show t: "take_bit 4 (ucast p :: u32) = ucast p"
    by (simp add: word_unat_eq_iff unsigned_take_bit_eq take_bit_nat_eq_self)
  show "\<not> bit (ucast p :: u32) k" if "4 \<le> k" for k
    using t that by (metis bit_take_bit_iff linorder_not_less)
  show "(ucast p :: u32) \<noteq> 0" using assms u by (auto simp: hub_port_def word_unat_eq_iff word_less_nat_alt)
qed

lemma route_of_append: "route_of (ps @ [p]) = route_of ps OR push_bit (4 * length ps) (ucast p)"
  by (induction ps) (simp_all add: push_bit_or or.assoc add.commute)

lemma route_of_bits:
  assumes "\<forall>p \<in> set ps. hub_port p"
  shows "4 * length ps \<le> k \<Longrightarrow> \<not> bit (route_of ps) k"
  using assms
proof (induction ps arbitrary: k)
  case (Cons p ps)
  then show ?case using hub_port_bits(1)[of p k] by (auto simp: bit_simps)
qed simp

lemma route_of_drop:
  assumes "\<forall>p \<in> set ps. hub_port p" "length ps \<le> 8"
  shows "drop_bit (4 * j) (route_of ps) = route_of (drop j ps)"
  using assms
proof (induction ps arbitrary: j)
  case (Cons p ps)
  show ?case
  proof (cases j)
    case (Suc i)
    have "drop_bit 4 (route_of (p # ps)) = route_of ps"
    proof (rule bit_word_eqI)
      fix k assume "k < LENGTH(32)"
      have "\<not> bit (route_of ps) k" if "28 \<le> k"
        by (rule route_of_bits) (use Cons.prems that in auto)
      then show "bit (drop_bit 4 (route_of (p # ps))) k = bit (route_of ps) k"
        using hub_port_bits(1)[of p "k + 4"] Cons.prems by (auto simp: bit_simps add.commute)
    qed
    then have "drop_bit (4 * j) (route_of (p # ps)) = drop_bit (4 * i) (route_of ps)"
      by (metis Suc drop_bit_drop_bit mult_Suc_right add.commute)
    with Cons Suc show ?thesis by simp
  qed simp
qed simp

lemma route_of_nibble:
  assumes "\<forall>p \<in> set ps. hub_port p" "length ps \<le> 8"
  shows "take_bit 4 (drop_bit (4 * j) (route_of ps)) = (if j < length ps then ucast (ps ! j) else 0)"
proof (cases "j < length ps")
  case True
  then have "drop j ps = ps ! j # drop (Suc j) ps" by (simp add: Cons_nth_drop_Suc)
  moreover have "take_bit 4 (ucast (ps ! j) OR push_bit 4 r :: u32) = ucast (ps ! j)" for r
    using hub_port_bits(2)[of "ps ! j"] assms(1) True by (simp add: push_bit_take_bit take_bit_push_bit)
  ultimately show ?thesis using route_of_drop[OF assms, of j] True by simp
next
  case False
  with route_of_drop[OF assms, of j] show ?thesis by simp
qed

lemma next_route_loop_eq:
  assumes "\<forall>p \<in> set ps. hub_port p" "length ps \<le> 8" "j \<le> length ps" "j + n \<le> 8"
  shows "next_route_loop n (4 * j) (route_of ps) p = (if length ps < j + n then route_of (ps @ [p]) else 0)"
  using assms
proof (induction n arbitrary: j)
  case (Suc n)
  have z: "route_of ps AND push_bit (4 * j) 0xf = 0 \<longleftrightarrow> j = length ps"
    using route_nibble[of "4 * j" "route_of ps"] route_of_nibble[OF Suc.prems(1,2), of j] hub_port_bits(3)[of "ps ! j"] Suc.prems
    by (auto simp: nth_mem)
  show ?case
  proof (cases "j = length ps")
    case True
    with z show ?thesis by (simp add: route_of_append)
  next
    case False
    with z have "next_route_loop (Suc n) (4 * j) (route_of ps) p = next_route_loop n (4 * Suc j) (route_of ps) p"
      by (simp add: add.commute)
    with Suc.IH[of "Suc j"] Suc.prems False show ?thesis by simp
  qed
qed simp

section \<open>Properties\<close>



text \<open>Route strings: a device behind up to three hubs has the path of their ports, four bits each, and going through a port of
  the last one appends it to the path, so that every port can be read back from its four bits; a fifth hub is not addressable, and
  the route is then that of a device at the root hub.\<close>

theorem next_route_appends:
  assumes "\<forall>q \<in> set ps. hub_port q" "hub_port p" "length ps \<le> 7"
  shows "next_route (route_of ps) p = (if length ps < 4 then route_of (ps @ [p]) else 0) \<and>
    (\<forall>j < length ps + 1. take_bit 4 (drop_bit (4 * j) (route_of (ps @ [p]))) = ucast ((ps @ [p]) ! j))"
proof
  show "next_route (route_of ps) p = (if length ps < 4 then route_of (ps @ [p]) else 0)"
    using next_route_loop_eq[OF assms(1), of 0 4 p] assms(3) by (simp add: next_route_def)
  show "\<forall>j < length ps + 1. take_bit 4 (drop_bit (4 * j) (route_of (ps @ [p]))) = ucast ((ps @ [p]) ! j)"
    using route_of_nibble[of "ps @ [p]"] assms by simp
qed

theorem next_route_appends_witness:
  "next_route (route_of [3, 1]) 2 = route_of [3, 1, 2]"
  using next_route_appends[of "[3, 1]" 2] by (simp add: hub_port_def)

text \<open>A hub may have more ports than fit into four bits: a port from 16 on spills into the bits of the next hub.\<close>

lemma next_route_port_spills: "next_route 0 0x12 = route_of [2, 1]"
  by code_simp

end
