(* ===== verification/Xhc_System.thy ===== *)
theory Xhc_System
  imports Event_Ring Endpoint_Index
begin

text \<open>
  What the USB devices and the controller of \<^verbatim>\<open>kernel/src/usb/device.rs\<close> and \<^verbatim>\<open>kernel/src/xhci/controller.rs\<close> share: the rings, the
  allocator and the registers, each behind its mutex in the source, and the memory that the controller hardware writes.

  The hardware is the parameter \<open>Hw\<close>. Its step \<open>hw_env\<close> is what happens between two looks of the driver at a register or at the
  event ring: the controller's work and, where the driver gives up the processor, the work of the other tasks. The crates are the
  parameter \<open>Libs\<close>: the constructors of TRBs (\<open>None\<close> where a setter refuses its argument), their decoding, and the values
  the setters of a context accept.
\<close>

section \<open>Registers\<close>

text \<open>The port status and control register as the values of its fields. The change bits are cleared by writing 1:
  \<^verbatim>\<open>clear_x\<close> of the crate sets the bit to be written, and \<^verbatim>\<open>set_0_x\<close> keeps a write from clearing it.\<close>

record Portsc =
  pr_current_connect_status :: bool
  pr_port_enabled_disabled :: bool
  pr_port_reset :: bool
  pr_port_power :: bool
  pr_port_speed :: u8
  pr_connect_status_change :: bool
  pr_port_enabled_disabled_change :: bool
  pr_warm_port_reset_change :: bool
  pr_over_current_change :: bool
  pr_port_reset_change :: bool
  pr_port_link_state_change :: bool
  pr_port_config_error_change :: bool

text \<open>The eight calls \<^verbatim>\<open>set_0_..\<close> that every update of the register begins with.\<close>

definition prevent_clearing :: "Portsc \<Rightarrow> Portsc" where
  "prevent_clearing p =
     p\<lparr>pr_port_enabled_disabled := False, pr_connect_status_change := False, pr_port_enabled_disabled_change := False,
       pr_warm_port_reset_change := False, pr_over_current_change := False, pr_port_reset_change := False,
       pr_port_link_state_change := False, pr_port_config_error_change := False\<rparr>"

section \<open>The shared state\<close>

text \<open>
  \<open>xs_doorbells\<close> lists the writes to the doorbell registers (index, target, stream), \<open>xs_mem\<close> is the memory of the transfer buffers, and
  \<open>xs_usb_address\<close> the USB address in the output slot context at an address, which the hardware writes.
\<close>

record 'h Xhc =
  xs_alloc :: BumpAllocator
  xs_events :: event_state
  xs_command_ring :: CommandRing
  xs_user_events :: UserEventRing
  xs_doorbells :: "(usize \<times> u8 \<times> u16) list"
  xs_n_doorbells :: usize
  xs_mem :: "usize \<Rightarrow> u8"
  xs_usb_address :: "usize \<Rightarrow> u8"
  xs_portsc :: "Portsc list"
  xs_hw :: 'h

text \<open>\<open>hw_buffer\<close> is where the compiler or the allocator puts a local buffer of a given size, \<open>hw_uninit\<close> what it holds then.\<close>

record 'h Hw =
  hw_env :: "'h Xhc \<Rightarrow> 'h Xhc"
  hw_write_portsc :: "usize \<Rightarrow> Portsc \<Rightarrow> 'h Xhc \<Rightarrow> 'h Xhc"
  hw_buffer :: "usize \<Rightarrow> usize"
  hw_uninit :: "usize \<Rightarrow> u8 list"

datatype StageType = NoDataStage | OutDataStage | InDataStage

datatype TransferAllowed = NormalTrb u64 u32 bool | OtherTransferTrb

datatype CommandAllowed = EnableSlotTrb | AddressDeviceTrb | ConfigureEndpointTrb | OtherCommandTrb

datatype EpField = EpType | MaxPacketSize | MaxBurstSize | TrDequeuePointer | DequeueCycleState | Interval
  | MaxPrimaryStreams | Mult | ErrorCount | AverageTrbLength | MaxEsitPayloadLow

datatype CtxField = AddFlag nat | DropFlag nat | RouteString | RootHubPortNumber | ParentHubSlotId | ParentPortNumber
  | ContextEntries | SlotSpeed | EpCtx DeviceContextIndex EpField

record Libs =
  lib_trb :: TrbLib
  lib_bits :: "u32 BitField"
  lib_erdp :: ErdpLib
  lib_event :: "trb \<Rightarrow> trb + event_allowed"
  lib_usb :: UsbLib
  tb_setup_stage :: "SetupPacketRaw \<Rightarrow> StageType \<Rightarrow> trb"
  tb_data_stage :: "u32 \<Rightarrow> u64 \<Rightarrow> trb option"
  tb_status_stage :: "bool \<Rightarrow> trb"
  tb_normal :: "u64 \<Rightarrow> u32 \<Rightarrow> trb option"
  tb_enable_slot :: trb
  tb_disable_slot :: "u8 \<Rightarrow> trb"
  tb_address_device :: "u64 \<Rightarrow> u8 \<Rightarrow> trb option"
  tb_configure_endpoint :: "u64 \<Rightarrow> u8 \<Rightarrow> trb option"
  tb_evaluate_context :: "u64 \<Rightarrow> u8 \<Rightarrow> trb option"
  transfer_try_from :: "trb \<Rightarrow> TransferAllowed option"
  command_try_from :: "trb \<Rightarrow> CommandAllowed option"
  is_host_controller_event :: "trb \<Rightarrow> bool"
  ctx_fits :: "CtxField \<Rightarrow> u64 \<Rightarrow> bool"
  size_of_input_context :: usize
  size_of_device_context :: usize
  size_of_transfer_ring :: usize

section \<open>Access\<close>

text \<open>\<^verbatim>\<open>port_register_set.read_volatile_at(i)\<close>: the hardware may have moved on since the last look.\<close>

definition read_port :: "'h Hw \<Rightarrow> usize \<Rightarrow> 'h Xhc \<Rightarrow> ('h Xhc \<times> Portsc) option" where
  "read_port W i s = do {
     let s = hw_env W s;
     p \<leftarrow> get_idx (xs_portsc s) i;
     Some (s, p)
   }"

definition update_port :: "'h Hw \<Rightarrow> usize \<Rightarrow> (Portsc \<Rightarrow> Portsc) \<Rightarrow> 'h Xhc \<Rightarrow> 'h Xhc option" where
  "update_port W i f s = do {
     (s, p) \<leftarrow> read_port W i s;
     Some (hw_write_portsc W i (f p) s)
   }"

text \<open>\<^verbatim>\<open>while cond(read_volatile_at(i)) {}\<close>\<close>

partial_function (option) wait_while_port :: "'h Hw \<Rightarrow> usize \<Rightarrow> (Portsc \<Rightarrow> bool) \<Rightarrow> 'h Xhc \<Rightarrow> 'h Xhc option" where
  "wait_while_port W i cond s =
     Option.bind (read_port W i s) (\<lambda>(s, p). if cond p then wait_while_port W i cond s else Some s)"

definition ring_doorbell :: "usize \<Rightarrow> u8 \<Rightarrow> 'h Xhc \<Rightarrow> 'h Xhc option" where
  "ring_doorbell i target s = do {
     rassert (i < xs_n_doorbells s);
     Some (s\<lparr>xs_doorbells := xs_doorbells s @ [(i, target, 0)]\<rparr>)
   }"

text \<open>Every command is pushed onto the command ring, and then the doorbell of the controller is rung.\<close>

definition issue_command :: "Libs \<Rightarrow> trb \<Rightarrow> 'h Xhc \<Rightarrow> ('h Xhc \<times> u64) option" where
  "issue_command L cmd s = do {
     (r, trb_ptr) \<leftarrow> CommandRing_push (lib_trb L) cmd (xs_command_ring s);
     s \<leftarrow> ring_doorbell 0 0 (s\<lparr>xs_command_ring := r\<rparr>);
     Some (s, of_nat trb_ptr)
   }"

definition xhc_poll :: "'h Hw \<Rightarrow> ('f, event_state, 'a) poll_fn \<Rightarrow> ('f, 'h Xhc, 'a) poll_fn" where
  "xhc_poll W poll f s = do {
     (f, e, r) \<leftarrow> poll f (xs_events s);
     let s = s\<lparr>xs_events := e\<rparr>;
     Some (f, case r of Pending \<Rightarrow> hw_env W s | Ready _ \<Rightarrow> s, r)
   }"

definition await_transfer :: "Libs \<Rightarrow> 'h Hw \<Rightarrow> TransferEventWaitKind \<Rightarrow> 'h Xhc \<Rightarrow> ('h Xhc \<times> TransferEvent) option" where
  "await_transfer L W = await_sync (xhc_poll W (TransferEventFuture_poll (lib_trb L) (lib_bits L) (lib_erdp L) (lib_event L)))"

definition await_command :: "Libs \<Rightarrow> 'h Hw \<Rightarrow> u64 \<Rightarrow> 'h Xhc \<Rightarrow> ('h Xhc \<times> CommandCompletion) option" where
  "await_command L W = await_sync (xhc_poll W (CommandCompletionFuture_poll (lib_trb L) (lib_bits L) (lib_erdp L) (lib_event L)))"

text \<open>\<^verbatim>\<open>(p as *const TrbRaw).read_volatile()\<close> in the memory of a ring; elsewhere the model has no memory of TRBs.\<close>

definition read_trb_box :: "trb list Box \<Rightarrow> u64 \<Rightarrow> trb option" where
  "read_trb_box b p =
     (let off = unat p - box_ptr b in
      if box_ptr b \<le> unat p \<and> off mod size_of_TrbRaw = 0 \<and> off div size_of_TrbRaw < length (box_val b)
      then Some (box_val b ! (off div size_of_TrbRaw)) else None)"

section \<open>Buffers\<close>

definition load_bytes :: "usize \<Rightarrow> usize \<Rightarrow> 'h Xhc \<Rightarrow> u8 list" where
  "load_bytes p n s = map (xs_mem s) [p..<p + n]"

definition store_bytes :: "usize \<Rightarrow> u8 list \<Rightarrow> 'h Xhc \<Rightarrow> 'h Xhc" where
  "store_bytes p bs s = s\<lparr>xs_mem := (\<lambda>a. if p \<le> a \<and> a < p + length bs then bs ! (a - p) else xs_mem s a)\<rparr>"

section \<open>Lemmas\<close>

lemma load_store_bytes: "load_bytes p (length bs) (store_bytes p bs s) = bs"
  by (rule nth_equalityI) (simp_all add: load_bytes_def store_bytes_def)

lemma load_bytes_length [simp]: "length (load_bytes p n s) = n"
  by (simp add: load_bytes_def)

lemma wait_while_port_ends:
  assumes "\<forall>k < n. \<exists>p. get_idx (xs_portsc ((hw_env W ^^ Suc k) s)) i = Some p \<and> cond p"
    and "get_idx (xs_portsc ((hw_env W ^^ Suc n) s)) i = Some q" "\<not> cond q"
  shows "wait_while_port W i cond s = Some ((hw_env W ^^ Suc n) s)"
  using assms
proof (induction n arbitrary: s)
  case 0
  then show ?case by (subst wait_while_port.simps) (simp add: read_port_def)
next
  case (Suc n)
  from Suc.prems(1) have "\<exists>p. get_idx (xs_portsc ((hw_env W ^^ Suc 0) s)) i = Some p \<and> cond p" by blast
  then obtain p where p: "get_idx (xs_portsc (hw_env W s)) i = Some p" "cond p" by auto
  have "\<exists>p. get_idx (xs_portsc ((hw_env W ^^ Suc k) (hw_env W s))) i = Some p \<and> cond p" if "k < n" for k
  proof -
    from Suc.prems(1) that have "\<exists>p. get_idx (xs_portsc ((hw_env W ^^ Suc (Suc k)) s)) i = Some p \<and> cond p" by blast
    then show ?thesis by (simp add: funpow_swap1)
  qed
  with Suc.IH[of "hw_env W s"] Suc.prems(2,3) p show ?case
    by (subst wait_while_port.simps) (simp add: read_port_def funpow_swap1)
qed

end
