(* ===== verification/Hub_Driver.thy ===== *)
theory Hub_Driver
  imports Class_Driver
begin

text \<open>
  The driver for USB hubs, \<^verbatim>\<open>kernel/src/usb/class_driver/hub.rs\<close>, and the manager of the class drivers at the end of
  \<^verbatim>\<open>kernel/src/usb/class_driver.rs\<close>. The busy-wait delays (\<^verbatim>\<open>sleep\<close>) and the points at which the hub's future yields have no
  effect of their own: the driver runs the future with \<^verbatim>\<open>await_sync!\<close>.
\<close>

section \<open>The state machine of a hub\<close>

datatype HubState = HubAddressed | HubGetConfig | HubSetConfig | GetHubDescriptor | InitPort u8 | HubRunning

record HubDevice =
  hd_state :: HubState
  hd_address :: u8
  hd_ep0 :: Endpoint
  hd_config_descriptor :: "ConfigurationDescriptor option"
  hd_number_of_ports :: u8
  hd_power_on_2_power_good :: u8

definition HubDevice_new :: "u8 \<Rightarrow> u8 \<Rightarrow> HubDevice" where
  "HubDevice_new address max_packet_size =
     \<lparr>hd_state = HubAddressed, hd_address = address, hd_ep0 = Endpoint_new address 0 0 Control In (ucast max_packet_size),
      hd_config_descriptor = None, hd_number_of_ports = 0, hd_power_on_2_power_good = 0\<rparr>"

datatype PortFeatureSelector = PortConnection | PortEnable | PortSuspend | PortOverCurrent | PortReset | PortPower | PortLowSpeed
  | CPortConnection | CPortEnable | CPortSuspend | CPortOverCurrent | CPortReset | PortTest | PortIndicator

fun port_feature :: "PortFeatureSelector \<Rightarrow> u8" where
  "port_feature PortConnection = 0" | "port_feature PortEnable = 1" | "port_feature PortSuspend = 2" | "port_feature PortOverCurrent = 3"
| "port_feature PortReset = 4" | "port_feature PortPower = 8" | "port_feature PortLowSpeed = 9" | "port_feature CPortConnection = 16"
| "port_feature CPortEnable = 17" | "port_feature CPortSuspend = 18" | "port_feature CPortOverCurrent = 19" | "port_feature CPortReset = 20"
| "port_feature PortTest = 21" | "port_feature PortIndicator = 22"

text \<open>The bytes of a \<^verbatim>\<open>repr(C)\<close> \<open>HubDescriptor\<close>, whose 16-bit field is aligned to two: a byte of padding comes
  before it. The driver only looks at the bytes of the cleared descriptor it hands to the transfer, and at the
  fields afterwards.\<close>

definition hub_descriptor_bytes :: "HubDescriptor \<Rightarrow> u8 list" where
  "hub_descriptor_bytes h =
     [b_desc_length h, b_descriptor_type h, b_nbr_ports h, 0, ucast (w_hub_characteristics h), ucast (drop_bit 8 (w_hub_characteristics h)),
      b_pwr_on_2_pwr_good h, b_hub_contr_current h]"

definition hub_descriptor_of_bytes :: "u8 list \<Rightarrow> HubDescriptor" where
  "hub_descriptor_of_bytes m =
     \<lparr>b_desc_length = m ! 0, b_descriptor_type = m ! 1, b_nbr_ports = m ! 2, w_hub_characteristics = le16 (m ! 4) (m ! 5),
      b_pwr_on_2_pwr_good = m ! 6, b_hub_contr_current = m ! 7\<rparr>"

text \<open>\<^verbatim>\<open>call.await?\<close>: an error of the host is returned at once, with the device as it is.\<close>

definition on_ok ::
  "('w \<times> u8 list \<times> (TransferError + usize)) option \<Rightarrow> 'd \<Rightarrow> ('w \<Rightarrow> u8 list \<Rightarrow> usize \<Rightarrow> ('w \<times> 'd \<times> (TransferError + unit)) option) \<Rightarrow>
   ('w \<times> 'd \<times> (TransferError + unit)) option"
where
  "on_ok call d k = do {
     (w, buf, r) \<leftarrow> call;
     (case r of Inl e \<Rightarrow> Some (w, d, Inl e) | Inr len \<Rightarrow> k w buf len)
   }"

definition HUB_CONFIG_BUFFER_LEN :: usize where
  "HUB_CONFIG_BUFFER_LEN = 256"

fun hub_config_step :: "ConfigurationDescriptor option \<Rightarrow> DescriptorRef \<Rightarrow> ConfigurationDescriptor option + unit" where
  "hub_config_step c (Configuration conf_desc) = Inl (Some conf_desc)"
| "hub_config_step c (Interface _) = Inl c"
| "hub_config_step c (Endpoint _) = Inl c"
| "hub_config_step c Unknown = Inl c"

definition hub_get_config :: "UsbLib \<Rightarrow> 'w UsbHost \<Rightarrow> HubDevice \<Rightarrow> 'w \<Rightarrow> ('w \<times> HubDevice \<times> (TransferError + unit)) option" where
  "hub_get_config L H d w =
     on_ok (get_descriptor L H (hd_ep0 d) DT_Configuration (uh_uninit H (ul_configuration_size L)) w) d (\<lambda>w desc_buf len. do {
       rassert (len = ul_configuration_size L);
       let total = unat (w_total_length (ul_configuration L desc_buf));
       if total > HUB_CONFIG_BUFFER_LEN then Some (w, d, Inl (Permanent ''config descriptor too large''))
       else if HUB_CONFIG_BUFFER_LEN < total then Some (w, d, Inl (Permanent ''config descriptor too large''))
       else do {
         config_buf \<leftarrow> slice (uh_uninit H HUB_CONFIG_BUFFER_LEN) 0 total;
         on_ok (get_descriptor L H (hd_ep0 d) DT_Configuration config_buf w) d (\<lambda>w config_buf len. do {
           rassert (len = total);
           r \<leftarrow> desc_loop L hub_config_step (hd_config_descriptor d) (DescriptorIter_new config_buf);
           (case r of
              Inl c \<Rightarrow> Some (w, d\<lparr>hd_state := HubSetConfig, hd_config_descriptor := c\<rparr>, Inr ())
            | Inr _ \<Rightarrow> None)
         })
       }
     })"

definition hub_set_config :: "UsbLib \<Rightarrow> 'w UsbHost \<Rightarrow> HubDevice \<Rightarrow> 'w \<Rightarrow> ('w \<times> HubDevice \<times> (TransferError + unit)) option" where
  "hub_set_config L H d w = do {
     c \<leftarrow> hd_config_descriptor d;
     on_ok (uh_control_transfer H (hd_ep0 d) (ul_request_type L HostToDevice Standard DeviceRecipient) SetConfiguration
         (ul_w_value L (b_configuration_value c) 0) 0 None w) d (\<lambda>w _ _. do {
       (w, r) \<leftarrow> uh_register_hub H (hd_address d) w;
       (case r of Inl _ \<Rightarrow> None | Inr _ \<Rightarrow> Some (w, d\<lparr>hd_state := GetHubDescriptor\<rparr>, Inr ()))
     })
   }"

definition hub_get_hub_descriptor :: "UsbLib \<Rightarrow> 'w UsbHost \<Rightarrow> HubDevice \<Rightarrow> 'w \<Rightarrow> ('w \<times> HubDevice \<times> (TransferError + unit)) option" where
  "hub_get_hub_descriptor L H d w = do {
     let ty = ul_request_type L DeviceToHost Class DeviceRecipient;
     rassert (ty = 0xA0);
     let w_value = ul_w_value L 0 0x29;
     rassert (w_value = 0x2900);
     on_ok (uh_control_transfer H (hd_ep0 d) ty GetDescriptor w_value 0 (Some (hub_descriptor_bytes HubDescriptor_default)) w) d
       (\<lambda>w buf _. do {
          let hub_descriptor = hub_descriptor_of_bytes buf;
          Some (w, d\<lparr>hd_state := InitPort 0, hd_number_of_ports := b_nbr_ports hub_descriptor,
            hd_power_on_2_power_good := b_pwr_on_2_pwr_good hub_descriptor\<rparr>, Inr ())
        })
   }"

text \<open>A class request to port \<open>port_index\<close> of the hub.\<close>

definition port_request ::
  "UsbLib \<Rightarrow> 'w UsbHost \<Rightarrow> HubDevice \<Rightarrow> RequestType \<Rightarrow> RequestCode \<Rightarrow> WValue \<Rightarrow> u8 \<Rightarrow> u8 list option \<Rightarrow> 'w \<Rightarrow> ('w \<times> u8 list \<times> (TransferError + usize)) option"
where
  "port_request L H d request_type code w_value port_index buf w =
     uh_control_transfer H (hd_ep0 d) request_type code w_value (ucast port_index + 1) buf w"

text \<open>What \<^verbatim>\<open>InitPort\<close> does from the reset of a connected port on.\<close>

definition hub_reset_port :: "UsbLib \<Rightarrow> 'w UsbHost \<Rightarrow> u8 \<Rightarrow> HubDevice \<Rightarrow> 'w \<Rightarrow> ('w \<times> HubDevice \<times> (TransferError + unit)) option" where
  "hub_reset_port L H port_index d w = do {
     let set_type = ul_request_type L HostToDevice Class OtherRecipient;
     let get_type = ul_request_type L DeviceToHost Class OtherRecipient;
     rassert (set_type = 0x23);
     on_ok (port_request L H d set_type SetFeature (ul_w_value L (port_feature PortReset) 0) port_index None w) d (\<lambda>w _ _. do {
       rassert (set_type = 0x23);
       on_ok (port_request L H d set_type ClearFeature (ul_w_value L (port_feature CPortReset) 0) port_index None w) d (\<lambda>w _ _. do {
         rassert (get_type = 0xa3);
         on_ok (port_request L H d get_type GetStatus (ul_w_value L 0 0) port_index (Some [0, 0, 0, 0]) w) d (\<lambda>w status _. do {
           lo \<leftarrow> get_idx status 0;
           hi \<leftarrow> get_idx status 1;
           let is_low_speed = (le16 lo hi AND 512 \<noteq> 0);
           (w, r) \<leftarrow> uh_assign_address H (hd_address d) port_index is_low_speed w;
           (case r of
              Inl _ \<Rightarrow> None
            | Inr _ \<Rightarrow> do { next_port \<leftarrow> u8add port_index 1; Some (w, d\<lparr>hd_state := InitPort next_port\<rparr>, Inr ()) })
         })
       })
     })
   }"

definition hub_init_port :: "UsbLib \<Rightarrow> 'w UsbHost \<Rightarrow> u8 \<Rightarrow> HubDevice \<Rightarrow> 'w \<Rightarrow> ('w \<times> HubDevice \<times> (TransferError + unit)) option" where
  "hub_init_port L H port_index d w = do {
     let set_type = ul_request_type L HostToDevice Class OtherRecipient;
     let get_type = ul_request_type L DeviceToHost Class OtherRecipient;
     rassert (set_type = 0x23);
     on_ok (port_request L H d set_type SetFeature (ul_w_value L (port_feature PortPower) 0) port_index None w) d (\<lambda>w _ _. do {
       rassert (set_type = 0x23);
       on_ok (port_request L H d set_type ClearFeature (ul_w_value L (port_feature CPortConnection) 0) port_index None w) d (\<lambda>w _ _. do {
         rassert (get_type = 0xa3);
         on_ok (port_request L H d get_type GetStatus (ul_w_value L 0 0) port_index (Some [0, 0, 0, 0]) w) d (\<lambda>w status _. do {
           s0 \<leftarrow> get_idx status 0;
           if s0 AND 1 = 0
           then do { next_port \<leftarrow> u8add port_index 1; Some (w, d\<lparr>hd_state := InitPort next_port\<rparr>, Inr ()) }
           else hub_reset_port L H port_index d w
         })
       })
     })
   }"

definition hub_fsm :: "UsbLib \<Rightarrow> 'w UsbHost \<Rightarrow> usize \<Rightarrow> HubDevice \<Rightarrow> 'w \<Rightarrow> ('w \<times> HubDevice \<times> (TransferError + unit)) option" where
  "hub_fsm L H millis d w =
     (case hd_state d of
        HubAddressed \<Rightarrow> Some (w, d\<lparr>hd_state := HubGetConfig\<rparr>, Inr ())
      | HubGetConfig \<Rightarrow> hub_get_config L H d w
      | HubSetConfig \<Rightarrow> hub_set_config L H d w
      | GetHubDescriptor \<Rightarrow> hub_get_hub_descriptor L H d w
      | InitPort port_index \<Rightarrow>
          (if port_index < hd_number_of_ports d then hub_init_port L H port_index d w
           else Some (w, d\<lparr>hd_state := HubRunning\<rparr>, Inr ()))
      | HubRunning \<Rightarrow> Some (w, d, Inr ()))"

section \<open>The driver\<close>

record HubDriver =
  hub_devices :: "HubDevice option list"

definition HubDriver_new :: HubDriver where
  "HubDriver_new = \<lparr>hub_devices = replicate 127 None\<rparr>"

definition hub_is_running :: "HubDevice \<Rightarrow> bool" where
  "hub_is_running d \<longleftrightarrow> hd_state d = HubRunning"

definition hub_tick_until_running_state :: "UsbLib \<Rightarrow> 'w UsbHost \<Rightarrow> HubDriver \<Rightarrow> 'w \<Rightarrow> ('w \<times> HubDriver \<times> (DriverError + unit)) option" where
  "hub_tick_until_running_state L H D w = do {
     (w, ds, r) \<leftarrow> tick_until_running_loop hub_is_running hd_address (hub_fsm L H) (hub_devices D) 0 w;
     Some (w, D\<lparr>hub_devices := ds\<rparr>, r)
   }"

definition hub_want_device :: "HubDriver \<Rightarrow> DeviceDescriptor \<Rightarrow> bool" where
  "hub_want_device D device = True"

definition hub_add_device :: "DeviceDescriptor \<Rightarrow> u8 \<Rightarrow> HubDriver \<Rightarrow> HubDriver \<times> (DriverError + unit)" where
  "hub_add_device device address D =
     (case find_index Option.is_none (hub_devices D) of
        Some i \<Rightarrow> (D\<lparr>hub_devices := (hub_devices D)[i := Some (HubDevice_new address (b_max_packet_size device))]\<rparr>, Inr ())
      | None \<Rightarrow> (D, Inl (DriverPermanent address ''out of devices'')))"

definition hub_has_address :: "u8 \<Rightarrow> HubDevice option \<Rightarrow> bool" where
  "hub_has_address address d = (case d of Some dd \<Rightarrow> hd_address dd = address | None \<Rightarrow> False)"

definition hub_remove_device :: "u8 \<Rightarrow> HubDriver \<Rightarrow> HubDriver" where
  "hub_remove_device address D =
     (case find_index (hub_has_address address) (hub_devices D) of
        Some i \<Rightarrow> D\<lparr>hub_devices := (hub_devices D)[i := None]\<rparr>
      | None \<Rightarrow> D)"

definition hub_tick :: "UsbLib \<Rightarrow> 'w UsbHost \<Rightarrow> usize \<Rightarrow> HubDriver \<Rightarrow> 'w \<Rightarrow> ('w \<times> HubDriver \<times> (DriverError + unit)) option" where
  "hub_tick L H millis D w = do {
     (w, ds, r) \<leftarrow> tick_devices hd_address (hub_fsm L H) millis (hub_devices D) w;
     Some (w, D\<lparr>hub_devices := ds\<rparr>, r)
   }"

section \<open>The manager of the class drivers\<close>

record 'd DriverInfo =
  di_slot_id :: "usize option"
  di_driver :: 'd

datatype DriverKind = MouseKind | KeyboardKind | HubKind

record 'w ClassDriverManager =
  cd_mouse :: "'w InputOnlyDriver DriverInfo"
  cd_keyboard :: "'w InputOnlyDriver DriverInfo"
  cd_hub :: "HubDriver DriverInfo"

definition ClassDriverManager_new :: "UsbLib \<Rightarrow> 'w callback \<Rightarrow> 'w callback \<Rightarrow> 'w ClassDriverManager" where
  "ClassDriverManager_new L mouse_callback keyboard_callback =
     \<lparr>cd_mouse = \<lparr>di_slot_id = None, di_driver = new_mouse L mouse_callback\<rparr>,
      cd_keyboard = \<lparr>di_slot_id = None, di_driver = new_boot_keyboard L keyboard_callback\<rparr>,
      cd_hub = \<lparr>di_slot_id = None, di_driver = HubDriver_new\<rparr>\<rparr>"

definition driver_kind :: "'w ClassDriverManager \<Rightarrow> usize \<Rightarrow> DriverKind option" where
  "driver_kind C slot_id =
     (if di_slot_id (cd_mouse C) = Some slot_id then Some MouseKind
      else if di_slot_id (cd_keyboard C) = Some slot_id then Some KeyboardKind
      else None)"

text \<open>The three instances of the macro \<^verbatim>\<open>add_device!\<close>.\<close>

definition add_mouse_device :: "usize \<Rightarrow> DeviceDescriptor \<Rightarrow> u8 \<Rightarrow> 'w ClassDriverManager \<Rightarrow> 'w ClassDriverManager \<times> (DriverError + unit)" where
  "add_mouse_device slot_id device_descriptor addr C =
     (if want_device (di_driver (cd_mouse C)) device_descriptor
      then (case add_device mouse_consts device_descriptor addr (di_driver (cd_mouse C)) of
              (D, r) \<Rightarrow> (C\<lparr>cd_mouse := \<lparr>di_slot_id = Some slot_id, di_driver = D\<rparr>\<rparr>, r))
      else (C, Inl (DriverPermanent addr ''Mouse device not wanted'')))"

definition add_keyboard_device :: "usize \<Rightarrow> DeviceDescriptor \<Rightarrow> u8 \<Rightarrow> 'w ClassDriverManager \<Rightarrow> 'w ClassDriverManager \<times> (DriverError + unit)" where
  "add_keyboard_device slot_id device_descriptor addr C =
     (if want_device (di_driver (cd_keyboard C)) device_descriptor
      then (case add_device keyboard_consts device_descriptor addr (di_driver (cd_keyboard C)) of
              (D, r) \<Rightarrow> (C\<lparr>cd_keyboard := \<lparr>di_slot_id = Some slot_id, di_driver = D\<rparr>\<rparr>, r))
      else (C, Inl (DriverPermanent addr ''Keyboard device not wanted'')))"

definition add_hub_device :: "usize \<Rightarrow> DeviceDescriptor \<Rightarrow> u8 \<Rightarrow> 'w ClassDriverManager \<Rightarrow> 'w ClassDriverManager \<times> (DriverError + unit)" where
  "add_hub_device slot_id device_descriptor addr C =
     (if hub_want_device (di_driver (cd_hub C)) device_descriptor
      then (case hub_add_device device_descriptor addr (di_driver (cd_hub C)) of
              (D, r) \<Rightarrow> (C\<lparr>cd_hub := \<lparr>di_slot_id = Some slot_id, di_driver = D\<rparr>\<rparr>, r))
      else (C, Inl (DriverPermanent addr ''Hub device not wanted'')))"


section \<open>A host with a hub\<close>

definition connected :: "(u8 \<Rightarrow> u8 list) \<Rightarrow> u8 \<Rightarrow> bool" where
  "connected status p \<longleftrightarrow> bit (status p ! 0) 0"

definition low_speed :: "(u8 \<Rightarrow> u8 list) \<Rightarrow> u8 \<Rightarrow> bool" where
  "low_speed status p \<longleftrightarrow> bit (status p ! 1) 1"

text \<open>The addresses to assign for the first \<open>k\<close> ports: one for every port with a device, in the order of the ports.\<close>

definition assignments :: "(u8 \<Rightarrow> u8 list) \<Rightarrow> nat \<Rightarrow> (u8 \<times> bool) list" where
  "assignments status k = map (\<lambda>p. (p, low_speed status p)) (filter (connected status) (map of_nat [0..<k]))"

text \<open>A host on which the transfers to a hub of \<open>n\<close> ports succeed; \<open>status\<close> is what the hub says of its ports.
  \<open>J\<close> is an invariant of the outside, with the assignments made so far.\<close>

definition hub_host :: "UsbLib \<Rightarrow> 'w UsbHost \<Rightarrow> ((u8 \<times> bool) list \<Rightarrow> 'w \<Rightarrow> bool) \<Rightarrow> u8 list \<Rightarrow> u8 \<Rightarrow> (u8 \<Rightarrow> u8 list) \<Rightarrow> bool" where
  "hub_host L H J config n status \<longleftrightarrow>
     (\<forall>k. length (uh_uninit H k) = k) \<and> (\<forall>p. length (status p) = 4) \<and>
     (\<forall>log w ep buf. J log w \<and> length buf \<le> length config \<longrightarrow>
        (\<exists>w'. get_descriptor L H ep DT_Configuration buf w = Some (w', take (length buf) config, Inr (length buf)) \<and> J log w')) \<and>
     (\<forall>log w ep buf. J log w \<and> length buf = 8 \<longrightarrow>
        (\<exists>w' buf' k. uh_control_transfer H ep 0xA0 GetDescriptor 0x2900 0 (Some buf) w = Some (w', buf', Inr k) \<and> buf' ! 2 = n \<and> J log w')) \<and>
     (\<forall>log w ep ty code v i. J log w \<longrightarrow> (\<exists>w' b k. uh_control_transfer H ep ty code v i None w = Some (w', b, Inr k) \<and> J log w')) \<and>
     (\<forall>log w ep p. J log w \<longrightarrow>
        (\<exists>w'. uh_control_transfer H ep 0xa3 GetStatus 0 (ucast p + 1) (Some [0, 0, 0, 0]) w = Some (w', status p, Inr 4) \<and> J log w')) \<and>
     (\<forall>log w a. J log w \<longrightarrow> (\<exists>w'. uh_register_hub H a w = Some (w', Inr ()) \<and> J log w')) \<and>
     (\<forall>log w a p l. J log w \<longrightarrow> (\<exists>w'. uh_assign_address H a p l w = Some (w', Inr ()) \<and> J (log @ [(p, l)]) w'))"

lemma hub_hostD:
  assumes "hub_host L H J config n status"
  shows "length (uh_uninit H k) = k" "length (status p) = 4"
    "J log w \<Longrightarrow> length buf \<le> length config \<Longrightarrow>
      \<exists>w'. get_descriptor L H ep DT_Configuration buf w = Some (w', take (length buf) config, Inr (length buf)) \<and> J log w'"
    "J log w \<Longrightarrow> length buf = 8 \<Longrightarrow>
      \<exists>w' buf' k. uh_control_transfer H ep 0xA0 GetDescriptor 0x2900 0 (Some buf) w = Some (w', buf', Inr k) \<and> buf' ! 2 = n \<and> J log w'"
    "J log w \<Longrightarrow> \<exists>w' b k. uh_control_transfer H ep ty code v i None w = Some (w', b, Inr k) \<and> J log w'"
    "J log w \<Longrightarrow> \<exists>w'. uh_control_transfer H ep 0xa3 GetStatus 0 (ucast p + 1) (Some [0, 0, 0, 0]) w = Some (w', status p, Inr 4) \<and> J log w'"
    "J log w \<Longrightarrow> \<exists>w'. uh_register_hub H a w = Some (w', Inr ()) \<and> J log w'"
    "J log w \<Longrightarrow> \<exists>w'. uh_assign_address H a p l w = Some (w', Inr ()) \<and> J (log @ [(p, l)]) w'"
  using assms unfolding hub_host_def by simp_all

text \<open>A configuration made of well-formed descriptors, one of which is the configuration descriptor.\<close>

definition hub_config_ok :: "u8 list \<Rightarrow> bool" where
  "hub_config_ok config \<longleftrightarrow> 9 \<le> length config \<and> unat (le16 (config ! 2) (config ! 3)) = length config \<and> length config \<le> HUB_CONFIG_BUFFER_LEN \<and>
     (\<exists>ds. config = concat ds \<and> (\<forall>d \<in> set ds. descriptor_block d) \<and> (\<exists>d \<in> set ds. d ! 1 = 2))"

lemma hub_config_list:
  "\<exists>c. list_loop hub_config_step c0 ds = Inl c \<and> (c0 \<noteq> None \<or> (\<exists>x. Configuration x \<in> set ds) \<longrightarrow> c \<noteq> None)"
proof (induction ds arbitrary: c0)
  case (Cons d ds)
  from Cons[of "case d of Configuration x \<Rightarrow> Some x | _ \<Rightarrow> c0"] show ?case by (cases d) auto
qed simp

lemma hub_config_found:
  assumes "usb_lib_ok L" "hub_config_ok config"
  shows "\<exists>c. desc_loop L hub_config_step c0 (DescriptorIter_new config) = Some (Inl (Some c))"
proof -
  from assms(2) obtain ds d where ds: "config = concat ds" "\<forall>d \<in> set ds. descriptor_block d" "d \<in> set ds" "d ! 1 = 2"
    by (auto simp: hub_config_ok_def)
  then have "desc_collect L config = Some (map decode_descriptor ds)"
    using desc_collect_blocks[OF assms(1) ds(2)] assms(2) by (simp add: hub_config_ok_def HUB_CONFIG_BUFFER_LEN_def)
  moreover have "\<exists>x. Configuration x \<in> set (map decode_descriptor ds)"
    using ds(3,4) by (auto simp: decode_descriptor_def image_iff intro!: bexI[of _ d])
  ultimately show ?thesis
    using hub_config_list[of c0 "map decode_descriptor ds"] by (auto simp: desc_loop_of_collect)
qed

lemma hub_get_config_serves:
  assumes L: "usb_lib_ok L" and H: "hub_host L H J config n status" and config: "hub_config_ok config" and w: "J log w"
  shows "\<exists>w' c. hub_get_config L H d w = Some (w', d\<lparr>hd_state := HubSetConfig, hd_config_descriptor := Some c\<rparr>, Inr ()) \<and> J log w'"
proof -
  note un = hub_hostD(1)[OF H]
  let ?buf = "uh_uninit H 9"
  obtain w1 where w1: "get_descriptor L H (hd_ep0 d) DT_Configuration ?buf w = Some (w1, take 9 config, Inr 9)" "J log w1"
    using hub_hostD(3)[OF H w, of ?buf "hd_ep0 d"] config un by (auto simp: hub_config_ok_def)
  let ?cbuf = "take (length config) (uh_uninit H HUB_CONFIG_BUFFER_LEN)"
  have len: "length ?cbuf = length config" using config un by (simp add: hub_config_ok_def)
  obtain w2 where w2: "get_descriptor L H (hd_ep0 d) DT_Configuration ?cbuf w1 = Some (w2, config, Inr (length config))" "J log w2"
    using hub_hostD(3)[OF H w1(2), of ?cbuf "hd_ep0 d"] len by auto
  have total: "unat (w_total_length (ul_configuration L (take 9 config))) = length config"
    using config by (simp add: usb_libD(8)[OF L] hub_config_ok_def)
  obtain c where "desc_loop L hub_config_step (hd_config_descriptor d) (DescriptorIter_new config) = Some (Inl (Some c))"
    using hub_config_found[OF L config] by blast
  with w1 w2 config un show ?thesis
    by (intro exI[of _ w2] exI[of _ c]) (simp add: hub_get_config_def on_ok_def usb_libD(5)[OF L] total hub_config_ok_def)
qed


lemma hub_request_types:
  assumes "usb_lib_ok L"
  shows "ul_request_type L HostToDevice Class OtherRecipient = 0x23" "ul_request_type L DeviceToHost Class OtherRecipient = 0xa3"
    "ul_request_type L DeviceToHost Class DeviceRecipient = 0xA0" "ul_w_value L 0 0 = 0" "ul_w_value L 0 0x29 = 0x2900"
  by (simp_all add: usb_libD[OF assms] le16_def)

lemma status_bits:
  "(s0 :: u8) AND 1 = 0 \<longleftrightarrow> \<not> bit s0 0" "le16 lo hi AND 512 \<noteq> 0 \<longleftrightarrow> bit hi 1"
proof -
  have "s0 AND 1 \<noteq> 0 \<longleftrightarrow> bit s0 0" using bit_iff_and_push_bit_not_eq_0[of s0 0] by simp
  then show "s0 AND 1 = 0 \<longleftrightarrow> \<not> bit s0 0" by blast
  have "le16 lo hi AND 512 \<noteq> 0 \<longleftrightarrow> bit (le16 lo hi) 9" using bit_iff_and_push_bit_not_eq_0[of "le16 lo hi" 9] by simp
  also have "\<dots> \<longleftrightarrow> bit hi 1" by (auto simp: le16_def bit_or_iff bit_push_bit_iff bit_ucast_iff dest: bit_imp_le_length)
  finally show "le16 lo hi AND 512 \<noteq> 0 \<longleftrightarrow> bit hi 1" .
qed

lemma hub_reset_port_serves:
  assumes L: "usb_lib_ok L" and H: "hub_host L H J config n status" and w: "J log w" and p: "unat p < 255"
  shows "\<exists>w'. hub_reset_port L H p d w = Some (w', d\<lparr>hd_state := InitPort (p + 1)\<rparr>, Inr ()) \<and> J (log @ [(p, low_speed status p)]) w'"
proof -
  note T = hub_request_types[OF L]
  obtain w1 b1 k1 where w1: "uh_control_transfer H (hd_ep0 d) 0x23 SetFeature (ul_w_value L 4 0) (ucast p + 1) None w = Some (w1, b1, Inr k1)" "J log w1"
    using hub_hostD(5)[OF H w] by blast
  obtain w2 b2 k2 where w2: "uh_control_transfer H (hd_ep0 d) 0x23 ClearFeature (ul_w_value L 20 0) (ucast p + 1) None w1 = Some (w2, b2, Inr k2)" "J log w2"
    using hub_hostD(5)[OF H w1(2)] by blast
  obtain w3 where w3: "uh_control_transfer H (hd_ep0 d) 0xa3 GetStatus 0 (ucast p + 1) (Some [0, 0, 0, 0]) w2 = Some (w3, status p, Inr 4)" "J log w3"
    using hub_hostD(6)[OF H w2(2)] by blast
  obtain w4 where w4: "uh_assign_address H (hd_address d) p (low_speed status p) w3 = Some (w4, Inr ())" "J (log @ [(p, low_speed status p)]) w4"
    using hub_hostD(8)[OF H w3(2)] by blast
  have "(le16 (status p ! 0) (status p ! 1) AND 512 \<noteq> 0) = low_speed status p" by (simp only: status_bits low_speed_def)
  then show ?thesis
    using w1 w2 w3 w4 p hub_hostD(2)[OF H, of p]
    by (intro exI[of _ w4]) (simp add: hub_reset_port_def on_ok_def port_request_def T u8add_ok)
qed

lemma hub_init_port_serves:
  assumes L: "usb_lib_ok L" and H: "hub_host L H J config n status" and w: "J log w" and p: "unat p < 255"
  shows "\<exists>w'. hub_init_port L H p d w = Some (w', d\<lparr>hd_state := InitPort (p + 1)\<rparr>, Inr ()) \<and>
    J (log @ (if connected status p then [(p, low_speed status p)] else [])) w'"
proof -
  note T = hub_request_types[OF L]
  obtain w1 b1 k1 where w1: "uh_control_transfer H (hd_ep0 d) 0x23 SetFeature (ul_w_value L 8 0) (ucast p + 1) None w = Some (w1, b1, Inr k1)" "J log w1"
    using hub_hostD(5)[OF H w] by blast
  obtain w2 b2 k2 where w2: "uh_control_transfer H (hd_ep0 d) 0x23 ClearFeature (ul_w_value L 16 0) (ucast p + 1) None w1 = Some (w2, b2, Inr k2)" "J log w2"
    using hub_hostD(5)[OF H w1(2)] by blast
  obtain w3 where w3: "uh_control_transfer H (hd_ep0 d) 0xa3 GetStatus 0 (ucast p + 1) (Some [0, 0, 0, 0]) w2 = Some (w3, status p, Inr 4)" "J log w3"
    using hub_hostD(6)[OF H w2(2)] by blast
  have upto: "hub_init_port L H p d w = (if connected status p then hub_reset_port L H p d w3 else Some (w3, d\<lparr>hd_state := InitPort (p + 1)\<rparr>, Inr ()))"
    using w1 w2 w3 p hub_hostD(2)[OF H, of p]
    by (simp add: hub_init_port_def on_ok_def port_request_def T u8add_ok status_bits connected_def)
  show ?thesis
  proof (cases "connected status p")
    case True
    with upto hub_reset_port_serves[OF L H w3(2) p, of d] show ?thesis by simp
  next
    case False
    with upto w3(2) show ?thesis by simp
  qed
qed

text \<open>The course of a hub: what has been assigned in each of its states.\<close>

definition hub_course ::
  "((u8 \<times> bool) list \<Rightarrow> 'w \<Rightarrow> bool) \<Rightarrow> (u8 \<times> bool) list \<Rightarrow> u8 \<Rightarrow> (u8 \<Rightarrow> u8 list) \<Rightarrow> HubDevice \<Rightarrow> 'w \<Rightarrow> bool"
where
  "hub_course J log n status d w =
     (case hd_state d of
        InitPort p \<Rightarrow> hd_number_of_ports d = n \<and> p \<le> n \<and> J (log @ assignments status (unat p)) w
      | HubRunning \<Rightarrow> hd_number_of_ports d = n \<and> J (log @ assignments status (unat n)) w
      | HubSetConfig \<Rightarrow> hd_config_descriptor d \<noteq> None \<and> J log w
      | _ \<Rightarrow> J log w)"

fun hub_rank :: "u8 \<Rightarrow> HubState \<Rightarrow> nat" where
  "hub_rank n HubAddressed = 260" | "hub_rank n HubGetConfig = 259" | "hub_rank n HubSetConfig = 258" | "hub_rank n GetHubDescriptor = 257"
| "hub_rank n (InitPort p) = 1 + (unat n - unat p)" | "hub_rank n HubRunning = 0"

lemma assignments_Suc:
  "assignments status (Suc k) = assignments status k @ (if connected status (of_nat k) then [(of_nat k, low_speed status (of_nat k))] else [])"
  by (simp add: assignments_def)

lemma hub_fsm_advances:
  assumes L: "usb_lib_ok L" and H: "hub_host L H J config n status" and config: "hub_config_ok config"
    and d: "hub_course J log n status d w" "hd_state d \<noteq> HubRunning"
  shows "\<exists>w' d'. hub_fsm L H millis d w = Some (w', d', Inr ()) \<and> hub_course J log n status d' w' \<and> hd_address d' = hd_address d \<and>
    hub_rank (hd_number_of_ports d') (hd_state d') < hub_rank (hd_number_of_ports d) (hd_state d)"
proof (cases "hd_state d")
  case HubAddressed
  with d show ?thesis by (simp add: hub_fsm_def hub_course_def)
next
  case HubGetConfig
  with hub_get_config_serves[OF L H config, of log w d] d show ?thesis by (auto simp: hub_fsm_def hub_course_def)
next
  case HubSetConfig
  with d obtain c where c: "hd_config_descriptor d = Some c" and w: "J log w" by (auto simp: hub_course_def)
  obtain w1 b k where w1: "uh_control_transfer H (hd_ep0 d) (ul_request_type L HostToDevice Standard DeviceRecipient) SetConfiguration
      (ul_w_value L (b_configuration_value c) 0) 0 None w = Some (w1, b, Inr k)" "J log w1" using hub_hostD(5)[OF H w] by blast
  obtain w2 where "uh_register_hub H (hd_address d) w1 = Some (w2, Inr ())" "J log w2" using hub_hostD(7)[OF H w1(2)] by blast
  with HubSetConfig c w1 show ?thesis by (simp add: hub_fsm_def hub_set_config_def on_ok_def hub_course_def)
next
  case GetHubDescriptor
  with d have w: "J log w" by (simp add: hub_course_def)
  let ?buf = "hub_descriptor_bytes HubDescriptor_default"
  obtain w1 b k where w1: "uh_control_transfer H (hd_ep0 d) 0xA0 GetDescriptor 0x2900 0 (Some ?buf) w = Some (w1, b, Inr k)" "b ! 2 = n" "J log w1"
    using hub_hostD(4)[OF H w, of ?buf "hd_ep0 d"] by (auto simp: hub_descriptor_bytes_def)
  moreover have "unat (hd_number_of_ports d) < 256" "unat n < 256" by (rule unat_u8)+
  ultimately show ?thesis using GetHubDescriptor
    by (simp add: hub_fsm_def hub_get_hub_descriptor_def hub_request_types[OF L] on_ok_def hub_course_def hub_descriptor_of_bytes_def assignments_def)
next
  case (InitPort p)
  with d have n: "hd_number_of_ports d = n" and pn: "p \<le> n" and w: "J (log @ assignments status (unat p)) w" by (simp_all add: hub_course_def)
  show ?thesis
  proof (cases "p < n")
    case True
    then have p: "unat p < unat n" "unat p < 255" using unat_u8[of n] by (simp_all add: word_less_nat_alt)
    then have up: "unat (p + 1) = Suc (unat p)" by (simp add: unat_word_ariths)
    from hub_init_port_serves[OF L H w p(2), of d] obtain w' where w': "hub_init_port L H p d w = Some (w', d\<lparr>hd_state := InitPort (p + 1)\<rparr>, Inr ())"
      "J ((log @ assignments status (unat p)) @ (if connected status p then [(p, low_speed status p)] else [])) w'" by blast
    from w'(2) have "J (log @ assignments status (unat (p + 1))) w'" by (simp add: up assignments_Suc split: if_splits)
    moreover have "p + 1 \<le> n" using p up by (simp add: word_le_nat_alt)
    ultimately show ?thesis using InitPort True n w'(1) p up by (simp add: hub_fsm_def hub_course_def)
  next
    case False
    with pn have "p = n" by simp
    with InitPort n w show ?thesis by (simp add: hub_fsm_def hub_course_def)
  qed
qed (use d in simp)


section \<open>Properties\<close>

text \<open>The hub at position \<open>i\<close> of a table in which the other hubs are running.\<close>

definition hub_table ::
  "((u8 \<times> bool) list \<Rightarrow> 'w \<Rightarrow> bool) \<Rightarrow> (u8 \<times> bool) list \<Rightarrow> u8 \<Rightarrow> (u8 \<Rightarrow> u8 list) \<Rightarrow> u8 \<Rightarrow> nat \<Rightarrow> HubDevice option list \<Rightarrow> HubDevice option list \<Rightarrow> 'w \<Rightarrow> bool"
where
  "hub_table J log n status address i ds0 ds w \<longleftrightarrow>
     (\<exists>d. ds = ds0[i := Some d] \<and> hd_address d = address \<and> hub_course J log n status d w)"

lemma hub_progresses:
  assumes L: "usb_lib_ok L" and H: "hub_host L H J config n status" and config: "hub_config_ok config"
    and i: "i < length ds0" and others: "\<forall>j d. j < length ds0 \<and> j \<noteq> i \<and> ds0 ! j = Some d \<longrightarrow> hd_state d = HubRunning"
  shows "progresses hub_is_running (hub_fsm L H) (\<lambda>d. hub_rank (hd_number_of_ports d) (hd_state d)) (\<lambda>_. 0) 0 (hub_table J log n status address i ds0)"
  unfolding progresses_def
proof (intro conjI allI impI)
  fix d :: HubDevice
  assume "hub_rank (hd_number_of_ports d) (hd_state d) = 0"
  then show "hub_is_running d" by (cases "hd_state d") (simp_all add: hub_is_running_def)
next
  fix ds w d j millis
  assume a: "hub_table J log n status address i ds0 ds w \<and> j < length ds \<and> ds ! j = Some d \<and> \<not> hub_is_running d \<and> 0 < millis \<and> millis + 0 < usize_limit"
  then obtain d1 where d1: "ds = ds0[i := Some d1]" "hd_address d1 = address" "hub_course J log n status d1 w" by (auto simp: hub_table_def)
  have "j = i" using a d1(1) others by (cases "j = i") (auto simp: hub_is_running_def)
  with a d1(1) i have "d = d1" by simp
  with d1 a hub_fsm_advances[OF L H config, of log d w millis] obtain w' d' where
    "hub_fsm L H millis d w = Some (w', d', Inr ())" "hub_course J log n status d' w'" "hd_address d' = address"
    "hub_rank (hd_number_of_ports d') (hd_state d') < hub_rank (hd_number_of_ports d) (hd_state d)" by (auto simp: hub_is_running_def)
  with d1 \<open>j = i\<close> show "\<exists>w' d'. hub_fsm L H millis d w = Some (w', d', Inr ()) \<and> hub_table J log n status address i ds0 (ds[j := Some d']) w' \<and>
      hub_rank (hd_number_of_ports d') (hd_state d') < hub_rank (hd_number_of_ports d) (hd_state d) \<and> 0 \<le> millis + 0"
    by (auto simp: hub_table_def)
qed

text \<open>C22: Bringing up a hub ends, whatever its number of ports: the driver powers and queries every port, and asks for an address
  exactly for the ports to which a device is connected, once each, in the order of the ports and with the speed that the hub
  reports. The hub is then running and the rest of the table is unchanged.\<close>

theorem hub_assigns_connected_ports:
  assumes "usb_lib_ok L" "hub_host L H J config n status" "hub_config_ok config" "J log w" "length (hub_devices D) < 999999"
    and "i < length (hub_devices D)" "hub_devices D ! i = Some d0" "hd_state d0 = HubAddressed"
    and "\<forall>j d. j < length (hub_devices D) \<and> j \<noteq> i \<and> hub_devices D ! j = Some d \<longrightarrow> hd_state d = HubRunning"
  shows "\<exists>w' d. hub_tick_until_running_state L H D w = Some (w', D\<lparr>hub_devices := (hub_devices D)[i := Some d]\<rparr>, Inr ()) \<and>
    hd_state d = HubRunning \<and> hd_address d = hd_address d0 \<and> hd_number_of_ports d = n \<and> J (log @ assignments status (unat n)) w'"
proof -
  let ?T = "hub_table J log n status (hd_address d0) i (hub_devices D)"
  have "hub_devices D = (hub_devices D)[i := Some d0]" using assms(6,7) by (metis list_update_id)
  then have start: "?T (hub_devices D) w" using assms(4,8) unfolding hub_table_def hub_course_def by (intro exI[of _ d0]) simp
  have due: "slot_due hub_is_running (\<lambda>d. hub_rank (hd_number_of_ports d) (hd_state d)) (\<lambda>_. 0) 260 (0 + 0) x" if "x \<in> set (hub_devices D)" for x
  proof (cases x)
    case (Some d)
    with that obtain j where "j < length (hub_devices D)" "hub_devices D ! j = Some d" by (metis in_set_conv_nth)
    with assms(7-9) show ?thesis by (cases "j = i") (auto simp: Some slot_due_def hub_is_running_def)
  qed (simp add: slot_due_def)
  from tick_loop_ends[OF hub_progresses[OF assms(1-3,6,9)] start _ _ _, where n = 260 and m = 0 and addr = hd_address] due assms(5)
  obtain w' ds' where r: "tick_until_running_loop hub_is_running hd_address (hub_fsm L H) (hub_devices D) 0 w = Some (w', ds', Inr ())"
    "?T ds' w'" "\<not> any_not hub_is_running ds'" by auto
  from r(2) obtain d where d: "ds' = (hub_devices D)[i := Some d]" "hd_address d = hd_address d0" "hub_course J log n status d w'" by (auto simp: hub_table_def)
  with r(3) assms(6) have "hd_state d = HubRunning" by (auto simp: any_not_iff hub_is_running_def set_update_memI)
  with d r(1) show ?thesis by (auto simp: hub_tick_until_running_state_def hub_course_def)
qed


text \<open>A hub of two ports with a low-speed device at the first.\<close>

definition example_hub_blocks :: "u8 list list" where
  "example_hub_blocks = [[9, 2, 25, 0, 1, 1, 0, 0xe0, 0], [9, 4, 0, 0, 1, 9, 0, 0, 0], [7, 5, 0x81, 3, 1, 0, 12]]"

definition example_status :: "u8 \<Rightarrow> u8 list" where
  "example_status p = (if p = 0 then [1, 3, 0, 0] else [0, 1, 0, 0])"

definition example_hub_host :: "(u8 \<times> bool) list UsbHost" where
  "example_hub_host =
     \<lparr>uh_control_transfer = (\<lambda>ep ty code v i buf w. case buf of
        None \<Rightarrow> Some (w, [], Inr 0)
      | Some b \<Rightarrow> if ty = 0xa3 then Some (w, example_status (ucast (i - 1)), Inr 4)
          else if ty = 0xA0 then Some (w, [9, 0x29, 2, 0, 0, 50, 100, 0], Inr 8)
          else Some (w, take (length b) (concat example_hub_blocks), Inr (length b))),
      uh_in_transfer = (\<lambda>ep b w. Some (w, b, Inr (length b))),
      uh_register_hub = (\<lambda>a w. Some (w, Inr ())), uh_assign_address = (\<lambda>a p l w. Some (w @ [(p, l)], Inr ())),
      uh_uninit = (\<lambda>n. replicate n 0)\<rparr>"

lemma example_hub_host_ok:
  "hub_host example_usb_lib example_hub_host (\<lambda>log w. w = log) (concat example_hub_blocks) 2 example_status"
proof -
  have "ucast (ucast p :: u16) = p" for p :: u8 by (rule bit_word_eqI) (auto simp: bit_simps dest: bit_imp_le_length)
  then show ?thesis
    by (simp add: hub_host_def example_hub_host_def get_descriptor_def example_usb_lib_def example_status_def)
qed

lemma example_hub_config_ok: "hub_config_ok (concat example_hub_blocks)"
  unfolding hub_config_ok_def
proof (intro conjI exI[of _ example_hub_blocks] ballI)
  fix d
  assume "d \<in> set example_hub_blocks"
  then show "descriptor_block d" by (auto simp: example_hub_blocks_def descriptor_block_def)
qed (simp_all add: example_hub_blocks_def le16_def HUB_CONFIG_BUFFER_LEN_def)

definition example_hub_driver :: HubDriver where
  "example_hub_driver = \<lparr>hub_devices = [None, Some (HubDevice_new 3 64), None]\<rparr>"

theorem hub_assigns_connected_ports_witness:
  "\<exists>w' D'. hub_tick_until_running_state example_usb_lib example_hub_host example_hub_driver [] = Some (w', D', Inr ()) \<and> w' = [(0, True)]"
proof -
  have others: "\<forall>j d. j < length (hub_devices example_hub_driver) \<and> j \<noteq> 1 \<and> hub_devices example_hub_driver ! j = Some d \<longrightarrow> hd_state d = HubRunning"
    by (auto simp: example_hub_driver_def less_Suc_eq nth_Cons')
  have "assignments example_status (unat (2 :: u8)) = [(0, True)]"
    by (simp add: assignments_def upt_rec connected_def low_speed_def example_status_def bit_iff_odd)
  then show ?thesis
    using hub_assigns_connected_ports[OF example_usb_lib_ok example_hub_host_ok example_hub_config_ok refl _ _ _ _ others, of "HubDevice_new 3 64" "[]"]
    by (auto simp: example_hub_driver_def HubDevice_new_def)
qed

text \<open>The hub driver does not read the power-on time of the hub: a hub descriptor has it at offset 5, but the structure is not
  packed, so that the compiler puts the field at offset 6. For a descriptor as the USB specification lays it out, the
  driver takes the hub controller's current for the time.\<close>

theorem hub_power_good_is_current:
  assumes "usb_lib_ok L"
    and "uh_control_transfer H (hd_ep0 d) 0xA0 GetDescriptor 0x2900 0 (Some (replicate 8 0)) w =
      Some (w', [len, 0x29, nbr_ports, characteristics_lo, characteristics_hi, pwr_on_2_pwr_good, contr_current, removable], Inr k)"
  shows "\<exists>d'. hub_get_hub_descriptor L H d w = Some (w', d', Inr ()) \<and> hd_number_of_ports d' = nbr_ports \<and>
    hd_power_on_2_power_good d' = contr_current"
proof -
  have "hub_descriptor_bytes HubDescriptor_default = replicate 8 0"
    by (simp add: hub_descriptor_bytes_def HubDescriptor_default_def numeral_eq_Suc)
  with assms(2) show ?thesis
    by (simp add: hub_get_hub_descriptor_def hub_request_types[OF assms(1)] on_ok_def hub_descriptor_of_bytes_def)
qed

theorem hub_power_good_is_current_witness:
  "\<exists>d'. hub_get_hub_descriptor example_usb_lib example_hub_host (HubDevice_new 3 64) [] = Some ([], d', Inr ()) \<and>
     hd_number_of_ports d' = 2 \<and> hd_power_on_2_power_good d' = 100"
  by (rule hub_power_good_is_current[OF example_usb_lib_ok]) (simp add: example_hub_host_def)

text \<open>The manager knows one slot per kind of device: when a second mouse is added, the slot of the first one belongs to no driver any
  more, although the mouse driver still has the device. The controller answers a report from such a slot with
  \<^verbatim>\<open>todo!()\<close>, which panics.\<close>

theorem second_mouse_orphans_first:
  assumes "slot1 \<noteq> slot2" "di_slot_id (cd_keyboard C) \<noteq> Some slot1"
  shows "driver_kind (fst (add_mouse_device slot1 desc1 addr1 C)) slot1 = Some MouseKind \<and>
    driver_kind (fst (add_mouse_device slot2 desc2 addr2 (fst (add_mouse_device slot1 desc1 addr1 C)))) slot1 = None"
  using assms by (simp add: add_mouse_device_def want_device_def driver_kind_def split: prod.split)

theorem second_mouse_orphans_first_witness:
  "driver_kind (fst (add_mouse_device 1 \<lparr>b_max_packet_size = 8\<rparr> 1 (ClassDriverManager_new example_usb_lib (\<lambda>a b w. Some w) (\<lambda>a b w. Some (w :: nat))))) 1 = Some MouseKind \<and>
   driver_kind (fst (add_mouse_device 2 \<lparr>b_max_packet_size = 8\<rparr> 2 (fst (add_mouse_device 1 \<lparr>b_max_packet_size = 8\<rparr> 1 (ClassDriverManager_new example_usb_lib (\<lambda>a b w. Some w) (\<lambda>a b w. Some (w :: nat))))))) 1 = None"
  by (rule second_mouse_orphans_first) (simp_all add: ClassDriverManager_new_def)

end
