(* ===== verification/Usb_Device.thy ===== *)
theory Usb_Device
  imports Xhc_System Hub_Driver
begin

text \<open>
  A USB device as the xHCI driver sees it, \<^verbatim>\<open>kernel/src/usb/device.rs\<close>: its contexts and transfer rings, control transfers, requests
  for descriptors, the interrupt endpoint, and the bring-up of a device, which hands it to a class driver.

  The operations work on the device and the state it shares with the controller. An input context is the values of its fields; the
  crate packs them into words and refuses values that do not fit (\<open>ctx_fits\<close>). The output context is written by the hardware and kept
  in the shared state. A buffer is its address and its length. Of the heap only the boxes are modelled, not the vectors.
\<close>

section \<open>Contexts\<close>

type_synonym input_context = "CtxField \<Rightarrow> u64"

definition ctx_set :: "Libs \<Rightarrow> CtxField \<Rightarrow> u64 \<Rightarrow> input_context \<Rightarrow> input_context option" where
  "ctx_set L f v c = (if ctx_fits L f v then Some (c(f := v)) else None)"

fun ctx_sets :: "Libs \<Rightarrow> (CtxField \<times> u64) list \<Rightarrow> input_context \<Rightarrow> input_context option" where
  "ctx_sets L [] c = Some c"
| "ctx_sets L ((f, v) # fvs) c = do { c \<leftarrow> ctx_set L f v c; ctx_sets L fvs c }"

definition input_context_zeroed :: input_context where
  "input_context_zeroed = (\<lambda>_. 0)"

definition InputContextWrapper_new :: "Libs \<Rightarrow> BumpAllocator \<Rightarrow> (BumpAllocator \<times> input_context Box) option" where
  "InputContextWrapper_new L a = do {
     (a, r) \<leftarrow> kernel_alloc_with_boundary_with_default_else (size_of_input_context L) a 64 4096 (\<lambda>a. Some (a, input_context_zeroed));
     (case r of Inl e \<Rightarrow> None | Inr b \<Rightarrow> Some (a, b))
   }"

definition DeviceContextWrapper_new :: "Libs \<Rightarrow> BumpAllocator \<Rightarrow> (BumpAllocator \<times> unit Box) option" where
  "DeviceContextWrapper_new L a = do {
     (a, r) \<leftarrow> kernel_alloc_with_boundary_with_default_else (size_of_device_context L) a 64 4096 (\<lambda>a. Some (a, ()));
     (case r of Inl e \<Rightarrow> None | Inr b \<Rightarrow> Some (a, b))
   }"

section \<open>The device\<close>

record DeviceContextInfo =
  dv_slot_id :: usize
  dv_port_index :: usize
  dv_routing :: u32
  dv_descriptors :: "Descriptor list option"
  dv_input_context :: "input_context Box"
  dv_device_context :: "unit Box"
  dv_transfer_rings :: "TransferRing Box option list"

type_synonym 'h device_state = "DeviceContextInfo \<times> 'h Xhc"

definition TRANSFER_RING_BUF_SIZE :: usize where "TRANSFER_RING_BUF_SIZE = 32"

definition DeviceContextInfo_new :: "Libs \<Rightarrow> usize \<Rightarrow> u32 \<Rightarrow> usize \<Rightarrow> 'h Xhc \<Rightarrow> 'h device_state option" where
  "DeviceContextInfo_new L port_index routing slot_id s = do {
     (a, ring) \<leftarrow> TransferRing_alloc_new (size_of_transfer_ring L) (xs_alloc s) TRANSFER_RING_BUF_SIZE;
     rings \<leftarrow> set_idx (replicate 31 None) 0 (Some ring);
     (a, input_context) \<leftarrow> InputContextWrapper_new L a;
     (a, device_context) \<leftarrow> DeviceContextWrapper_new L a;
     Some (\<lparr>dv_slot_id = slot_id, dv_port_index = port_index, dv_routing = routing, dv_descriptors = None,
            dv_input_context = input_context, dv_device_context = device_context, dv_transfer_rings = rings\<rparr>,
           s\<lparr>xs_alloc := a, xs_usb_address := (xs_usb_address s)(box_ptr device_context := 0)\<rparr>)
   }"

definition device_address :: "'h device_state \<Rightarrow> u8" where
  "device_address = (\<lambda>(d, s). xs_usb_address s (box_ptr (dv_device_context d)))"

definition set_context :: "Libs \<Rightarrow> (CtxField \<times> u64) list \<Rightarrow> DeviceContextInfo \<Rightarrow> DeviceContextInfo option" where
  "set_context L fvs d = do {
     c \<leftarrow> ctx_sets L fvs (box_val (dv_input_context d));
     Some (d\<lparr>dv_input_context := (dv_input_context d)\<lparr>box_val := c\<rparr>\<rparr>)
   }"

definition enable_slot_context :: "Libs \<Rightarrow> DeviceContextInfo \<Rightarrow> DeviceContextInfo option" where
  "enable_slot_context L d = set_context L [(AddFlag 0, 1)] d"

definition enable_endpoint :: "Libs \<Rightarrow> DeviceContextIndex \<Rightarrow> DeviceContextInfo \<Rightarrow> DeviceContextInfo option" where
  "enable_endpoint L dci d = set_context L [(AddFlag (unat dci), 1)] d"

definition initialize_slot_context ::
  "Libs \<Rightarrow> u8 \<Rightarrow> u8 \<Rightarrow> u32 \<Rightarrow> u8 option \<Rightarrow> u8 option \<Rightarrow> DeviceContextInfo \<Rightarrow> DeviceContextInfo option"
where
  "initialize_slot_context L port_id port_speed routing parent_hub_slot_id parent_port_index d =
     set_context L
       ([(RouteString, ucast (routing AND 0x3ffff)), (RootHubPortNumber, ucast port_id)] @
        (case parent_hub_slot_id of Some p \<Rightarrow> [(ParentHubSlotId, ucast p)] | None \<Rightarrow> []) @
        (case parent_port_index of Some p \<Rightarrow> [(ParentPortNumber, ucast p)] | None \<Rightarrow> []) @
        [(ContextEntries, 1), (SlotSpeed, ucast port_speed)]) d"

text \<open>The type codes of an endpoint context: control and interrupt in.\<close>

definition EP_Control :: u64 where "EP_Control = 4"
definition EP_InterruptIn :: u64 where "EP_InterruptIn = 7"

definition initialize_endpoint0_context :: "Libs \<Rightarrow> u64 \<Rightarrow> u16 \<Rightarrow> DeviceContextInfo \<Rightarrow> DeviceContextInfo option" where
  "initialize_endpoint0_context L transfer_ring_dequeue_pointer max_packet_size d =
     set_context L
       (map (\<lambda>(f, v). (EpCtx dci_ep0 f, v))
         [(EpType, EP_Control), (MaxPacketSize, ucast max_packet_size), (MaxBurstSize, 0),
          (TrDequeuePointer, transfer_ring_dequeue_pointer), (DequeueCycleState, 1), (Interval, 0), (MaxPrimaryStreams, 0), (Mult, 0),
          (ErrorCount, 3), (AverageTrbLength, 8)]) d"

text \<open>\<^verbatim>\<open>transfer_rings[dci.address() as usize - 1]\<close>\<close>

definition transfer_ring_at :: "DeviceContextIndex \<Rightarrow> DeviceContextInfo \<Rightarrow> TransferRing Box option option" where
  "transfer_ring_at dci d = do {
     i \<leftarrow> usub (unat dci) 1;
     get_idx (dv_transfer_rings d) i
   }"

definition set_transfer_ring_at ::
  "DeviceContextIndex \<Rightarrow> TransferRing Box option \<Rightarrow> DeviceContextInfo \<Rightarrow> DeviceContextInfo option" where
  "set_transfer_ring_at dci r d = do {
     i \<leftarrow> usub (unat dci) 1;
     rings \<leftarrow> set_idx (dv_transfer_rings d) i r;
     Some (d\<lparr>dv_transfer_rings := rings\<rparr>)
   }"

text \<open>\<^verbatim>\<open>transfer_ring_at_mut(dci).as_mut().unwrap().push(trb)\<close>\<close>

definition push_trb :: "Libs \<Rightarrow> DeviceContextIndex \<Rightarrow> trb \<Rightarrow> DeviceContextInfo \<Rightarrow> (DeviceContextInfo \<times> u64) option" where
  "push_trb L dci t d = do {
     b \<leftarrow> Option.bind (transfer_ring_at dci d) id;
     (r, p) \<leftarrow> TransferRing_push (lib_trb L) t (box_val b);
     d \<leftarrow> set_transfer_ring_at dci (Some (b\<lparr>box_val := r\<rparr>)) d;
     Some (d, of_nat p)
   }"

section \<open>Control transfers\<close>

definition push_control_transfer ::
  "Libs \<Rightarrow> EndpointId \<Rightarrow> SetupPacket \<Rightarrow> (usize \<times> usize) option \<Rightarrow> 'h device_state \<Rightarrow> ('h device_state \<times> TransferEventWaitKind) option"
where
  "push_control_transfer L endpoint_id setup_data buf = (\<lambda>(d, s). do {
     dci \<leftarrow> EndpointId_address endpoint_id;
     let raw = setup_packet_raw (lib_usb L) setup_data;
     (d, wait_ons) \<leftarrow> (case buf of
        Some (ptr, len) \<Rightarrow> do {
          (d, setup_trb_ptr) \<leftarrow> push_trb L dci (tb_setup_stage L raw InDataStage) d;
          data_stage_trb \<leftarrow> tb_data_stage L (of_nat len) (of_nat ptr);
          (d, data_trb_ptr) \<leftarrow> push_trb L dci data_stage_trb d;
          (d, status_trb_ptr) \<leftarrow> push_trb L dci (tb_status_stage L False) d;
          Some (d, [setup_trb_ptr, data_trb_ptr, status_trb_ptr])
        }
      | None \<Rightarrow> do {
          (d, setup_trb_ptr) \<leftarrow> push_trb L dci (tb_setup_stage L raw NoDataStage) d;
          (d, status_trb_ptr) \<leftarrow> push_trb L dci (tb_status_stage L True) d;
          Some (d, [setup_trb_ptr, status_trb_ptr])
        });
     s \<leftarrow> ring_doorbell (dv_slot_id d) dci s;
     Some ((d, s), WaitTrbPtrs wait_ons)
   })"

definition transfer_result :: "u16 \<Rightarrow> TransferEvent \<Rightarrow> (TransferError + usize) option" where
  "transfer_result w_length ev =
     (case te_completion_code ev of
        Inr ShortPacket \<Rightarrow> map_option Inr (usub (unat w_length) (unat (te_trb_transfer_length ev)))
      | Inr Success \<Rightarrow> Some (Inr (unat w_length))
      | Inr _ \<Rightarrow> Some (Inl (Retry ''CompletionCode error''))
      | Inl _ \<Rightarrow> Some (Inl (Permanent ''Unknown completion code'')))"

definition async_control_transfer ::
  "Libs \<Rightarrow> 'h Hw \<Rightarrow> dyn_endpoint \<Rightarrow> RequestType \<Rightarrow> RequestCode \<Rightarrow> WValue \<Rightarrow> u16 \<Rightarrow> (usize \<times> usize) option \<Rightarrow> 'h device_state \<Rightarrow>
   ('h device_state \<times> (TransferError + usize)) option"
where
  "async_control_transfer L W ep bm_request_type b_request w_value w_index buf w = do {
     let w_length = (case buf of Some (ptr, len) \<Rightarrow> of_nat len | None \<Rightarrow> 0);
     let setup_packet = \<lparr>sp_request_type = bm_request_type, sp_request = b_request, sp_value = w_value, sp_index = w_index,
                         sp_length = w_length\<rparr>;
     endpoint_id \<leftarrow> EndpointId_from_endpoint ep;
     ((d, s), trb_wait_on) \<leftarrow> push_control_transfer L endpoint_id setup_packet buf w;
     (s, ev) \<leftarrow> await_transfer L W trb_wait_on s;
     r \<leftarrow> transfer_result w_length ev;
     Some ((d, s), r)
   }"

section \<open>Hubs\<close>

definition XHCI_SLOT_ENTRY_HUB :: u64 where "XHCI_SLOT_ENTRY_HUB = 26"

definition async_register_hub :: "Libs \<Rightarrow> 'h Hw \<Rightarrow> u8 \<Rightarrow> 'h device_state \<Rightarrow> ('h device_state \<times> (TransferError + unit)) option" where
  "async_register_hub L W address = (\<lambda>(d, s). do {
     d \<leftarrow> set_context L
       ([(ContextEntries, XHCI_SLOT_ENTRY_HUB), (AddFlag 0, 1), (AddFlag 1, 0)] @
        concat (map (\<lambda>i. [(DropFlag i, 0), (AddFlag i, 0)]) [2..<32])) d;
     trb \<leftarrow> tb_evaluate_context L (of_nat (box_ptr (dv_input_context d))) (of_nat (dv_slot_id d));
     (s, trb_ptr) \<leftarrow> issue_command L trb s;
     (s, received) \<leftarrow> await_command L W trb_ptr s;
     rassert (cc_completion_code received = Inr Success);
     Some ((d, s), Inr ())
   })"

definition async_assign_address ::
  "u8 \<Rightarrow> u8 \<Rightarrow> bool \<Rightarrow> 'h device_state \<Rightarrow> ('h device_state \<times> (TransferError + unit)) option"
where
  "async_assign_address hub_address port_index device_is_low_speed = (\<lambda>(d, s). do {
     let hub_port_index = (of_nat (dv_port_index d) :: u8);
     port \<leftarrow> u8add port_index 1;
     let routing = next_route (dv_routing d) port;
     let speed = (if device_is_low_speed then 1 else 0);
     let event = UE_InitPortDevice \<lparr>ipd_port_index = hub_port_index, ipd_routing = routing, ipd_speed = speed,
                                    ipd_parent_hub_slot_id = None, ipd_parent_port_index = None\<rparr>;
     Some ((d, s\<lparr>xs_user_events := UserEventRing_push event (xs_user_events s)\<rparr>), Inr ())
   })"

section \<open>The interrupt endpoint\<close>

text \<open>Dropping a box gives its memory back; the global allocator ignores the layout.\<close>

definition drop_box :: "usize \<Rightarrow> 'v Box \<Rightarrow> 'h Xhc \<Rightarrow> 'h Xhc option" where
  "drop_box sz b s = do {
     a \<leftarrow> bump_dealloc (xs_alloc s) (box_ptr b) \<lparr>layout_size = sz, layout_align = 64\<rparr>;
     Some (s\<lparr>xs_alloc := a\<rparr>)
   }"

definition drop_transfer_ring :: "Libs \<Rightarrow> TransferRing Box \<Rightarrow> 'h Xhc \<Rightarrow> 'h Xhc option" where
  "drop_transfer_ring L b s = do {
     s \<leftarrow> drop_box (size_of_TrbRaw * TransferRing_buffer_len (box_val b)) (tr_trb_buffer (box_val b)) s;
     drop_box (size_of_transfer_ring L) b s
   }"

text \<open>\<^verbatim>\<open>b_interval.reverse_bits().get_bit(0) as u8 + 3\<close> at full and low speed.\<close>

definition endpoint_interval :: "u8 \<Rightarrow> u8 \<Rightarrow> (TransferError + u8) option" where
  "endpoint_interval port_speed interval =
     (if port_speed = 1 \<or> port_speed = 2 then Some (Inr ((if bit interval 7 then 1 else 0) + 3))
      else if port_speed = 3 \<or> port_speed = 4 then (if interval = 0 then None else Some (Inr (interval - 1)))
      else Some (Inl (Permanent ''Unknown speed'')))"

definition configure_endpoint ::
  "Libs \<Rightarrow> 'h Hw \<Rightarrow> DeviceContextIndex \<Rightarrow> 'h device_state \<Rightarrow> ('h device_state \<times> (TransferError + bool)) option"
where
  "configure_endpoint L W dci = (\<lambda>(d, s). do {
     d \<leftarrow> set_context L [(ContextEntries, ucast dci)] d;
     trb \<leftarrow> tb_configure_endpoint L (of_nat (box_ptr (dv_input_context d))) (of_nat (dv_slot_id d));
     (s, trb_ptr) \<leftarrow> issue_command L trb s;
     (s, received) \<leftarrow> await_command L W trb_ptr s;
     Some ((d, s), if cc_completion_code received = Inr Success then Inr True else Inl (Retry ''CompletionCode error''))
   })"

definition init_transfer_ring_for_interrupt_at ::
  "Libs \<Rightarrow> 'h Hw \<Rightarrow> dyn_endpoint \<Rightarrow> EndpointDescriptor \<Rightarrow> 'h device_state \<Rightarrow> ('h device_state \<times> (TransferError + bool)) option"
where
  "init_transfer_ring_for_interrupt_at L W ep endpoint_descriptor = (\<lambda>(d, s). do {
     dci \<leftarrow> dci_from_descriptor endpoint_descriptor;
     (s, portsc) \<leftarrow> read_port W (dv_port_index d) s;
     ring \<leftarrow> transfer_ring_at dci d;
     if ring \<noteq> None then Some ((d, s), Inr False)
     else do {
       (a, input_context) \<leftarrow> InputContextWrapper_new L (xs_alloc s);
       s \<leftarrow> drop_box (size_of_input_context L) (dv_input_context d) (s\<lparr>xs_alloc := a\<rparr>);
       d \<leftarrow> set_context L [(AddFlag 0, 1)] (d\<lparr>dv_input_context := input_context\<rparr>);
       transfer_type \<leftarrow> dyn_transfer_type ep;
       if transfer_type \<noteq> Interrupt then None
       else do {
         (a, transfer_ring) \<leftarrow> TransferRing_alloc_new (size_of_transfer_ring L) (xs_alloc s) 32;
         let s = s\<lparr>xs_alloc := a\<rparr>;
         max_packet_size \<leftarrow> dyn_max_packet_size ep;
         d \<leftarrow> set_context L ((AddFlag (unat dci), 1) # map (\<lambda>(f, v). (EpCtx dci f, v))
           [(EpType, EP_InterruptIn), (TrDequeuePointer, of_nat (box_ptr (tr_trb_buffer (box_val transfer_ring)))),
            (DequeueCycleState, 1), (ErrorCount, 3), (MaxPacketSize, ucast max_packet_size), (AverageTrbLength, 1), (MaxBurstSize, 0),
            (MaxPrimaryStreams, 0), (MaxEsitPayloadLow, ucast max_packet_size), (Mult, 0)]) d;
         interval \<leftarrow> endpoint_interval (pr_port_speed portsc) (b_interval endpoint_descriptor);
         (case interval of
            Inl e \<Rightarrow> do { s \<leftarrow> drop_transfer_ring L transfer_ring s; Some ((d, s), Inl e) }
          | Inr interval \<Rightarrow> do {
              d \<leftarrow> set_context L [(EpCtx dci Interval, ucast interval)] d;
              d \<leftarrow> set_transfer_ring_at dci (Some transfer_ring) d;
              configure_endpoint L W dci (d, s)
            })
       }
     }
   })"

section \<open>Requests for descriptors\<close>

text \<open>\<^verbatim>\<open>count\<close> runs from 0, and the failure that makes it 101 panics: the argument \<open>n\<close> counts the attempts that are left.\<close>

primrec request_descriptor_loop :: "('w \<Rightarrow> ('w \<times> (TransferError + usize)) option) \<Rightarrow> nat \<Rightarrow> 'w \<Rightarrow> ('w \<times> usize) option" where
  "request_descriptor_loop attempt 0 w = None"
| "request_descriptor_loop attempt (Suc n) w = do {
     (w, r) \<leftarrow> attempt w;
     (case r of Inr len \<Rightarrow> Some (w, len) | Inl _ \<Rightarrow> request_descriptor_loop attempt n w)
   }"

definition descriptor_attempt ::
  "Libs \<Rightarrow> 'h Hw \<Rightarrow> EndpointId \<Rightarrow> DescriptorType \<Rightarrow> u8 \<Rightarrow> usize \<times> usize \<Rightarrow> 'h device_state \<Rightarrow> ('h device_state \<times> (TransferError + usize)) option"
where
  "descriptor_attempt L W endpoint_id descriptor_type descriptor_index buf =
     async_control_transfer L W (IdEndpoint endpoint_id) (ul_request_type (lib_usb L) DeviceToHost Standard DeviceRecipient) GetDescriptor
       (ul_w_value (lib_usb L) descriptor_index (ul_descriptor_code (lib_usb L) descriptor_type)) 0 (Some buf)"

definition request_descriptor ::
  "Libs \<Rightarrow> 'h Hw \<Rightarrow> EndpointId \<Rightarrow> DescriptorType \<Rightarrow> u8 \<Rightarrow> usize \<times> usize \<Rightarrow> 'h device_state \<Rightarrow> ('h device_state \<times> usize) option"
where
  "request_descriptor L W endpoint_id descriptor_type descriptor_index buf =
     request_descriptor_loop (descriptor_attempt L W endpoint_id descriptor_type descriptor_index buf) 101"

text \<open>A structure that the device fills: \<^verbatim>\<open>as_byte_slice_mut\<close> views it as its bytes.\<close>

definition as_byte_slice_mut :: "'h Hw \<Rightarrow> usize \<Rightarrow> usize \<times> usize" where
  "as_byte_slice_mut W size_of = (hw_buffer W size_of, size_of)"

definition request_device_descriptor :: "Libs \<Rightarrow> 'h Hw \<Rightarrow> 'h device_state \<Rightarrow> ('h device_state \<times> DeviceDescriptor) option" where
  "request_device_descriptor L W w = do {
     let buf = as_byte_slice_mut W (ul_device_size (lib_usb L));
     (w, len) \<leftarrow> request_descriptor L W default_control_pipe DT_Device 0 buf w;
     rassert (len = ul_device_size (lib_usb L));
     Some (w, ul_device (lib_usb L) (load_bytes (fst buf) (snd buf) (snd w)))
   }"

definition request_config_descriptor_and_rest ::
  "Libs \<Rightarrow> 'h Hw \<Rightarrow> 'h device_state \<Rightarrow> ('h device_state \<times> Descriptor list) option"
where
  "request_config_descriptor_and_rest L W w = do {
     let buf = as_byte_slice_mut W (ul_configuration_size (lib_usb L));
     (w, len) \<leftarrow> request_descriptor L W default_control_pipe DT_Configuration 0 buf w;
     rassert (len = ul_configuration_size (lib_usb L));
     let config_descriptor = ul_configuration (lib_usb L) (load_bytes (fst buf) (snd buf) (snd w));
     let total = unat (w_total_length config_descriptor);
     let ptr = hw_buffer W total;
     (w, len) \<leftarrow> request_descriptor L W default_control_pipe DT_Configuration 0 (ptr, total) w;
     rassert (len = total);
     descriptors \<leftarrow> desc_collect (lib_usb L) (load_bytes ptr total (snd w));
     Some (((fst w)\<lparr>dv_descriptors := Some descriptors\<rparr>, snd w), descriptors)
   }"

section \<open>Interrupt transfers\<close>

fun is_endpoint_numbered :: "u8 \<Rightarrow> Descriptor \<Rightarrow> bool" where
  "is_endpoint_numbered n (Endpoint e) \<longleftrightarrow> b_endpoint_address e AND 0x7f = n"
| "is_endpoint_numbered n _ \<longleftrightarrow> False"

definition find_endpoint :: "u8 \<Rightarrow> Descriptor list \<Rightarrow> EndpointDescriptor option" where
  "find_endpoint n ds = (case find (is_endpoint_numbered n) ds of Some (Endpoint e) \<Rightarrow> Some e | _ \<Rightarrow> None)"

definition run_in_transfer ::
  "Libs \<Rightarrow> 'h Hw \<Rightarrow> DeviceContextIndex \<Rightarrow> usize \<times> usize \<Rightarrow> 'h device_state \<Rightarrow> ('h device_state \<times> (TransferError + usize)) option"
where
  "run_in_transfer L W dci buf = (\<lambda>(d, s). do {
     normal \<leftarrow> tb_normal L (of_nat (fst buf)) (of_nat (snd buf));
     (d, _) \<leftarrow> push_trb L dci normal d;
     s \<leftarrow> ring_doorbell (dv_slot_id d) dci s;
     (s, trb) \<leftarrow> await_transfer L W (WaitSlotId (of_nat (dv_slot_id d))) s;
     let transferred_length = unat (te_trb_transfer_length trb);
     ring \<leftarrow> Option.bind (transfer_ring_at dci d) id;
     raw \<leftarrow> read_trb_box (tr_trb_buffer (box_val ring)) (te_trb_pointer trb);
     transfer_trb \<leftarrow> transfer_try_from L raw;
     (case transfer_trb of
        NormalTrb data_buffer_pointer _ _ \<Rightarrow> do {
          let copying_length = min transferred_length (unat (of_nat (snd buf) :: u32));
          let s = store_bytes (fst buf) (load_bytes (unat data_buffer_pointer) copying_length s) s;
          Some ((d, s), Inr transferred_length)
        }
      | OtherTransferTrb \<Rightarrow> None)
   })"

definition async_in_transfer ::
  "Libs \<Rightarrow> 'h Hw \<Rightarrow> dyn_endpoint \<Rightarrow> usize \<times> usize \<Rightarrow> 'h device_state \<Rightarrow> ('h device_state \<times> (TransferError + usize)) option"
where
  "async_in_transfer L W ep buf w = do {
     w \<leftarrow> (if dv_descriptors (fst w) = None then map_option fst (request_config_descriptor_and_rest L W w) else Some w);
     descriptors \<leftarrow> dv_descriptors (fst w);
     (case find_endpoint (dyn_endpoint_num ep) descriptors of
        None \<Rightarrow> Some (w, Inl (Permanent ''Endpoint Descriptor Not Found''))
      | Some endpoint_descriptor \<Rightarrow> do {
          dci \<leftarrow> dci_from_descriptor endpoint_descriptor;
          transfer_type \<leftarrow> dyn_transfer_type ep;
          rassert (transfer_type = Interrupt);
          (w, r) \<leftarrow> init_transfer_ring_for_interrupt_at L W ep endpoint_descriptor w;
          (case r of
             Inl e \<Rightarrow> Some (w, Inl e)
           | Inr _ \<Rightarrow> run_in_transfer L W dci buf w)
        })
   }"

section \<open>The device as a host\<close>

text \<open>
  The implementation of the traits \<^verbatim>\<open>USBHost\<close> and \<^verbatim>\<open>AsyncUSBHost\<close>, which the class drivers call: the buffer lies at an address while the transfer runs.
  The synchronous methods wait for the asynchronous ones with \<^verbatim>\<open>await_sync!\<close>; \<^verbatim>\<open>out_transfer\<close> is \<^verbatim>\<open>todo!()\<close> and no driver calls it.
\<close>

definition host_control_transfer ::
  "Libs \<Rightarrow> 'h Hw \<Rightarrow> Endpoint \<Rightarrow> RequestType \<Rightarrow> RequestCode \<Rightarrow> WValue \<Rightarrow> u16 \<Rightarrow> u8 list option \<Rightarrow> 'h device_state \<Rightarrow>
   ('h device_state \<times> u8 list \<times> (TransferError + usize)) option"
where
  "host_control_transfer L W ep ty code value index buf = (\<lambda>(d, s).
     case buf of
       None \<Rightarrow> do {
         (w, r) \<leftarrow> async_control_transfer L W (DriverEndpoint ep) ty code value index None (d, s);
         Some (w, [], r)
       }
     | Some bytes \<Rightarrow> do {
         let ptr = hw_buffer W (length bytes);
         (w, r) \<leftarrow> async_control_transfer L W (DriverEndpoint ep) ty code value index (Some (ptr, length bytes)) (d, store_bytes ptr bytes s);
         Some (w, load_bytes ptr (length bytes) (snd w), r)
       })"

definition host_in_transfer ::
  "Libs \<Rightarrow> 'h Hw \<Rightarrow> Endpoint \<Rightarrow> u8 list \<Rightarrow> 'h device_state \<Rightarrow> ('h device_state \<times> u8 list \<times> (TransferError + usize)) option"
where
  "host_in_transfer L W ep bytes = (\<lambda>(d, s). do {
     let ptr = hw_buffer W (length bytes);
     (w, r) \<leftarrow> async_in_transfer L W (DriverEndpoint ep) (ptr, length bytes) (d, store_bytes ptr bytes s);
     Some (w, load_bytes ptr (length bytes) (snd w), r)
   })"

definition device_host :: "Libs \<Rightarrow> 'h Hw \<Rightarrow> 'h device_state UsbHost" where
  "device_host L W =
     \<lparr>uh_control_transfer = host_control_transfer L W, uh_in_transfer = host_in_transfer L W,
      uh_register_hub = async_register_hub L W, uh_assign_address = async_assign_address, uh_uninit = hw_uninit W\<rparr>"

section \<open>Bringing a device up\<close>

record FoundInterfaces =
  fi_keyboard :: "InterfaceDescriptor option"
  fi_mouse :: "InterfaceDescriptor option"
  fi_hub :: "InterfaceDescriptor option"
  fi_endpoint :: "EndpointDescriptor option"

fun note_descriptor :: "Descriptor \<Rightarrow> FoundInterfaces \<Rightarrow> FoundInterfaces" where
  "note_descriptor (Interface i) f =
     (if b_interface_class i = 3 \<and> b_interface_sub_class i = 1 \<and> b_interface_protocol i = 1 then f\<lparr>fi_keyboard := Some i\<rparr>
      else if b_interface_class i = 3 \<and> b_interface_sub_class i = 1 \<and> b_interface_protocol i = 2 then f\<lparr>fi_mouse := Some i\<rparr>
      else if b_interface_class i = 9 \<and> b_interface_sub_class i = 0 then f\<lparr>fi_hub := Some i\<rparr>
      else f)"
| "note_descriptor (Endpoint e) f =
     (if (fi_keyboard f \<noteq> None \<or> fi_mouse f \<noteq> None) \<and> fi_endpoint f = None then f\<lparr>fi_endpoint := Some e\<rparr> else f)"
| "note_descriptor _ f = f"

definition find_interfaces :: "Descriptor list \<Rightarrow> FoundInterfaces" where
  "find_interfaces ds = fold note_descriptor ds \<lparr>fi_keyboard = None, fi_mouse = None, fi_hub = None, fi_endpoint = None\<rparr>"

definition unwrap_ok :: "'e + 'a \<Rightarrow> 'a option" where
  "unwrap_ok r = (case r of Inl _ \<Rightarrow> None | Inr a \<Rightarrow> Some a)"

text \<open>The branch for a keyboard, which the branch for a mouse repeats: \<open>D\<close> is the driver after the device was added to it.\<close>

definition start_input_device ::
  "Libs \<Rightarrow> 'h Hw \<Rightarrow> DriverConsts \<Rightarrow> EndpointDescriptor \<Rightarrow> u8 \<Rightarrow> 'h device_state InputOnlyDriver \<Rightarrow> 'h device_state \<Rightarrow>
   ('h device_state \<times> 'h device_state InputOnlyDriver) option"
where
  "start_input_device L W K endpoint_descriptor address D w = do {
     dci \<leftarrow> dci_from_descriptor endpoint_descriptor;
     (w, D, r) \<leftarrow> tick_until_running_state K (lib_usb L) (device_host L W) D w;
     unwrap_ok r;
     endpoints \<leftarrow> endpoints_mut address D;
     ep \<leftarrow> Option.bind (get_idx endpoints 0) id;
     (w, r) \<leftarrow> init_transfer_ring_for_interrupt_at L W (DriverEndpoint ep) endpoint_descriptor w;
     unwrap_ok r;
     ring \<leftarrow> Option.bind (transfer_ring_at dci (fst w)) id;
     (a, r) \<leftarrow> fill_with_normal (lib_trb L) (N_IN_TRANSFER_BYTES K) (xs_alloc (snd w), box_val ring);
     d \<leftarrow> set_transfer_ring_at dci (Some (ring\<lparr>box_val := r\<rparr>)) (fst w);
     s \<leftarrow> ring_doorbell (dv_slot_id d) dci ((snd w)\<lparr>xs_alloc := a\<rparr>);
     Some ((d, s), D)
   }"

definition start_keyboard ::
  "Libs \<Rightarrow> 'h Hw \<Rightarrow> DeviceDescriptor \<Rightarrow> EndpointDescriptor option \<Rightarrow> 'h device_state ClassDriverManager \<times> 'h device_state \<Rightarrow>
   ('h device_state ClassDriverManager \<times> 'h device_state) option"
where
  "start_keyboard L W dd endpoint_descriptor = (\<lambda>(C, w). do {
     e \<leftarrow> endpoint_descriptor;
     let address = device_address w;
     let (C, r) = add_keyboard_device (dv_slot_id (fst w)) dd address C;
     unwrap_ok r;
     (w, D) \<leftarrow> start_input_device L W keyboard_consts e address (di_driver (cd_keyboard C)) w;
     Some (C\<lparr>cd_keyboard := (cd_keyboard C)\<lparr>di_driver := D\<rparr>\<rparr>, w)
   })"

definition start_mouse ::
  "Libs \<Rightarrow> 'h Hw \<Rightarrow> DeviceDescriptor \<Rightarrow> EndpointDescriptor option \<Rightarrow> 'h device_state ClassDriverManager \<times> 'h device_state \<Rightarrow>
   ('h device_state ClassDriverManager \<times> 'h device_state) option"
where
  "start_mouse L W dd endpoint_descriptor = (\<lambda>(C, w). do {
     e \<leftarrow> endpoint_descriptor;
     let address = device_address w;
     let (C, r) = add_mouse_device (dv_slot_id (fst w)) dd address C;
     unwrap_ok r;
     (w, D) \<leftarrow> start_input_device L W mouse_consts e address (di_driver (cd_mouse C)) w;
     Some (C\<lparr>cd_mouse := (cd_mouse C)\<lparr>di_driver := D\<rparr>\<rparr>, w)
   })"

definition start_hub ::
  "Libs \<Rightarrow> 'h Hw \<Rightarrow> DeviceDescriptor \<Rightarrow> 'h device_state ClassDriverManager \<times> 'h device_state \<Rightarrow>
   ('h device_state ClassDriverManager \<times> 'h device_state) option"
where
  "start_hub L W dd = (\<lambda>(C, w). do {
     let address = device_address w;
     let (C, r) = add_hub_device (dv_slot_id (fst w)) dd address C;
     unwrap_ok r;
     (w, D, r) \<leftarrow> hub_tick_until_running_state (lib_usb L) (device_host L W) (di_driver (cd_hub C)) w;
     unwrap_ok r;
     Some (C\<lparr>cd_hub := (cd_hub C)\<lparr>di_driver := D\<rparr>\<rparr>, w)
   })"

definition start_initialization ::
  "Libs \<Rightarrow> 'h Hw \<Rightarrow> 'h device_state ClassDriverManager \<Rightarrow> 'h device_state \<Rightarrow> ('h device_state ClassDriverManager \<times> 'h device_state) option"
where
  "start_initialization L W C w = do {
     (w, dd) \<leftarrow> request_device_descriptor L W w;
     ring \<leftarrow> Option.bind (transfer_ring_at dci_ep0 (fst w)) id;
     w \<leftarrow> for_each [0..<TransferRing_buffer_len (box_val ring)] (\<lambda>_ w. map_option fst (request_device_descriptor L W w)) w;
     (w, descriptors) \<leftarrow> request_config_descriptor_and_rest L W w;
     let f = find_interfaces descriptors;
     Cw \<leftarrow> (if fi_keyboard f \<noteq> None then start_keyboard L W dd (fi_endpoint f) (C, w) else Some (C, w));
     Cw \<leftarrow> (if fi_mouse f \<noteq> None then start_mouse L W dd (fi_endpoint f) Cw else Some Cw);
     if fi_hub f \<noteq> None then start_hub L W dd Cw else Some Cw
   }"

section \<open>Pushing a sequence of TRBs\<close>

primrec push_trbs :: "Libs \<Rightarrow> DeviceContextIndex \<Rightarrow> trb list \<Rightarrow> DeviceContextInfo \<Rightarrow> (DeviceContextInfo \<times> u64 list) option" where
  "push_trbs L dci [] d = Some (d, [])"
| "push_trbs L dci (t # ts) d = do {
     (d, p) \<leftarrow> push_trb L dci t d;
     (d, ps) \<leftarrow> push_trbs L dci ts d;
     Some (d, p # ps)
   }"

text \<open>The ring of an endpoint with the TRBs \<open>q\<close> outstanding, the controller being at \<open>h\<close>.\<close>

definition endpoint_ring :: "Libs \<Rightarrow> DeviceContextIndex \<Rightarrow> DeviceContextInfo \<Rightarrow> hw_pos \<Rightarrow> trb list \<Rightarrow> TransferRing Box \<Rightarrow> bool" where
  "endpoint_ring L dci d h q b \<longleftrightarrow> transfer_ring_at dci d = Some (Some b) \<and>
     (let r = box_val b in ring_rel (lib_trb L) (box_val (tr_trb_buffer r)) (tr_write_index r) (tr_cycle_bit r) h q \<and>
        length (box_val (tr_trb_buffer r)) < usize_limit)"

definition plain_trb :: "Libs \<Rightarrow> trb \<Rightarrow> bool" where
  "plain_trb L t \<longleftrightarrow> length t = 4 \<and> \<not> trb_is_link (lib_trb L) t"

text \<open>The addresses of the next \<open>k\<close> TRBs that the driver pushes.\<close>

definition next_addresses :: "TransferRing \<Rightarrow> nat \<Rightarrow> u64 list" where
  "next_addresses r k =
     map (\<lambda>j. of_nat (box_ptr (tr_trb_buffer r) + 16 * slot (length (box_val (tr_trb_buffer r)) - 1) (tr_write_index r) j)) [0..<k]"

lemma TransferRing_link_ptr:
  "TransferRing_link L r = Some r' \<Longrightarrow> box_ptr (tr_trb_buffer r') = box_ptr (tr_trb_buffer r)"
  by (auto simp: TransferRing_link_def TransferRing_write_def TransferRing_toggle_cycle_bit_def bind_eq_Some_conv Let_def)

lemma TransferRing_push_ptr:
  assumes "TransferRing_push L t r = Some (r', p)"
  shows "p = box_ptr (tr_trb_buffer r) + 16 * tr_write_index r" "box_ptr (tr_trb_buffer r') = box_ptr (tr_trb_buffer r)"
  using assms
  by (auto simp: TransferRing_push_def TransferRing_write_def size_of_TrbRaw_def bind_eq_Some_conv Let_def
      dest!: TransferRing_link_ptr split: if_splits)

lemma transfer_ring_at_set:
  assumes "transfer_ring_at dci d = Some x"
  shows "\<exists>d'. set_transfer_ring_at dci y d = Some d' \<and> transfer_ring_at dci d' = Some y \<and>
    d' = d\<lparr>dv_transfer_rings := dv_transfer_rings d'\<rparr>"
  using assms by (auto simp: transfer_ring_at_def set_transfer_ring_at_def bind_eq_Some_conv rust_simps)

lemma endpoint_ring_shape:
  assumes "endpoint_ring L dci d h q b"
  shows "tr_write_index (box_val b) < length (box_val (tr_trb_buffer (box_val b))) - 1"
  using assms transfer_ring.ring_rel_shape(3)[of "lib_trb L" "box_val b" h q] by (simp add: endpoint_ring_def Let_def)

lemma next_addresses_Suc:
  assumes "pushed L buf w cy t buf' w' cy'" "buf = box_val (tr_trb_buffer r)" "w = tr_write_index r"
    and "buf' = box_val (tr_trb_buffer r')" "w' = tr_write_index r'" "length buf' = length buf" "w < length buf - 1"
    and "box_ptr (tr_trb_buffer r') = box_ptr (tr_trb_buffer r)" "k + 1 < length buf - 1"
  shows "next_addresses r (Suc k) = of_nat (box_ptr (tr_trb_buffer r) + 16 * w) # next_addresses r' k"
proof -
  let ?m = "length buf - 1"
  have "slot ?m w (Suc j) = slot ?m w' j" if "j < k" for j
    using assms(1,7,9) that by (auto simp: pushed_def slot_def split: if_splits)
  moreover have "slot ?m w 0 = w" using assms(7) by (simp add: slot_def)
  ultimately show ?thesis
    using assms(2-6,8) by (simp add: next_addresses_def map_upt_Suc del: upt_Suc of_nat_add of_nat_mult)
qed

lemma push_trb_ok:
  assumes "trb_lib_ok (lib_trb L)" "endpoint_ring L dci d h q b" "plain_trb L t" "length q + 1 < length (box_val (tr_trb_buffer (box_val b))) - 1"
  shows "\<exists>d' b'. push_trb L dci t d = Some (d', of_nat (box_ptr (tr_trb_buffer (box_val b)) + 16 * tr_write_index (box_val b))) \<and>
    endpoint_ring L dci d' h (q @ [t]) b' \<and> d' = d\<lparr>dv_transfer_rings := dv_transfer_rings d'\<rparr> \<and>
    length (box_val (tr_trb_buffer (box_val b'))) = length (box_val (tr_trb_buffer (box_val b))) \<and>
    (\<forall>k. k + 1 < length (box_val (tr_trb_buffer (box_val b))) - 1 \<longrightarrow>
      next_addresses (box_val b) (Suc k) =
      of_nat (box_ptr (tr_trb_buffer (box_val b)) + 16 * tr_write_index (box_val b)) # next_addresses (box_val b') k)"
proof -
  let ?r = "box_val b"
  have e: "transfer_ring_at dci d = Some (Some b)"
    and rel: "ring_rel (lib_trb L) (box_val (tr_trb_buffer ?r)) (tr_write_index ?r) (tr_cycle_bit ?r) h q"
    and lim: "length (box_val (tr_trb_buffer ?r)) < usize_limit"
    using assms(2) by (auto simp: endpoint_ring_def Let_def)
  have t: "length t = 4" "\<not> trb_is_link (lib_trb L) t" using assms(3) by (auto simp: plain_trb_def)
  obtain r' p where p: "TransferRing_push (lib_trb L) t ?r = Some (r', p)"
    and pd: "pushed (lib_trb L) (box_val (tr_trb_buffer ?r)) (tr_write_index ?r) (tr_cycle_bit ?r) t
          (box_val (tr_trb_buffer r')) (tr_write_index r') (tr_cycle_bit r')"
    and rel': "ring_rel (lib_trb L) (box_val (tr_trb_buffer r')) (tr_write_index r') (tr_cycle_bit r') h (q @ [t])"
    and len: "length (box_val (tr_trb_buffer r')) = length (box_val (tr_trb_buffer ?r))"
    using transfer_ring.push_rel[OF assms(1) rel lim t assms(4)] by blast
  note ptr = TransferRing_push_ptr[OF p]
  obtain d' where d': "set_transfer_ring_at dci (Some (b\<lparr>box_val := r'\<rparr>)) d = Some d'"
    "transfer_ring_at dci d' = Some (Some (b\<lparr>box_val := r'\<rparr>))" "d' = d\<lparr>dv_transfer_rings := dv_transfer_rings d'\<rparr>"
    using transfer_ring_at_set[OF e, of "Some (b\<lparr>box_val := r'\<rparr>)"] by auto
  have "push_trb L dci t d = Some (d', of_nat p)" by (simp add: push_trb_def e p d'(1))
  moreover have "endpoint_ring L dci d' h (q @ [t]) (b\<lparr>box_val := r'\<rparr>)"
    using d'(2) rel' len lim by (simp add: endpoint_ring_def)
  moreover have "next_addresses ?r (Suc k) = of_nat p # next_addresses r' k"
    if "k + 1 < length (box_val (tr_trb_buffer ?r)) - 1" for k
    using next_addresses_Suc[OF pd refl refl refl refl len endpoint_ring_shape[OF assms(2)] ptr(2) that] ptr(1) by simp
  ultimately show ?thesis using len d'(3) ptr(1) by (intro exI[of _ d'] exI[of _ "b\<lparr>box_val := r'\<rparr>"]) simp
qed

lemma push_trbs_ok:
  assumes "trb_lib_ok (lib_trb L)" "endpoint_ring L dci d h q b" "\<forall>t \<in> set ts. plain_trb L t"
    and "length q + length ts < length (box_val (tr_trb_buffer (box_val b))) - 1"
  shows "\<exists>d' b'. push_trbs L dci ts d = Some (d', next_addresses (box_val b) (length ts)) \<and>
    endpoint_ring L dci d' h (q @ ts) b' \<and> d' = d\<lparr>dv_transfer_rings := dv_transfer_rings d'\<rparr>"
  using assms(2-)
proof (induction ts arbitrary: d q b)
  case Nil
  then show ?case by (auto simp: next_addresses_def)
next
  case (Cons t ts)
  have "plain_trb L t" "length q + 1 < length (box_val (tr_trb_buffer (box_val b))) - 1"
    "length ts + 1 < length (box_val (tr_trb_buffer (box_val b))) - 1" using Cons.prems(2,3) by auto
  with push_trb_ok[OF assms(1) Cons.prems(1)] obtain d1 b1 where
    d1: "push_trb L dci t d = Some (d1, of_nat (box_ptr (tr_trb_buffer (box_val b)) + 16 * tr_write_index (box_val b)))"
      "endpoint_ring L dci d1 h (q @ [t]) b1" "d1 = d\<lparr>dv_transfer_rings := dv_transfer_rings d1\<rparr>"
      "length (box_val (tr_trb_buffer (box_val b1))) = length (box_val (tr_trb_buffer (box_val b)))"
      "next_addresses (box_val b) (Suc (length ts)) =
        of_nat (box_ptr (tr_trb_buffer (box_val b)) + 16 * tr_write_index (box_val b)) # next_addresses (box_val b1) (length ts)"
    by blast
  have "length (q @ [t]) + length ts < length (box_val (tr_trb_buffer (box_val b1))) - 1" using Cons.prems(3) d1(4) by simp
  with Cons.IH[OF d1(2)] Cons.prems(2) obtain d2 b2 where
    d2: "push_trbs L dci ts d1 = Some (d2, next_addresses (box_val b1) (length ts))" "endpoint_ring L dci d2 h ((q @ [t]) @ ts) b2"
      "d2 = d1\<lparr>dv_transfer_rings := dv_transfer_rings d2\<rparr>" by auto
  have "d2 = d\<lparr>dv_transfer_rings := dv_transfer_rings d2\<rparr>" by (subst d2(3), subst d1(3)) simp
  with d1(1,5) d2(1,2) show ?case by (intro exI[of _ d2] exI[of _ b2]) simp
qed

lemma push_control_transfer_eq:
  assumes "EndpointId_address eid = Some dci"
  shows "push_control_transfer L eid packet None (d, s) = do {
      (d, ps) \<leftarrow> push_trbs L dci [tb_setup_stage L (setup_packet_raw (lib_usb L) packet) NoDataStage, tb_status_stage L True] d;
      s \<leftarrow> ring_doorbell (dv_slot_id d) dci s;
      Some ((d, s), WaitTrbPtrs ps) }"
    and "tb_data_stage L (of_nat len) (of_nat ptr) = Some data \<Longrightarrow>
      push_control_transfer L eid packet (Some (ptr, len)) (d, s) = do {
      (d, ps) \<leftarrow> push_trbs L dci [tb_setup_stage L (setup_packet_raw (lib_usb L) packet) InDataStage, data, tb_status_stage L False] d;
      s \<leftarrow> ring_doorbell (dv_slot_id d) dci s;
      Some ((d, s), WaitTrbPtrs ps) }"
  by (auto simp: push_control_transfer_def assms Let_def intro!: Option.bind_cong split: prod.splits)

section \<open>Waiting for the controller\<close>

lemma transfer_poll_wanted:
  assumes "TransferEventFuture_poll L B E try_from f s = Some (f', s', Ready ev)"
  shows "wants_transfer f (AllowedTransferEvent ev) = Some ev"
proof -
  from assms obtain y where y: "has_front L E s = Some y" by (auto simp: TransferEventFuture_poll_def bind_eq_Some_conv)
  have y: "has_front L E s = Some True" using assms transfer_future.poll_idle[of L E s B try_from f] y by (cases y) auto
  obtain t r where "snd (hand_out (wants_transfer f) t r) = Ready ev"
    using assms unfolding transfer_future.poll_busy[OF y] by (auto simp: bind_eq_Some_conv split: if_splits)
  then obtain e where "wants_transfer f e = Some ev" by (auto simp: hand_out_def split: sum.splits option.splits)
  with transfer_future.want_wrap[OF this] show ?thesis by simp
qed

lemma transfer_poll_same:
  assumes "TransferEventFuture_poll L B E try_from f s = Some (f', s', r)"
  shows "f' = f"
  using assms by (auto simp: TransferEventFuture_poll_def bind_eq_Some_conv split: if_splits)

lemma ready_after_wanted:
  assumes "ready_after (xhc_poll W (TransferEventFuture_poll L B E try_from)) n f s = Some (s', ev)"
  shows "wants_transfer f (AllowedTransferEvent ev) = Some ev"
  using assms
proof (induction n arbitrary: s)
  case 0
  then obtain f' where "xhc_poll W (TransferEventFuture_poll L B E try_from) f s = Some (f', s', Ready ev)"
    by (auto split: option.splits Poll.splits)
  then obtain e where "TransferEventFuture_poll L B E try_from f (xs_events s) = Some (f', e, Ready ev)"
    by (auto simp: xhc_poll_def bind_eq_Some_conv Let_def)
  then show ?case by (rule transfer_poll_wanted)
next
  case (Suc n)
  then obtain f1 s1 where "xhc_poll W (TransferEventFuture_poll L B E try_from) f s = Some (f1, s1, Pending)"
    and r: "ready_after (xhc_poll W (TransferEventFuture_poll L B E try_from)) n f1 s1 = Some (s', ev)"
    by (auto split: option.splits Poll.splits)
  then have "f1 = f" by (auto simp: xhc_poll_def bind_eq_Some_conv Let_def dest: transfer_poll_same)
  with Suc.IH r show ?case by simp
qed

lemma await_transfer_ready:
  assumes "ready_after (xhc_poll W (TransferEventFuture_poll (lib_trb L) (lib_bits L) (lib_erdp L) (lib_event L))) n f s = Some (s', ev)"
  shows "await_transfer L W f s = Some (s', ev)"
  unfolding await_transfer_def by (rule await_sync_returns[OF assms])

section \<open>A new device\<close>

lemma is_power_of_two_consts: "is_power_of_two 4096" "is_power_of_two 1024"
proof -
  have "4096 = (2 :: nat) ^ 12" "1024 = (2 :: nat) ^ 10" by simp_all
  then show "is_power_of_two 4096" "is_power_of_two 1024" by (auto simp only: is_power_of_two_iff intro!: exI)
qed

lemma TransferRing_alloc_new_spec:
  assumes "bump_holds a live" "size_of_ring \<le> 4096" "TransferRing_alloc_new size_of_ring a 32 = Some (a', b)"
  shows "bump_holds a' ((box_ptr (tr_trb_buffer (box_val b)), 512) # (box_ptr b, size_of_ring) # live)"
    "64 dvd box_ptr (tr_trb_buffer (box_val b))" "within_boundary 1024 (box_ptr (tr_trb_buffer (box_val b))) 512"
    "box_val (tr_trb_buffer (box_val b)) = replicate 32 [0, 0, 0, 0]" "tr_write_index (box_val b) = 0" "tr_cycle_bit (box_val b)"
proof -
  have outer: "kernel_alloc_with_boundary_with_default_else size_of_ring a 64 4096 (\<lambda>a. TransferRing_new a 32) = Some (a', Inr b)"
    using assms(3) by (auto simp: TransferRing_alloc_new_def PAGE_SIZE_def bind_eq_Some_conv rust_simps)
  obtain a1 where a1: "TransferRing_new a1 32 = Some (a', box_val b)" "bump_holds a1 ((box_ptr b, size_of_ring) # live)"
    using kernel_alloc_box_spec[OF assms(1) _ outer] assms(2) is_power_of_two_consts(1) by blast
  have inner: "\<exists>bx. kernel_alloc_array_with_boundary_with_default_else 16 a1 32 64 1024 (\<lambda>a. Some (a, [0, 0, 0, 0])) = Some (a', Inr bx) \<and>
      box_val b = \<lparr>tr_trb_buffer = bx, tr_write_index = 0, tr_cycle_bit = True, tr_cycle_count = 0\<rparr>"
    using a1(1) by (auto simp: TransferRing_new_def PAGE_SIZE_def size_of_TrbRaw_def bind_eq_Some_conv rust_simps)
  then obtain bx where bx: "kernel_alloc_array_with_boundary_with_default_else 16 a1 32 64 1024 (\<lambda>a. Some (a, [0, 0, 0, 0])) = Some (a', Inr bx)"
    "box_val b = \<lparr>tr_trb_buffer = bx, tr_write_index = 0, tr_cycle_bit = True, tr_cycle_count = 0\<rparr>" by blast
  have "64 dvd box_ptr bx \<and> within_boundary 1024 (box_ptr bx) (32 * 16) \<and> box_val bx = replicate 32 [0, 0, 0, 0] \<and>
      bump_holds a' ((box_ptr bx, 32 * 16) # (box_ptr b, size_of_ring) # live)"
    by (rule kernel_alloc_array_spec[OF a1(2) _ bx(1)]) (use is_power_of_two_consts(2) in simp)
  with bx(2) show "bump_holds a' ((box_ptr (tr_trb_buffer (box_val b)), 512) # (box_ptr b, size_of_ring) # live)"
    "64 dvd box_ptr (tr_trb_buffer (box_val b))" "within_boundary 1024 (box_ptr (tr_trb_buffer (box_val b))) 512"
    "box_val (tr_trb_buffer (box_val b)) = replicate 32 [0, 0, 0, 0]" "tr_write_index (box_val b) = 0" "tr_cycle_bit (box_val b)"
    by simp_all
qed

definition context_sizes_ok :: "Libs \<Rightarrow> bool" where
  "context_sizes_ok L \<longleftrightarrow> size_of_input_context L \<le> 4096 \<and> size_of_device_context L \<le> 4096 \<and> size_of_transfer_ring L \<le> 4096"

lemma InputContextWrapper_new_spec:
  assumes "bump_holds a live" "context_sizes_ok L" "InputContextWrapper_new L a = Some (a', b)"
  shows "bump_holds a' ((box_ptr b, size_of_input_context L) # live)" "64 dvd box_ptr b" "box_val b = input_context_zeroed"
proof -
  have run: "kernel_alloc_with_boundary_with_default_else (size_of_input_context L) a 64 4096 (\<lambda>a. Some (a, input_context_zeroed)) = Some (a', Inr b)"
    using assms(3) by (auto simp: InputContextWrapper_new_def bind_eq_Some_conv rust_simps)
  from kernel_alloc_box_spec[OF assms(1) _ run] assms(2) is_power_of_two_consts(1)
  show "bump_holds a' ((box_ptr b, size_of_input_context L) # live)" "64 dvd box_ptr b" "box_val b = input_context_zeroed"
    by (auto simp: context_sizes_ok_def)
qed

lemma DeviceContextWrapper_new_spec:
  assumes "bump_holds a live" "context_sizes_ok L" "DeviceContextWrapper_new L a = Some (a', b)"
  shows "bump_holds a' ((box_ptr b, size_of_device_context L) # live)" "64 dvd box_ptr b"
proof -
  have run: "kernel_alloc_with_boundary_with_default_else (size_of_device_context L) a 64 4096 (\<lambda>a. Some (a, ())) = Some (a', Inr b)"
    using assms(3) by (auto simp: DeviceContextWrapper_new_def bind_eq_Some_conv rust_simps)
  from kernel_alloc_box_spec[OF assms(1) _ run] assms(2) is_power_of_two_consts(1)
  show "bump_holds a' ((box_ptr b, size_of_device_context L) # live)" "64 dvd box_ptr b"
    by (auto simp: context_sizes_ok_def)
qed

text \<open>The blocks of memory of a new device.\<close>

definition new_device_blocks :: "Libs \<Rightarrow> DeviceContextInfo \<Rightarrow> TransferRing Box \<Rightarrow> (usize \<times> usize) list" where
  "new_device_blocks L d b =
     [(box_ptr (dv_device_context d), size_of_device_context L), (box_ptr (dv_input_context d), size_of_input_context L),
      (box_ptr (tr_trb_buffer (box_val b)), 512), (box_ptr b, size_of_transfer_ring L)]"

lemma device_new_spec:
  assumes "trb_lib_ok (lib_trb L)" "context_sizes_ok L" "bump_holds (xs_alloc s) live"
    and "DeviceContextInfo_new L port_index routing slot_id s = Some (d, s')"
  shows "\<exists>b. endpoint_ring L dci_ep0 d (0, True) [] b \<and> length (box_val (tr_trb_buffer (box_val b))) = 32 \<and>
    bump_holds (xs_alloc s') (new_device_blocks L d b @ live) \<and>
    64 dvd box_ptr (dv_device_context d) \<and> 64 dvd box_ptr (dv_input_context d) \<and> 64 dvd box_ptr (tr_trb_buffer (box_val b)) \<and>
    box_val (dv_input_context d) = input_context_zeroed \<and> device_address (d, s') = 0 \<and>
    dv_slot_id d = slot_id \<and> dv_port_index d = port_index \<and> dv_routing d = routing \<and>
    s' = s\<lparr>xs_alloc := xs_alloc s', xs_usb_address := (xs_usb_address s)(box_ptr (dv_device_context d) := 0)\<rparr>"
proof -
  obtain a1 ring a2 ic a3 dc where r: "TransferRing_alloc_new (size_of_transfer_ring L) (xs_alloc s) 32 = Some (a1, ring)"
    and i: "InputContextWrapper_new L a1 = Some (a2, ic)" and dc: "DeviceContextWrapper_new L a2 = Some (a3, dc)"
    and d: "d = \<lparr>dv_slot_id = slot_id, dv_port_index = port_index, dv_routing = routing, dv_descriptors = None,
            dv_input_context = ic, dv_device_context = dc, dv_transfer_rings = Some ring # replicate 30 None\<rparr>"
      "s' = s\<lparr>xs_alloc := a3, xs_usb_address := (xs_usb_address s)(box_ptr dc := 0)\<rparr>"
    using assms(4) by (auto simp: DeviceContextInfo_new_def TRANSFER_RING_BUF_SIZE_def bind_eq_Some_conv set_idx_def numeral_eq_Suc split: if_splits)
  note ring = TransferRing_alloc_new_spec[OF assms(3) _ r]
  have sz: "size_of_transfer_ring L \<le> 4096" using assms(2) by (simp add: context_sizes_ok_def)
  note ic = InputContextWrapper_new_spec[OF ring(1)[OF sz] assms(2) i]
  note dc = DeviceContextWrapper_new_spec[OF ic(1) assms(2) dc]
  have "ring_rel (lib_trb L) (box_val (tr_trb_buffer (box_val ring))) (tr_write_index (box_val ring)) (tr_cycle_bit (box_val ring)) (0, True) []"
    using ring_inv_empty[OF assms(1), of 32] ring(4-6)[OF sz] by (simp add: ring_rel_def)
  then have "endpoint_ring L dci_ep0 d (0, True) [] ring"
    using ring(4)[OF sz] by (simp add: endpoint_ring_def transfer_ring_at_def dci_ep0_def d usub_def get_idx_def)
  with ring(2,4)[OF sz] ic dc show ?thesis
    by (intro exI[of _ ring]) (simp add: d new_device_blocks_def device_address_def)
qed

section \<open>Properties\<close>

text \<open>
  What a control transfer on the default pipe puts on its ring: the setup stage, the data stage if there is a buffer, and the status stage.
\<close>

definition control_stages :: "Libs \<Rightarrow> SetupPacket \<Rightarrow> trb option \<Rightarrow> trb list" where
  "control_stages L packet data =
     (case data of
        Some t \<Rightarrow> [tb_setup_stage L (setup_packet_raw (lib_usb L) packet) InDataStage, t, tb_status_stage L False]
      | None \<Rightarrow> [tb_setup_stage L (setup_packet_raw (lib_usb L) packet) NoDataStage, tb_status_stage L True])"

definition buffer_length :: "(usize \<times> usize) option \<Rightarrow> u16" where
  "buffer_length buf = (case buf of Some (ptr, len) \<Rightarrow> of_nat len | None \<Rightarrow> 0)"

lemma bind_Some_Pair: "Option.bind x (\<lambda>r. Some (y, r)) = map_option (Pair y) x"
  by (cases x) simp_all

lemma async_control_transfer_eq:
  "async_control_transfer L W ep ty code value index buf w = do {
     eid \<leftarrow> EndpointId_from_endpoint ep;
     ((d, s), wait) \<leftarrow> push_control_transfer L eid
       \<lparr>sp_request_type = ty, sp_request = code, sp_value = value, sp_index = index, sp_length = buffer_length buf\<rparr> buf w;
     (s, ev) \<leftarrow> await_transfer L W wait s;
     map_option (Pair (d, s)) (transfer_result (buffer_length buf) ev)
   }"
  by (simp add: async_control_transfer_def buffer_length_def Let_def bind_Some_Pair)

definition data_stage_of :: "Libs \<Rightarrow> (usize \<times> usize) option \<Rightarrow> trb option \<Rightarrow> bool" where
  "data_stage_of L buf data \<longleftrightarrow>
     (case buf of Some (ptr, len) \<Rightarrow> data \<noteq> None \<and> tb_data_stage L (of_nat len) (of_nat ptr) = data | None \<Rightarrow> data = None)"

definition controller_answers :: "Libs \<Rightarrow> 'h Hw \<Rightarrow> u64 list \<Rightarrow> 'h Xhc \<Rightarrow> 'h Xhc \<Rightarrow> TransferEvent \<Rightarrow> bool" where
  "controller_answers L W ptrs s s' ev \<longleftrightarrow>
     (\<exists>n. ready_after (xhc_poll W (TransferEventFuture_poll (lib_trb L) (lib_bits L) (lib_erdp L) (lib_event L))) n (WaitTrbPtrs ptrs) s = Some (s', ev))"

lemma control_transfer_spec:
  assumes "trb_lib_ok (lib_trb L)" "endpoint_ring L dci_ep0 d h q b" "data_stage_of L buf data"
    and packet: "packet = \<lparr>sp_request_type = ty, sp_request = code, sp_value = value, sp_index = index, sp_length = buffer_length buf\<rparr>"
    and "\<forall>t \<in> set (control_stages L packet data). plain_trb L t"
    and "length q + length (control_stages L packet data) < length (box_val (tr_trb_buffer (box_val b))) - 1"
    and "dv_slot_id d < xs_n_doorbells s"
    and ans: "controller_answers L W (next_addresses (box_val b) (length (control_stages L packet data)))
      (s\<lparr>xs_doorbells := xs_doorbells s @ [(dv_slot_id d, 1, 0)]\<rparr>) s' ev"
    and "te_completion_code ev = Inr ShortPacket \<longrightarrow> unat (te_trb_transfer_length ev) \<le> unat (buffer_length buf)"
  shows "\<exists>d' b'. async_control_transfer L W (IdEndpoint default_control_pipe) ty code value index buf (d, s) =
      Some ((d', s'), case te_completion_code ev of
          Inr Success \<Rightarrow> Inr (unat (buffer_length buf))
        | Inr ShortPacket \<Rightarrow> Inr (unat (buffer_length buf) - unat (te_trb_transfer_length ev))
        | Inr _ \<Rightarrow> Inl (Retry ''CompletionCode error'')
        | Inl _ \<Rightarrow> Inl (Permanent ''Unknown completion code'')) \<and>
    endpoint_ring L dci_ep0 d' h (q @ control_stages L packet data) b' \<and> d' = d\<lparr>dv_transfer_rings := dv_transfer_rings d'\<rparr> \<and>
    te_trb_pointer ev \<in> set (next_addresses (box_val b) (length (control_stages L packet data)))"
proof -
  have eid: "EndpointId_from_endpoint (IdEndpoint default_control_pipe) = Some default_control_pipe"
    "EndpointId_address default_control_pipe = Some dci_ep0"
    by (simp_all add: EndpointId_from_endpoint_def EndpointId_new_def default_control_pipe_def EndpointId_address_def calc_dci_def
        u8mul_def u8add_def dci_ep0_def)
  let ?ts = "control_stages L packet data" and ?s = "s\<lparr>xs_doorbells := xs_doorbells s @ [(dv_slot_id d, 1, 0)]\<rparr>"
  obtain d' b' where d': "push_trbs L dci_ep0 ?ts d = Some (d', next_addresses (box_val b) (length ?ts))"
    "endpoint_ring L dci_ep0 d' h (q @ ?ts) b'" "d' = d\<lparr>dv_transfer_rings := dv_transfer_rings d'\<rparr>"
    using push_trbs_ok[OF assms(1,2,5,6)] by blast
  have "dv_slot_id d' = dv_slot_id d" by (subst d'(3)) simp
  then have bell: "ring_doorbell (dv_slot_id d') dci_ep0 s = Some ?s" using assms(7) by (simp add: ring_doorbell_def dci_ep0_def)
  have push: "push_control_transfer L default_control_pipe packet buf (d, s) =
      Some ((d', ?s), WaitTrbPtrs (next_addresses (box_val b) (length ?ts)))"
  proof (cases buf)
    case None
    then have "data = None" using assms(3) by (simp add: data_stage_of_def)
    then show ?thesis using d'(1) bell None by (simp add: push_control_transfer_eq(1)[OF eid(2)] control_stages_def)
  next
    case (Some pl)
    obtain ptr len where pl: "pl = (ptr, len)" by (cases pl)
    with Some assms(3) obtain t where t: "data = Some t" "tb_data_stage L (of_nat len) (of_nat ptr) = Some t"
      by (auto simp: data_stage_of_def)
    then show ?thesis using d'(1) bell Some pl by (simp add: push_control_transfer_eq(2)[OF eid(2) t(2)] control_stages_def)
  qed
  obtain n where n: "ready_after (xhc_poll W (TransferEventFuture_poll (lib_trb L) (lib_bits L) (lib_erdp L) (lib_event L))) n
      (WaitTrbPtrs (next_addresses (box_val b) (length ?ts))) ?s = Some (s', ev)"
    using ans by (auto simp: controller_answers_def)
  have "te_trb_pointer ev \<in> set (next_addresses (box_val b) (length ?ts))"
    using ready_after_wanted[OF n] by (simp split: if_splits)
  moreover have "async_control_transfer L W (IdEndpoint default_control_pipe) ty code value index buf (d, s) =
      map_option (Pair (d', s')) (transfer_result (buffer_length buf) ev)"
    using push await_transfer_ready[OF n] unfolding packet by (simp add: async_control_transfer_eq eid(1))
  ultimately show ?thesis
    using d'(2,3) assms(9)
    by (auto simp: transfer_result_def usub_def split: sum.splits CompletionCode.splits)
qed

text \<open>Concrete crates and a concrete controller for the witnesses: a ring of eight TRBs and an event for the third of them.\<close>

definition example_libs :: Libs where
  "example_libs = \<lparr>lib_trb = example_trb_lib, lib_bits = shift_mask_field, lib_erdp = example_erdp_lib, lib_event = example_event,
     lib_usb = example_usb_lib, tb_setup_stage = (\<lambda>p t. [0, 0, 8, 0x800]), tb_data_stage = (\<lambda>n p. Some [ucast p, 0, n, 0xc20]),
     tb_status_stage = (\<lambda>b. [0, 0, 0, if b then 0x11020 else 0x1000]), tb_normal = (\<lambda>p n. Some [ucast p, 0, n, 0x424]),
     tb_enable_slot = [0, 0, 0, 0x2400], tb_disable_slot = (\<lambda>s. [0, 0, 0, 0x2800]), tb_address_device = (\<lambda>p s. Some [ucast p, 0, 0, 0x2c00]),
     tb_configure_endpoint = (\<lambda>p s. Some [ucast p, 0, 0, 0x3000]), tb_evaluate_context = (\<lambda>p s. Some [ucast p, 0, 0, 0x3400]),
     transfer_try_from = (\<lambda>t. Some OtherTransferTrb), command_try_from = (\<lambda>t. Some EnableSlotTrb), is_host_controller_event = (\<lambda>t. False),
     ctx_fits = (\<lambda>f v. True), size_of_input_context = 1088, size_of_device_context = 1024, size_of_transfer_ring = 64\<rparr>"

definition example_hw :: "unit Hw" where
  "example_hw = \<lparr>hw_env = (\<lambda>s. s), hw_write_portsc = (\<lambda>i p s. s), hw_buffer = (\<lambda>n. 0x8000), hw_uninit = (\<lambda>n. replicate n 0)\<rparr>"

definition example_device :: DeviceContextInfo where
  "example_device = \<lparr>dv_slot_id = 1, dv_port_index = 0, dv_routing = 0, dv_descriptors = None,
     dv_input_context = \<lparr>box_ptr = 0x3000, box_val = input_context_zeroed\<rparr>, dv_device_context = \<lparr>box_ptr = 0x4000, box_val = ()\<rparr>,
     dv_transfer_rings = Some \<lparr>box_ptr = 0x2000, box_val = \<lparr>tr_trb_buffer = \<lparr>box_ptr = 0x1000, box_val = replicate 8 [0, 0, 0, 0]\<rparr>,
       tr_write_index = 0, tr_cycle_bit = True, tr_cycle_count = 0\<rparr>\<rparr> # replicate 30 None\<rparr>"

definition example_events :: event_state where
  "example_events =
     (\<lparr>er_trb_buffer = \<lparr>box_ptr = 0x5000, box_val = [[0x1020, 0, 0, 0x1018001], [0, 0, 0, 0]]\<rparr>, er_popped = [],
       er_event_ring_segment_table = \<lparr>box_ptr = 0x5040, box_val = \<lparr>erst_data = [0x5000, 0, 2, 0]\<rparr>\<rparr>, er_cycle_bit = True, er_n_pop = 0\<rparr>,
      \<lparr>int_erstsz = 1, int_erdp = 0x5000, int_erstba = 0x5040\<rparr>)"

definition example_xhc :: "unit Xhc" where
  "example_xhc = \<lparr>xs_alloc = bump_init bump_new 0x10000 0x20000, xs_events = example_events,
     xs_command_ring = \<lparr>cr_trb_buffer = \<lparr>box_ptr = 0x6000, box_val = replicate 8 [0, 0, 0, 0]\<rparr>, cr_write_index = 0, cr_cycle_bit = True\<rparr>,
     xs_user_events = UserEventRing_new, xs_doorbells = [], xs_n_doorbells = 8, xs_mem = (\<lambda>a. 0), xs_usb_address = (\<lambda>a. 0),
     xs_portsc = [], xs_hw = ()\<rparr>"

lemma example_ring: "endpoint_ring example_libs dci_ep0 example_device (0, True) []
    \<lparr>box_ptr = 0x2000, box_val = \<lparr>tr_trb_buffer = \<lparr>box_ptr = 0x1000, box_val = replicate 8 [0, 0, 0, 0]\<rparr>,
       tr_write_index = 0, tr_cycle_bit = True, tr_cycle_count = 0\<rparr>\<rparr>"
  using ring_inv_empty[OF example_trb_lib_ok, of 8]
  by (simp add: endpoint_ring_def transfer_ring_at_def dci_ep0_def example_device_def usub_def get_idx_def example_libs_def ring_rel_def
      del: replicate.simps)

definition example_transfer_event :: TransferEvent where
  "example_transfer_event = \<lparr>te_slot_id = 1, te_endpoint_id = 1, te_trb_pointer = 0x1020, te_trb_transfer_length = 0, te_completion_code = Inr Success\<rparr>"

lemma example_front: "has_front example_trb_lib example_erdp_lib example_events = Some True"
  by (simp add: has_front_def example_events_def example_erdp_lib_def read_trb_def size_of_TrbRaw_def example_trb_lib_def
      bit_iff_and_push_bit_not_eq_0)

lemma example_pop:
  "\<exists>r i. EventRing_pop shift_mask_field example_erdp_lib example_event (snd example_events) (fst example_events) =
     Some (r, i, Inr (AllowedTransferEvent example_transfer_event))"
  by (simp add: EventRing_pop_def example_events_def example_erdp_lib_def read_trb_def size_of_TrbRaw_def uadd_def
      ring_segment_base_address_def ring_segment_size_def get_idx_def shift_mask_field_def example_event_def example_transfer_event_def Let_def)

lemma example_answers:
  "\<exists>s'. controller_answers example_libs example_hw [0x1000, 0x1010, 0x1020] (example_xhc\<lparr>xs_doorbells := [(1, 1, 0)]\<rparr>) s' example_transfer_event"
proof -
  let ?f = "WaitTrbPtrs [0x1000, 0x1010, 0x1020]"
  obtain r i where pop: "EventRing_pop shift_mask_field example_erdp_lib example_event (snd example_events) (fst example_events) =
     Some (r, i, Inr (AllowedTransferEvent example_transfer_event))" using example_pop by blast
  have "TransferEventFuture_poll example_trb_lib shift_mask_field example_erdp_lib example_event ?f example_events =
      Some (?f, (r, i), Ready example_transfer_event)"
    unfolding transfer_future.poll_busy[OF example_front]
    by (simp add: pop hand_out_def) (simp add: example_transfer_event_def)
  then have "ready_after (xhc_poll example_hw (TransferEventFuture_poll example_trb_lib shift_mask_field example_erdp_lib example_event)) 0 ?f
      (example_xhc\<lparr>xs_doorbells := [(1, 1, 0)]\<rparr>) =
      Some (example_xhc\<lparr>xs_doorbells := [(1, 1, 0)], xs_events := (r, i)\<rparr>, example_transfer_event)"
    by (simp add: xhc_poll_def example_xhc_def)
  then have "controller_answers example_libs example_hw [0x1000, 0x1010, 0x1020] (example_xhc\<lparr>xs_doorbells := [(1, 1, 0)]\<rparr>)
      (example_xhc\<lparr>xs_doorbells := [(1, 1, 0)], xs_events := (r, i)\<rparr>) example_transfer_event"
    unfolding controller_answers_def by (intro exI[of _ 0]) (simp add: example_libs_def del: ready_after.simps)
  then show ?thesis by blast
qed

definition example_ring_box :: "TransferRing Box" where
  "example_ring_box = \<lparr>box_ptr = 0x2000, box_val = \<lparr>tr_trb_buffer = \<lparr>box_ptr = 0x1000, box_val = replicate 8 [0, 0, 0, 0]\<rparr>,
       tr_write_index = 0, tr_cycle_bit = True, tr_cycle_count = 0\<rparr>\<rparr>"

definition example_packet :: SetupPacket where
  "example_packet = \<lparr>sp_request_type = 0x80, sp_request = GetDescriptor, sp_value = 0x100, sp_index = 0,
     sp_length = buffer_length (Some (0x8000, 18))\<rparr>"

lemma example_stages:
  "control_stages example_libs example_packet (Some [0x8000, 0, 18, 0xc20]) = [[0, 0, 8, 0x800], [0x8000, 0, 18, 0xc20], [0, 0, 0, 0x1000]]"
  by (simp add: control_stages_def example_libs_def)

lemma example_transfer:
  "trb_lib_ok (lib_trb example_libs)" "endpoint_ring example_libs dci_ep0 example_device (0, True) [] example_ring_box"
  "data_stage_of example_libs (Some (0x8000, 18)) (Some [0x8000, 0, 18, 0xc20])"
  "\<forall>t \<in> set (control_stages example_libs example_packet (Some [0x8000, 0, 18, 0xc20])). plain_trb example_libs t"
  "length [] + length (control_stages example_libs example_packet (Some [0x8000, 0, 18, 0xc20])) < length (box_val (tr_trb_buffer (box_val example_ring_box))) - 1"
  "dv_slot_id example_device < xs_n_doorbells example_xhc"
  "te_completion_code example_transfer_event = Inr ShortPacket \<longrightarrow>
      unat (te_trb_transfer_length example_transfer_event) \<le> unat (buffer_length (Some (0x8000, 18)))"
proof -
  let ?t = "Some [0x8000, 0, 18, 0xc20] :: trb option"
  show "trb_lib_ok (lib_trb example_libs)" by (simp add: example_libs_def example_trb_lib_ok)
  show "endpoint_ring example_libs dci_ep0 example_device (0, True) [] example_ring_box" using example_ring by (simp only: example_ring_box_def)
  show "data_stage_of example_libs (Some (0x8000, 18)) ?t" by (simp add: data_stage_of_def example_libs_def)
  show "\<forall>t \<in> set (control_stages example_libs example_packet ?t). plain_trb example_libs t"
    unfolding example_stages by (simp add: plain_trb_def example_libs_def example_trb_lib_def)
  show "length [] + length (control_stages example_libs example_packet ?t) < length (box_val (tr_trb_buffer (box_val example_ring_box))) - 1"
    by (simp add: example_stages example_ring_box_def)
  show "dv_slot_id example_device < xs_n_doorbells example_xhc" by (simp add: example_device_def example_xhc_def)
  show "te_completion_code example_transfer_event = Inr ShortPacket \<longrightarrow>
      unat (te_trb_transfer_length example_transfer_event) \<le> unat (buffer_length (Some (0x8000, 18)))"
    by (simp add: example_transfer_event_def)
qed

lemma example_answer:
  "\<exists>s'. controller_answers example_libs example_hw
      (next_addresses (box_val example_ring_box) (length (control_stages example_libs example_packet (Some [0x8000, 0, 18, 0xc20]))))
      (example_xhc\<lparr>xs_doorbells := xs_doorbells example_xhc @ [(dv_slot_id example_device, 1, 0)]\<rparr>) s' example_transfer_event"
proof -
  have ad: "next_addresses (box_val example_ring_box) 3 = [0x1000, 0x1010, 0x1020]"
    by (simp add: next_addresses_def slot_def upt_rec example_ring_box_def)
  have len: "length (control_stages example_libs example_packet (Some [0x8000, 0, 18, 0xc20])) = 3" by (simp add: example_stages)
  have xs: "xs_doorbells example_xhc @ [(dv_slot_id example_device, 1, 0)] = [(1, 1, 0)]" by (simp add: example_device_def example_xhc_def)
  show ?thesis using example_answers by (simp only: len ad xs)
qed

lemma example_result: "te_completion_code example_transfer_event = Inr Success" "unat (buffer_length (Some (p, 18))) = 18"
  by (simp_all add: example_transfer_event_def buffer_length_def)

text \<open>C11: A control transfer on the default pipe: the setup, data and status stages are put on the ring in this order behind what is
  outstanding there, the doorbell of the slot is rung once for endpoint 0, and the transfer waits for an event of exactly these
  three (two without a buffer) TRBs. When the controller answers after finitely many polls, the transfer returns: the full
  length on success, the length less the residue on a short packet, a retry on any other completion, a permanent error on an unknown code.\<close>

theorem control_transfer_returns:
  assumes "trb_lib_ok (lib_trb L)" "endpoint_ring L dci_ep0 d h q b" "data_stage_of L buf data"
    and packet: "packet = \<lparr>sp_request_type = ty, sp_request = code, sp_value = value, sp_index = index, sp_length = buffer_length buf\<rparr>"
    and "\<forall>t \<in> set (control_stages L packet data). plain_trb L t"
    and "length q + length (control_stages L packet data) < length (box_val (tr_trb_buffer (box_val b))) - 1"
    and "dv_slot_id d < xs_n_doorbells s"
    and ans: "controller_answers L W (next_addresses (box_val b) (length (control_stages L packet data)))
      (s\<lparr>xs_doorbells := xs_doorbells s @ [(dv_slot_id d, 1, 0)]\<rparr>) s' ev"
    and "te_completion_code ev = Inr ShortPacket \<longrightarrow> unat (te_trb_transfer_length ev) \<le> unat (buffer_length buf)"
  shows "\<exists>d' b'. async_control_transfer L W (IdEndpoint default_control_pipe) ty code value index buf (d, s) =
      Some ((d', s'), case te_completion_code ev of
          Inr Success \<Rightarrow> Inr (unat (buffer_length buf))
        | Inr ShortPacket \<Rightarrow> Inr (unat (buffer_length buf) - unat (te_trb_transfer_length ev))
        | Inr _ \<Rightarrow> Inl (Retry ''CompletionCode error'')
        | Inl _ \<Rightarrow> Inl (Permanent ''Unknown completion code'')) \<and>
    endpoint_ring L dci_ep0 d' h (q @ control_stages L packet data) b' \<and> d' = d\<lparr>dv_transfer_rings := dv_transfer_rings d'\<rparr> \<and>
    te_trb_pointer ev \<in> set (next_addresses (box_val b) (length (control_stages L packet data)))"
  using assms by (rule control_transfer_spec)

theorem control_transfer_returns_witness:
  "\<exists>d' b' s'. async_control_transfer example_libs example_hw (IdEndpoint default_control_pipe) 0x80 GetDescriptor 0x100 0 (Some (0x8000, 18))
      (example_device, example_xhc) = Some ((d', s'), Inr 18) \<and>
    endpoint_ring example_libs dci_ep0 d' (0, True) [[0, 0, 8, 0x800], [0x8000, 0, 18, 0xc20], [0, 0, 0, 0x1000]] b'"
proof -
  from example_answer obtain s' where ans: "controller_answers example_libs example_hw
      (next_addresses (box_val example_ring_box) (length (control_stages example_libs example_packet (Some [0x8000, 0, 18, 0xc20]))))
      (example_xhc\<lparr>xs_doorbells := xs_doorbells example_xhc @ [(dv_slot_id example_device, 1, 0)]\<rparr>) s' example_transfer_event" by blast
  from control_transfer_returns[OF example_transfer(1-3) example_packet_def example_transfer(4-6) ans example_transfer(7)]
  show ?thesis by (simp add: example_stages example_result) blast
qed

lemma control_transfer_example:
  "\<exists>w'. async_control_transfer example_libs example_hw (IdEndpoint default_control_pipe) 0x80 GetDescriptor 0x100 0 (Some (0x8000, 18))
      (example_device, example_xhc) = Some (w', Inr 18)"
proof -
  from example_answer obtain s' where ans: "controller_answers example_libs example_hw
      (next_addresses (box_val example_ring_box) (length (control_stages example_libs example_packet (Some [0x8000, 0, 18, 0xc20]))))
      (example_xhc\<lparr>xs_doorbells := xs_doorbells example_xhc @ [(dv_slot_id example_device, 1, 0)]\<rparr>) s' example_transfer_event" by blast
  from control_transfer_spec[OF example_transfer(1-3) example_packet_def example_transfer(4-6) ans example_transfer(7)]
  show ?thesis by (simp add: example_stages example_result) blast
qed

text \<open>Requesting a descriptor returns with the first attempt that succeeds when at most a hundred attempts fail before it, and panics when a
  hundred and one attempts fail.\<close>

theorem request_descriptor_retries:
  assumes "\<forall>i < k. \<exists>e. descriptor_attempt L W eid ty ix buf (w i) = Some (w (Suc i), Inl e)"
  shows "(k \<le> 100 \<longrightarrow> descriptor_attempt L W eid ty ix buf (w k) = Some (w', Inr len) \<longrightarrow>
      request_descriptor L W eid ty ix buf (w 0) = Some (w', len)) \<and>
    (k = 101 \<longrightarrow> request_descriptor L W eid ty ix buf (w 0) = None)"
proof -
  let ?a = "descriptor_attempt L W eid ty ix buf"
  have skip: "request_descriptor_loop ?a (j + n) (w i) = request_descriptor_loop ?a n (w (i + j))" if "i + j \<le> k" for i j n
    using that
  proof (induction j arbitrary: i)
    case (Suc j)
    then obtain e where "?a (w i) = Some (w (Suc i), Inl e)" using assms by fastforce
    with Suc.IH[of "Suc i"] Suc.prems show ?case by simp
  qed simp
  have "request_descriptor L W eid ty ix buf (w 0) = Some (w', len)" if "k \<le> 100" "?a (w k) = Some (w', Inr len)"
  proof -
    have "request_descriptor L W eid ty ix buf (w 0) = request_descriptor_loop ?a (k + Suc (100 - k)) (w 0)"
      using that(1) by (simp add: request_descriptor_def)
    also have "\<dots> = request_descriptor_loop ?a (Suc (100 - k)) (w k)" using skip[of 0 k "Suc (100 - k)"] by simp
    finally show ?thesis using that(2) by simp
  qed
  moreover have "request_descriptor L W eid ty ix buf (w 0) = None" if "k = 101"
    using skip[of 0 k 0] that by (simp add: request_descriptor_def)
  ultimately show ?thesis by blast
qed

theorem request_descriptor_retries_witness:
  "\<exists>w'. request_descriptor example_libs example_hw default_control_pipe DT_Device 0 (0x8000, 18) (example_device, example_xhc) = Some (w', 18)"
proof -
  obtain w' where "async_control_transfer example_libs example_hw (IdEndpoint default_control_pipe) 0x80 GetDescriptor 0x100 0 (Some (0x8000, 18))
      (example_device, example_xhc) = Some (w', Inr 18)" using control_transfer_example by blast
  then have "descriptor_attempt example_libs example_hw default_control_pipe DT_Device 0 (0x8000, 18) (example_device, example_xhc) = Some (w', Inr 18)"
    by (simp add: descriptor_attempt_def example_libs_def example_usb_lib_def le16_def)
  with request_descriptor_retries[of 0 example_libs example_hw default_control_pipe DT_Device 0 "(0x8000, 18)" "\<lambda>_. (example_device, example_xhc)"
      w' 18] show ?thesis by simp
qed

text \<open>C18: A new device is ready for its first transfer: the ring of endpoint 0 has 32 slots, is empty, and the driver and the controller agree on its
  start; the ring, the two contexts and the box of the ring are four new blocks of the heap, disjoint from each other and from all blocks in use; the
  ring and the contexts are aligned to 64 bytes as the controller demands; the input context is zero and the device has no address yet.\<close>

theorem device_new_ready:
  assumes "trb_lib_ok (lib_trb L)" "context_sizes_ok L" "bump_holds (xs_alloc s) live"
    and "DeviceContextInfo_new L port_index routing slot_id s = Some (d, s')"
  shows "\<exists>b. endpoint_ring L dci_ep0 d (0, True) [] b \<and> length (box_val (tr_trb_buffer (box_val b))) = 32 \<and>
    bump_holds (xs_alloc s') (new_device_blocks L d b @ live) \<and>
    64 dvd box_ptr (dv_device_context d) \<and> 64 dvd box_ptr (dv_input_context d) \<and> 64 dvd box_ptr (tr_trb_buffer (box_val b)) \<and>
    box_val (dv_input_context d) = input_context_zeroed \<and> device_address (d, s') = 0 \<and>
    dv_slot_id d = slot_id \<and> dv_port_index d = port_index \<and> dv_routing d = routing"
  using device_new_spec[OF assms] by blast

definition example_heap :: "nat \<Rightarrow> nat \<Rightarrow> BumpAllocator" where
  "example_heap next n = \<lparr>heap_start = 0x10000, heap_end = 0x20000, bump_next = next, n_allocations = n\<rparr>"

lemma example_heap_steps:
  "alloc_with_boundary bump_alloc 64 (example_heap 0x10000 0) 64 4096 = Some (example_heap 0x10040 1, Inr 0x10000)"
  "alloc_array_with_boundary bump_alloc 16 (example_heap 0x10040 1) 32 64 1024 = Some (example_heap 0x10240 2, Inr (0x10040, 32))"
  "alloc_with_boundary bump_alloc 1088 (example_heap 0x10240 2) 64 4096 = Some (example_heap 0x10680 3, Inr 0x10240)"
  "alloc_with_boundary bump_alloc 1024 (example_heap 0x10680 3) 64 4096 = Some (example_heap 0x10a80 4, Inr 0x10680)"
  by code_simp+

lemma example_heap_start: "xs_alloc example_xhc = example_heap 0x10000 0"
  by (simp add: example_xhc_def example_heap_def bump_init_def bump_new_def)

lemma fill_default_const: "fill_default (\<lambda>a. Some (a, v)) n a = Some (a, replicate n v)"
  by (induction n) simp_all

lemma example_device_new: "\<exists>d s'. DeviceContextInfo_new example_libs 2 0 1 example_xhc = Some (d, s')"
proof -
  have r: "TransferRing_new (example_heap 0x10040 1) 32 = Some (example_heap 0x10240 2,
      \<lparr>tr_trb_buffer = \<lparr>box_ptr = 0x10040, box_val = replicate 32 [0, 0, 0, 0]\<rparr>, tr_write_index = 0, tr_cycle_bit = True, tr_cycle_count = 0\<rparr>)"
    by (simp add: TransferRing_new_def kernel_alloc_array_with_boundary_with_default_else_def alloc_array_with_boundary_with_default_else_def
        size_of_TrbRaw_def PAGE_SIZE_def example_heap_steps[unfolded One_nat_def] fill_default_const)
  show ?thesis
    by (simp add: DeviceContextInfo_new_def TransferRing_alloc_new_def InputContextWrapper_new_def DeviceContextWrapper_new_def
        kernel_alloc_with_boundary_with_default_else_def alloc_with_boundary_with_default_else_def TRANSFER_RING_BUF_SIZE_def
        example_libs_def PAGE_SIZE_def example_heap_start example_heap_steps[unfolded One_nat_def] r[unfolded One_nat_def])
qed

theorem device_new_ready_witness:
  "\<exists>d s' b. DeviceContextInfo_new example_libs 2 0 1 example_xhc = Some (d, s') \<and> endpoint_ring example_libs dci_ep0 d (0, True) [] b \<and>
     bump_holds (xs_alloc s') (new_device_blocks example_libs d b)"
proof -
  obtain d s' where n: "DeviceContextInfo_new example_libs 2 0 1 example_xhc = Some (d, s')" using example_device_new by blast
  have h: "bump_holds (xs_alloc example_xhc) []" by (simp add: example_xhc_def bump_init_holds)
  have z: "context_sizes_ok example_libs" by (simp add: context_sizes_ok_def example_libs_def)
  from device_new_ready[OF example_transfer(1) z h n] n show ?thesis by auto
qed

section \<open>Two defects\<close>

text \<open>
  A failed Configure Endpoint command is not retried: the ring of the endpoint is kept, and the next call takes the endpoint for configured.
\<close>

lemma set_context_fields:
  assumes "set_context L fvs d = Some d'"
  shows "dv_transfer_rings d' = dv_transfer_rings d" "dv_port_index d' = dv_port_index d"
  using assms by (auto simp: set_context_def bind_eq_Some_conv)

lemma configure_endpoint_fields:
  assumes "configure_endpoint L W dci (d, s) = Some ((d', s'), r)"
  shows "dv_transfer_rings d' = dv_transfer_rings d" "dv_port_index d' = dv_port_index d"
  using assms by (auto simp: configure_endpoint_def bind_eq_Some_conv dest: set_context_fields)

lemma set_transfer_ring_at_fields:
  assumes "set_transfer_ring_at dci r d = Some d'"
  shows "transfer_ring_at dci d' = Some r" "dv_port_index d' = dv_port_index d"
  using assms by (auto simp: set_transfer_ring_at_def transfer_ring_at_def bind_eq_Some_conv rust_simps)

lemma endpoint_interval_error: "endpoint_interval v i = Some (Inl e) \<Longrightarrow> e = Permanent ''Unknown speed''"
  by (auto simp: endpoint_interval_def split: if_splits)

lemma interrupt_ring_not_retried:
  assumes "init_transfer_ring_for_interrupt_at L W ep e (d, s) = Some ((d', s'), Inl (Retry msg))"
    and "get_idx (xs_portsc (hw_env W s')) (dv_port_index d) = Some p"
  shows "init_transfer_ring_for_interrupt_at L W ep e (d', s') = Some ((d', hw_env W s'), Inr False)"
proof -
  from assms(1) obtain dci where dci: "dci_from_descriptor e = Some dci"
    by (auto simp: init_transfer_ring_for_interrupt_at_def bind_eq_Some_conv)
  obtain ring d1 d2 s2 where r: "set_transfer_ring_at dci (Some ring) d1 = Some d2" "dv_port_index d1 = dv_port_index d"
    and c: "configure_endpoint L W dci (d2, s2) = Some ((d', s'), Inl (Retry msg))"
    using assms(1)
    by (auto simp: init_transfer_ring_for_interrupt_at_def dci bind_eq_Some_conv Let_def case_sum_eq_Some split: if_splits
        dest!: endpoint_interval_error set_context_fields(2))
  have "transfer_ring_at dci d' = Some (Some ring)" "dv_port_index d' = dv_port_index d"
    using set_transfer_ring_at_fields[OF r(1)] r(2) configure_endpoint_fields[OF c] by (simp_all add: transfer_ring_at_def)
  with assms(2) show ?thesis by (simp add: init_transfer_ring_for_interrupt_at_def dci read_port_def)
qed

text \<open>At full and low speed the interval of an endpoint has only two values, whatever the descriptor says: an endpoint that asks to be polled every
  10 ms gets interval 3, which is 1 ms.\<close>

lemma interval_full_speed:
  assumes "v = 1 \<or> v = 2"
  shows "\<exists>i. endpoint_interval v b = Some (Inr i) \<and> i \<in> {3, 4}" "endpoint_interval v 10 = Some (Inr 3)"
  using assms by (auto simp: endpoint_interval_def bit_iff_and_push_bit_not_eq_0)

end
