(* ===== verification/Device_Manager.thy ===== *)
theory Device_Manager
  imports Usb_Device
begin

text \<open>
  The table of devices, \<^verbatim>\<open>kernel/src/xhci/device_manager.rs\<close>: for every slot the driver's device and, in memory the controller reads, the
  address of its output context.
\<close>

section \<open>The tables\<close>

text \<open>\<open>dm_contexts\<close> is the Device Context Base Address Array, \<open>dm_infos\<close> the devices; both have an entry per slot, and entry 0 of the
  first is the array of scratchpad buffers.\<close>

record DeviceManager =
  dm_contexts :: "u64 list Box"
  dm_infos :: "DeviceContextInfo option list"

definition size_of_context_ptr :: usize where "size_of_context_ptr = 8"

definition DeviceManager_new :: "u8 \<Rightarrow> 'h Xhc \<Rightarrow> ('h Xhc \<times> DeviceManager) option" where
  "DeviceManager_new max_slots s = do {
     let device_contexts_len = unat max_slots + 1;
     (a, r) \<leftarrow> kernel_alloc_array_with_boundary_with_default_else size_of_context_ptr (xs_alloc s) device_contexts_len 64 PAGE_SIZE
                 (\<lambda>a. Some (a, 0));
     (case r of
        Inl e \<Rightarrow> None
      | Inr device_contexts \<Rightarrow>
          Some (s\<lparr>xs_alloc := a\<rparr>, \<lparr>dm_contexts = device_contexts, dm_infos = replicate device_contexts_len None\<rparr>))
   }"

definition dm_max_slots :: "DeviceManager \<Rightarrow> usize option" where
  "dm_max_slots m = usub (length (box_val (dm_contexts m))) 1"

definition set_scratchpad_buffer_array :: "usize \<Rightarrow> DeviceManager \<Rightarrow> DeviceManager option" where
  "set_scratchpad_buffer_array ptr_head m = do {
     cs \<leftarrow> set_idx (box_val (dm_contexts m)) 0 (of_nat ptr_head);
     Some (m\<lparr>dm_contexts := (dm_contexts m)\<lparr>box_val := cs\<rparr>\<rparr>)
   }"

definition get_device_contexts_head_ptr :: "DeviceManager \<Rightarrow> usize" where
  "get_device_contexts_head_ptr m = box_ptr (dm_contexts m)"

definition allocate_device :: "Libs \<Rightarrow> usize \<Rightarrow> usize \<Rightarrow> u32 \<Rightarrow> DeviceManager \<times> 'h Xhc \<Rightarrow> (DeviceManager \<times> 'h Xhc) option" where
  "allocate_device L port_index slot_id routing = (\<lambda>(m, s). do {
     n \<leftarrow> dm_max_slots m;
     rassert (slot_id \<le> n);
     info \<leftarrow> get_idx (dm_infos m) slot_id;
     rassert (info = None);
     (d, s) \<leftarrow> DeviceContextInfo_new L port_index routing slot_id s;
     infos \<leftarrow> set_idx (dm_infos m) slot_id (Some d);
     Some (m\<lparr>dm_infos := infos\<rparr>, s)
   })"

text \<open>The device is dropped: its boxes go back to the allocator, in the order of the fields.\<close>

fun drop_rings :: "Libs \<Rightarrow> TransferRing Box option list \<Rightarrow> 'h Xhc \<Rightarrow> 'h Xhc option" where
  "drop_rings L [] s = Some s"
| "drop_rings L (None # rs) s = drop_rings L rs s"
| "drop_rings L (Some r # rs) s = do { s \<leftarrow> drop_transfer_ring L r s; drop_rings L rs s }"

definition drop_device :: "Libs \<Rightarrow> DeviceContextInfo \<Rightarrow> 'h Xhc \<Rightarrow> 'h Xhc option" where
  "drop_device L d s = do {
     s \<leftarrow> drop_box (size_of_input_context L) (dv_input_context d) s;
     s \<leftarrow> drop_box (size_of_device_context L) (dv_device_context d) s;
     drop_rings L (dv_transfer_rings d) s
   }"

definition deallocate_device :: "Libs \<Rightarrow> usize \<Rightarrow> DeviceManager \<times> 'h Xhc \<Rightarrow> (DeviceManager \<times> 'h Xhc) option" where
  "deallocate_device L slot_id = (\<lambda>(m, s). do {
     info \<leftarrow> get_idx (dm_infos m) slot_id;
     d \<leftarrow> info;
     s \<leftarrow> drop_device L d s;
     infos \<leftarrow> set_idx (dm_infos m) slot_id None;
     Some (m\<lparr>dm_infos := infos\<rparr>, s)
   })"

definition device_by_slot_id :: "usize \<Rightarrow> DeviceManager \<Rightarrow> DeviceContextInfo option option" where
  "device_by_slot_id slot_id m = get_idx (dm_infos m) slot_id"

text \<open>\<^verbatim>\<open>trailing_zeros() >= 6\<close> is that the low six bits are zero.\<close>

definition load_device_context :: "usize \<Rightarrow> DeviceManager \<Rightarrow> DeviceManager option" where
  "load_device_context slot_id m = do {
     n \<leftarrow> dm_max_slots m;
     rassert (slot_id \<le> n);
     info \<leftarrow> get_idx (dm_infos m) slot_id;
     d \<leftarrow> info;
     let device_context_ptr = (of_nat (box_ptr (dv_device_context d)) :: u64);
     rassert (take_bit 6 device_context_ptr = 0);
     cs \<leftarrow> set_idx (box_val (dm_contexts m)) slot_id device_context_ptr;
     Some (m\<lparr>dm_contexts := (dm_contexts m)\<lparr>box_val := cs\<rparr>\<rparr>)
   }"

section \<open>Lemmas\<close>

text \<open>The tables have the same number of slots, and every device sits in the slot it names.\<close>

definition manager_ok :: "DeviceManager \<Rightarrow> bool" where
  "manager_ok m \<longleftrightarrow> 0 < length (dm_infos m) \<and> length (box_val (dm_contexts m)) = length (dm_infos m) \<and>
     (\<forall>i d. i < length (dm_infos m) \<and> dm_infos m ! i = Some d \<longrightarrow> dv_slot_id d = i)"

lemma take_bit_aligned_64:
  assumes "64 dvd p"
  shows "take_bit 6 (of_nat p :: u64) = 0"
proof -
  have "take_bit 6 (of_nat p :: u64) = of_nat (take_bit 6 p)" by (simp add: take_bit_of_nat)
  also have "take_bit 6 p = 0" using assms by (simp add: take_bit_eq_mod dvd_imp_mod_0)
  finally show ?thesis by simp
qed

lemma allocate_device_spec:
  assumes "allocate_device L port_index slot_id routing (m, s) = Some (m', s')"
  shows "\<exists>d. DeviceContextInfo_new L port_index routing slot_id s = Some (d, s') \<and> slot_id < length (dm_infos m) \<and>
    slot_id < length (box_val (dm_contexts m)) \<and> dm_infos m ! slot_id = None \<and> m' = m\<lparr>dm_infos := (dm_infos m)[slot_id := Some d]\<rparr>"
  using assms
  by (auto simp: allocate_device_def dm_max_slots_def bind_eq_Some_conv rust_simps usub_def split: if_splits)

lemma load_device_context_spec:
  assumes "manager_ok m" "slot_id < length (dm_infos m)" "dm_infos m ! slot_id = Some d" "64 dvd box_ptr (dv_device_context d)"
  shows "load_device_context slot_id m =
    Some (m\<lparr>dm_contexts := (dm_contexts m)\<lparr>box_val := (box_val (dm_contexts m))[slot_id := of_nat (box_ptr (dv_device_context d))]\<rparr>\<rparr>)"
  using assms take_bit_aligned_64[OF assms(4)]
  by (auto simp: load_device_context_def dm_max_slots_def usub_def manager_ok_def get_idx_def set_idx_def)

lemma manager_ok_update:
  assumes "manager_ok m" "dv_slot_id d = i" "i < length (dm_infos m)"
  shows "manager_ok (m\<lparr>dm_infos := (dm_infos m)[i := Some d]\<rparr>)" "manager_ok (m\<lparr>dm_infos := (dm_infos m)[i := None]\<rparr>)"
  using assms by (auto simp: manager_ok_def nth_list_update split: if_splits)

section \<open>Properties\<close>


definition example_manager :: DeviceManager where
  "example_manager = \<lparr>dm_contexts = \<lparr>box_ptr = 0x7000, box_val = [0, 0, 0]\<rparr>, dm_infos = [None, None, None]\<rparr>"

lemma example_manager_ok: "manager_ok example_manager"
  by (auto simp: manager_ok_def example_manager_def nth_Cons split: nat.splits)

lemma example_allocate: "\<exists>m' s'. allocate_device example_libs 2 1 0 (example_manager, example_xhc) = Some (m', s')"
  using example_device_new by (auto simp: allocate_device_def dm_max_slots_def usub_def example_manager_def get_idx_def set_idx_def)


text \<open>A freed slot keeps its entry in the array the controller reads: the entry still points to the output context that was given back.\<close>

lemma deallocate_leaves_pointer:
  assumes "deallocate_device L slot_id (m, s) = Some (m', s')"
  shows "dm_contexts m' = dm_contexts m" "device_by_slot_id slot_id m' = Some None"
  using assms by (auto simp: deallocate_device_def device_by_slot_id_def bind_eq_Some_conv rust_simps)

end
