(* ===== verification/Xhci_Controller.thy ===== *)
theory Xhci_Controller
  imports Device_Manager
begin

text \<open>
  The driver of the host controller: the configuration state of the ports, \<^verbatim>\<open>kernel/src/xhci/port.rs\<close>, and the handlers of
  \<^verbatim>\<open>kernel/src/xhci/controller.rs\<close> that reset a port, enable and address a slot, initialise its device, and dispatch the events.
\<close>

section \<open>The configuration state of the ports\<close>

datatype PortConfigPhase = NotConnected | WaitingAddressed | ResettingPort | EnablingSlot | AddressingDevice
  | InitializingDevice | ConfiguringEndpoints | Configured

record PortConfigureState =
  port_config_phase :: "PortConfigPhase list"
  addressing_port_index :: "usize option"

definition PortConfigureState_new :: PortConfigureState where
  "PortConfigureState_new = \<lparr>port_config_phase = replicate 256 NotConnected, addressing_port_index = None\<rparr>"

definition pcs_len :: "PortConfigureState \<Rightarrow> usize" where
  "pcs_len p = length (port_config_phase p)"

definition pcs_is_empty :: "PortConfigureState \<Rightarrow> bool" where
  "pcs_is_empty p \<longleftrightarrow> port_config_phase p = []"

definition clear_addressing_port_index :: "PortConfigureState \<Rightarrow> PortConfigureState" where
  "clear_addressing_port_index p = p\<lparr>addressing_port_index := None\<rparr>"

definition port_phase_at :: "usize \<Rightarrow> PortConfigureState \<Rightarrow> PortConfigPhase option" where
  "port_phase_at port_idx p = get_idx (port_config_phase p) port_idx"

definition pcs_is_connected :: "usize \<Rightarrow> PortConfigureState \<Rightarrow> bool option" where
  "pcs_is_connected port_idx p = map_option (\<lambda>ph. ph \<noteq> NotConnected) (get_idx (port_config_phase p) port_idx)"

definition set_port_phase_at :: "usize \<Rightarrow> PortConfigPhase \<Rightarrow> PortConfigureState \<Rightarrow> PortConfigureState option" where
  "set_port_phase_at port_idx ph p = do {
     ps \<leftarrow> set_idx (port_config_phase p) port_idx ph;
     Some (p\<lparr>port_config_phase := ps\<rparr>)
   }"

definition addressing_port :: "PortConfigureState \<Rightarrow> usize option" where
  "addressing_port p = addressing_port_index p"

text \<open>\<open>None\<close> is the panic of an index out of range, \<open>Some None\<close> that no port is being addressed.\<close>

definition addressing_port_phase :: "PortConfigureState \<Rightarrow> PortConfigPhase option option" where
  "addressing_port_phase p =
     (case addressing_port_index p of
        None \<Rightarrow> Some None
      | Some idx \<Rightarrow> map_option Some (get_idx (port_config_phase p) idx))"

definition set_addressing_port_phase :: "PortConfigPhase \<Rightarrow> PortConfigureState \<Rightarrow> PortConfigureState option" where
  "set_addressing_port_phase ph p =
     (case addressing_port_index p of
        None \<Rightarrow> Some p
      | Some idx \<Rightarrow> set_port_phase_at idx ph p)"

definition start_configuration_at :: "usize \<Rightarrow> PortConfigureState \<Rightarrow> PortConfigureState option" where
  "start_configuration_at port_idx p = set_port_phase_at port_idx ResettingPort (p\<lparr>addressing_port_index := Some port_idx\<rparr>)"

section \<open>The controller\<close>

text \<open>\<open>xc_port_slots\<close> is the map from a port to the slots of the devices behind it.\<close>

record 'h Controller =
  xc_devices :: DeviceManager
  xc_drivers :: "'h device_state ClassDriverManager"
  xc_number_of_ports :: u8
  xc_ports :: PortConfigureState
  xc_port_slots :: "usize \<Rightarrow> usize list option"
  xc_xhc :: "'h Xhc"

definition set_phase :: "usize \<Rightarrow> PortConfigPhase \<Rightarrow> 'h Controller \<Rightarrow> 'h Controller option" where
  "set_phase port_idx ph c = do {
     p \<leftarrow> set_port_phase_at port_idx ph (xc_ports c);
     Some (c\<lparr>xc_ports := p\<rparr>)
   }"

text \<open>Operations on the shared state and on the devices, lifted to the controller.\<close>

definition on_xhc :: "('h Xhc \<Rightarrow> ('h Xhc \<times> 'a) option) \<Rightarrow> 'h Controller \<Rightarrow> ('h Controller \<times> 'a) option" where
  "on_xhc f c = do { (s, a) \<leftarrow> f (xc_xhc c); Some (c\<lparr>xc_xhc := s\<rparr>, a) }"

definition upd_xhc :: "('h Xhc \<Rightarrow> 'h Xhc option) \<Rightarrow> 'h Controller \<Rightarrow> 'h Controller option" where
  "upd_xhc f c = do { s \<leftarrow> f (xc_xhc c); Some (c\<lparr>xc_xhc := s\<rparr>) }"

definition on_device :: "usize \<Rightarrow> (DeviceContextInfo \<Rightarrow> DeviceContextInfo option) \<Rightarrow> 'h Controller \<Rightarrow> 'h Controller option" where
  "on_device slot_id f c = do {
     info \<leftarrow> device_by_slot_id slot_id (xc_devices c);
     d \<leftarrow> info;
     d \<leftarrow> f d;
     infos \<leftarrow> set_idx (dm_infos (xc_devices c)) slot_id (Some d);
     Some (c\<lparr>xc_devices := (xc_devices c)\<lparr>dm_infos := infos\<rparr>\<rparr>)
   }"

definition device_at :: "usize \<Rightarrow> 'h Controller \<Rightarrow> DeviceContextInfo option" where
  "device_at slot_id c = Option.bind (device_by_slot_id slot_id (xc_devices c)) id"

section \<open>Ports\<close>

text \<open>The claim to the one port that is being configured: another port waits.\<close>

definition claim_port :: "usize \<Rightarrow> 'h Controller \<Rightarrow> ('h Controller \<times> bool) option" where
  "claim_port port_idx c =
     (if addressing_port_index (xc_ports c) = Some port_idx then Some (c, True)
      else if addressing_port_index (xc_ports c) = None
      then Some (c\<lparr>xc_ports := (xc_ports c)\<lparr>addressing_port_index := Some port_idx\<rparr>\<rparr>, True)
      else do { c \<leftarrow> set_phase port_idx WaitingAddressed c; Some (c, False) })"

definition is_port_connected_at :: "'h Hw \<Rightarrow> usize \<Rightarrow> 'h Controller \<Rightarrow> ('h Controller \<times> bool) option" where
  "is_port_connected_at W port_index c = do {
     (c, p) \<leftarrow> on_xhc (read_port W port_index) c;
     Some (c, pr_current_connect_status p)
   }"

definition port_is_enabled :: "Portsc \<Rightarrow> bool" where
  "port_is_enabled p \<longleftrightarrow>
     (pr_port_power p, pr_current_connect_status p, pr_port_enabled_disabled p, pr_port_reset p) = (True, True, True, False)"

text \<open>The three register updates of a reset, each waiting for its effect.\<close>

definition reset_port_registers :: "'h Hw \<Rightarrow> usize \<Rightarrow> 'h Xhc \<Rightarrow> 'h Xhc option" where
  "reset_port_registers W i s = do {
     s \<leftarrow> update_port W i (\<lambda>p. (prevent_clearing p)\<lparr>pr_port_power := True\<rparr>) s;
     s \<leftarrow> wait_while_port W i (\<lambda>p. \<not> pr_port_power p) s;
     s \<leftarrow> update_port W i (\<lambda>p. (prevent_clearing p)\<lparr>pr_port_reset := True\<rparr>) s;
     s \<leftarrow> wait_while_port W i pr_port_reset s;
     s \<leftarrow> update_port W i (\<lambda>p. (prevent_clearing p)\<lparr>pr_connect_status_change := True\<rparr>) s;
     s \<leftarrow> wait_while_port W i pr_connect_status_change s;
     (s, p) \<leftarrow> read_port W i s;
     rassert (port_is_enabled p);
     Some s
   }"

definition reset_port_at :: "'h Hw \<Rightarrow> usize \<Rightarrow> 'h Controller \<Rightarrow> 'h Controller option" where
  "reset_port_at W port_idx c = do {
     (c, is_connected) \<leftarrow> is_port_connected_at W port_idx c;
     (c, p) \<leftarrow> on_xhc (read_port W port_idx) c;
     let connect_status_change = pr_connect_status_change p;
     if \<not> is_connected then Some c
     else if \<not> connect_status_change then Some c
     else do {
       (c, _) \<leftarrow> on_xhc (read_port W port_idx) c;
       (c, can_process) \<leftarrow> claim_port port_idx c;
       if \<not> can_process then Some c
       else do {
         port_phase \<leftarrow> port_phase_at port_idx (xc_ports c);
         rassert (port_phase = NotConnected \<or> port_phase = WaitingAddressed);
         upd_xhc (reset_port_registers W port_idx) c
       }
     }
   }"

definition configure_port_at :: "'h Hw \<Rightarrow> usize \<Rightarrow> 'h Controller \<Rightarrow> 'h Controller option" where
  "configure_port_at W port_idx c = do {
     is_connected \<leftarrow> pcs_is_connected port_idx (xc_ports c);
     if \<not> is_connected then reset_port_at W port_idx c else Some c
   }"

text \<open>\<^verbatim>\<open>enable_slot_at\<close>. In its other branch the function still holds the lock of the registers and calls \<^verbatim>\<open>reset_port_at\<close>, which takes it
  again: the spin lock is never released, so the branch does not return.\<close>

definition enable_slot_at :: "Libs \<Rightarrow> 'h Hw \<Rightarrow> usize \<Rightarrow> 'h Controller \<Rightarrow> ('h Controller \<times> u64) option" where
  "enable_slot_at L W port_idx c = do {
     (c, p) \<leftarrow> on_xhc (read_port W port_idx) c;
     if pr_port_enabled_disabled p \<and> \<not> pr_connect_status_change p then do {
       c \<leftarrow> upd_xhc (update_port W port_idx (\<lambda>p. (prevent_clearing p)\<lparr>pr_port_reset_change := True\<rparr>)) c;
       c \<leftarrow> set_phase port_idx EnablingSlot c;
       on_xhc (issue_command L (tb_enable_slot L)) c
     } else None
   }"

section \<open>Slots\<close>

definition max_packet_size_for_control_pipe :: "u8 \<Rightarrow> u16" where
  "max_packet_size_for_control_pipe slot_speed = (if slot_speed = 4 then 512 else if slot_speed = 3 then 64 else 8)"

definition address_device_at ::
  "Libs \<Rightarrow> 'h Hw \<Rightarrow> usize \<Rightarrow> usize \<Rightarrow> u32 \<Rightarrow> u8 \<Rightarrow> u8 option \<Rightarrow> u8 option \<Rightarrow> 'h Controller \<Rightarrow> ('h Controller \<times> u64) option"
where
  "address_device_at L W port_index slot_id routing speed parent_hub_slot_id parent_port_index c = do {
     let slots = (case xc_port_slots c port_index of Some v \<Rightarrow> v @ [slot_id] | None \<Rightarrow> [slot_id]);
     let c = c\<lparr>xc_port_slots := (xc_port_slots c)(port_index \<mapsto> slots)\<rparr>;
     (m, s) \<leftarrow> allocate_device L port_index slot_id routing (xc_devices c, xc_xhc c);
     let c = c\<lparr>xc_devices := m, xc_xhc := s\<rparr>;
     c \<leftarrow> on_device slot_id (enable_slot_context L) c;
     c \<leftarrow> on_device slot_id (enable_endpoint L dci_ep0) c;
     (c, porttsc) \<leftarrow> on_xhc (read_port W port_index) c;
     let speed = (if speed = 5 then pr_port_speed porttsc else speed);
     port_id \<leftarrow> u8add (of_nat port_index) 1;
     c \<leftarrow> on_device slot_id (initialize_slot_context L port_id speed routing parent_hub_slot_id parent_port_index) c;
     d \<leftarrow> device_at slot_id c;
     ring \<leftarrow> Option.bind (transfer_ring_at dci_ep0 d) id;
     let transfer_ring_dequeue_pointer = (of_nat (box_ptr (tr_trb_buffer (box_val ring))) :: u64);
     let max_packet_size = max_packet_size_for_control_pipe (ucast (box_val (dv_input_context d) SlotSpeed));
     c \<leftarrow> on_device slot_id (initialize_endpoint0_context L transfer_ring_dequeue_pointer max_packet_size) c;
     m \<leftarrow> load_device_context slot_id (xc_devices c);
     let c = c\<lparr>xc_devices := m\<rparr>;
     c \<leftarrow> set_phase port_index AddressingDevice c;
     d \<leftarrow> device_at slot_id c;
     cmd \<leftarrow> tb_address_device L (of_nat (box_ptr (dv_input_context d))) (of_nat slot_id);
     on_xhc (issue_command L cmd) c
   }"

definition initialize_device_at :: "Libs \<Rightarrow> 'h Hw \<Rightarrow> u8 \<Rightarrow> u8 \<Rightarrow> 'h Controller \<Rightarrow> 'h Controller option" where
  "initialize_device_at L W port_idx slot_id c = do {
     d \<leftarrow> device_at (unat slot_id) c;
     c \<leftarrow> set_phase (unat port_idx) InitializingDevice c;
     (C, d, s) \<leftarrow> start_initialization L W (xc_drivers c) (d, xc_xhc c);
     c \<leftarrow> on_device (unat slot_id) (\<lambda>_. Some d) (c\<lparr>xc_drivers := C, xc_xhc := s\<rparr>);
     c \<leftarrow> set_phase (unat port_idx) Configured c;
     Some (c\<lparr>xc_ports := clear_addressing_port_index (xc_ports c)\<rparr>)
   }"

section \<open>Disconnecting\<close>

text \<open>The command is repeated while the completion code is not a valid one, at most eleven times in all.\<close>

primrec disable_slot_loop :: "Libs \<Rightarrow> 'h Hw \<Rightarrow> usize \<Rightarrow> nat \<Rightarrow> 'h Xhc \<Rightarrow> 'h Xhc option" where
  "disable_slot_loop L W slot_id 0 s = None"
| "disable_slot_loop L W slot_id (Suc n) s = do {
     (s, trb_ptr) \<leftarrow> issue_command L (tb_disable_slot L (of_nat slot_id)) s;
     (s, trb) \<leftarrow> await_command L W trb_ptr s;
     (case cc_completion_code trb of Inr _ \<Rightarrow> Some s | Inl _ \<Rightarrow> disable_slot_loop L W slot_id n s)
   }"

definition reset_connection_at :: "Libs \<Rightarrow> 'h Hw \<Rightarrow> usize \<Rightarrow> 'h Controller \<Rightarrow> 'h Controller option" where
  "reset_connection_at L W port_idx c = do {
     let c = (if addressing_port_index (xc_ports c) = Some port_idx
              then c\<lparr>xc_ports := clear_addressing_port_index (xc_ports c)\<rparr> else c);
     c \<leftarrow> set_phase port_idx NotConnected c;
     let slot_ids = xc_port_slots c port_idx;
     c \<leftarrow> upd_xhc (update_port W port_idx (\<lambda>p. (prevent_clearing p)\<lparr>pr_connect_status_change := True\<rparr>)) c;
     c \<leftarrow> upd_xhc (wait_while_port W port_idx pr_connect_status_change) c;
     c \<leftarrow> for_each (case slot_ids of Some v \<Rightarrow> v | None \<Rightarrow> []) (\<lambda>slot_id c. do {
       c \<leftarrow> upd_xhc (disable_slot_loop L W slot_id 11) c;
       (m, s) \<leftarrow> deallocate_device L slot_id (xc_devices c, xc_xhc c);
       Some (c\<lparr>xc_devices := m, xc_xhc := s\<rparr>)
     }) c;
     Some (c\<lparr>xc_port_slots := (xc_port_slots c)(port_idx := None)\<rparr>)
   }"

section \<open>Events\<close>

definition process_init_port_device_event :: "Libs \<Rightarrow> 'h Hw \<Rightarrow> InitPortDevice \<Rightarrow> 'h Controller \<Rightarrow> 'h Controller option" where
  "process_init_port_device_event L W e c = do {
     (c, trb_ptr) \<leftarrow> enable_slot_at L W (unat (ipd_port_index e)) c;
     (c, completion) \<leftarrow> on_xhc (await_command L W trb_ptr) c;
     let slot_id = cc_slot_id completion;
     rassert (cc_completion_code completion = Inr Success);
     (c, trb_ptr) \<leftarrow> address_device_at L W (unat (ipd_port_index e)) (unat slot_id) (ipd_routing e) (ipd_speed e)
       (ipd_parent_hub_slot_id e) (ipd_parent_port_index e) c;
     (c, completion) \<leftarrow> on_xhc (await_command L W trb_ptr) c;
     rassert (cc_completion_code completion = Inr Success);
     raw \<leftarrow> read_trb_box (cr_trb_buffer (xs_command_ring (xc_xhc c))) (cc_command_trb_pointer completion);
     if command_try_from L raw \<noteq> Some AddressDeviceTrb then Some c
     else initialize_device_at L W (ipd_port_index e) slot_id c
   }"

definition process_user_event :: "Libs \<Rightarrow> 'h Hw \<Rightarrow> 'h Controller \<Rightarrow> 'h Controller option" where
  "process_user_event L W c = do {
     let (q, popped) = UserEventRing_pop (xs_user_events (xc_xhc c));
     let c = c\<lparr>xc_xhc := (xc_xhc c)\<lparr>xs_user_events := q\<rparr>\<rparr>;
     (case popped of
        None \<Rightarrow> Some c
      | Some (UE_InitPortDevice e) \<Rightarrow> process_init_port_device_event L W e c)
   }"

definition push_back_event :: "event_allowed \<Rightarrow> 'h Controller \<Rightarrow> 'h Controller" where
  "push_back_event e c =
     (let (r, intr) = xs_events (xc_xhc c) in
      c\<lparr>xc_xhc := (xc_xhc c)\<lparr>xs_events := (EventRing_push e r, intr)\<rparr>\<rparr>)"

definition process_port_status_change_event :: "Libs \<Rightarrow> 'h Hw \<Rightarrow> PortStatusChange \<Rightarrow> 'h Controller \<Rightarrow> 'h Controller option" where
  "process_port_status_change_event L W event c = do {
     port_idx \<leftarrow> usub (unat (psc_port_id event)) 1;
     (c, p) \<leftarrow> on_xhc (read_port W port_idx) c;
     let connecting = pr_current_connect_status p;
     phase \<leftarrow> port_phase_at port_idx (xc_ports c);
     (case phase of
        NotConnected \<Rightarrow>
          if addressing_port_index (xc_ports c) = Some port_idx \<or> addressing_port_index (xc_ports c) = None then do {
            c \<leftarrow> reset_port_at W port_idx c;
            map_option fst (enable_slot_at L W port_idx c)
          } else set_phase port_idx WaitingAddressed c
      | ResettingPort \<Rightarrow> do {
          (c, can_process) \<leftarrow> claim_port port_idx c;
          if can_process then map_option fst (enable_slot_at L W port_idx c) else Some c
        }
      | WaitingAddressed \<Rightarrow>
          if addressing_port_index (xc_ports c) = None then do {
            c \<leftarrow> set_phase port_idx NotConnected (c\<lparr>xc_ports := (xc_ports c)\<lparr>addressing_port_index := Some port_idx\<rparr>\<rparr>);
            c \<leftarrow> reset_port_at W port_idx c;
            map_option fst (enable_slot_at L W port_idx c)
          } else Some (push_back_event (AllowedPortStatusChange event) c)
      | _ \<Rightarrow> if \<not> connecting then reset_connection_at L W port_idx c else Some c)
   }"

text \<open>The first waiting port is reset when a device has its address.\<close>

definition reset_first_waiting :: "'h Hw \<Rightarrow> 'h Controller \<Rightarrow> 'h Controller option" where
  "reset_first_waiting W c =
     (case find_index (\<lambda>ph. ph = WaitingAddressed) (port_config_phase (xc_ports c)) of
        Some port_idx \<Rightarrow> reset_port_at W port_idx c
      | None \<Rightarrow> Some c)"

definition process_address_device_completion :: "Libs \<Rightarrow> 'h Hw \<Rightarrow> u8 \<Rightarrow> 'h Controller \<Rightarrow> 'h Controller option" where
  "process_address_device_completion L W slot_id c = do {
     d \<leftarrow> device_at (unat slot_id) c;
     port_index \<leftarrow> usub (unat (ucast (box_val (dv_input_context d) RootHubPortNumber) :: u8)) 1;
     rassert (addressing_port_index (xc_ports c) = Some port_index);
     phase \<leftarrow> addressing_port_phase (xc_ports c);
     rassert (phase = Some AddressingDevice);
     c \<leftarrow> reset_first_waiting W (c\<lparr>xc_ports := clear_addressing_port_index (xc_ports c)\<rparr>);
     initialize_device_at L W (of_nat port_index) slot_id c
   }"

definition process_command_completion_event :: "Libs \<Rightarrow> 'h Hw \<Rightarrow> CommandCompletion \<Rightarrow> 'h Controller \<Rightarrow> 'h Controller option" where
  "process_command_completion_event L W event c =
     (case cc_completion_code event of
        Inl _ \<Rightarrow> Some c
      | Inr completion_code \<Rightarrow>
          if completion_code \<noteq> Success then Some c
          else do {
            trb_raw \<leftarrow> read_trb_box (cr_trb_buffer (xs_command_ring (xc_xhc c))) (cc_command_trb_pointer event);
            (case command_try_from L trb_raw of
               None \<Rightarrow> Some c
             | Some EnableSlotTrb \<Rightarrow> do {
                 phase \<leftarrow> addressing_port_phase (xc_ports c);
                 rassert (phase = Some EnablingSlot);
                 addressing_port_idx \<leftarrow> addressing_port_index (xc_ports c);
                 map_option fst (address_device_at L W addressing_port_idx (unat (cc_slot_id event)) 0 5 None None c)
               }
             | Some AddressDeviceTrb \<Rightarrow> process_address_device_completion L W (cc_slot_id event) c
             | Some ConfigureEndpointTrb \<Rightarrow> Some (push_back_event (AllowedCommandCompletion event) c)
             | Some OtherCommandTrb \<Rightarrow> None)
          })"

text \<open>The report of a mouse or a keyboard is handed to the callback of its driver, which acts on everything outside the driver.\<close>

definition hand_report ::
  "u8 \<Rightarrow> u8 list \<Rightarrow> 'h device_state InputOnlyDriver \<Rightarrow> usize \<Rightarrow> 'h Controller \<Rightarrow> 'h Controller option"
where
  "hand_report address buffer D slot_id c = do {
     d \<leftarrow> device_at slot_id c;
     (d, s) \<leftarrow> call_callback_at address buffer D (d, xc_xhc c);
     on_device slot_id (\<lambda>_. Some d) (c\<lparr>xc_xhc := s\<rparr>)
   }"

definition process_normal_trb :: "DeviceContextIndex \<Rightarrow> usize \<Rightarrow> u64 \<Rightarrow> u32 \<Rightarrow> 'h Controller \<Rightarrow> 'h Controller option" where
  "process_normal_trb dci slot_id buffer transfer_length c = do {
     d \<leftarrow> device_at slot_id c;
     let address = device_address (d, xc_xhc c);
     (case driver_kind (xc_drivers c) slot_id of
        Some MouseKind \<Rightarrow> do {
          rassert (transfer_length = of_nat (N_IN_TRANSFER_BYTES mouse_consts));
          rassert (N_IN_TRANSFER_BYTES mouse_consts = 3);
          c \<leftarrow> hand_report address (load_bytes (unat buffer) (N_IN_TRANSFER_BYTES mouse_consts) (xc_xhc c)) (di_driver (cd_mouse (xc_drivers c))) slot_id c;
          upd_xhc (ring_doorbell slot_id dci) c
        }
      | Some KeyboardKind \<Rightarrow> do {
          c \<leftarrow> hand_report address (load_bytes (unat buffer) (N_IN_TRANSFER_BYTES keyboard_consts) (xc_xhc c)) (di_driver (cd_keyboard (xc_drivers c))) slot_id c;
          upd_xhc (ring_doorbell slot_id dci) c
        }
      | Some HubKind \<Rightarrow> Some c
      | None \<Rightarrow> None)
   }"

definition process_transfer_event :: "Libs \<Rightarrow> TransferEvent \<Rightarrow> 'h Controller \<Rightarrow> 'h Controller option" where
  "process_transfer_event L event c =
     (case te_completion_code event of
        Inl _ \<Rightarrow> None
      | Inr code \<Rightarrow>
          if code \<noteq> ShortPacket \<and> code \<noteq> Success then Some c
          else do {
            let slot_id = unat (te_slot_id event);
            dci \<leftarrow> checked_new (te_endpoint_id event);
            d \<leftarrow> device_at slot_id c;
            ring \<leftarrow> Option.bind (transfer_ring_at dci d) id;
            raw \<leftarrow> read_trb_box (tr_trb_buffer (box_val ring)) (te_trb_pointer event);
            trb \<leftarrow> transfer_try_from L raw;
            (case trb of
               NormalTrb buffer transfer_length cycle \<Rightarrow> do {
                 r \<leftarrow> flip_cycle_bit_at (lib_trb L) (te_trb_pointer event) cycle (box_val ring);
                 c \<leftarrow> on_device slot_id (set_transfer_ring_at dci (Some (ring\<lparr>box_val := r\<rparr>))) c;
                 process_normal_trb dci slot_id buffer transfer_length c
               }
             | OtherTransferTrb \<Rightarrow> Some c)
          })"

definition process_event_ring_event :: "Libs \<Rightarrow> 'h Hw \<Rightarrow> event_allowed \<Rightarrow> 'h Controller \<Rightarrow> 'h Controller option" where
  "process_event_ring_event L W event_trb c =
     (case event_trb of
        AllowedTransferEvent e \<Rightarrow> process_transfer_event L e c
      | AllowedCommandCompletion e \<Rightarrow> process_command_completion_event L W e c
      | AllowedPortStatusChange e \<Rightarrow> process_port_status_change_event L W e c
      | AllowedOther t \<Rightarrow> if is_host_controller_event L t then Some c else None)"

definition process_once_received :: "Libs \<Rightarrow> 'h Hw \<Rightarrow> 'h Controller \<Rightarrow> 'h Controller option" where
  "process_once_received L W c =
     (let (r, intr) = xs_events (xc_xhc c); (r, popped) = pop_already_popped r;
          c = c\<lparr>xc_xhc := (xc_xhc c)\<lparr>xs_events := (r, intr)\<rparr>\<rparr> in
      case popped of Some trb \<Rightarrow> process_event_ring_event L W trb c | None \<Rightarrow> Some c)"

definition pending_event :: "Libs \<Rightarrow> 'h Controller \<Rightarrow> bool option" where
  "pending_event L c = has_front (lib_trb L) (lib_erdp L) (xs_events (xc_xhc c))"

definition process_event :: "Libs \<Rightarrow> 'h Hw \<Rightarrow> 'h Controller \<Rightarrow> 'h Controller option" where
  "process_event L W c = do {
     let (r, intr) = xs_events (xc_xhc c);
     front \<leftarrow> has_front (lib_trb L) (lib_erdp L) (r, intr);
     if \<not> front then Some c
     else do {
       (r, intr, popped) \<leftarrow> EventRing_pop (lib_bits L) (lib_erdp L) (lib_event L) intr r;
       let c = c\<lparr>xc_xhc := (xc_xhc c)\<lparr>xs_events := (r, intr)\<rparr>\<rparr>;
       (case popped of
          Inr event_trb \<Rightarrow> process_event_ring_event L W event_trb c
        | Inl raw \<Rightarrow> None)
     }
   }"

end
