(* ===== verification/Port_Handling.thy ===== *)
theory Port_Handling
  imports Xhci_Controller
begin

text \<open>
  What the handler of port status changes does: a newly connected port is reset and a slot is requested for it, a port that has to wait for another
  one leaves the controller alone, and a change on a port that is not connected never returns.
\<close>

section \<open>What the hardware leaves alone\<close>

text \<open>The parts of the shared state that only the driver writes.\<close>

definition driver_part :: "'h Xhc \<Rightarrow> BumpAllocator \<times> CommandRing \<times> UserEventRing \<times> (usize \<times> u8 \<times> u16) list \<times> usize \<times> event_allowed list" where
  "driver_part s = (xs_alloc s, xs_command_ring s, xs_user_events s, xs_doorbells s, xs_n_doorbells s, er_popped (fst (xs_events s)))"

definition hw_keeps :: "'h Hw \<Rightarrow> bool" where
  "hw_keeps W \<longleftrightarrow> (\<forall>s. driver_part (hw_env W s) = driver_part s \<and> length (xs_portsc (hw_env W s)) = length (xs_portsc s)) \<and>
     (\<forall>i p s. driver_part (hw_write_portsc W i p s) = driver_part s \<and> length (xs_portsc (hw_write_portsc W i p s)) = length (xs_portsc s))"

lemma hw_keepsD:
  assumes "hw_keeps W"
  shows "driver_part (hw_env W s) = driver_part s" "length (xs_portsc (hw_env W s)) = length (xs_portsc s)"
    "driver_part (hw_write_portsc W i p s) = driver_part s" "length (xs_portsc (hw_write_portsc W i p s)) = length (xs_portsc s)"
    "driver_part ((hw_env W ^^ n) s) = driver_part s" "length (xs_portsc ((hw_env W ^^ n) s)) = length (xs_portsc s)"
proof -
  show e: "driver_part (hw_env W s) = driver_part s" "length (xs_portsc (hw_env W s)) = length (xs_portsc s)" for s
    using assms by (simp_all add: hw_keeps_def)
  show "driver_part (hw_write_portsc W i p s) = driver_part s" "length (xs_portsc (hw_write_portsc W i p s)) = length (xs_portsc s)"
    using assms by (simp_all add: hw_keeps_def)
  show "driver_part ((hw_env W ^^ n) s) = driver_part s" "length (xs_portsc ((hw_env W ^^ n) s)) = length (xs_portsc s)"
    by (induction n) (simp_all add: e)
qed

lemma read_port_env:
  assumes "hw_keeps W" "i < length (xs_portsc s)"
  shows "read_port W i s = Some (hw_env W s, xs_portsc (hw_env W s) ! i)"
  using assms by (simp add: read_port_def get_idx_def hw_keepsD Let_def)

text \<open>The port as the driver sees it at its \<open>n\<close>-th look from now.\<close>

definition look :: "'h Hw \<Rightarrow> nat \<Rightarrow> usize \<Rightarrow> 'h Xhc \<Rightarrow> Portsc" where
  "look W n i s = xs_portsc ((hw_env W ^^ n) s) ! i"

lemma look_Suc [simp]: "look W n i (hw_env W s) = look W (Suc n) i s"
  by (simp add: look_def funpow_swap1)

lemma on_xhc_read:
  assumes "hw_keeps W" "i < length (xs_portsc (xc_xhc c))"
  shows "on_xhc (read_port W i) c = Some (c\<lparr>xc_xhc := hw_env W (xc_xhc c)\<rparr>, look W 1 i (xc_xhc c))"
  using read_port_env[OF assms] by (simp add: on_xhc_def look_def)

lemma xhc_ports_commute: "c\<lparr>xc_xhc := s, xc_ports := p\<rparr> = c\<lparr>xc_ports := p, xc_xhc := s\<rparr>"
  by (cases c) simp

lemma ports_eq: "p\<lparr>addressing_port_index := a, port_config_phase := ps\<rparr> = \<lparr>port_config_phase = ps, addressing_port_index = a\<rparr>"
  by (cases p) simp

section \<open>The command ring\<close>

definition command_queue :: "Libs \<Rightarrow> 'h Xhc \<Rightarrow> hw_pos \<Rightarrow> trb list \<Rightarrow> bool" where
  "command_queue L s h q \<longleftrightarrow>
     (let r = xs_command_ring s in ring_rel (lib_trb L) (box_val (cr_trb_buffer r)) (cr_write_index r) (cr_cycle_bit r) h q \<and>
        length (box_val (cr_trb_buffer r)) < usize_limit)"

definition command_room :: "'h Xhc \<Rightarrow> trb list \<Rightarrow> bool" where
  "command_room s q \<longleftrightarrow> length q + 1 < length (box_val (cr_trb_buffer (xs_command_ring s))) - 1 \<and> 0 < xs_n_doorbells s"

lemma issue_command_ok:
  assumes "trb_lib_ok (lib_trb L)" "command_queue L s h q" "plain_trb L cmd" "command_room s q"
  shows "\<exists>r p. issue_command L cmd s = Some (s\<lparr>xs_command_ring := r, xs_doorbells := xs_doorbells s @ [(0, 0, 0)]\<rparr>, p) \<and>
    command_queue L (s\<lparr>xs_command_ring := r, xs_doorbells := xs_doorbells s @ [(0, 0, 0)]\<rparr>) h (q @ [cmd])"
proof -
  let ?r = "xs_command_ring s"
  have rel: "ring_rel (lib_trb L) (box_val (cr_trb_buffer ?r)) (cr_write_index ?r) (cr_cycle_bit ?r) h q"
    and lim: "length (box_val (cr_trb_buffer ?r)) < usize_limit" using assms(2) by (simp_all add: command_queue_def Let_def)
  have t: "length cmd = 4" "\<not> trb_is_link (lib_trb L) cmd" using assms(3) by (auto simp: plain_trb_def)
  have room: "length q + 1 < length (box_val (cr_trb_buffer ?r)) - 1" "0 < xs_n_doorbells s" using assms(4) by (simp_all add: command_room_def)
  obtain r' p where "CommandRing_push (lib_trb L) cmd ?r = Some (r', p)"
    "ring_rel (lib_trb L) (box_val (cr_trb_buffer r')) (cr_write_index r') (cr_cycle_bit r') h (q @ [cmd])"
    "length (box_val (cr_trb_buffer r')) = length (box_val (cr_trb_buffer ?r))"
    using command_ring.push_rel[OF assms(1) rel lim t room(1)] by blast
  with lim room(2) show ?thesis
    by (intro exI[of _ r'] exI[of _ "of_nat p"]) (simp add: issue_command_def ring_doorbell_def command_queue_def Let_def)
qed

section \<open>Waiting for one's turn\<close>


section \<open>A port that comes up\<close>

text \<open>The driver waits while \<open>cond\<close> holds of the port, and after finitely many looks it does not: \<open>s'\<close> is the state then.\<close>

definition settles :: "'h Hw \<Rightarrow> usize \<Rightarrow> (Portsc \<Rightarrow> bool) \<Rightarrow> 'h Xhc \<Rightarrow> 'h Xhc \<Rightarrow> bool" where
  "settles W i cond s s' \<longleftrightarrow>
     (\<exists>n. (\<forall>k < n. cond (look W (Suc k) i s)) \<and> \<not> cond (look W (Suc n) i s) \<and> s' = (hw_env W ^^ Suc n) s)"

definition written :: "'h Hw \<Rightarrow> usize \<Rightarrow> (Portsc \<Rightarrow> Portsc) \<Rightarrow> 'h Xhc \<Rightarrow> 'h Xhc" where
  "written W i f s = hw_write_portsc W i (f (look W 1 i s)) (hw_env W s)"

text \<open>A port of the specification: it has power after the driver asks for it, leaves the reset enabled, and drops the change bit when the driver writes it.\<close>

definition port_resets :: "'h Hw \<Rightarrow> usize \<Rightarrow> 'h Xhc \<Rightarrow> 'h Xhc \<Rightarrow> bool" where
  "port_resets W i s s' \<longleftrightarrow> (\<exists>s1 s2 s3.
     settles W i (\<lambda>p. \<not> pr_port_power p) (written W i (\<lambda>p. (prevent_clearing p)\<lparr>pr_port_power := True\<rparr>) s) s1 \<and>
     settles W i pr_port_reset (written W i (\<lambda>p. (prevent_clearing p)\<lparr>pr_port_reset := True\<rparr>) s1) s2 \<and>
     settles W i pr_connect_status_change (written W i (\<lambda>p. (prevent_clearing p)\<lparr>pr_connect_status_change := True\<rparr>) s2) s3 \<and>
     port_is_enabled (look W 1 i s3) \<and> s' = hw_env W s3)"

definition port_comes_up :: "'h Hw \<Rightarrow> usize \<Rightarrow> 'h Xhc \<Rightarrow> 'h Xhc \<Rightarrow> bool" where
  "port_comes_up W i s s' \<longleftrightarrow> pr_current_connect_status (look W 1 i s) \<and> pr_connect_status_change (look W 2 i s) \<and>
     port_resets W i ((hw_env W ^^ 3) s) s'"

lemma written_keeps:
  assumes "hw_keeps W"
  shows "driver_part (written W i f s) = driver_part s" "length (xs_portsc (written W i f s)) = length (xs_portsc s)"
  by (simp_all add: written_def hw_keepsD[OF assms])

lemma update_port_written:
  assumes "hw_keeps W" "i < length (xs_portsc s)"
  shows "update_port W i f s = Some (written W i f s)"
  using read_port_env[OF assms] by (simp add: update_port_def written_def look_def)

lemma wait_settles:
  assumes "hw_keeps W" "i < length (xs_portsc s)" "settles W i cond s s'"
  shows "wait_while_port W i cond s = Some s'" "driver_part s' = driver_part s" "length (xs_portsc s') = length (xs_portsc s)"
proof -
  obtain n where n: "\<forall>k < n. cond (look W (Suc k) i s)" "\<not> cond (look W (Suc n) i s)" "s' = (hw_env W ^^ Suc n) s"
    using assms(3) by (auto simp: settles_def)
  have g: "get_idx (xs_portsc ((hw_env W ^^ k) s)) i = Some (look W k i s)" for k
    using assms(2) by (simp add: get_idx_def look_def hw_keepsD[OF assms(1)])
  show "wait_while_port W i cond s = Some s'" unfolding n(3) by (rule wait_while_port_ends) (use n(1,2) g in \<open>simp_all del: funpow.simps\<close>)
  show "driver_part s' = driver_part s" "length (xs_portsc s') = length (xs_portsc s)" unfolding n(3) by (rule hw_keepsD[OF assms(1)])+
qed

lemma reset_port_registers_ok:
  assumes "hw_keeps W" "i < length (xs_portsc s)" "port_resets W i s s'"
  shows "reset_port_registers W i s = Some s'" "driver_part s' = driver_part s" "length (xs_portsc s') = length (xs_portsc s)"
proof -
  let ?f1 = "\<lambda>p. (prevent_clearing p)\<lparr>pr_port_power := True\<rparr>" and ?f2 = "\<lambda>p. (prevent_clearing p)\<lparr>pr_port_reset := True\<rparr>"
    and ?f3 = "\<lambda>p. (prevent_clearing p)\<lparr>pr_connect_status_change := True\<rparr>"
  obtain s1 s2 s3 where st: "settles W i (\<lambda>p. \<not> pr_port_power p) (written W i ?f1 s) s1" "settles W i pr_port_reset (written W i ?f2 s1) s2"
    "settles W i pr_connect_status_change (written W i ?f3 s2) s3" and fin: "port_is_enabled (look W 1 i s3)" "s' = hw_env W s3"
    using assms(3) by (auto simp: port_resets_def)
  note w = written_keeps[OF assms(1)] and u = update_port_written[OF assms(1)]
  have l0: "i < length (xs_portsc (written W i ?f1 s))" using assms(2) w(2) by simp
  note a1 = wait_settles[OF assms(1) l0 st(1)]
  have l1: "i < length (xs_portsc s1)" using l0 a1(3) by simp
  have l1': "i < length (xs_portsc (written W i ?f2 s1))" using l1 w(2) by simp
  note a2 = wait_settles[OF assms(1) l1' st(2)]
  have l2: "i < length (xs_portsc s2)" using l1' a2(3) by simp
  have l2': "i < length (xs_portsc (written W i ?f3 s2))" using l2 w(2) by simp
  note a3 = wait_settles[OF assms(1) l2' st(3)]
  have l3: "i < length (xs_portsc s3)" using l2' a3(3) by simp
  have r: "read_port W i s3 = Some (s', look W 1 i s3)" using read_port_env[OF assms(1) l3] fin(2) by (simp add: look_def)
  show "reset_port_registers W i s = Some s'"
    by (simp add: reset_port_registers_def u[OF assms(2)] a1(1) u[OF l1] a2(1) u[OF l2] a3(1) r fin(1)[unfolded One_nat_def])
  show "driver_part s' = driver_part s" using a1(2) a2(2) a3(2) w(1) by (simp add: fin(2) hw_keepsD[OF assms(1)])
  show "length (xs_portsc s') = length (xs_portsc s)" using a1(3) a2(3) a3(3) w(2) by (simp add: fin(2) hw_keepsD[OF assms(1)])
qed

lemma reset_port_at_ok:
  assumes "hw_keeps W" "i < length (xs_portsc (xc_xhc c))" "port_comes_up W i (xc_xhc c) s'"
    and "addressing_port_index (xc_ports c) \<in> {None, Some i}" "port_phase_at i (xc_ports c) = Some ph" "ph \<in> {NotConnected, WaitingAddressed}"
  shows "reset_port_at W i c = Some (c\<lparr>xc_ports := (xc_ports c)\<lparr>addressing_port_index := Some i\<rparr>, xc_xhc := s'\<rparr>)"
    "driver_part s' = driver_part (xc_xhc c)" "length (xs_portsc s') = length (xs_portsc (xc_xhc c))"
proof -
  let ?s = "xc_xhc c" and ?s1 = "hw_env W (xc_xhc c)" and ?s3 = "(hw_env W ^^ 3) (xc_xhc c)"
  have up: "pr_current_connect_status (look W 1 i ?s)" "pr_connect_status_change (look W 2 i ?s)" "port_resets W i ?s3 s'"
    using assms(3) by (auto simp: port_comes_up_def)
  have s3: "?s3 = hw_env W (hw_env W ?s1)" by (simp add: numeral_eq_Suc)
  have len: "i < length (xs_portsc ?s1)" "i < length (xs_portsc (hw_env W ?s1))" "i < length (xs_portsc ?s3)"
    using assms(2) by (simp_all add: hw_keepsD[OF assms(1)])
  note reg = reset_port_registers_ok[OF assms(1) len(3) up(3)]
  show "driver_part s' = driver_part (xc_xhc c)" "length (xs_portsc s') = length (xs_portsc (xc_xhc c))"
    using reg(2,3) by (simp_all add: hw_keepsD[OF assms(1)])
  let ?c3 = "c\<lparr>xc_xhc := ?s3\<rparr>" and ?c4 = "c\<lparr>xc_ports := (xc_ports c)\<lparr>addressing_port_index := Some i\<rparr>, xc_xhc := ?s3\<rparr>"
  have reads: "on_xhc (read_port W i) c = Some (c\<lparr>xc_xhc := ?s1\<rparr>, look W 1 i ?s)"
    "on_xhc (read_port W i) (c\<lparr>xc_xhc := ?s1\<rparr>) = Some (c\<lparr>xc_xhc := hw_env W ?s1\<rparr>, look W 2 i ?s)"
    "\<exists>p. on_xhc (read_port W i) (c\<lparr>xc_xhc := hw_env W ?s1\<rparr>) = Some (?c3, p)"
    using on_xhc_read[OF assms(1), of i] assms(2) len s3 by (simp_all add: numeral_2_eq_2)
  have claim: "claim_port i ?c3 = Some (?c4, True)"
  proof (cases "addressing_port_index (xc_ports c) = Some i")
    case True
    then have "(xc_ports c)\<lparr>addressing_port_index := Some i\<rparr> = xc_ports c" by (cases "xc_ports c") simp
    then show ?thesis using True by (cases c) (simp add: claim_port_def)
  next
    case False
    then show ?thesis using assms(4) by (simp add: claim_port_def)
  qed
  have ph: "port_phase_at i (xc_ports ?c4) = Some ph" using assms(5) by (simp add: port_phase_at_def)
  have "upd_xhc (reset_port_registers W i) ?c4 = Some (?c4\<lparr>xc_xhc := s'\<rparr>)" by (simp add: upd_xhc_def reg(1))
  with reads claim ph up(1,2) assms(6)
  show "reset_port_at W i c = Some (c\<lparr>xc_ports := (xc_ports c)\<lparr>addressing_port_index := Some i\<rparr>, xc_xhc := s'\<rparr>)"
    by (auto simp: reset_port_at_def is_port_connected_at_def)
qed

lemma enable_slot_at_ok:
  assumes "hw_keeps W" "i < length (xs_portsc (xc_xhc c))" "trb_lib_ok (lib_trb L)" "plain_trb L (tb_enable_slot L)"
    and "pr_port_enabled_disabled (look W 1 i (xc_xhc c))" "\<not> pr_connect_status_change (look W 1 i (xc_xhc c))"
    and "i < length (port_config_phase (xc_ports c))" "command_queue L (xc_xhc c) h q" "command_room (xc_xhc c) q"
  shows "\<exists>s' p. enable_slot_at L W i c =
      Some (c\<lparr>xc_ports := (xc_ports c)\<lparr>port_config_phase := (port_config_phase (xc_ports c))[i := EnablingSlot]\<rparr>, xc_xhc := s'\<rparr>, p) \<and>
    command_queue L s' h (q @ [tb_enable_slot L]) \<and> xs_doorbells s' = xs_doorbells (xc_xhc c) @ [(0, 0, 0)] \<and> xs_alloc s' = xs_alloc (xc_xhc c)"
proof -
  let ?f = "\<lambda>p. (prevent_clearing p)\<lparr>pr_port_reset_change := True\<rparr>" and ?s1 = "hw_env W (xc_xhc c)"
  let ?s2 = "written W i ?f ?s1"
  have len: "i < length (xs_portsc ?s1)" using assms(2) by (simp add: hw_keepsD[OF assms(1)])
  have keep: "driver_part ?s2 = driver_part (xc_xhc c)" by (simp add: written_keeps[OF assms(1)] hw_keepsD[OF assms(1)])
  then have q: "command_queue L ?s2 h q" "command_room ?s2 q" "xs_doorbells ?s2 = xs_doorbells (xc_xhc c)" "xs_alloc ?s2 = xs_alloc (xc_xhc c)"
    using assms(8,9) by (simp_all add: driver_part_def command_queue_def command_room_def)
  let ?c = "c\<lparr>xc_ports := (xc_ports c)\<lparr>port_config_phase := (port_config_phase (xc_ports c))[i := EnablingSlot]\<rparr>, xc_xhc := ?s2\<rparr>"
  obtain r p where "issue_command L (tb_enable_slot L) ?s2 = Some (?s2\<lparr>xs_command_ring := r, xs_doorbells := xs_doorbells ?s2 @ [(0, 0, 0)]\<rparr>, p)"
    "command_queue L (?s2\<lparr>xs_command_ring := r, xs_doorbells := xs_doorbells ?s2 @ [(0, 0, 0)]\<rparr>) h (q @ [tb_enable_slot L])"
    using issue_command_ok[OF assms(3) q(1) assms(4) q(2)] by blast
  moreover have "enable_slot_at L W i c = on_xhc (issue_command L (tb_enable_slot L)) ?c"
    using assms(5,6,7) on_xhc_read[OF assms(1,2)] update_port_written[OF assms(1) len]
    by (simp add: enable_slot_at_def upd_xhc_def set_phase_def set_port_phase_at_def xhc_ports_commute)
  ultimately show ?thesis
    using q(3,4) by (intro exI[of _ "?s2\<lparr>xs_command_ring := r, xs_doorbells := xs_doorbells ?s2 @ [(0, 0, 0)]\<rparr>"] exI[of _ p]) (simp add: on_xhc_def)
qed



section \<open>Witnesses\<close>

text \<open>A root hub whose ports react to a write at once.\<close>

definition port_reaction :: "Portsc \<Rightarrow> Portsc \<Rightarrow> Portsc" where
  "port_reaction p old = old\<lparr>pr_port_power := pr_port_power p, pr_port_enabled_disabled := pr_port_reset p \<or> pr_port_enabled_disabled old,
     pr_connect_status_change := pr_connect_status_change old \<and> \<not> pr_connect_status_change p\<rparr>"

definition example_port_hw :: "unit Hw" where
  "example_port_hw = example_hw\<lparr>hw_write_portsc := (\<lambda>i p s. s\<lparr>xs_portsc := (xs_portsc s)[i := port_reaction p (xs_portsc s ! i)]\<rparr>)\<rparr>"

definition example_portsc :: "bool \<Rightarrow> Portsc" where
  "example_portsc conn = \<lparr>pr_current_connect_status = conn, pr_port_enabled_disabled = False, pr_port_reset = False, pr_port_power = True,
     pr_port_speed = 3, pr_connect_status_change = conn, pr_port_enabled_disabled_change = False, pr_warm_port_reset_change = False,
     pr_over_current_change = False, pr_port_reset_change = False, pr_port_link_state_change = False, pr_port_config_error_change = False\<rparr>"

definition example_controller :: "PortConfigureState \<Rightarrow> unit Controller" where
  "example_controller ports = \<lparr>xc_devices = example_manager,
     xc_drivers = ClassDriverManager_new example_usb_lib (\<lambda>a b w. Some w) (\<lambda>a b w. Some w), xc_number_of_ports = 2, xc_ports = ports,
     xc_port_slots = (\<lambda>_. None), xc_xhc = example_xhc\<lparr>xs_portsc := [example_portsc False, example_portsc True]\<rparr>\<rparr>"

lemma example_port_hw_keeps: "hw_keeps example_port_hw"
  by (simp add: hw_keeps_def example_port_hw_def example_hw_def driver_part_def)

lemma example_env [simp]: "hw_env example_port_hw s = s" "(hw_env example_port_hw ^^ n) s = s"
proof -
  show "hw_env example_port_hw s = s" for s by (simp add: example_port_hw_def example_hw_def)
  then show "(hw_env example_port_hw ^^ n) s = s" by (induction n) simp_all
qed

lemma example_look [simp]: "look example_port_hw n i s = xs_portsc s ! i"
  by (simp add: look_def)

lemma example_settles: "\<not> cond (xs_portsc s ! i) \<Longrightarrow> settles example_port_hw i cond s s"
  unfolding settles_def by (intro exI[of _ 0]) simp

lemma example_written: "written example_port_hw i f s = s\<lparr>xs_portsc := (xs_portsc s)[i := port_reaction (f (xs_portsc s ! i)) (xs_portsc s ! i)]\<rparr>"
  by (simp add: written_def) (simp add: example_port_hw_def)

definition example_up :: "unit Xhc" where
  "example_up = example_xhc\<lparr>xs_portsc := [example_portsc False,
     (example_portsc True)\<lparr>pr_port_enabled_disabled := True, pr_connect_status_change := False\<rparr>]\<rparr>"

lemma example_comes_up: "port_comes_up example_port_hw 1 (example_xhc\<lparr>xs_portsc := [example_portsc False, example_portsc True]\<rparr>) example_up"
proof -
  let ?s = "example_xhc\<lparr>xs_portsc := [example_portsc False, example_portsc True]\<rparr>"
  let ?s2 = "example_xhc\<lparr>xs_portsc := [example_portsc False, (example_portsc True)\<lparr>pr_port_enabled_disabled := True\<rparr>]\<rparr>"
  have w: "written example_port_hw 1 (\<lambda>p. (prevent_clearing p)\<lparr>pr_port_power := True\<rparr>) ?s = ?s"
    "written example_port_hw 1 (\<lambda>p. (prevent_clearing p)\<lparr>pr_port_reset := True\<rparr>) ?s = ?s2"
    "written example_port_hw 1 (\<lambda>p. (prevent_clearing p)\<lparr>pr_connect_status_change := True\<rparr>) ?s2 = example_up"
    by (simp_all add: example_written port_reaction_def prevent_clearing_def example_portsc_def example_up_def)
  have "settles example_port_hw 1 (\<lambda>p. \<not> pr_port_power p) ?s ?s" "settles example_port_hw 1 pr_port_reset ?s2 ?s2"
    "settles example_port_hw 1 pr_connect_status_change example_up example_up"
    by (rule example_settles; simp add: example_portsc_def example_up_def)+
  moreover have "port_is_enabled (look example_port_hw 1 1 example_up)" by (simp add: port_is_enabled_def example_portsc_def example_up_def)
  ultimately have "port_resets example_port_hw 1 ?s example_up"
    unfolding port_resets_def using w by (intro exI[of _ ?s] exI[of _ ?s2] exI[of _ example_up]) simp
  then show ?thesis by (simp add: port_comes_up_def example_portsc_def)
qed

lemma example_command_queue: "command_queue example_libs example_xhc (0, True) []" "command_room example_xhc []"
  using ring_inv_empty[OF example_trb_lib_ok, of 8]
  by (simp_all add: command_queue_def command_room_def example_xhc_def example_libs_def ring_rel_def del: replicate.simps)

definition example_event_at :: "u8 \<Rightarrow> PortStatusChange" where
  "example_event_at port_id = \<lparr>psc_port_id = port_id, psc_completion_code = Inr Success\<rparr>"




end
