(* ===== verification/Interrupt_Ring.thy ===== *)
theory Interrupt_Ring
  imports Xhci_Rings
begin

text \<open>
  The ring of an interrupt endpoint. The driver fills it once with normal TRBs (\<^verbatim>\<open>fill_with_normal\<close> of \<^verbatim>\<open>kernel/src/xhci/transfer_ring.rs\<close>) and from then on
  gives every TRB back as soon as its report was handled (\<^verbatim>\<open>flip_cycle_bit_at\<close>, called by the handler of transfer events). The theory follows the ring
  through any interleaving of reports of the controller and give-backs of the driver.
\<close>

section \<open>Giving a TRB back\<close>

lemma all_words_update:
  assumes "\<forall>t \<in> set b. length t = 4" "length x = 4"
  shows "\<forall>t \<in> set (b[k := x]). length t = 4"
  using assms by (auto dest!: set_update_subset_insert[THEN subsetD])

lemma flip_cycle_bit_at_spec:
  assumes "trb_lib_ok L" "\<forall>t \<in> set (box_val (tr_trb_buffer r)). length t = 4"
    and "length (box_val (tr_trb_buffer r)) = Suc n" "i < n" "Suc n < usize_limit"
    and "tr_cycle_count r + 1 < usize_limit" "unat p = box_ptr (tr_trb_buffer r) + 16 * i"
  shows "\<exists>r'. flip_cycle_bit_at L p (trb_cycle_bit L (box_val (tr_trb_buffer r) ! i)) r = Some r' \<and>
           length (box_val (tr_trb_buffer r')) = Suc n \<and> box_ptr (tr_trb_buffer r') = box_ptr (tr_trb_buffer r) \<and>
           (\<forall>t \<in> set (box_val (tr_trb_buffer r')). length t = 4) \<and>
           (\<forall>j < n. box_val (tr_trb_buffer r') ! j =
              (if j = i then trb_with_cycle_bit L (\<not> trb_cycle_bit L (box_val (tr_trb_buffer r) ! i)) (box_val (tr_trb_buffer r) ! i)
               else box_val (tr_trb_buffer r) ! j)) \<and>
           (if i + 1 = n
            then tr_cycle_bit r' = (\<not> tr_cycle_bit r) \<and> tr_cycle_count r' = tr_cycle_count r + 1 \<and>
                 trb_is_link L (box_val (tr_trb_buffer r') ! n) \<and> trb_cycle_bit L (box_val (tr_trb_buffer r') ! n) = tr_cycle_bit r
            else tr_cycle_bit r' = tr_cycle_bit r \<and> tr_cycle_count r' = tr_cycle_count r \<and>
                 box_val (tr_trb_buffer r') ! n = box_val (tr_trb_buffer r) ! n)"
proof -
  let ?b = "box_val (tr_trb_buffer r)"
  let ?prev = "trb_cycle_bit L (?b ! i)"
  let ?t = "trb_with_cycle_bit L (\<not> ?prev) (?b ! i)"
  have len: "length (?b ! i) = 4" using assms(2-4) by simp
  have tog: "TrbRaw_toggle_cycle_bit L (?b ! i) = Some ?t"
  proof -
    have "(?b ! i)[3 := u32_set_bit_0 L (\<not> ?prev) (?b ! i ! 3)] = ?t" using assms(1) len unfolding trb_lib_ok_def by blast
    then show ?thesis using len by (simp add: TrbRaw_toggle_cycle_bit_def)
  qed
  note lib = trb_libD[OF assms(1) len, of "\<not> ?prev"]
  let ?r = "r\<lparr>tr_trb_buffer := (tr_trb_buffer r)\<lparr>box_val := ?b[i := ?t]\<rparr>, tr_write_index := i + 1\<rparr>"
  have all4: "\<forall>t \<in> set (?b[i := ?t]). length t = 4" by (rule all_words_update[OF assms(2) lib(1)])
  have run: "flip_cycle_bit_at L p ?prev r =
      (if i + 1 = n then TransferRing_link L (?r\<lparr>tr_cycle_count := tr_cycle_count r + 1\<rparr>) else Some ?r)"
    using assms(3-7) tog
    by (auto simp: flip_cycle_bit_at_def TransferRing_buffer_range_def TransferRing_buffer_len_def size_of_TrbRaw_def Let_def)
  show ?thesis
  proof (cases "i + 1 = n")
    case False
    then show ?thesis using run assms(3,4) all4 by (simp add: nth_list_update)
  next
    case True
    let ?s = "?r\<lparr>tr_cycle_count := tr_cycle_count r + 1\<rparr>"
    have "tr_write_index ?s < length (box_val (tr_trb_buffer ?s))" "length (box_val (tr_trb_buffer ?s) ! tr_write_index ?s) = 4"
      using True assms(2,3) lib(1) by (auto simp: nth_list_update)
    from TransferRing_link_eq[OF assms(1) this] obtain link where lk: "trb_is_link L link" "trb_cycle_bit L link = tr_cycle_bit r" "length link = 4"
      "TransferRing_link L ?s = Some (?s\<lparr>tr_trb_buffer := (tr_trb_buffer r)\<lparr>box_val := ?b[i := ?t, i + 1 := link]\<rparr>, tr_write_index := 0,
         tr_cycle_bit := \<not> tr_cycle_bit r\<rparr>)" by auto
    with True assms(3) run all_words_update[OF all4 lk(3), of "i + 1"] show ?thesis by (auto simp: nth_list_update)
  qed
qed

section \<open>Counting\<close>

text \<open>After \<open>D\<close> give-backs on a ring of \<open>n\<close> data TRBs, the cycle bit of slot \<open>j\<close> was inverted \<open>flips n D j\<close> times.\<close>

definition flips :: "nat \<Rightarrow> nat \<Rightarrow> nat \<Rightarrow> nat" where
  "flips n D j = (D + (n - 1 - j)) div n"

lemma flips_0 [simp]: "j < n \<Longrightarrow> flips n 0 j = 0"
  by (simp add: flips_def)

lemma flips_Suc:
  assumes "j < n"
  shows "flips n (Suc D) j = flips n D j + (if j = D mod n then 1 else 0)"
proof -
  have "n dvd Suc (D + (n - 1 - j)) \<longleftrightarrow> j = D mod n"
  proof -
    have e1: "Suc (D + (n - 1 - j)) = D + (n - j)" using assms by simp
    have e2: "(D + (n - j)) mod n = (D mod n + (n - j)) mod n" by (simp add: mod_add_left_eq)
    have e3: "(D mod n + (n - j)) mod n = 0 \<longleftrightarrow> D mod n = j"
    proof -
      have "D mod n < n" using assms by simp
      then consider "D mod n < j" | "D mod n = j" | "j < D mod n" by linarith
      then show ?thesis
      proof cases
        case 3
        then have "(D mod n + (n - j)) mod n = (n + (D mod n - j)) mod n" using assms by (simp add: algebra_simps)
        also have "\<dots> = D mod n - j" using \<open>D mod n < n\<close> by simp
        finally show ?thesis using 3 by simp
      qed (use assms in auto)
    qed
    show ?thesis unfolding dvd_eq_mod_eq_0 e1 e2 using e3 by auto
  qed
  then show ?thesis by (simp add: flips_def div_Suc dvd_eq_mod_eq_0)
qed

lemma flips_window:
  assumes "0 < n" "D \<le> H" "H < D + n"
  shows "flips n D (H mod n) = H div n"
proof -
  have H: "H = n * (H div n) + H mod n" by simp
  have m: "H mod n < n" using assms(1) by simp
  have "n * (H div n) \<le> D + (n - 1 - H mod n)" using assms(3) H m by linarith
  moreover have "D + (n - 1 - H mod n) < n * Suc (H div n)" unfolding mult_Suc_right using assms(2) H m by linarith
  ultimately show ?thesis unfolding flips_def by (rule div_nat_eqI)
qed

lemma unat_of_nat_small: "k < usize_limit \<Longrightarrow> unat (of_nat k :: u64) = k"
  by (simp only: unat_of_nat) simp

lemma flips_full:
  assumes "0 < n" "H = D + n"
  shows "even (flips n D (H mod n)) \<noteq> even (H div n)"
proof -
  have "flips n D (D mod n) = D div n" by (rule flips_window) (use assms(1) in auto)
  moreover have "H div n = Suc (D div n)" "H mod n = D mod n" using assms by (simp_all add: div_add_self2)
  ultimately show ?thesis by simp
qed

lemma window_div:
  fixes n D H :: nat
  assumes "0 < n" "D \<le> H" "H < D + n" "H mod n + 1 = n"
  shows "D div n = H div n"
proof -
  have "H = n * (H div n) + H mod n" by simp
  with assms have "n * (H div n) \<le> D" "D < n * Suc (H div n)" unfolding mult_Suc_right by linarith+
  then show ?thesis by (rule div_nat_eqI)
qed

lemma Suc_div_mod:
  assumes "0 < (n :: nat)"
  shows "Suc k mod n = (if k mod n + 1 = n then 0 else k mod n + 1)" "Suc k div n = (if k mod n + 1 = n then Suc (k div n) else k div n)"
proof -
  show "Suc k mod n = (if k mod n + 1 = n then 0 else k mod n + 1)" using assms by (simp add: mod_Suc)
  then show "Suc k div n = (if k mod n + 1 = n then Suc (k div n) else k div n)" using assms by (simp add: div_Suc split: if_splits)
qed

section \<open>Reports and give-backs\<close>

text \<open>
  The controller finishes the TRB at its position when it owns it, reports it and moves on; the driver gives back the TRB of the oldest report. Here the controller
  follows the link at once. \<open>ps\<close> are the slots reported and not given back yet, \<open>D\<close> counts the give-backs.
\<close>

definition hw_settle :: "TrbLib \<Rightarrow> trb list \<Rightarrow> hw_pos \<Rightarrow> hw_pos" where
  "hw_settle L b = (\<lambda>(i, c). if trb_is_link L (b ! i) \<and> trb_cycle_bit L (b ! i) = c then (0, \<not> c) else (i, c))"

definition give_back :: "TrbLib \<Rightarrow> nat \<Rightarrow> TransferRing \<Rightarrow> TransferRing option" where
  "give_back L p r =
     flip_cycle_bit_at L (of_nat (box_ptr (tr_trb_buffer r) + 16 * p)) (trb_cycle_bit L (box_val (tr_trb_buffer r) ! p)) r"

inductive reporting :: "TrbLib \<Rightarrow> TransferRing \<Rightarrow> TransferRing \<Rightarrow> hw_pos \<Rightarrow> nat list \<Rightarrow> nat \<Rightarrow> bool" for L r0 where
  reporting_start: "reporting L r0 r0 (0, True) [] 0"
| reporting_report: "reporting L r0 r (i, c) ps D \<Longrightarrow> hw_read L (box_val (tr_trb_buffer r)) (i, c) = Some t \<Longrightarrow> \<not> trb_is_link L t \<Longrightarrow>
    reporting L r0 r (hw_settle L (box_val (tr_trb_buffer r)) (i + 1, c)) (ps @ [i]) D"
| reporting_give_back: "reporting L r0 r h (p # ps) D \<Longrightarrow> give_back L p r = Some r' \<Longrightarrow> reporting L r0 r' h ps (Suc D)"

definition filled :: "TrbLib \<Rightarrow> TransferRing \<Rightarrow> bool" where
  "filled L r \<longleftrightarrow>
     (let b = box_val (tr_trb_buffer r); n = length b - 1 in
      2 \<le> length b \<and> length b < usize_limit \<and> box_ptr (tr_trb_buffer r) + 16 * length b < usize_limit \<and> (\<forall>t \<in> set b. length t = 4) \<and>
      (\<forall>j < n. \<not> trb_is_link L (b ! j) \<and> trb_cycle_bit L (b ! j)) \<and> trb_is_link L (b ! n) \<and> trb_cycle_bit L (b ! n) \<and>
      \<not> tr_cycle_bit r \<and> tr_cycle_count r = 0)"

definition report_inv :: "TrbLib \<Rightarrow> TransferRing \<Rightarrow> TransferRing \<Rightarrow> nat \<Rightarrow> nat \<Rightarrow> bool" where
  "report_inv L r0 r H D \<longleftrightarrow>
     (let b = box_val (tr_trb_buffer r); b0 = box_val (tr_trb_buffer r0); n = length b0 - 1 in
      D \<le> H \<and> H \<le> D + n \<and> length b = length b0 \<and> box_ptr (tr_trb_buffer r) = box_ptr (tr_trb_buffer r0) \<and> (\<forall>t \<in> set b. length t = 4) \<and>
      (\<forall>j < n. \<not> trb_is_link L (b ! j) \<and> trb_cycle_bit L (b ! j) = even (flips n D j) \<and>
         trb_with_cycle_bit L True (b ! j) = trb_with_cycle_bit L True (b0 ! j)) \<and>
      trb_is_link L (b ! n) \<and> trb_cycle_bit L (b ! n) = even (D div n) \<and> tr_cycle_bit r = odd (D div n) \<and> tr_cycle_count r = D div n)"

lemma report_invD:
  assumes "report_inv L r0 r H D" "n = length (box_val (tr_trb_buffer r0)) - 1"
  shows "D \<le> H" "H \<le> D + n" "length (box_val (tr_trb_buffer r)) = length (box_val (tr_trb_buffer r0))"
    "box_ptr (tr_trb_buffer r) = box_ptr (tr_trb_buffer r0)" "\<forall>t \<in> set (box_val (tr_trb_buffer r)). length t = 4"
    "j < n \<Longrightarrow> \<not> trb_is_link L (box_val (tr_trb_buffer r) ! j)" "j < n \<Longrightarrow> trb_cycle_bit L (box_val (tr_trb_buffer r) ! j) = even (flips n D j)"
    "j < n \<Longrightarrow> trb_with_cycle_bit L True (box_val (tr_trb_buffer r) ! j) = trb_with_cycle_bit L True (box_val (tr_trb_buffer r0) ! j)"
    "trb_is_link L (box_val (tr_trb_buffer r) ! n)" "trb_cycle_bit L (box_val (tr_trb_buffer r) ! n) = even (D div n)"
    "tr_cycle_bit r = odd (D div n)" "tr_cycle_count r = D div n"
  using assms by (simp_all add: report_inv_def Let_def)

lemma report_inv_start: "filled L r0 \<Longrightarrow> report_inv L r0 r0 0 0"
  by (auto simp: filled_def report_inv_def Let_def)

lemma report_inv_give_back:
  assumes "trb_lib_ok L" "filled L r0" "report_inv L r0 r H D" "D < H" "Suc D < usize_limit"
  shows "\<exists>r'. give_back L (D mod (length (box_val (tr_trb_buffer r0)) - 1)) r = Some r' \<and> report_inv L r0 r' H (Suc D)"
proof -
  let ?b = "box_val (tr_trb_buffer r)" and ?orig = "box_val (tr_trb_buffer r0)"
  define n where "n = length ?orig - 1"
  have n: "0 < n" "length ?b = Suc n" "length ?orig = Suc n" and lim: "Suc n < usize_limit" "box_ptr (tr_trb_buffer r) + 16 * Suc n < usize_limit"
    using assms(2,3) by (auto simp: filled_def report_inv_def Let_def n_def)
  have inv: "H \<le> D + n" "\<forall>t \<in> set ?b. length t = 4"
    "\<And>j. j < n \<Longrightarrow> \<not> trb_is_link L (?b ! j) \<and> trb_cycle_bit L (?b ! j) = even (flips n D j) \<and>
         trb_with_cycle_bit L True (?b ! j) = trb_with_cycle_bit L True (?orig ! j)"
    "trb_is_link L (?b ! n)" "trb_cycle_bit L (?b ! n) = even (D div n)" "tr_cycle_bit r = odd (D div n)" "tr_cycle_count r = D div n"
    "box_ptr (tr_trb_buffer r) = box_ptr (tr_trb_buffer r0)"
    using report_invD[OF assms(3) n_def] by simp_all
  let ?i = "D mod n"
  have i: "?i < n" using n(1) by simp
  have ptr: "unat (of_nat (box_ptr (tr_trb_buffer r) + 16 * ?i) :: u64) = box_ptr (tr_trb_buffer r) + 16 * ?i"
    by (rule unat_of_nat_small) (use lim(2) i in simp)
  have cnt: "tr_cycle_count r + 1 < usize_limit" using inv(7) assms(5) div_le_dividend[of D n] by linarith
  obtain r' where f: "flip_cycle_bit_at L (of_nat (box_ptr (tr_trb_buffer r) + 16 * ?i)) (trb_cycle_bit L (?b ! ?i)) r = Some r'"
    "length (box_val (tr_trb_buffer r')) = Suc n" "box_ptr (tr_trb_buffer r') = box_ptr (tr_trb_buffer r)" "\<forall>t \<in> set (box_val (tr_trb_buffer r')). length t = 4"
    "\<forall>j < n. box_val (tr_trb_buffer r') ! j = (if j = ?i then trb_with_cycle_bit L (\<not> trb_cycle_bit L (?b ! ?i)) (?b ! ?i) else ?b ! j)"
    "if ?i + 1 = n then tr_cycle_bit r' = (\<not> tr_cycle_bit r) \<and> tr_cycle_count r' = tr_cycle_count r + 1 \<and>
       trb_is_link L (box_val (tr_trb_buffer r') ! n) \<and> trb_cycle_bit L (box_val (tr_trb_buffer r') ! n) = tr_cycle_bit r
     else tr_cycle_bit r' = tr_cycle_bit r \<and> tr_cycle_count r' = tr_cycle_count r \<and> box_val (tr_trb_buffer r') ! n = ?b ! n"
    using flip_cycle_bit_at_spec[OF assms(1) inv(2) n(2) i lim(1) cnt ptr] by blast
  have "give_back L ?i r = Some r'" using f(1) by (simp add: give_back_def)
  moreover have "report_inv L r0 r' H (Suc D)"
  proof -
    let ?b' = "box_val (tr_trb_buffer r')"
    have len: "length (?b ! j) = 4" if "j < n" for j using inv(2) n(2) that by simp
    have lib2: "trb_with_cycle_bit L True (trb_with_cycle_bit L c t) = trb_with_cycle_bit L True t" if "length t = 4" for c t
      using assms(1) that unfolding trb_lib_ok_def by blast
    have data: "\<not> trb_is_link L (?b' ! j) \<and> trb_cycle_bit L (?b' ! j) = even (flips n (Suc D) j) \<and>
        trb_with_cycle_bit L True (?b' ! j) = trb_with_cycle_bit L True (?orig ! j)" if "j < n" for j
      using inv(3)[OF that] trb_libD[OF assms(1) len[OF that]] lib2[OF len[OF that]] f(5)[rule_format, OF that] flips_Suc[OF that]
      by (cases "j = D mod n") simp_all
    have "trb_is_link L (?b' ! n) \<and> trb_cycle_bit L (?b' ! n) = even (Suc D div n) \<and> tr_cycle_bit r' = odd (Suc D div n) \<and> tr_cycle_count r' = Suc D div n"
      using f(6) inv(4-7) Suc_div_mod(2)[OF n(1), of D] by (auto split: if_splits)
    then show ?thesis
      unfolding report_inv_def Let_def n_def[symmetric] using assms(4) inv(1,8) f(2-4) data n(3) by auto
  qed
  ultimately show ?thesis unfolding n_def by blast
qed

lemma report_inv_report:
  assumes "filled L r0" "report_inv L r0 r H D" "n = length (box_val (tr_trb_buffer r0)) - 1"
  shows "hw_read L (box_val (tr_trb_buffer r)) (H mod n, even (H div n)) =
      (if H < D + n then Some (box_val (tr_trb_buffer r) ! (H mod n)) else None)"
    "\<not> trb_is_link L (box_val (tr_trb_buffer r) ! (H mod n))" "H mod n < n"
    "H < D + n \<Longrightarrow> hw_settle L (box_val (tr_trb_buffer r)) (H mod n + 1, even (H div n)) = (Suc H mod n, even (Suc H div n))"
    "H < D + n \<Longrightarrow> report_inv L r0 r (Suc H) D"
proof -
  have n: "0 < n" using assms(1,3) by (auto simp: filled_def Let_def)
  then show m: "H mod n < n" by simp
  note inv = report_invD[OF assms(2,3)]
  show "\<not> trb_is_link L (box_val (tr_trb_buffer r) ! (H mod n))" by (rule inv(6)[OF m])
  have "even (flips n D (H mod n)) = even (H div n) \<longleftrightarrow> H < D + n"
  proof (cases "H < D + n")
    case False
    with inv(2) have "H = D + n" by simp
    from flips_full[OF n this] False show ?thesis by blast
  qed (use flips_window[OF n inv(1)] in simp)
  then show "hw_read L (box_val (tr_trb_buffer r)) (H mod n, even (H div n)) =
      (if H < D + n then Some (box_val (tr_trb_buffer r) ! (H mod n)) else None)"
    using inv(7)[OF m] by (simp add: hw_read_def)
  show "hw_settle L (box_val (tr_trb_buffer r)) (H mod n + 1, even (H div n)) = (Suc H mod n, even (Suc H div n))" if "H < D + n"
  proof (cases "H mod n + 1 = n")
    case True
    then show ?thesis using inv(9,10) window_div[OF n inv(1) that True] Suc_div_mod[OF n, of H] by (simp add: hw_settle_def)
  next
    case False
    then have "H mod n + 1 < n" using m by simp
    then show ?thesis using inv(6)[of "H mod n + 1"] Suc_div_mod[OF n, of H] False by (simp add: hw_settle_def)
  qed
  show "report_inv L r0 r (Suc H) D" if "H < D + n" using assms(2,3) that unfolding report_inv_def Let_def by simp
qed

lemma reporting_inv:
  assumes "trb_lib_ok L" "filled L r0" "reporting L r0 r h ps D" "n = length (box_val (tr_trb_buffer r0)) - 1" "D < usize_limit"
  shows "\<exists>H. report_inv L r0 r H D \<and> h = (H mod n, even (H div n)) \<and> ps = map (\<lambda>k. k mod n) [D..<H]"
  using assms(3,5)
proof (induction rule: reporting.induct)
  case reporting_start
  then show ?case using report_inv_start[OF assms(2)] by (intro exI[of _ 0]) simp
next
  case (reporting_report r i c ps D t)
  then obtain H where H: "report_inv L r0 r H D" "(i, c) = (H mod n, even (H div n))" "ps = map (\<lambda>k. k mod n) [D..<H]" by blast
  note rep = report_inv_report[OF assms(2) H(1) assms(4)]
  have lt: "H < D + n" using reporting_report.hyps(2) rep(1) H(2) by (auto split: if_splits)
  have "D \<le> H" using report_invD(1)[OF H(1) assms(4)] .
  with H(2,3) rep(4,5)[OF lt] show ?case by (intro exI[of _ "Suc H"]) simp
next
  case (reporting_give_back r h p ps D r')
  then obtain H where H: "report_inv L r0 r H D" "h = (H mod n, even (H div n))" "p # ps = map (\<lambda>k. k mod n) [D..<H]" by auto
  then have lt: "D < H" by (cases "D < H") auto
  then have p: "p = D mod n" "ps = map (\<lambda>k. k mod n) [Suc D..<H]" using H(3) by (simp_all add: upt_rec)
  obtain r'' where "give_back L p r = Some r''" "report_inv L r0 r'' H (Suc D)"
    using report_inv_give_back[OF assms(1,2) H(1) lt reporting_give_back.prems] p(1) assms(4) by auto
  with reporting_give_back.hyps(2) H(2) p(2) show ?case by (intro exI[of _ H]) simp
qed

section \<open>Filling the ring\<close>

lemma TransferRing_push_keeps:
  assumes "TransferRing_push L t r = Some (r', p)"
  shows "box_ptr (tr_trb_buffer r') = box_ptr (tr_trb_buffer r)" "tr_cycle_count r' = tr_cycle_count r"
  using assms
  by (auto simp: TransferRing_push_def TransferRing_link_def TransferRing_write_def TransferRing_toggle_cycle_bit_def bind_eq_Some_conv Let_def rust_simps
      split: if_splits)

text \<open>After \<open>k\<close> of the \<open>n\<close> pushes.\<close>

definition filling :: "TrbLib \<Rightarrow> TransferRing \<Rightarrow> nat \<Rightarrow> nat \<Rightarrow> TransferRing \<Rightarrow> bool" where
  "filling L r0 n k r \<longleftrightarrow>
     (let b = box_val (tr_trb_buffer r) in
      length b = Suc n \<and> box_ptr (tr_trb_buffer r) = box_ptr (tr_trb_buffer r0) \<and> tr_cycle_count r = tr_cycle_count r0 \<and> (\<forall>t \<in> set b. length t = 4) \<and>
      (\<forall>j < k. \<not> trb_is_link L (b ! j) \<and> trb_cycle_bit L (b ! j)) \<and>
      (if k < n then tr_write_index r = k \<and> tr_cycle_bit r
       else \<not> tr_cycle_bit r \<and> trb_is_link L (b ! n) \<and> trb_cycle_bit L (b ! n)))"

lemma filling_push:
  assumes "trb_lib_ok L" "filling L r0 n k r" "k < n" "Suc n < usize_limit" "length t = 4" "\<not> trb_is_link L t"
    and "TransferRing_push L t r = Some (r', p)"
  shows "filling L r0 n (Suc k) r'"
proof -
  let ?b = "box_val (tr_trb_buffer r)"
  have f: "length ?b = Suc n" "box_ptr (tr_trb_buffer r) = box_ptr (tr_trb_buffer r0)" "tr_cycle_count r = tr_cycle_count r0" "\<forall>t \<in> set ?b. length t = 4"
    "\<forall>j < k. \<not> trb_is_link L (?b ! j) \<and> trb_cycle_bit L (?b ! j)" "tr_write_index r = k" "tr_cycle_bit r"
    using assms(2,3) by (simp_all add: filling_def Let_def)
  have pd: "pushed L ?b k True t (box_val (tr_trb_buffer r')) (tr_write_index r') (tr_cycle_bit r')"
    using transfer_ring.push_law[OF assms(1,5), of r] assms(3,4,7) f(1,4,6,7) by auto
  note lib = trb_libD[OF assms(1,5), of True]
  have w: "\<forall>t \<in> set (?b[k := trb_with_cycle_bit L True t]). length t = 4" by (rule all_words_update[OF f(4) lib(1)])
  have b': "length (box_val (tr_trb_buffer r')) = Suc n" using pd f(1) by (auto simp: pushed_def split: if_splits)
  have b'': "\<forall>t \<in> set (box_val (tr_trb_buffer r')). length t = 4"
  proof (cases "k + 1 = n")
    case True
    then obtain link where "length link = 4" "box_val (tr_trb_buffer r') = ?b[k := trb_with_cycle_bit L True t, n := link]"
      using pd f(1) by (auto simp: pushed_def)
    with all_words_update[OF w] show ?thesis by simp
  qed (use pd w f(1) in \<open>simp add: pushed_def\<close>)
  have "\<not> trb_is_link L (box_val (tr_trb_buffer r') ! j) \<and> trb_cycle_bit L (box_val (tr_trb_buffer r') ! j)" if "j < Suc k" for j
    using pd f(1,5) that assms(3,6) lib by (auto simp: pushed_def nth_list_update less_Suc_eq split: if_splits)
  moreover have "if Suc k < n then tr_write_index r' = Suc k \<and> tr_cycle_bit r'
      else \<not> tr_cycle_bit r' \<and> trb_is_link L (box_val (tr_trb_buffer r') ! n) \<and> trb_cycle_bit L (box_val (tr_trb_buffer r') ! n)"
    using pd f(1) assms(3) by (auto simp: pushed_def)
  ultimately show ?thesis using b' b'' f(2,3) TransferRing_push_keeps[OF assms(7)] by (simp add: filling_def Let_def)
qed

lemma fill_with_normal_filled:
  assumes "trb_lib_ok L" "fill_with_normal L sz (a, r) = Some (a', r0)" "2 \<le> m" "m < usize_limit" "box_ptr (tr_trb_buffer r) + 16 * m < usize_limit"
    and "box_val (tr_trb_buffer r) = replicate m [0, 0, 0, 0]" "tr_write_index r = 0" "tr_cycle_bit r" "tr_cycle_count r = 0"
  shows "filled L r0" "length (box_val (tr_trb_buffer r0)) = m"
proof -
  define n where "n = m - 1"
  have n: "0 < n" "m = Suc n" using assms(3) by (auto simp: n_def)
  define step where "step = (\<lambda>(_ :: nat) (a, r). case from_size_align sz PAGE_SIZE of Inl e \<Rightarrow> None
       | Inr layout \<Rightarrow> do { (a, buf) \<leftarrow> global_alloc bump_alloc a layout; (r, _) \<leftarrow> TransferRing_push L (trb_normal L (of_nat buf) (of_nat sz)) r; Some (a, r) })"
  have normal: "length (trb_normal L x y) = 4" "\<not> trb_is_link L (trb_normal L x y)" for x y using assms(1) unfolding trb_lib_ok_def by blast+
  have "filling L r n k r'" if "for_each [0..<k] step (a, r) = Some (a', r')" "k \<le> n" for k a' r'
    using that
  proof (induction k arbitrary: a' r')
    case 0
    then show ?case using assms(6-9) n by (simp add: filling_def Let_def)
  next
    case (Suc k)
    then obtain a1 r1 where k: "for_each [0..<k] step (a, r) = Some (a1, r1)" "step k (a1, r1) = Some (a', r')"
      by (auto simp: for_each_append bind_eq_Some_conv)
    with Suc have "filling L r n k r1" by simp
    moreover obtain buf p where "TransferRing_push L (trb_normal L buf (of_nat sz)) r1 = Some (r', p)"
      using k(2) by (auto simp: step_def bind_eq_Some_conv split: sum.splits)
    ultimately show ?case using filling_push[OF assms(1) _ _ _ normal] Suc.prems(2) assms(4) n(2) by simp
  qed
  moreover have "for_each [0..<n] step (a, r) = Some (a', r0)"
    using assms(2) by (simp add: fill_with_normal_def TransferRing_buffer_len_def assms(6) n(2) usub_def step_def)
  ultimately have "filling L r n n r0" by blast
  then show "filled L r0" "length (box_val (tr_trb_buffer r0)) = m"
    using n assms(4,5,9) by (simp_all add: filling_def filled_def Let_def)
qed

section \<open>Properties\<close>


definition example_new_ring :: TransferRing where
  "example_new_ring = \<lparr>tr_trb_buffer = \<lparr>box_ptr = 0x1000, box_val = replicate 3 [0, 0, 0, 0]\<rparr>, tr_write_index = 0, tr_cycle_bit = True, tr_cycle_count = 0\<rparr>"

lemma example_fill: "\<exists>a' r0. fill_with_normal example_trb_lib 8 (bump_init bump_new 0x10000 0x20000, example_new_ring) = Some (a', r0)"
proof -
  have "\<not> Option.is_none (fill_with_normal example_trb_lib 8 (bump_init bump_new 0x10000 0x20000, example_new_ring))" by code_simp
  then show ?thesis by (auto simp: Option.is_none_def)
qed


text \<open>
  The give-back of the last data TRB also inverts the cycle bit of the link. A controller that has not followed the link by then no longer owns it and stops there.
\<close>

lemma late_link_stalls:
  assumes "trb_lib_ok L" "filled L r0" "report_inv L r0 r H D" "n = length (box_val (tr_trb_buffer r0)) - 1" "Suc D < usize_limit"
    and "H = Suc D" "D mod n + 1 = n" "give_back L (D mod n) r = Some r'"
  shows "hw_read L (box_val (tr_trb_buffer r)) (n, even (D div n)) \<noteq> None" "hw_read L (box_val (tr_trb_buffer r')) (n, even (D div n)) = None"
proof -
  have n: "0 < n" using assms(2,4) by (auto simp: filled_def Let_def)
  show "hw_read L (box_val (tr_trb_buffer r)) (n, even (D div n)) \<noteq> None" using report_invD(10)[OF assms(3,4)] by (simp add: hw_read_def)
  have "report_inv L r0 r' H (Suc D)" using report_inv_give_back[OF assms(1-3) _ assms(5)] assms(4,6,8) by auto
  from report_invD(10)[OF this assms(4)] Suc_div_mod(2)[OF n, of D] assms(7)
  show "hw_read L (box_val (tr_trb_buffer r')) (n, even (D div n)) = None" by (simp add: hw_read_def)
qed

end
