(* ===== verification/Slot_Handling.thy ===== *)
theory Slot_Handling
  imports Port_Handling Interrupt_Ring
begin

text \<open>
  What the handlers of command completions and transfer events do: an enabled slot gets a device whose contexts are filled in and which is
  addressed with one command, and the report of an input device reaches the callback of its driver.
\<close>

section \<open>The values a context accepts\<close>

text \<open>The widths of the context fields of the xHCI specification, which the setters of the crate check.\<close>

fun ep_accepts :: "EpField \<Rightarrow> u64 \<Rightarrow> bool" where
  "ep_accepts EpType v \<longleftrightarrow> v < 8"
| "ep_accepts MaxPacketSize v \<longleftrightarrow> v < 2 ^ 16"
| "ep_accepts MaxBurstSize v \<longleftrightarrow> v < 2 ^ 8"
| "ep_accepts TrDequeuePointer v \<longleftrightarrow> take_bit 4 v = 0"
| "ep_accepts DequeueCycleState v \<longleftrightarrow> v < 2"
| "ep_accepts Interval v \<longleftrightarrow> v < 2 ^ 8"
| "ep_accepts MaxPrimaryStreams v \<longleftrightarrow> v < 2 ^ 5"
| "ep_accepts Mult v \<longleftrightarrow> v < 4"
| "ep_accepts ErrorCount v \<longleftrightarrow> v < 4"
| "ep_accepts AverageTrbLength v \<longleftrightarrow> v < 2 ^ 16"
| "ep_accepts MaxEsitPayloadLow v \<longleftrightarrow> v < 2 ^ 16"

fun field_accepts :: "CtxField \<Rightarrow> u64 \<Rightarrow> bool" where
  "field_accepts (AddFlag n) v \<longleftrightarrow> n < 32 \<and> v < 2"
| "field_accepts (DropFlag n) v \<longleftrightarrow> 2 \<le> n \<and> n < 32 \<and> v < 2"
| "field_accepts RouteString v \<longleftrightarrow> v < 2 ^ 20"
| "field_accepts RootHubPortNumber v \<longleftrightarrow> v < 2 ^ 8"
| "field_accepts ParentHubSlotId v \<longleftrightarrow> v < 2 ^ 8"
| "field_accepts ParentPortNumber v \<longleftrightarrow> v < 2 ^ 8"
| "field_accepts ContextEntries v \<longleftrightarrow> v < 2 ^ 5"
| "field_accepts SlotSpeed v \<longleftrightarrow> v < 2 ^ 4"
| "field_accepts (EpCtx dci f) v \<longleftrightarrow> 1 \<le> dci \<and> dci \<le> 31 \<and> ep_accepts f v"

definition ctx_lib_ok :: "Libs \<Rightarrow> bool" where
  "ctx_lib_ok L \<longleftrightarrow> (\<forall>f v. field_accepts f v \<longrightarrow> ctx_fits L f v)"

definition ctx_put :: "(CtxField \<times> u64) list \<Rightarrow> input_context \<Rightarrow> input_context" where
  "ctx_put fvs c = fold (\<lambda>(f, v) c. c(f := v)) fvs c"

lemma ctx_sets_ok:
  assumes "ctx_lib_ok L" "\<forall>(f, v) \<in> set fvs. field_accepts f v"
  shows "ctx_sets L fvs c = Some (ctx_put fvs c)"
  using assms(2)
proof (induction fvs arbitrary: c)
  case (Cons fv fvs)
  obtain f v where fv: "fv = (f, v)" by (cases fv)
  with Cons.prems assms(1) have "ctx_fits L f v" by (simp add: ctx_lib_ok_def)
  with Cons fv show ?case by (simp add: ctx_set_def ctx_put_def)
qed (simp add: ctx_put_def)

lemma set_context_ok:
  assumes "ctx_lib_ok L" "\<forall>(f, v) \<in> set fvs. field_accepts f v"
  shows "set_context L fvs d = Some (d\<lparr>dv_input_context := (dv_input_context d)\<lparr>box_val := ctx_put fvs (box_val (dv_input_context d))\<rparr>\<rparr>)"
  by (simp add: set_context_def ctx_sets_ok[OF assms])

lemma unat_ucast_u8 [simp]: "unat (ucast (x :: u8) :: u64) = unat x"
proof -
  have "unat x < 256" using unsigned_less[of x] by simp
  then show ?thesis by (simp add: unsigned_ucast_eq take_bit_nat_eq_self)
qed

lemma ucast_u8_back [simp]: "ucast (ucast (x :: u8) :: u64) = x"
  by (rule bit_word_eqI) (auto simp: bit_simps)

lemma ucast_u8_less: "(ucast (x :: u8) :: u64) < 256"
  using unsigned_less[of x] by (simp add: word_less_nat_alt)

lemma ucast_of_nat_u8: "k < 256 \<Longrightarrow> (ucast (of_nat k :: u8) :: u64) = of_nat k"
  by (simp add: word_unat_eq_iff unat_of_nat)

section \<open>The context of a device that is being addressed\<close>

text \<open>Section 4.3.3 of the specification: the slot context and the context of endpoint 0 are to be evaluated, and nothing else is set.\<close>

fun addressed_ep0 :: "u16 \<Rightarrow> u64 \<Rightarrow> EpField \<Rightarrow> u64" where
  "addressed_ep0 packet ring EpType = 4"
| "addressed_ep0 packet ring MaxPacketSize = ucast packet"
| "addressed_ep0 packet ring TrDequeuePointer = ring"
| "addressed_ep0 packet ring DequeueCycleState = 1"
| "addressed_ep0 packet ring ErrorCount = 3"
| "addressed_ep0 packet ring AverageTrbLength = 8"
| "addressed_ep0 packet ring _ = 0"

fun addressed_context :: "usize \<Rightarrow> u8 \<Rightarrow> u32 \<Rightarrow> u64 \<Rightarrow> input_context" where
  "addressed_context port speed route ring (AddFlag n) = (if n < 2 then 1 else 0)"
| "addressed_context port speed route ring RouteString = ucast (route AND 0x3ffff)"
| "addressed_context port speed route ring RootHubPortNumber = of_nat (port + 1)"
| "addressed_context port speed route ring ContextEntries = 1"
| "addressed_context port speed route ring SlotSpeed = ucast speed"
| "addressed_context port speed route ring (EpCtx dci f) =
     (if dci = 1 then addressed_ep0 (max_packet_size_for_control_pipe speed) ring f else 0)"
| "addressed_context port speed route ring _ = 0"

lemma addressed_context_built:
  assumes "port < 255"
  shows "ctx_put (map (\<lambda>(f, v). (EpCtx dci_ep0 f, v))
         [(EpType, EP_Control), (MaxPacketSize, ucast (max_packet_size_for_control_pipe speed)), (MaxBurstSize, 0),
          (TrDequeuePointer, ring), (DequeueCycleState, 1), (Interval, 0), (MaxPrimaryStreams, 0), (Mult, 0), (ErrorCount, 3), (AverageTrbLength, 8)])
       (ctx_put [(RouteString, ucast (route AND 0x3ffff)), (RootHubPortNumber, ucast (of_nat (port + 1) :: u8)), (ContextEntries, 1), (SlotSpeed, ucast speed)]
         (ctx_put [(AddFlag (unat dci_ep0), 1)] (ctx_put [(AddFlag 0, 1)] input_context_zeroed))) =
     addressed_context port speed route ring"
proof
  have "(ucast (of_nat (port + 1) :: u8) :: u64) = of_nat (port + 1)" by (rule ucast_of_nat_u8) (use assms in simp)
  then show "ctx_put (map (\<lambda>(f, v). (EpCtx dci_ep0 f, v))
         [(EpType, EP_Control), (MaxPacketSize, ucast (max_packet_size_for_control_pipe speed)), (MaxBurstSize, 0),
          (TrDequeuePointer, ring), (DequeueCycleState, 1), (Interval, 0), (MaxPrimaryStreams, 0), (Mult, 0), (ErrorCount, 3), (AverageTrbLength, 8)])
       (ctx_put [(RouteString, ucast (route AND 0x3ffff)), (RootHubPortNumber, ucast (of_nat (port + 1) :: u8)), (ContextEntries, 1), (SlotSpeed, ucast speed)]
         (ctx_put [(AddFlag (unat dci_ep0), 1)] (ctx_put [(AddFlag 0, 1)] input_context_zeroed))) f =
     addressed_context port speed route ring f" for f
    by (cases f; (cases "case f of EpCtx _ e \<Rightarrow> e | _ \<Rightarrow> EpType")?)
      (auto simp: ctx_put_def dci_ep0_def EP_Control_def input_context_zeroed_def less_2_cases_iff)
qed

section \<open>Addressing a device\<close>

lemma on_device_ok:
  assumes "n < length (dm_infos (xc_devices c))" "dm_infos (xc_devices c) ! n = Some d" "f d = Some d'"
  shows "on_device n f c = Some (c\<lparr>xc_devices := (xc_devices c)\<lparr>dm_infos := (dm_infos (xc_devices c))[n := Some d']\<rparr>\<rparr>)"
  using assms by (simp add: on_device_def device_by_slot_id_def get_idx_def set_idx_def)

lemma slot_context_ok:
  assumes "ctx_lib_ok L" "speed < 16"
  shows "initialize_slot_context L port_id speed routing None None d =
    Some (d\<lparr>dv_input_context := (dv_input_context d)\<lparr>box_val :=
      ctx_put [(RouteString, ucast (routing AND 0x3ffff)), (RootHubPortNumber, ucast port_id), (ContextEntries, 1), (SlotSpeed, ucast speed)]
        (box_val (dv_input_context d))\<rparr>\<rparr>)"
proof -
  have "routing AND 0x3ffff = take_bit 18 routing" by (simp add: take_bit_eq_mask mask_eq_exp_minus_1)
  then have "unat (routing AND 0x3ffff) < 2 ^ 18" by (simp only: unsigned_take_bit_eq take_bit_nat_less_exp)
  then have "(ucast (routing AND 0x3ffff) :: u64) < 2 ^ 20"
    by (simp add: word_less_nat_alt unsigned_ucast_eq take_bit_nat_eq_self)
  moreover have "(ucast speed :: u64) < 2 ^ 4" using assms(2) by (simp add: word_less_nat_alt)
  ultimately show ?thesis
    using ucast_u8_less[of port_id] by (simp add: initialize_slot_context_def set_context_ok[OF assms(1)])
qed

lemma endpoint0_context_ok:
  assumes "ctx_lib_ok L" "16 dvd ring"
  shows "initialize_endpoint0_context L (of_nat ring) (max_packet_size_for_control_pipe speed) d =
    Some (d\<lparr>dv_input_context := (dv_input_context d)\<lparr>box_val :=
      ctx_put (map (\<lambda>(f, v). (EpCtx dci_ep0 f, v))
         [(EpType, EP_Control), (MaxPacketSize, ucast (max_packet_size_for_control_pipe speed)), (MaxBurstSize, 0),
          (TrDequeuePointer, of_nat ring), (DequeueCycleState, 1), (Interval, 0), (MaxPrimaryStreams, 0), (Mult, 0), (ErrorCount, 3), (AverageTrbLength, 8)])
        (box_val (dv_input_context d))\<rparr>\<rparr>)"
proof -
  have "take_bit 4 (of_nat ring :: u64) = of_nat (take_bit 4 ring)" by (simp add: take_bit_of_nat)
  also have "take_bit 4 ring = 0" using assms(2) by (simp add: take_bit_eq_mod dvd_imp_mod_0)
  finally have "take_bit 4 (of_nat ring :: u64) = 0" by simp
  moreover have "(ucast (max_packet_size_for_control_pipe speed) :: u64) < 2 ^ 16"
    by (simp add: max_packet_size_for_control_pipe_def)
  ultimately show ?thesis
    unfolding initialize_endpoint0_context_def by (intro set_context_ok[OF assms(1)]) (simp add: dci_ep0_def EP_Control_def)
qed

text \<open>The device of a slot after its contexts are filled in, the controller after the slot was given it, and what both rest on.\<close>

definition addressed_device :: "usize \<Rightarrow> u8 \<Rightarrow> u32 \<Rightarrow> TransferRing Box \<Rightarrow> DeviceContextInfo \<Rightarrow> DeviceContextInfo" where
  "addressed_device port speed route b d =
     d\<lparr>dv_input_context := (dv_input_context d)\<lparr>box_val := addressed_context port speed route (of_nat (box_ptr (tr_trb_buffer (box_val b))))\<rparr>\<rparr>"

definition addressed_manager :: "usize \<Rightarrow> DeviceContextInfo \<Rightarrow> DeviceManager \<Rightarrow> DeviceManager" where
  "addressed_manager n d m =
     m\<lparr>dm_infos := (dm_infos m)[n := Some d],
       dm_contexts := (dm_contexts m)\<lparr>box_val := (box_val (dm_contexts m))[n := of_nat (box_ptr (dv_device_context d))]\<rparr>\<rparr>"

definition libs_ok :: "Libs \<Rightarrow> bool" where
  "libs_ok L \<longleftrightarrow> trb_lib_ok (lib_trb L) \<and> context_sizes_ok L \<and> ctx_lib_ok L"

definition can_address :: "Libs \<Rightarrow> usize \<Rightarrow> usize \<Rightarrow> u32 \<Rightarrow> 'h Controller \<Rightarrow> DeviceContextInfo \<Rightarrow> 'h Xhc \<Rightarrow> trb \<Rightarrow> bool" where
  "can_address L i n route c d s1 cmd \<longleftrightarrow> manager_ok (xc_devices c) \<and> (\<exists>live. bump_holds (xs_alloc (xc_xhc c)) live) \<and>
     i < 255 \<and> i < length (xs_portsc (xc_xhc c)) \<and> i < length (port_config_phase (xc_ports c)) \<and>
     n < length (dm_infos (xc_devices c)) \<and> dm_infos (xc_devices c) ! n = None \<and>
     DeviceContextInfo_new L i route n (xc_xhc c) = Some (d, s1) \<and>
     tb_address_device L (of_nat (box_ptr (dv_input_context d))) (of_nat n) = Some cmd \<and> plain_trb L cmd"

lemma contexts_filled:
  assumes "ctx_lib_ok L" "i < 255" "sp < 16" "transfer_ring_at dci_ep0 d = Some (Some b)" "16 dvd box_ptr (tr_trb_buffer (box_val b))"
    and "box_val (dv_input_context d) = input_context_zeroed"
  shows "\<exists>d1 d2 d3. enable_slot_context L d = Some d1 \<and> enable_endpoint L dci_ep0 d1 = Some d2 \<and>
    initialize_slot_context L (of_nat (i + 1)) sp route None None d2 = Some d3 \<and> transfer_ring_at dci_ep0 d3 = Some (Some b) \<and>
    ucast (box_val (dv_input_context d3) SlotSpeed) = sp \<and>
    initialize_endpoint0_context L (of_nat (box_ptr (tr_trb_buffer (box_val b)))) (max_packet_size_for_control_pipe sp) d3 =
      Some (addressed_device i sp route b d)"
proof -
  let ?z = "\<lambda>fvs d. d\<lparr>dv_input_context := (dv_input_context d)\<lparr>box_val := ctx_put fvs (box_val (dv_input_context d))\<rparr>\<rparr>"
  let ?sl = "[(RouteString, ucast (route AND 0x3ffff)), (RootHubPortNumber, ucast (of_nat (i + 1) :: u8)), (ContextEntries, 1), (SlotSpeed, ucast sp)]"
  define d1 d2 d3 where d: "d1 = ?z [(AddFlag 0, 1)] d" "d2 = ?z [(AddFlag (unat dci_ep0), 1)] d1" "d3 = ?z ?sl d2"
  have "enable_slot_context L d = Some d1" "enable_endpoint L dci_ep0 d1 = Some d2"
    using assms(1) by (simp_all add: enable_slot_context_def enable_endpoint_def set_context_ok dci_ep0_def d)
  moreover have "initialize_slot_context L (of_nat (i + 1)) sp route None None d2 = Some d3"
    using slot_context_ok[OF assms(1,3), of "of_nat (i + 1)" route d2] by (simp only: d)
  moreover have "transfer_ring_at dci_ep0 d3 = Some (Some b)" using assms(4) by (simp add: d transfer_ring_at_def)
  moreover have "ucast (box_val (dv_input_context d3) SlotSpeed) = sp" by (simp add: d ctx_put_def)
  moreover have "initialize_endpoint0_context L (of_nat (box_ptr (tr_trb_buffer (box_val b)))) (max_packet_size_for_control_pipe sp) d3 =
      Some (addressed_device i sp route b d)"
    using endpoint0_context_ok[OF assms(1,5), of sp d3] addressed_context_built[OF assms(2), of sp "of_nat (box_ptr (tr_trb_buffer (box_val b)))" route]
    by (simp add: addressed_device_def assms(6) d)
  ultimately show ?thesis by blast
qed

lemma address_device_at_ok:
  assumes "hw_keeps W" "libs_ok L" "can_address L i n route c d s1 cmd" "command_queue L (xc_xhc c) h q" "command_room (xc_xhc c) q"
    and "sp = (if speed = 5 then pr_port_speed (look W 1 i s1) else speed)" "sp < 16"
  shows "\<exists>c' p b. address_device_at L W i n route speed None None c = Some (c', p) \<and> transfer_ring_at dci_ep0 d = Some (Some b) \<and>
    xc_devices c' = addressed_manager n (addressed_device i sp route b d) (xc_devices c) \<and> xc_drivers c' = xc_drivers c \<and>
    xc_ports c' = (xc_ports c)\<lparr>port_config_phase := (port_config_phase (xc_ports c))[i := AddressingDevice]\<rparr> \<and>
    xc_port_slots c' = (xc_port_slots c)(i \<mapsto> (case xc_port_slots c i of Some v \<Rightarrow> v | None \<Rightarrow> []) @ [n]) \<and>
    command_queue L (xc_xhc c') h (q @ [cmd]) \<and> xs_doorbells (xc_xhc c') = xs_doorbells (xc_xhc c) @ [(0, 0, 0)] \<and>
    xs_alloc (xc_xhc c') = xs_alloc s1 \<and> manager_ok (xc_devices c')"
proof -
  note lib = assms(2)[unfolded libs_ok_def]
  obtain live where live: "bump_holds (xs_alloc (xc_xhc c)) live" and m: "manager_ok (xc_devices c)"
    and i: "i < 255" "i < length (xs_portsc (xc_xhc c))" "i < length (port_config_phase (xc_ports c))"
    and n: "n < length (dm_infos (xc_devices c))" "dm_infos (xc_devices c) ! n = None"
    and d: "DeviceContextInfo_new L i route n (xc_xhc c) = Some (d, s1)"
    and cmd: "tb_address_device L (of_nat (box_ptr (dv_input_context d))) (of_nat n) = Some cmd" "plain_trb L cmd"
    using assms(3) by (auto simp: can_address_def)
  let ?m = "xc_devices c"
  let ?slots = "(xc_port_slots c)(i \<mapsto> (case xc_port_slots c i of Some v \<Rightarrow> v | None \<Rightarrow> []) @ [n])"
  obtain b where b: "endpoint_ring L dci_ep0 d (0, True) [] b" and al: "64 dvd box_ptr (dv_device_context d)" "64 dvd box_ptr (tr_trb_buffer (box_val b))"
    and dz: "box_val (dv_input_context d) = input_context_zeroed" "dv_slot_id d = n"
    and s1: "s1 = (xc_xhc c)\<lparr>xs_alloc := xs_alloc s1, xs_usb_address := (xs_usb_address (xc_xhc c))(box_ptr (dv_device_context d) := 0)\<rparr>"
    using device_new_spec[OF _ _ live d] lib by blast
  have ring: "transfer_ring_at dci_ep0 d = Some (Some b)" using b by (simp add: endpoint_ring_def)
  have al': "16 dvd box_ptr (tr_trb_buffer (box_val b))" using al(2) by (rule dvd_trans[rotated]) simp
  define C where "C d' s = c\<lparr>xc_port_slots := ?slots, xc_devices := ?m\<lparr>dm_infos := (dm_infos ?m)[n := Some d']\<rparr>, xc_xhc := s\<rparr>" for d' s
  have C: "on_device n f (C d' s) = map_option (\<lambda>d''. C d'' s) (f d')" for f d' s
    using on_device_ok[of n "C d' s" d' f] n
    by (cases "f d'") (simp_all add: C_def, simp add: on_device_def device_by_slot_id_def get_idx_def)
  have Cd: "device_at n (C d' s) = Some d'" for d' s using n by (simp add: C_def device_at_def device_by_slot_id_def get_idx_def)
  have len1: "i < length (xs_portsc s1)" using i(2) by (subst s1) simp
  have rd: "on_xhc (read_port W i) (C d' s1) = Some (C d' (hw_env W s1), look W 1 i s1)" for d'
    using on_xhc_read[OF assms(1), of i "C d' s1"] len1 by (simp add: C_def)
  have all: "allocate_device L i n route (?m, xc_xhc c) = Some (?m\<lparr>dm_infos := (dm_infos ?m)[n := Some d]\<rparr>, s1)"
    using m n d by (auto simp: allocate_device_def dm_max_slots_def usub_def manager_ok_def get_idx_def set_idx_def)
  let ?d4 = "addressed_device i sp route b d" and ?s = "hw_env W s1"
  have pid: "u8add (of_nat i) 1 = Some (of_nat (i + 1))" using i(1) by (simp add: u8add_def unat_of_nat word_less_nat_alt)
  have dc: "dv_device_context ?d4 = dv_device_context d" "dv_slot_id ?d4 = n" "box_ptr (dv_input_context ?d4) = box_ptr (dv_input_context d)"
    using dz(2) by (simp_all add: addressed_device_def)
  have m4: "manager_ok (?m\<lparr>dm_infos := (dm_infos ?m)[n := Some ?d4]\<rparr>)" by (rule manager_ok_update(1)[OF m dc(2) n(1)])
  have load: "load_device_context n (?m\<lparr>dm_infos := (dm_infos ?m)[n := Some ?d4]\<rparr>) = Some (addressed_manager n ?d4 ?m)"
    using load_device_context_spec[OF m4, of n ?d4] n al(1) dc(1) by (simp add: addressed_manager_def)
  let ?p = "(xc_ports c)\<lparr>port_config_phase := (port_config_phase (xc_ports c))[i := AddressingDevice]\<rparr>"
  let ?c5 = "(C ?d4 ?s)\<lparr>xc_devices := addressed_manager n ?d4 ?m\<rparr>"
  have ph: "set_phase i AddressingDevice ?c5 = Some (?c5\<lparr>xc_ports := ?p\<rparr>)"
    using i(3) by (simp add: set_phase_def set_port_phase_at_def set_idx_def C_def)
  have d5: "device_at n (?c5\<lparr>xc_ports := ?p\<rparr>) = Some ?d4"
    using n by (simp add: device_at_def device_by_slot_id_def get_idx_def addressed_manager_def)
  have dp: "driver_part ?s = driver_part s1" by (rule hw_keepsD(1)[OF assms(1)])
  have keep: "xs_command_ring s1 = xs_command_ring (xc_xhc c)" "xs_doorbells s1 = xs_doorbells (xc_xhc c)" "xs_n_doorbells s1 = xs_n_doorbells (xc_xhc c)"
    by (subst s1, simp)+
  with dp have q: "command_queue L ?s h q" "command_room ?s q" "xs_doorbells ?s = xs_doorbells (xc_xhc c)" "xs_alloc ?s = xs_alloc s1"
    using assms(4,5) by (simp_all add: driver_part_def command_queue_def command_room_def)
  obtain r p where iss: "issue_command L cmd ?s = Some (?s\<lparr>xs_command_ring := r, xs_doorbells := xs_doorbells ?s @ [(0, 0, 0)]\<rparr>, p)"
    "command_queue L (?s\<lparr>xs_command_ring := r, xs_doorbells := xs_doorbells ?s @ [(0, 0, 0)]\<rparr>) h (q @ [cmd])"
    using issue_command_ok[OF _ q(1) cmd(2) q(2)] lib by blast
  let ?c' = "?c5\<lparr>xc_ports := ?p, xc_xhc := ?s\<lparr>xs_command_ring := r, xs_doorbells := xs_doorbells ?s @ [(0, 0, 0)]\<rparr>\<rparr>"
  have run: "address_device_at L W i n route speed None None c = Some (?c', p)"
  proof -
    have start: "c\<lparr>xc_port_slots := (xc_port_slots c)(i \<mapsto> case xc_port_slots c i of None \<Rightarrow> [n] | Some v \<Rightarrow> v @ [n]),
        xc_devices := ?m\<lparr>dm_infos := (dm_infos ?m)[n := Some d]\<rparr>, xc_xhc := s1\<rparr> = C d s1"
      by (simp add: C_def split: option.split)
    define P where "P = look W 1 i s1"
    define port_id where "port_id = (of_nat (i + 1) :: u8)"
    obtain d1 d2 d3 where steps: "enable_slot_context L d = Some d1" "enable_endpoint L dci_ep0 d1 = Some d2"
      "initialize_slot_context L port_id sp route None None d2 = Some d3" "transfer_ring_at dci_ep0 d3 = Some (Some b)"
      "ucast (box_val (dv_input_context d3) SlotSpeed) = sp"
      "initialize_endpoint0_context L (of_nat (box_ptr (tr_trb_buffer (box_val b)))) (max_packet_size_for_control_pipe sp) d3 = Some ?d4"
      unfolding port_id_def using contexts_filled[OF _ i(1) assms(7) ring al' dz(1)] lib by blast
    have dev: "xc_devices (C ?d4 ?s) = ?m\<lparr>dm_infos := (dm_infos ?m)[n := Some ?d4]\<rparr>" "xc_xhc (?c5\<lparr>xc_ports := ?p\<rparr>) = ?s"
      by (simp_all add: C_def)
    show ?thesis
      by (simp add: address_device_at_def all start C steps rd[folded P_def] assms(6)[folded P_def, symmetric] pid[folded port_id_def] Cd
          dev load ph d5 dc cmd) (simp add: on_xhc_def C_def iss(1))
  qed
  have "manager_ok (addressed_manager n ?d4 ?m)" using m4 by (simp add: manager_ok_def addressed_manager_def)
  with run iss(2) q(3,4) ring show ?thesis
    by (intro exI[of _ ?c'] exI[of _ p] exI[of _ b]) (simp add: C_def)
qed


text \<open>A device can be allocated in any slot when one can be allocated with the same heap.\<close>

lemma device_new_any_slot:
  assumes "DeviceContextInfo_new L p r n s = Some (d, s')" "xs_alloc t = xs_alloc s"
  shows "\<exists>d' t'. DeviceContextInfo_new L p' r' n' t = Some (d', t') \<and> xs_portsc t' = xs_portsc t"
  using assms by (auto simp: DeviceContextInfo_new_def bind_eq_Some_conv)

lemma example_libs_ok: "libs_ok example_libs"
  using example_transfer(1) by (simp add: libs_ok_def ctx_lib_ok_def context_sizes_ok_def) (simp add: example_libs_def)

definition example_enabling :: PortConfigureState where
  "example_enabling = \<lparr>port_config_phase = [NotConnected, EnablingSlot], addressing_port_index = Some 1\<rparr>"

definition example_completion :: CommandCompletion where
  "example_completion = \<lparr>cc_slot_id = 1, cc_command_trb_pointer = 0x6000, cc_completion_code = Inr Success\<rparr>"

lemma example_can_address:
  "\<exists>d s1 cmd. can_address example_libs 1 1 0 (example_controller example_enabling) d s1 cmd \<and> pr_port_speed (look example_port_hw 1 1 s1) < 16"
proof -
  let ?c = "example_controller example_enabling"
  obtain d0 s0 where "DeviceContextInfo_new example_libs 2 0 1 example_xhc = Some (d0, s0)" using example_device_new by blast
  then obtain d s1 where d: "DeviceContextInfo_new example_libs 1 0 1 (xc_xhc ?c) = Some (d, s1)" "xs_portsc s1 = xs_portsc (xc_xhc ?c)"
    using device_new_any_slot[of example_libs 2 0 1 example_xhc d0 s0 "xc_xhc ?c" 1 0 1] by (auto simp: example_controller_def)
  have ps: "pr_port_speed (look example_port_hw 1 1 s1) < 16" using d(2) by (simp add: example_controller_def example_portsc_def)
  have dm: "manager_ok (xc_devices ?c)" "1 < length (dm_infos (xc_devices ?c))" "dm_infos (xc_devices ?c) ! 1 = None"
    using example_manager_ok by (simp_all add: example_controller_def) (simp_all add: example_manager_def)
  have hp: "bump_holds (xs_alloc (xc_xhc ?c)) []" by (simp add: example_controller_def example_xhc_def bump_init_holds)
  have "1 < length (xs_portsc (xc_xhc ?c))" "1 < length (port_config_phase (xc_ports ?c))" by (simp_all add: example_controller_def example_enabling_def)
  moreover have "tb_address_device example_libs x y = Some [ucast x, 0, 0, 0x2c00]" "plain_trb example_libs [ucast x, 0, 0, 0x2c00]" for x y
    by (simp_all add: example_libs_def plain_trb_def example_trb_lib_def)
  ultimately show ?thesis using d(1) ps dm hp unfolding can_address_def by fastforce
qed


section \<open>Reports of input devices\<close>

definition report_target :: "'w ClassDriverManager \<Rightarrow> usize \<Rightarrow> DriverConsts \<Rightarrow> 'w InputOnlyDriver \<Rightarrow> bool" where
  "report_target C n K D \<longleftrightarrow> driver_kind C n = Some MouseKind \<and> K = mouse_consts \<and> D = di_driver (cd_mouse C) \<or>
     driver_kind C n = Some KeyboardKind \<and> K = keyboard_consts \<and> D = di_driver (cd_keyboard C)"

definition with_ring :: "DeviceContextIndex \<Rightarrow> TransferRing Box \<Rightarrow> DeviceContextInfo \<Rightarrow> DeviceContextInfo" where
  "with_ring dci b d = d\<lparr>dv_transfer_rings := (dv_transfer_rings d)[unat dci - 1 := Some b]\<rparr>"

lemma read_trb_box_slot:
  assumes "unat ptr = box_ptr b + 16 * p" "p < length (box_val b)"
  shows "read_trb_box b ptr = Some (box_val b ! p)"
  using assms by (simp add: read_trb_box_def size_of_TrbRaw_def)

text \<open>C12: A report of a mouse or a keyboard: when the controller reports that it has finished a TRB of the device's interrupt ring, that TRB is given back, the callback of the driver
  that owns the slot is called once, with the address of the device and the bytes of the buffer the TRB points to, and then the doorbell of the endpoint is rung. A failed transfer changes
  nothing: its TRB is not given back.\<close>

theorem report_reaches_driver:
  assumes "te_completion_code ev = Inr code" "te_endpoint_id ev < 32"
    and "device_at (unat (te_slot_id ev)) c = Some d" "transfer_ring_at (te_endpoint_id ev) d = Some (Some ring)"
    and "unat (te_trb_pointer ev) = box_ptr (tr_trb_buffer (box_val ring)) + 16 * p" "p < length (box_val (tr_trb_buffer (box_val ring)))"
    and "transfer_try_from L (box_val (tr_trb_buffer (box_val ring)) ! p) =
      Some (NormalTrb buffer (of_nat (N_IN_TRANSFER_BYTES K)) (trb_cycle_bit (lib_trb L) (box_val (tr_trb_buffer (box_val ring)) ! p)))"
    and "give_back (lib_trb L) p (box_val ring) = Some r'"
    and "report_target (xc_drivers c) (unat (te_slot_id ev)) K D"
    and "find (has_addr (device_address (d, xc_xhc c))) (io_devices D) = Some (Some dev)" "id_state dev = Running"
    and "io_callback D (device_address (d, xc_xhc c)) (load_bytes (unat buffer) (N_IN_TRANSFER_BYTES K) (xc_xhc c))
      (with_ring (te_endpoint_id ev) (ring\<lparr>box_val := r'\<rparr>) d, xc_xhc c) = Some (d', s')"
    and "unat (te_slot_id ev) < xs_n_doorbells s'"
  shows "process_transfer_event L ev c =
    Some (if code = Success \<or> code = ShortPacket
          then c\<lparr>xc_devices := (xc_devices c)\<lparr>dm_infos := (dm_infos (xc_devices c))[unat (te_slot_id ev) := Some d']\<rparr>,
                 xc_xhc := s'\<lparr>xs_doorbells := xs_doorbells s' @ [(unat (te_slot_id ev), te_endpoint_id ev, 0)]\<rparr>\<rparr>
          else c)"
proof (cases "code = Success \<or> code = ShortPacket")
  case True
  let ?n = "unat (te_slot_id ev)" and ?dci = "te_endpoint_id ev" and ?b = "tr_trb_buffer (box_val ring)"
  let ?d1 = "with_ring ?dci (ring\<lparr>box_val := r'\<rparr>) d"
  define C where "C d s = c\<lparr>xc_devices := (xc_devices c)\<lparr>dm_infos := (dm_infos (xc_devices c))[?n := Some d]\<rparr>, xc_xhc := s\<rparr>" for d s
  have n: "?n < length (dm_infos (xc_devices c))" "dm_infos (xc_devices c) ! ?n = Some d"
    using assms(3) by (auto simp: device_at_def device_by_slot_id_def bind_eq_Some_conv rust_simps)
  have dci: "0 < unat ?dci" "unat ?dci - 1 < length (dv_transfer_rings d)"
    using assms(4) by (auto simp: transfer_ring_at_def usub_def bind_eq_Some_conv rust_simps split: if_splits)
  have ptr: "te_trb_pointer ev = of_nat (box_ptr ?b + 16 * p)" by (simp only: assms(5)[symmetric]) simp
  have flip: "flip_cycle_bit_at (lib_trb L) (te_trb_pointer ev) (trb_cycle_bit (lib_trb L) (box_val ?b ! p)) (box_val ring) = Some r'"
    using assms(8) by (simp only: give_back_def ptr)
  have set: "set_transfer_ring_at ?dci (Some (ring\<lparr>box_val := r'\<rparr>)) d = Some ?d1"
    using dci by (simp add: set_transfer_ring_at_def usub_def set_idx_def with_ring_def)
  have dev1: "on_device ?n (set_transfer_ring_at ?dci (Some (ring\<lparr>box_val := r'\<rparr>))) c = Some (C ?d1 (xc_xhc c))"
    using on_device_ok[OF n, of "set_transfer_ring_at ?dci (Some (ring\<lparr>box_val := r'\<rparr>))", OF set] by (simp add: C_def)
  have C: "device_at ?n (C d s) = Some d" "on_device ?n (\<lambda>_. Some d'') (C d s) = Some (C d'' s)" "xc_xhc (C d s) = s" "xc_drivers (C d s) = xc_drivers c"
    "(C d s)\<lparr>xc_xhc := t\<rparr> = C d t" for d d'' s t
    using n(1) by (simp_all add: C_def device_at_def on_device_def device_by_slot_id_def get_idx_def set_idx_def)
  have addr: "device_address (?d1, xc_xhc c) = device_address (d, xc_xhc c)" by (simp add: device_address_def with_ring_def)
  have rep: "hand_report (device_address (d, xc_xhc c)) (load_bytes (unat buffer) (N_IN_TRANSFER_BYTES K) (xc_xhc c)) D ?n (C ?d1 (xc_xhc c)) = Some (C d' s')"
    using assms(10-12) by (simp add: hand_report_def C call_callback_at_def)
  have nrm: "process_normal_trb ?dci ?n buffer (of_nat (N_IN_TRANSFER_BYTES K)) (C ?d1 (xc_xhc c)) = upd_xhc (ring_doorbell ?n ?dci) (C d' s')"
    using assms(9) rep by (auto simp: process_normal_trb_def report_target_def C addr mouse_consts_def)
  have "process_transfer_event L ev c = process_normal_trb ?dci ?n buffer (of_nat (N_IN_TRANSFER_BYTES K)) (C ?d1 (xc_xhc c))"
    using True assms(1-4,7) flip dev1 read_trb_box_slot[OF assms(5,6)]
    by (auto simp: process_transfer_event_def checked_new_def)
  then show ?thesis using True assms(13) nrm by (simp add: upd_xhc_def ring_doorbell_def C) (simp add: C_def)
qed (use assms(1) in \<open>simp add: process_transfer_event_def\<close>)

text \<open>A mouse in slot 1, whose reports come in on the endpoint with index 3.\<close>

definition example_report_libs :: Libs where
  "example_report_libs = example_libs\<lparr>transfer_try_from := (\<lambda>t. Some (NormalTrb 0x8000 3 (trb_cycle_bit example_trb_lib t)))\<rparr>"

definition example_mouse :: "unit device_state InputOnlyDriver" where
  "example_mouse = \<lparr>io_devices = [Some ((InputOnlyDevice_new mouse_consts 0 8 (ep_for_mouse example_usb_lib))\<lparr>id_state := Running\<rparr>)],
     io_callback = (\<lambda>a bs (d, s). Some (d, s\<lparr>xs_user_events := UserEventRing_push
        (UE_InitPortDevice \<lparr>ipd_port_index = 0, ipd_routing = 0, ipd_speed = of_nat (length bs), ipd_parent_hub_slot_id = None, ipd_parent_port_index = None\<rparr>)
        (xs_user_events s)\<rparr>)), io_endpoint_searcher = ep_for_mouse example_usb_lib\<rparr>"

definition example_mouse_device :: DeviceContextInfo where
  "example_mouse_device = with_ring 3 example_ring_box example_device"

definition example_mouse_controller :: "unit Controller" where
  "example_mouse_controller = (example_controller PortConfigureState_new)\<lparr>
     xc_devices := example_manager\<lparr>dm_infos := [None, Some example_mouse_device]\<rparr>,
     xc_drivers := (ClassDriverManager_new example_usb_lib (\<lambda>a b w. Some w) (\<lambda>a b w. Some w))\<lparr>cd_mouse := \<lparr>di_slot_id = Some 1, di_driver = example_mouse\<rparr>\<rparr>\<rparr>"

definition example_report :: TransferEvent where
  "example_report = \<lparr>te_slot_id = 1, te_endpoint_id = 3, te_trb_pointer = 0x1000, te_trb_transfer_length = 0, te_completion_code = Inr Success\<rparr>"

theorem report_reaches_driver_witness:
  "\<exists>c'. process_transfer_event example_report_libs example_report example_mouse_controller = Some c' \<and> xs_doorbells (xc_xhc c') = [(1, 3, 0)]"
proof -
  let ?c = example_mouse_controller and ?r = "box_val example_ring_box" and ?d = example_mouse_device
  have ev: "te_completion_code example_report = Inr Success" "te_endpoint_id example_report < 32" "unat (te_slot_id example_report) = 1"
    "te_endpoint_id example_report = 3" "unat (te_trb_pointer example_report) = box_ptr (tr_trb_buffer ?r) + 16 * 0"
    by (simp_all add: example_report_def example_ring_box_def)
  have dev: "device_at 1 ?c = Some ?d" "transfer_ring_at 3 ?d = Some (Some example_ring_box)"
  proof -
    show "device_at 1 ?c = Some ?d" by (simp add: example_mouse_controller_def device_at_def device_by_slot_id_def get_idx_def)
    have "length (dv_transfer_rings example_device) = 31" by (simp add: example_device_def)
    then show "transfer_ring_at 3 ?d = Some (Some example_ring_box)"
      by (simp add: transfer_ring_at_def usub_def example_mouse_device_def with_ring_def get_idx_def)
  qed
  have rb: "box_val (tr_trb_buffer ?r) = replicate 8 [0, 0, 0, 0]" "tr_cycle_count ?r = 0" "box_ptr (tr_trb_buffer ?r) = 0x1000"
    by (simp_all add: example_ring_box_def)
  obtain r' where gb: "give_back example_trb_lib 0 ?r = Some r'"
    using flip_cycle_bit_at_spec[OF example_trb_lib_ok, of ?r 7 0 "of_nat (box_ptr (tr_trb_buffer ?r) + 16 * 0)"] by (auto simp: give_back_def rb simp del: replicate.simps)
  have lib: "lib_trb example_report_libs = example_trb_lib" "transfer_try_from example_report_libs t = Some (NormalTrb 0x8000 3 (trb_cycle_bit example_trb_lib t))" for t
    by (simp_all add: example_report_libs_def) (simp add: example_libs_def)
  have tgt: "report_target (xc_drivers ?c) 1 mouse_consts example_mouse" "N_IN_TRANSFER_BYTES mouse_consts = 3"
    by (simp_all add: report_target_def driver_kind_def example_mouse_controller_def mouse_consts_def)
  have adr: "device_address (?d, xc_xhc ?c) = 0" "xs_n_doorbells (xc_xhc ?c) = 8" "xs_doorbells (xc_xhc ?c) = []"
    by (simp_all add: device_address_def example_mouse_controller_def example_controller_def example_xhc_def)
  have fnd: "find (has_addr 0) (io_devices example_mouse) = Some (Some ((InputOnlyDevice_new mouse_consts 0 8 (ep_for_mouse example_usb_lib))\<lparr>id_state := Running\<rparr>))"
    by (simp add: example_mouse_def has_addr_def InputOnlyDevice_new_def)
  obtain d' s' where cb: "io_callback example_mouse 0 (load_bytes (unat (0x8000 :: u64)) 3 (xc_xhc ?c)) (with_ring 3 (example_ring_box\<lparr>box_val := r'\<rparr>) ?d, xc_xhc ?c) = Some (d', s')"
    "xs_n_doorbells s' = 8" "xs_doorbells s' = []"
    using adr by (simp add: example_mouse_def)
  have len: "0 < length (box_val (tr_trb_buffer ?r))" by (simp add: rb)
  have ttf: "transfer_try_from example_report_libs (box_val (tr_trb_buffer ?r) ! 0) =
      Some (NormalTrb 0x8000 (of_nat (N_IN_TRANSFER_BYTES mouse_consts)) (trb_cycle_bit (lib_trb example_report_libs) (box_val (tr_trb_buffer ?r) ! 0)))"
    by (simp only: lib tgt(2)) simp
  from report_reaches_driver[OF ev(1,2), unfolded ev(3,4), OF dev ev(5) len ttf gb[folded lib(1)] tgt(1), unfolded tgt(2) adr(1), OF fnd _ cb(1)]
  show ?thesis by (simp add: cb(2,3))
qed

end
