(* ===== verification/Controller_Init.thy ===== *)
theory Controller_Init
  imports Slot_Handling
begin

text \<open>
  The initialisation of the host controller, \<^verbatim>\<open>XhciController::new\<close> and \<^verbatim>\<open>run\<close> of \<^verbatim>\<open>kernel/src/xhci/controller.rs\<close>: taking the controller over from the firmware, resetting it,
  setting up the rings, the array of device contexts and the scratchpad buffers, and enabling interrupts.

  The registers that only this code uses are the record \<open>Regs\<close>. As for the ports, the hardware acts before every read (\<open>rh_env\<close>) and reacts to the writes that have an effect; the checks of
  the crate \<^verbatim>\<open>xhci\<close> on the addresses written are the parameter \<open>RegLib\<close>.
\<close>

section \<open>Registers\<close>

record Usbcmd =
  uc_run_stop :: bool
  uc_host_controller_reset :: bool
  uc_interrupter_enable :: bool
  uc_host_system_error_enable :: bool
  uc_enable_wrap_event :: bool

record Crcr =
  crc_ring_cycle_state :: bool
  crc_command_stop :: bool
  crc_command_abort :: bool
  crc_command_ring_pointer :: u64

record Legsup =
  ls_hc_bios_owned_semaphore :: bool
  ls_hc_os_owned_semaphore :: bool

text \<open>The extended capabilities: a legacy support capability has its register, the other kinds are only logged.\<close>

datatype ExtendedCapability = UsbLegacySupport nat | OtherExtendedCapability

text \<open>\<open>rg_scratchpad\<close> is the leaked array of the scratchpad buffers, which from then on only the hardware reads.\<close>

record 'g Regs =
  rg_extended_capabilities :: "(unit + ExtendedCapability) list option"
  rg_legsup :: "Legsup list"
  rg_number_of_ports :: u8
  rg_number_of_device_slots :: u8
  rg_max_scratchpad_buffers :: u32
  rg_usbcmd :: Usbcmd
  rg_hc_halted :: bool
  rg_controller_not_ready :: bool
  rg_max_device_slots_enabled :: u8
  rg_dcbaap :: u64
  rg_crcr :: Crcr
  rg_interrupt_moderation_interval :: u16
  rg_interrupt_enable :: bool
  rg_scratchpad :: "u64 list Box option"
  rg_hw :: 'g

record 'g RegHw =
  rh_env :: "'g Regs \<Rightarrow> 'g Regs"
  rh_write_usbcmd :: "Usbcmd \<Rightarrow> 'g Regs \<Rightarrow> 'g Regs"
  rh_write_dcbaap :: "u64 \<Rightarrow> 'g Regs \<Rightarrow> 'g Regs"
  rh_write_legsup :: "nat \<Rightarrow> Legsup \<Rightarrow> 'g Regs \<Rightarrow> 'g Regs"

record RegLib =
  rl_link_new :: trb
  rl_dcbaap_accepts :: "u64 \<Rightarrow> bool"
  rl_crcr_accepts :: "u64 \<Rightarrow> bool"

definition update_usbcmd :: "'g RegHw \<Rightarrow> (Usbcmd \<Rightarrow> Usbcmd) \<Rightarrow> 'g Regs \<Rightarrow> 'g Regs" where
  "update_usbcmd R f g = (let g = rh_env R g in rh_write_usbcmd R (f (rg_usbcmd g)) g)"

text \<open>\<^verbatim>\<open>while cond(register.read_volatile()) {}\<close>\<close>

partial_function (option) wait_while_reg :: "'g RegHw \<Rightarrow> ('g Regs \<Rightarrow> bool) \<Rightarrow> 'g Regs \<Rightarrow> 'g Regs option" where
  "wait_while_reg R cond g = (if cond (rh_env R g) then wait_while_reg R cond (rh_env R g) else Some (rh_env R g))"

declare wait_while_reg.simps [code]

section \<open>Taking over and resetting\<close>

definition not_owned :: "nat \<Rightarrow> 'g Regs \<Rightarrow> bool" where
  "not_owned i g =
     (case get_idx (rg_legsup g) i of
        None \<Rightarrow> False
      | Some l \<Rightarrow> ls_hc_bios_owned_semaphore l \<or> \<not> ls_hc_os_owned_semaphore l)"

definition request_hc_ownership :: "'g RegHw \<Rightarrow> nat \<Rightarrow> 'g Regs \<Rightarrow> 'g Regs option" where
  "request_hc_ownership R i g = do {
     let g = rh_env R g;
     l \<leftarrow> get_idx (rg_legsup g) i;
     if ls_hc_os_owned_semaphore l then Some g
     else do {
       let g = rh_env R g;
       l \<leftarrow> get_idx (rg_legsup g) i;
       let g = rh_write_legsup R i (l\<lparr>ls_hc_os_owned_semaphore := True\<rparr>) g;
       wait_while_reg R (not_owned i) g
     }
   }"

definition claim_capabilities :: "'g RegHw \<Rightarrow> 'g Regs \<Rightarrow> 'g Regs option" where
  "claim_capabilities R g =
     (case rg_extended_capabilities g of
        None \<Rightarrow> Some g
      | Some caps \<Rightarrow> for_each caps (\<lambda>cap g.
          case cap of
            Inl _ \<Rightarrow> Some g
          | Inr (UsbLegacySupport i) \<Rightarrow> request_hc_ownership R i g
          | Inr OtherExtendedCapability \<Rightarrow> Some g) g)"

definition reset_controller :: "'g RegHw \<Rightarrow> 'g Regs \<Rightarrow> 'g Regs option" where
  "reset_controller R g = do {
     let g = rh_env R g;
     rassert (rg_hc_halted g);
     let g = update_usbcmd R (\<lambda>c. c\<lparr>uc_host_controller_reset := True\<rparr>) g;
     g \<leftarrow> wait_while_reg R (\<lambda>g. uc_host_controller_reset (rg_usbcmd g)) g;
     wait_while_reg R rg_controller_not_ready g
   }"

definition run_controller :: "'g RegHw \<Rightarrow> 'g Regs \<Rightarrow> 'g Regs option" where
  "run_controller R g = wait_while_reg R rg_hc_halted (update_usbcmd R (\<lambda>c. c\<lparr>uc_run_stop := True\<rparr>) g)"

section \<open>Memory for the controller\<close>

definition MAX_SLOTS :: u8 where "MAX_SLOTS = 10"

text \<open>One scratchpad buffer: a page, given away for good.\<close>

definition alloc_scratchpad_buffer :: "BumpAllocator \<Rightarrow> (BumpAllocator \<times> u64) option" where
  "alloc_scratchpad_buffer a = do {
     (a, r) \<leftarrow> kernel_alloc_with_boundary PAGE_SIZE a PAGE_SIZE PAGE_SIZE;
     (case r of Inl e \<Rightarrow> None | Inr p \<Rightarrow> Some (a, of_nat p))
   }"

definition alloc_scratchpad_buffers :: "usize \<Rightarrow> BumpAllocator \<times> DeviceManager \<Rightarrow> (BumpAllocator \<times> DeviceManager \<times> u64 list Box) option" where
  "alloc_scratchpad_buffers n = (\<lambda>(a, m). do {
     (a, r) \<leftarrow> kernel_alloc_array_with_boundary 8 a n 64 PAGE_SIZE;
     (case r of
        Inl e \<Rightarrow> None
      | Inr (ptr, len) \<Rightarrow> do {
          (a, bufs) \<leftarrow> fill_default alloc_scratchpad_buffer len a;
          m \<leftarrow> set_scratchpad_buffer_array ptr m;
          Some (a, m, \<lparr>box_ptr = ptr, box_val = bufs\<rparr>)
        })
   })"

definition configure_device_context :: "'g RegHw \<Rightarrow> RegLib \<Rightarrow> 'g Regs \<times> 'h Xhc \<Rightarrow> ('g Regs \<times> 'h Xhc \<times> DeviceManager) option" where
  "configure_device_context R K = (\<lambda>(g, s). do {
     let g = rh_env R g;
     let max_device_slots_enabled = min (rg_number_of_device_slots g) MAX_SLOTS;
     let g = (rh_env R g)\<lparr>rg_max_device_slots_enabled := max_device_slots_enabled\<rparr>;
     (s, m) \<leftarrow> DeviceManager_new max_device_slots_enabled s;
     let g = rh_env R g;
     let max_scratchpad_buffers = rg_max_scratchpad_buffers g;
     (g, s, m) \<leftarrow> (if max_scratchpad_buffers > 0 then do {
         (a, m, pads) \<leftarrow> alloc_scratchpad_buffers (unat max_scratchpad_buffers) (xs_alloc s, m);
         Some (g\<lparr>rg_scratchpad := Some pads\<rparr>, s\<lparr>xs_alloc := a\<rparr>, m)
       } else Some (g, s, m));
     let ptr_head = (of_nat (get_device_contexts_head_ptr m) :: u64);
     rassert (rl_dcbaap_accepts K ptr_head);
     let g = rh_write_dcbaap R ptr_head (rh_env R g);
     g \<leftarrow> wait_while_reg R (\<lambda>g. rg_dcbaap g \<noteq> ptr_head) g;
     Some (g, s, m)
   })"

definition register_command_ring :: "'g RegHw \<Rightarrow> RegLib \<Rightarrow> CommandRing \<Rightarrow> 'g Regs \<Rightarrow> 'g Regs option" where
  "register_command_ring R K ring g = do {
     let ptr = (of_nat (box_ptr (cr_trb_buffer ring)) :: u64);
     rassert (rl_crcr_accepts K ptr);
     Some ((rh_env R g)\<lparr>rg_crcr := \<lparr>crc_ring_cycle_state = True, crc_command_stop = True, crc_command_abort = True,
                                     crc_command_ring_pointer = ptr\<rparr>\<rparr>)
   }"

section \<open>The constructor\<close>

definition EVENT_RING_BUF_SIZE :: u16 where "EVENT_RING_BUF_SIZE = 32"
definition COMMAND_RING_BUF_SIZE :: usize where "COMMAND_RING_BUF_SIZE = 32"

text \<open>\<open>s\<close> is the machine before: its heap, its ports and the registers of the interrupter; the rings in it are replaced.\<close>

definition XhciController_new ::
  "Libs \<Rightarrow> 'g RegHw \<Rightarrow> RegLib \<Rightarrow> 'h device_state ClassDriverManager \<Rightarrow> 'g Regs \<times> 'h Xhc \<Rightarrow> ('g Regs \<times> 'h Controller) option"
where
  "XhciController_new L R K C = (\<lambda>(g, s). do {
     g \<leftarrow> claim_capabilities R (rh_env R g);
     let g = rh_env R g;
     let number_of_ports = rg_number_of_ports g;
     let g = update_usbcmd R (\<lambda>c. c\<lparr>uc_interrupter_enable := False, uc_host_system_error_enable := False, uc_enable_wrap_event := False\<rparr>) g;
     g \<leftarrow> reset_controller R g;
     (a, event_ring, intr) \<leftarrow> EventRing_new (lib_trb L) (lib_bits L) (lib_erdp L) (rl_link_new K) (xs_alloc s) EVENT_RING_BUF_SIZE (snd (xs_events s));
     (a, command_ring) \<leftarrow> CommandRing_new a COMMAND_RING_BUF_SIZE;
     g \<leftarrow> register_command_ring R K command_ring g;
     let s = s\<lparr>xs_alloc := a, xs_events := (event_ring, intr), xs_command_ring := command_ring, xs_user_events := UserEventRing_new\<rparr>;
     (g, s, device_manager) \<leftarrow> configure_device_context R K (g, s);
     let g = (rh_env R g)\<lparr>rg_interrupt_moderation_interval := 0\<rparr>;
     let g = (rh_env R g)\<lparr>rg_interrupt_enable := True\<rparr>;
     let g = update_usbcmd R (\<lambda>c. c\<lparr>uc_interrupter_enable := True\<rparr>) g;
     Some (g, \<lparr>xc_devices = device_manager, xc_drivers = C, xc_number_of_ports = number_of_ports, xc_ports = PortConfigureState_new,
               xc_port_slots = (\<lambda>_. None), xc_xhc = s\<rparr>)
   })"

section \<open>Lemmas\<close>

lemma wait_while_reg_exit:
  assumes "wait_while_reg R cond g = Some g'"
  shows "\<not> cond g'"
  by (rule wait_while_reg.raw_induct[OF _ assms, of "\<lambda>_ cond _ g'. \<not> cond g'"]) (auto split: if_splits)

lemma wait_while_reg_ends:
  assumes "\<forall>k < n. cond ((rh_env R ^^ Suc k) g)" "\<not> cond ((rh_env R ^^ Suc n) g)"
  shows "wait_while_reg R cond g = Some ((rh_env R ^^ Suc n) g)"
  using assms
proof (induction n arbitrary: g)
  case 0
  then show ?case by (subst wait_while_reg.simps) simp
next
  case (Suc n)
  from Suc.prems(1) have c: "cond (rh_env R g)" by (auto dest: spec[of _ 0])
  have "\<forall>k < n. cond ((rh_env R ^^ Suc k) (rh_env R g))" using Suc.prems(1) by (auto simp: funpow_swap1 dest: spec[of _ "Suc _"])
  with Suc.IH[of "rh_env R g"] Suc.prems(2) c show ?case by (subst wait_while_reg.simps) (simp add: funpow_swap1)
qed

lemma wait_while_reg_inv:
  assumes "wait_while_reg R cond g = Some g'" "P g" "\<And>g. P g \<Longrightarrow> P (rh_env R g)"
  shows "P g'"
proof -
  let ?Q = "\<lambda>R' _ g g'. R' = R \<longrightarrow> P g \<longrightarrow> P g'"
  have "?Q R cond g g'"
  proof (rule wait_while_reg.raw_induct[of ?Q, OF _ assms(1)])
    fix f R' cond' h y
    assume IH: "\<And>R' cond' h y. f R' cond' h = Some y \<Longrightarrow> ?Q R' cond' h y"
      and run: "(if cond' (rh_env R' h) then f R' cond' (rh_env R' h) else Some (rh_env R' h)) = Some y"
    show "?Q R' cond' h y"
    proof (intro impI)
      assume "R' = R" "P h"
      then have "P (rh_env R' h)" using assms(3) by simp
      with run IH[of R' cond' "rh_env R' h" y] \<open>R' = R\<close> show "P y" by (simp split: if_splits)
    qed
  qed
  with assms(2) show ?thesis by simp
qed

lemma wait_while_reg_result:
  assumes "wait_while_reg R cond g = Some g'"
  shows "\<exists>n. g' = (rh_env R ^^ Suc n) g \<and> \<not> cond g' \<and> (\<forall>k < n. cond ((rh_env R ^^ Suc k) g))"
proof -
  let ?Q = "\<lambda>R cond g g'. \<exists>n. g' = (rh_env R ^^ Suc n) g \<and> \<not> cond g' \<and> (\<forall>k < n. cond ((rh_env R ^^ Suc k) g))"
  show ?thesis
  proof (rule wait_while_reg.raw_induct[of ?Q, OF _ assms])
    fix f R cond h y
    assume IH: "\<And>R cond h y. f R cond h = Some y \<Longrightarrow> ?Q R cond h y"
      and run: "(if cond (rh_env R h) then f R cond (rh_env R h) else Some (rh_env R h)) = Some y"
    show "?Q R cond h y"
    proof (cases "cond (rh_env R h)")
      case True
      with run IH obtain n where n: "y = (rh_env R ^^ Suc n) (rh_env R h)" "\<not> cond y" "\<forall>k < n. cond ((rh_env R ^^ Suc k) (rh_env R h))" by force
      have "cond ((rh_env R ^^ Suc k) h)" if "k < Suc n" for k using n(3) that True by (cases k) (auto simp: funpow_swap1)
      with n(1,2) show ?thesis by (intro exI[of _ "Suc n"]) (simp add: funpow_swap1)
    qed (use run in \<open>auto intro: exI[of _ 0]\<close>)
  qed
qed

lemma wait_while_reg_defined:
  assumes "\<not> cond ((rh_env R ^^ Suc n) g)"
  shows "\<exists>m \<le> n. wait_while_reg R cond g = Some ((rh_env R ^^ Suc m) g)"
proof -
  define m where "m = (LEAST n. \<not> cond ((rh_env R ^^ Suc n) g))"
  have "\<not> cond ((rh_env R ^^ Suc m) g)" "m \<le> n" unfolding m_def using assms by (rule LeastI, rule Least_le)
  moreover have "\<forall>k < m. cond ((rh_env R ^^ Suc k) g)" unfolding m_def using not_less_Least by blast
  ultimately show ?thesis using wait_while_reg_ends by blast
qed

text \<open>C21: \<^verbatim>\<open>reset_controller\<close> returns exactly when the controller is halted at the first read and, after the write of the reset bit, some read finds the bit cleared and a later
  one finds the controller ready: a controller that is running makes it panic, one that never finishes its reset makes it spin for ever, and no other outcome is possible.
\<close>

theorem reset_controller_returns:
  "(\<exists>g'. reset_controller R g = Some g') \<longleftrightarrow>
     rg_hc_halted (rh_env R g) \<and>
     (\<exists>n m. let u = update_usbcmd R (\<lambda>c. c\<lparr>uc_host_controller_reset := True\<rparr>) (rh_env R g) in
        n < m \<and> \<not> uc_host_controller_reset (rg_usbcmd ((rh_env R ^^ Suc n) u)) \<and> \<not> rg_controller_not_ready ((rh_env R ^^ Suc m) u))"
proof -
  define u where "u = update_usbcmd R (\<lambda>c. c\<lparr>uc_host_controller_reset := True\<rparr>) (rh_env R g)"
  let ?hcrst = "\<lambda>g. uc_host_controller_reset (rg_usbcmd g)"
  have run: "reset_controller R g = (if rg_hc_halted (rh_env R g) then Option.bind (wait_while_reg R ?hcrst u) (wait_while_reg R rg_controller_not_ready) else None)"
    by (simp add: reset_controller_def Let_def u_def rassert_def)
  have add: "(rh_env R ^^ Suc m) ((rh_env R ^^ Suc n) u) = (rh_env R ^^ Suc (n + m + 1)) u" for n m
  proof -
    have "Suc (n + m + 1) = Suc m + Suc n" by simp
    then show ?thesis by (simp only: funpow_add comp_apply)
  qed
  show ?thesis
  proof
    assume "\<exists>g'. reset_controller R g = Some g'"
    then obtain g1 g' where h: "rg_hc_halted (rh_env R g)" and w: "wait_while_reg R ?hcrst u = Some g1" "wait_while_reg R rg_controller_not_ready g1 = Some g'"
      by (auto simp: run bind_eq_Some_conv split: if_splits)
    obtain n where n: "g1 = (rh_env R ^^ Suc n) u" "\<not> ?hcrst g1" using wait_while_reg_result[OF w(1)] by blast
    obtain m where m: "g' = (rh_env R ^^ Suc m) g1" "\<not> rg_controller_not_ready g'" using wait_while_reg_result[OF w(2)] by blast
    have "\<not> rg_controller_not_ready ((rh_env R ^^ Suc (n + m + 1)) u)" using m unfolding n(1) add by simp
    with h n show "rg_hc_halted (rh_env R g) \<and> (\<exists>n m. let u = update_usbcmd R (\<lambda>c. c\<lparr>uc_host_controller_reset := True\<rparr>) (rh_env R g) in
        n < m \<and> \<not> ?hcrst ((rh_env R ^^ Suc n) u) \<and> \<not> rg_controller_not_ready ((rh_env R ^^ Suc m) u))"
      unfolding u_def[symmetric] Let_def by (metis less_add_Suc1 add_Suc_right Suc_eq_plus1)
  next
    assume "rg_hc_halted (rh_env R g) \<and> (\<exists>n m. let u = update_usbcmd R (\<lambda>c. c\<lparr>uc_host_controller_reset := True\<rparr>) (rh_env R g) in
        n < m \<and> \<not> ?hcrst ((rh_env R ^^ Suc n) u) \<and> \<not> rg_controller_not_ready ((rh_env R ^^ Suc m) u))"
    then obtain n m where h: "rg_hc_halted (rh_env R g)" "n < m" "\<not> ?hcrst ((rh_env R ^^ Suc n) u)" "\<not> rg_controller_not_ready ((rh_env R ^^ Suc m) u)"
      unfolding u_def[symmetric] Let_def by blast
    obtain k where k: "k \<le> n" "wait_while_reg R ?hcrst u = Some ((rh_env R ^^ Suc k) u)" using wait_while_reg_defined[of ?hcrst n R u] h(3) by blast
    have "\<not> rg_controller_not_ready ((rh_env R ^^ Suc (m - k - 1)) ((rh_env R ^^ Suc k) u))" unfolding add using h(2,4) k(1) by simp
    from wait_while_reg_defined[of rg_controller_not_ready "m - k - 1" R "(rh_env R ^^ Suc k) u", OF this] k(2) h(1) show "\<exists>g'. reset_controller R g = Some g'" by (auto simp: run)
  qed
qed

lemma heap_end_keeps:
  "alloc_with_boundary bump_alloc sz a al b = Some (a', r) \<Longrightarrow> heap_end a' = heap_end a"
  by (auto simp: alloc_with_boundary_def alloc_with_boundary_raw_def bind_eq_Some_conv elim: bump_alloc_cases split: sum.splits)

lemma heap_end_keeps_array:
  "alloc_array_with_boundary bump_alloc sz a n al b = Some (a', r) \<Longrightarrow> heap_end a' = heap_end a"
  by (auto simp: alloc_array_with_boundary_def alloc_with_boundary_raw_def bind_eq_Some_conv case_sum_eq_Some elim: bump_alloc_cases)

lemma heap_end_keeps_default:
  assumes "kernel_alloc_array_with_boundary_with_default_else sz a n al b (\<lambda>a. Some (a, v)) = Some (a', r)"
  shows "heap_end a' = heap_end a"
  using assms
  by (auto simp: kernel_alloc_array_with_boundary_with_default_else_def alloc_array_with_boundary_with_default_else_def fill_default_const
      bind_eq_Some_conv case_sum_eq_Some heap_end_keeps_array)

lemma power_of_two_sizes: "is_power_of_two 262144" "is_power_of_two 65536" "is_power_of_two 4096" "is_power_of_two 8192"
  by code_simp+

lemma CommandRing_new_spec:
  assumes "bump_holds a live" "CommandRing_new a 32 = Some (a', r)"
  shows "bump_holds a' ((box_ptr (cr_trb_buffer r), 512) # live)" "heap_end a' = heap_end a" "64 dvd box_ptr (cr_trb_buffer r)"
    "box_val (cr_trb_buffer r) = replicate 32 [0, 0, 0, 0]" "cr_write_index r = 0" "cr_cycle_bit r"
proof -
  obtain b where run: "kernel_alloc_array_with_boundary_with_default_else 16 a 32 64 262144 (\<lambda>a. Some (a, [0, 0, 0, 0 :: u32])) = Some (a', Inr b)"
    and r: "r = \<lparr>cr_trb_buffer = b, cr_write_index = 0, cr_cycle_bit = True\<rparr>"
    using assms(2) by (auto simp: CommandRing_new_def size_of_TrbRaw_def PAGE_SIZE_def bind_eq_Some_conv rust_simps)
  from kernel_alloc_array_spec[OF assms(1) _ run] power_of_two_sizes
  show "bump_holds a' ((box_ptr (cr_trb_buffer r), 512) # live)" "64 dvd box_ptr (cr_trb_buffer r)"
    "box_val (cr_trb_buffer r) = replicate 32 [0, 0, 0, 0]" by (auto simp: r simp del: replicate.simps)
  show "heap_end a' = heap_end a" using heap_end_keeps_default[OF run] .
  show "cr_write_index r = 0" "cr_cycle_bit r" by (simp_all add: r)
qed

lemma EventRing_new_blocks:
  assumes "bump_holds a live" "EventRing_new T B E link a 32 intr = Some (a', r, intr')"
  shows "bump_holds a' ((box_ptr (er_event_ring_segment_table r), 64) # (box_ptr (er_trb_buffer r), 512) # live)" "heap_end a' = heap_end a"
proof -
  obtain a1 b t where run: "kernel_alloc_array_with_boundary_with_default_else 16 a 32 64 262144 (\<lambda>a. Some (a, trb_with_cycle_bit T False link)) = Some (a1, Inr b)"
    and tab: "kernel_alloc_with_boundary_with_default_else 64 a1 64 65536
        (\<lambda>a. do { e \<leftarrow> Erst_new B (of_nat (box_ptr b)) (of_nat (length (box_val b))); Some (a, e) }) = Some (a', Inr t)"
    and r: "er_trb_buffer r = b" "er_event_ring_segment_table r = t"
    using assms(2) by (auto simp: EventRing_new_def size_of_TrbRaw_def PAGE_SIZE_def bind_eq_Some_conv rust_simps Let_def)
  have b: "bump_holds a1 ((box_ptr b, 512) # live)" using kernel_alloc_array_spec[OF assms(1) _ run] power_of_two_sizes by auto
  show "bump_holds a' ((box_ptr (er_event_ring_segment_table r), 64) # (box_ptr (er_trb_buffer r), 512) # live)"
    using kernel_alloc_box[OF b _ tab] power_of_two_sizes by (simp add: r)
  have "heap_end a' = heap_end a1"
    using tab by (auto simp: kernel_alloc_with_boundary_with_default_else_def alloc_with_boundary_with_default_else_def bind_eq_Some_conv case_sum_eq_Some heap_end_keeps
        split: if_splits)
  then show "heap_end a' = heap_end a" using heap_end_keeps_default[OF run] by simp
qed

lemma DeviceManager_new_spec:
  assumes "bump_holds (xs_alloc s) live" "DeviceManager_new n s = Some (s', m)"
  shows "s' = s\<lparr>xs_alloc := xs_alloc s'\<rparr>" "bump_holds (xs_alloc s') ((box_ptr (dm_contexts m), 8 * (unat n + 1)) # live)"
    "64 dvd box_ptr (dm_contexts m)" "box_val (dm_contexts m) = replicate (unat n + 1) 0" "dm_infos m = replicate (unat n + 1) None" "manager_ok m"
proof -
  obtain a b where run: "kernel_alloc_array_with_boundary_with_default_else 8 (xs_alloc s) (unat n + 1) 64 4096 (\<lambda>a. Some (a, 0 :: u64)) = Some (a, Inr b)"
    and r: "s' = s\<lparr>xs_alloc := a\<rparr>" "m = \<lparr>dm_contexts = b, dm_infos = replicate (unat n + 1) None\<rparr>"
    using assms(2) by (auto simp: DeviceManager_new_def size_of_context_ptr_def PAGE_SIZE_def bind_eq_Some_conv rust_simps)
  have "unat n < 256" using unsigned_less[of n] by simp
  then have "(unat n + 1) * 8 \<le> 4096" by simp
  from kernel_alloc_array_spec[OF assms(1) _ run] power_of_two_sizes(3) this
  have b: "64 dvd box_ptr b" "box_val b = replicate (unat n + 1) 0" "bump_holds a ((box_ptr b, 8 * (unat n + 1)) # live)" by (auto simp: mult.commute)
  show "s' = s\<lparr>xs_alloc := xs_alloc s'\<rparr>" by (simp add: r)
  show "bump_holds (xs_alloc s') ((box_ptr (dm_contexts m), 8 * (unat n + 1)) # live)" using b(3) by (simp add: r)
  show "64 dvd box_ptr (dm_contexts m)" "box_val (dm_contexts m) = replicate (unat n + 1) 0" using b by (simp_all add: r)
  show "dm_infos m = replicate (unat n + 1) None" by (simp add: r)
  show "manager_ok m" using b(2) by (auto simp: manager_ok_def r nth_Cons split: nat.splits)
qed

lemma scratchpad_buffers_spec:
  assumes "bump_holds a live" "fill_default alloc_scratchpad_buffer n a = Some (a', bufs)"
  shows "\<exists>ps. bufs = map of_nat ps \<and> length ps = n \<and> (\<forall>p \<in> set ps. 4096 dvd p) \<and> bump_holds a' (map (\<lambda>p. (p, 4096)) (rev ps) @ live)"
  using assms
proof (induction n arbitrary: a live bufs)
  case (Suc n)
  then obtain a1 x bufs' where al: "alloc_scratchpad_buffer a = Some (a1, x)"
    and rest: "fill_default alloc_scratchpad_buffer n a1 = Some (a', bufs')" "bufs = x # bufs'"
    by (auto simp: bind_eq_Some_conv)
  obtain p where p: "alloc_with_boundary bump_alloc 4096 a 4096 4096 = Some (a1, Inr p)" "x = of_nat p"
    using al by (auto simp: alloc_scratchpad_buffer_def kernel_alloc_with_boundary_def PAGE_SIZE_def bind_eq_Some_conv rust_simps)
  have h: "bump_holds a1 ((p, 4096) # live)" "4096 dvd p" using bump.alloc_with_boundary_ok[OF Suc.prems(1) _ p(1)] power_of_two_sizes(3) by auto
  from Suc.IH[OF h(1) rest(1)] obtain ps where "bufs' = map of_nat ps" "length ps = n" "\<forall>p \<in> set ps. 4096 dvd p"
    "bump_holds a' (map (\<lambda>p. (p, 4096)) (rev ps) @ (p, 4096) # live)" by blast
  with h(2) rest(2) p(2) show ?case by (intro exI[of _ "p # ps"]) simp
qed simp

text \<open>
  What the hardware leaves alone: the capability registers always, and what the driver configured once no reset is in progress.
\<close>

definition capabilities :: "'g Regs \<Rightarrow> (unit + ExtendedCapability) list option \<times> u8 \<times> u8 \<times> u32" where
  "capabilities g = (rg_extended_capabilities g, rg_number_of_ports g, rg_number_of_device_slots g, rg_max_scratchpad_buffers g)"

definition configured :: "'g Regs \<Rightarrow> u8 \<times> u32 \<times> u8 \<times> Crcr \<times> bool \<times> u64 list Box option" where
  "configured g = (rg_number_of_device_slots g, rg_max_scratchpad_buffers g, rg_max_device_slots_enabled g, rg_crcr g, rg_interrupt_enable g, rg_scratchpad g)"

definition in_reset :: "'g Regs \<Rightarrow> bool" where
  "in_reset g \<longleftrightarrow> uc_host_controller_reset (rg_usbcmd g)"

definition regs_keep :: "'g RegHw \<Rightarrow> bool" where
  "regs_keep R \<longleftrightarrow>
     (\<forall>g c i l. capabilities (rh_env R g) = capabilities g \<and> capabilities (rh_write_usbcmd R c g) = capabilities g \<and>
        capabilities (rh_write_legsup R i l g) = capabilities g) \<and>
     (\<forall>g. \<not> in_reset g \<longrightarrow> configured (rh_env R g) = configured g \<and> rg_dcbaap (rh_env R g) = rg_dcbaap g \<and> rg_usbcmd (rh_env R g) = rg_usbcmd g) \<and>
     (\<forall>g c. \<not> in_reset g \<longrightarrow> \<not> uc_host_controller_reset c \<longrightarrow> configured (rh_write_usbcmd R c g) = configured g \<and>
        rg_dcbaap (rh_write_usbcmd R c g) = rg_dcbaap g \<and> rg_usbcmd (rh_write_usbcmd R c g) = c) \<and>
     (\<forall>g p. \<not> in_reset g \<longrightarrow> configured (rh_write_dcbaap R p g) = configured g \<and> rg_usbcmd (rh_write_dcbaap R p g) = rg_usbcmd g)"

lemma regs_keepD:
  assumes "regs_keep R" "\<not> in_reset g"
  shows "configured (rh_env R g) = configured g" "rg_dcbaap (rh_env R g) = rg_dcbaap g" "\<not> in_reset (rh_env R g)" "rg_usbcmd (rh_env R g) = rg_usbcmd g"
    "configured (rh_write_dcbaap R p g) = configured g" "\<not> in_reset (rh_write_dcbaap R p g)"
  using assms by (simp_all add: regs_keep_def in_reset_def)

lemma wait_while_reg_keeps:
  assumes "regs_keep R" "wait_while_reg R cond g = Some g'" "\<not> in_reset g"
  shows "configured g' = configured g" "\<not> in_reset g'"
proof -
  have "\<not> in_reset g' \<and> configured g' = configured g"
    by (rule wait_while_reg_inv[OF assms(2), of "\<lambda>h. \<not> in_reset h \<and> configured h = configured g"]) (use assms(3) regs_keepD[OF assms(1)] in auto)
  then show "configured g' = configured g" "\<not> in_reset g'" by simp_all
qed

lemma wait_while_reg_capabilities:
  assumes "regs_keep R" "wait_while_reg R cond g = Some g'"
  shows "capabilities g' = capabilities g"
  by (rule wait_while_reg_inv[OF assms(2), of "\<lambda>h. capabilities h = capabilities g"]) (use assms(1) in \<open>auto simp: regs_keep_def\<close>)

lemma update_usbcmd_capabilities: "regs_keep R \<Longrightarrow> capabilities (update_usbcmd R f g) = capabilities g"
  by (simp add: update_usbcmd_def regs_keep_def Let_def)

lemma request_hc_ownership_capabilities:
  assumes "regs_keep R" "request_hc_ownership R i g = Some g'"
  shows "capabilities g' = capabilities g"
  using assms(2) wait_while_reg_capabilities[OF assms(1)] assms(1)
  by (auto simp: request_hc_ownership_def Let_def bind_eq_Some_conv regs_keep_def split: if_splits)

lemma claim_capabilities_keeps:
  assumes "regs_keep R" "claim_capabilities R g = Some g'"
  shows "capabilities g' = capabilities g"
proof (cases "rg_extended_capabilities g")
  case (Some caps)
  show ?thesis
    by (rule for_each_preserves[of caps _ g g' "\<lambda>h. capabilities h = capabilities g"])
      (use assms(2) Some request_hc_ownership_capabilities[OF assms(1)] in
        \<open>auto simp: claim_capabilities_def split: sum.splits ExtendedCapability.splits\<close>)
qed (use assms(2) in \<open>simp add: claim_capabilities_def\<close>)

lemma reset_controller_keeps:
  assumes "regs_keep R" "reset_controller R g = Some g'"
  shows "capabilities g' = capabilities g" "\<not> in_reset g'"
proof -
  obtain g1 where w: "wait_while_reg R (\<lambda>g. uc_host_controller_reset (rg_usbcmd g)) (update_usbcmd R (\<lambda>c. c\<lparr>uc_host_controller_reset := True\<rparr>) (rh_env R g)) = Some g1"
    "wait_while_reg R rg_controller_not_ready g1 = Some g'"
    using assms(2) by (auto simp: reset_controller_def Let_def bind_eq_Some_conv rust_simps)
  show "capabilities g' = capabilities g"
    using wait_while_reg_capabilities[OF assms(1) w(1)] wait_while_reg_capabilities[OF assms(1) w(2)] update_usbcmd_capabilities[OF assms(1)] assms(1)
    by (simp add: regs_keep_def)
  show "\<not> in_reset g'" using wait_while_reg_exit[OF w(1)] by (intro wait_while_reg_keeps(2)[OF assms(1) w(2)]) (simp add: in_reset_def)
qed

lemma alloc_scratchpad_buffers_spec:
  assumes "bump_holds a live" "alloc_scratchpad_buffers k (a, m) = Some (a', m', pads)" "k \<le> 512"
  shows "\<exists>ps. pads = \<lparr>box_ptr = box_ptr pads, box_val = map of_nat ps\<rparr> \<and> length ps = k \<and> (\<forall>p \<in> set ps. 4096 dvd p) \<and>
    m' = m\<lparr>dm_contexts := (dm_contexts m)\<lparr>box_val := (box_val (dm_contexts m))[0 := of_nat (box_ptr pads)]\<rparr>\<rparr> \<and>
    bump_holds a' (map (\<lambda>p. (p, 4096)) (rev ps) @ (box_ptr pads, 8 * k) # live)"
proof -
  obtain a1 n bufs where al: "alloc_array_with_boundary bump_alloc 8 a k 64 4096 = Some (a1, Inr (box_ptr pads, n))"
    and f: "fill_default alloc_scratchpad_buffer n a1 = Some (a', bufs)" "box_val pads = bufs"
    and m': "m' = m\<lparr>dm_contexts := (dm_contexts m)\<lparr>box_val := (box_val (dm_contexts m))[0 := of_nat (box_ptr pads)]\<rparr>\<rparr>"
    using assms(2)
    by (auto simp: alloc_scratchpad_buffers_def kernel_alloc_array_with_boundary_def PAGE_SIZE_def set_scratchpad_buffer_array_def bind_eq_Some_conv
        case_sum_eq_Some rust_simps)
  have h: "n = k" "bump_holds a1 ((box_ptr pads, 8 * k) # live)"
    using bump.alloc_array_with_boundary_ok[OF assms(1) _ al] power_of_two_sizes(3) assms(3) by (auto simp: mult.commute)
  from scratchpad_buffers_spec[OF h(2) f(1)] f(2) h(1) m' show ?thesis by (cases pads) auto
qed

text \<open>The array of device contexts and the scratchpad buffers, with the blocks they take: \<open>n\<close> slots and \<open>k\<close> scratchpad buffers.\<close>

definition contexts_ready :: "nat \<Rightarrow> nat \<Rightarrow> 'g Regs \<Rightarrow> DeviceManager \<Rightarrow> (usize \<times> usize) list \<Rightarrow> bool" where
  "contexts_ready n k g m blocks \<longleftrightarrow>
     manager_ok m \<and> dm_infos m = replicate (n + 1) None \<and> 64 dvd box_ptr (dm_contexts m) \<and>
     unat (rg_max_device_slots_enabled g) = n \<and> rg_dcbaap g = of_nat (box_ptr (dm_contexts m)) \<and>
     (if k = 0 then box_val (dm_contexts m) = replicate (n + 1) 0 \<and> blocks = [(box_ptr (dm_contexts m), 8 * (n + 1))]
      else \<exists>pad ps. box_val (dm_contexts m) = of_nat pad # replicate n 0 \<and> rg_scratchpad g = Some \<lparr>box_ptr = pad, box_val = map of_nat ps\<rparr> \<and>
        length ps = k \<and> (\<forall>p \<in> set ps. 4096 dvd p) \<and>
        blocks = map (\<lambda>p. (p, 4096)) (rev ps) @ [(pad, 8 * k), (box_ptr (dm_contexts m), 8 * (n + 1))])"

text \<open>The function with the reads of the registers carried out.\<close>

lemma configure_device_context_eq:
  assumes "regs_keep R" "\<not> in_reset g" "n = min (rg_number_of_device_slots g) 10" "k = rg_max_scratchpad_buffers g"
  obtains g1 where "rg_crcr g1 = rg_crcr g" "rg_max_device_slots_enabled g1 = n" "\<not> in_reset g1" "configure_device_context R K (g, s) =
     Option.bind (DeviceManager_new n s) (\<lambda>(s, m).
     Option.bind (if k > 0 then
         Option.bind (alloc_scratchpad_buffers (unat k) (xs_alloc s, m)) (\<lambda>(a, m, pads). Some (g1\<lparr>rg_scratchpad := Some pads\<rparr>, s\<lparr>xs_alloc := a\<rparr>, m))
       else Some (g1, s, m)) (\<lambda>(g, s, m).
     Option.bind (rassert (rl_dcbaap_accepts K (of_nat (box_ptr (dm_contexts m))))) (\<lambda>_.
     Option.bind (wait_while_reg R (\<lambda>g. rg_dcbaap g \<noteq> of_nat (box_ptr (dm_contexts m))) (rh_write_dcbaap R (of_nat (box_ptr (dm_contexts m))) (rh_env R g)))
       (\<lambda>g. Some (g, s, m)))))"
proof -
  define g1 where "g1 = rh_env R ((rh_env R (rh_env R g))\<lparr>rg_max_device_slots_enabled := n\<rparr>)"
  have e: "configured (rh_env R g) = configured g" "\<not> in_reset (rh_env R g)" "configured (rh_env R (rh_env R g)) = configured g" "\<not> in_reset (rh_env R (rh_env R g))"
    using regs_keepD[OF assms(1)] assms(2) by simp_all
  then have r: "\<not> in_reset ((rh_env R (rh_env R g))\<lparr>rg_max_device_slots_enabled := n\<rparr>)" by (simp add: in_reset_def)
  have g1: "rg_max_scratchpad_buffers g1 = k" "rg_crcr g1 = rg_crcr g" "rg_max_device_slots_enabled g1 = n" "\<not> in_reset g1"
    using regs_keepD(1,3)[OF assms(1) r] e assms(4) by (simp_all add: g1_def configured_def)
  have n: "min (rg_number_of_device_slots (rh_env R g)) 10 = n" using e(1) assms(3) by (simp add: configured_def)
  show ?thesis
    by (rule that[OF g1(2-4)])
      (unfold configure_device_context_def MAX_SLOTS_def Let_def prod.case n get_device_contexts_head_ptr_def g1_def[symmetric] g1(1), rule refl)
qed

lemma configure_device_context_steps:
  assumes "regs_keep R" "\<not> in_reset g" "configure_device_context R K (g, s) = Some (g', s', m)"
    and "n = min (rg_number_of_device_slots g) 10" "k = rg_max_scratchpad_buffers g"
  obtains s1 m1 a2 pads where "DeviceManager_new n s = Some (s1, m1)"
    "if k > 0 then alloc_scratchpad_buffers (unat k) (xs_alloc s1, m1) = Some (a2, m, pads) \<and> rg_scratchpad g' = Some pads else a2 = xs_alloc s1 \<and> m = m1"
    "s' = s1\<lparr>xs_alloc := a2\<rparr>" "rg_dcbaap g' = of_nat (box_ptr (dm_contexts m))" "rg_crcr g' = rg_crcr g" "rg_max_device_slots_enabled g' = n" "\<not> in_reset g'"
proof -
  obtain g1 where g1: "rg_crcr g1 = rg_crcr g" "rg_max_device_slots_enabled g1 = n" "\<not> in_reset g1"
    and run: "configure_device_context R K (g, s) =
     Option.bind (DeviceManager_new n s) (\<lambda>(s, m).
     Option.bind (if k > 0 then
         Option.bind (alloc_scratchpad_buffers (unat k) (xs_alloc s, m)) (\<lambda>(a, m, pads). Some (g1\<lparr>rg_scratchpad := Some pads\<rparr>, s\<lparr>xs_alloc := a\<rparr>, m))
       else Some (g1, s, m)) (\<lambda>(g, s, m).
     Option.bind (rassert (rl_dcbaap_accepts K (of_nat (box_ptr (dm_contexts m))))) (\<lambda>_.
     Option.bind (wait_while_reg R (\<lambda>g. rg_dcbaap g \<noteq> of_nat (box_ptr (dm_contexts m))) (rh_write_dcbaap R (of_nat (box_ptr (dm_contexts m))) (rh_env R g)))
       (\<lambda>g. Some (g, s, m)))))" by (rule configure_device_context_eq[OF assms(1,2,4,5)])
  obtain s1 m1 g2 a2 where m1: "DeviceManager_new n s = Some (s1, m1)"
    and pads: "if k > 0 then \<exists>pads. alloc_scratchpad_buffers (unat k) (xs_alloc s1, m1) = Some (a2, m, pads) \<and> g2 = g1\<lparr>rg_scratchpad := Some pads\<rparr>
            else g2 = g1 \<and> a2 = xs_alloc s1 \<and> m = m1"
    and w: "wait_while_reg R (\<lambda>g. rg_dcbaap g \<noteq> of_nat (box_ptr (dm_contexts m))) (rh_write_dcbaap R (of_nat (box_ptr (dm_contexts m))) (rh_env R g2)) = Some g'"
    and s': "s' = s1\<lparr>xs_alloc := a2\<rparr>"
    using assms(3) unfolding run by (fastforce simp: bind_eq_Some_conv rust_simps split: if_splits)
  have g2: "\<not> in_reset g2" using pads g1(3) by (auto simp: in_reset_def split: if_splits)
  have wd: "rg_dcbaap g' = of_nat (box_ptr (dm_contexts m))" using wait_while_reg_exit[OF w] by simp
  have env2: "\<not> in_reset (rh_env R g2)" "configured (rh_env R g2) = configured g2" using regs_keepD(1,3)[OF assms(1) g2] by simp_all
  have wk: "configured g' = configured g2" "\<not> in_reset g'"
    using wait_while_reg_keeps[OF assms(1) w] regs_keepD(5,6)[OF assms(1) env2(1)] env2(2) by simp_all
  have c2: "rg_crcr g2 = rg_crcr g" "rg_max_device_slots_enabled g2 = n" using pads g1(1,2) by (auto split: if_splits)
  have c': "rg_crcr g' = rg_crcr g" "rg_max_device_slots_enabled g' = n" "rg_scratchpad g' = rg_scratchpad g2" using wk(1) c2 by (simp_all add: configured_def)
  show ?thesis
  proof (cases "k > 0")
    case True
    with pads obtain p where "alloc_scratchpad_buffers (unat k) (xs_alloc s1, m1) = Some (a2, m, p)" "g2 = g1\<lparr>rg_scratchpad := Some p\<rparr>" by auto
    with True c' wd wk(2) s' m1 show ?thesis by (intro that[of s1 m1 a2 p]) simp_all
  next
    case False
    with pads c' wd wk(2) s' m1 show ?thesis by (intro that[of s1 m1 a2 undefined]) simp_all
  qed
qed

lemma configure_device_context_spec:
  assumes "regs_keep R" "\<not> in_reset g" "bump_holds (xs_alloc s) live" "unat (rg_max_scratchpad_buffers g) \<le> 512"
    and "configure_device_context R K (g, s) = Some (g', s', m)"
  shows "\<exists>blocks. contexts_ready (unat (min (rg_number_of_device_slots g) 10)) (unat (rg_max_scratchpad_buffers g)) g' m blocks \<and>
    bump_holds (xs_alloc s') (blocks @ live) \<and> s' = s\<lparr>xs_alloc := xs_alloc s'\<rparr> \<and> rg_crcr g' = rg_crcr g \<and> \<not> in_reset g'"
proof -
  let ?n = "min (rg_number_of_device_slots g) 10" and ?k = "rg_max_scratchpad_buffers g"
  obtain s1 m1 a2 pads where m1: "DeviceManager_new ?n s = Some (s1, m1)"
    and k: "if ?k > 0 then alloc_scratchpad_buffers (unat ?k) (xs_alloc s1, m1) = Some (a2, m, pads) \<and> rg_scratchpad g' = Some pads else a2 = xs_alloc s1 \<and> m = m1"
    and s': "s' = s1\<lparr>xs_alloc := a2\<rparr>" and wd: "rg_dcbaap g' = of_nat (box_ptr (dm_contexts m))"
    and c': "rg_crcr g' = rg_crcr g" "rg_max_device_slots_enabled g' = ?n" and r: "\<not> in_reset g'"
    using configure_device_context_steps[OF assms(1,2,5) refl refl] by metis
  note dm = DeviceManager_new_spec[OF assms(3) m1]
  have s'': "s' = s\<lparr>xs_alloc := xs_alloc s'\<rparr>" using dm(1) s' by (metis (no_types, lifting) Xhc.surjective Xhc.update_convs(1) Xhc.select_convs(1))
  let ?b = "(box_ptr (dm_contexts m1), 8 * (unat ?n + 1))"
  show ?thesis
  proof (cases "unat ?k = 0")
    case True
    then have k0: "a2 = xs_alloc s1" "m = m1" using k by (auto simp: unat_eq_0)
    have "contexts_ready (unat ?n) (unat ?k) g' m [?b]" using dm(3-6) wd c'(2) True k0(2) by (simp add: contexts_ready_def)
    moreover have "bump_holds (xs_alloc s') ([?b] @ live)" using dm(2) s' k0(1) by simp
    ultimately show ?thesis using s'' c'(1) r by blast
  next
    case False
    then have "?k > 0" by (simp add: unat_gt_0 word_neq_0_conv[symmetric])
    with k have al: "alloc_scratchpad_buffers (unat ?k) (xs_alloc s1, m1) = Some (a2, m, pads)" and g2': "rg_scratchpad g' = Some pads" by simp_all
    obtain ps where ps: "pads = \<lparr>box_ptr = box_ptr pads, box_val = map of_nat ps\<rparr>" "length ps = unat ?k" "\<forall>p \<in> set ps. 4096 dvd p"
      "m = m1\<lparr>dm_contexts := (dm_contexts m1)\<lparr>box_val := (box_val (dm_contexts m1))[0 := of_nat (box_ptr pads)]\<rparr>\<rparr>"
      "bump_holds a2 (map (\<lambda>p. (p, 4096)) (rev ps) @ (box_ptr pads, 8 * unat ?k) # ?b # live)"
      using alloc_scratchpad_buffers_spec[OF dm(2) al assms(4)] by blast
    let ?blocks = "map (\<lambda>p. (p, 4096)) (rev ps) @ [(box_ptr pads, 8 * unat ?k), ?b]"
    have "contexts_ready (unat ?n) (unat ?k) g' m ?blocks"
      unfolding contexts_ready_def
    proof (intro conjI)
      show "manager_ok m" using dm(6) ps(4) by (simp add: manager_ok_def)
      show "if unat ?k = 0 then box_val (dm_contexts m) = replicate (unat ?n + 1) 0 \<and> ?blocks = [(box_ptr (dm_contexts m), 8 * (unat ?n + 1))]
        else \<exists>pad qs. box_val (dm_contexts m) = of_nat pad # replicate (unat ?n) 0 \<and> rg_scratchpad g' = Some \<lparr>box_ptr = pad, box_val = map of_nat qs\<rparr> \<and>
          length qs = unat ?k \<and> (\<forall>p \<in> set qs. 4096 dvd p) \<and>
          ?blocks = map (\<lambda>p. (p, 4096)) (rev qs) @ [(pad, 8 * unat ?k), (box_ptr (dm_contexts m), 8 * (unat ?n + 1))]"
        unfolding if_not_P[OF False]
        by (rule exI[of _ "box_ptr pads"], rule exI[of _ ps]) (use ps(1,2,3,4) dm(4) g2' in simp)
    qed (use dm(3,5) wd c'(2) ps(4) in simp_all)
    moreover have "bump_holds (xs_alloc s') (?blocks @ live)" using ps(5) s' by simp
    ultimately show ?thesis using s'' c'(1) r by blast
  qed
qed


text \<open>The last steps of the constructor, which enable the interrupts.\<close>

definition interrupts_on :: "'g RegHw \<Rightarrow> 'g Regs \<Rightarrow> 'g Regs" where
  "interrupts_on R g = update_usbcmd R (\<lambda>c. c\<lparr>uc_interrupter_enable := True\<rparr>)
     ((rh_env R ((rh_env R g)\<lparr>rg_interrupt_moderation_interval := 0\<rparr>))\<lparr>rg_interrupt_enable := True\<rparr>)"

lemma interrupts_on_spec:
  assumes "regs_keep R" "\<not> in_reset g"
  shows "rg_interrupt_enable (interrupts_on R g)" "uc_interrupter_enable (rg_usbcmd (interrupts_on R g))" "rg_dcbaap (interrupts_on R g) = rg_dcbaap g"
    "rg_crcr (interrupts_on R g) = rg_crcr g" "rg_max_device_slots_enabled (interrupts_on R g) = rg_max_device_slots_enabled g"
    "rg_scratchpad (interrupts_on R g) = rg_scratchpad g" "\<not> in_reset (interrupts_on R g)"
proof -
  define h where "h = (rh_env R g)\<lparr>rg_interrupt_moderation_interval := 0\<rparr>"
  define h1 where "h1 = (rh_env R h)\<lparr>rg_interrupt_enable := True\<rparr>"
  have h: "\<not> in_reset h" "rg_dcbaap h = rg_dcbaap g" "configured h = configured g"
    using regs_keepD[OF assms] by (simp_all add: h_def in_reset_def configured_def)
  have h1: "\<not> in_reset h1" "rg_dcbaap h1 = rg_dcbaap g" "rg_interrupt_enable h1" "rg_crcr h1 = rg_crcr g"
    "rg_max_device_slots_enabled h1 = rg_max_device_slots_enabled g" "rg_scratchpad h1 = rg_scratchpad g"
    using regs_keepD[OF assms(1) h(1)] h(2,3) by (simp_all add: h1_def in_reset_def configured_def)
  define h2 where "h2 = rh_env R h1"
  have h2: "\<not> in_reset h2" "rg_dcbaap h2 = rg_dcbaap g" "configured h2 = configured h1"
    using regs_keepD[OF assms(1) h1(1)] h1(2) by (simp_all add: h2_def)
  have on: "interrupts_on R g = rh_write_usbcmd R ((rg_usbcmd h2)\<lparr>uc_interrupter_enable := True\<rparr>) h2"
    by (simp add: interrupts_on_def update_usbcmd_def Let_def h2_def h1_def h_def)
  have "\<not> uc_host_controller_reset ((rg_usbcmd h2)\<lparr>uc_interrupter_enable := True\<rparr>)" using h2(1) by (simp add: in_reset_def)
  then have w: "configured (interrupts_on R g) = configured h2" "rg_dcbaap (interrupts_on R g) = rg_dcbaap h2"
    "rg_usbcmd (interrupts_on R g) = (rg_usbcmd h2)\<lparr>uc_interrupter_enable := True\<rparr>"
    unfolding on using assms(1) h2(1) by (simp_all add: regs_keep_def)
  show "rg_interrupt_enable (interrupts_on R g)" "uc_interrupter_enable (rg_usbcmd (interrupts_on R g))" "rg_dcbaap (interrupts_on R g) = rg_dcbaap g"
    "rg_crcr (interrupts_on R g) = rg_crcr g" "rg_max_device_slots_enabled (interrupts_on R g) = rg_max_device_slots_enabled g"
    "rg_scratchpad (interrupts_on R g) = rg_scratchpad g" "\<not> in_reset (interrupts_on R g)"
    using w h1 h2 by (simp_all add: configured_def in_reset_def)
qed

text \<open>
  A controller as the constructor hands it over: \<open>n\<close> slots and \<open>k\<close> scratchpad buffers, and \<open>live\<close> the blocks that were in use before.
\<close>

definition controller_ready :: "Libs \<Rightarrow> nat \<Rightarrow> nat \<Rightarrow> (usize \<times> usize) list \<Rightarrow> 'g Regs \<Rightarrow> 'h Controller \<Rightarrow> bool" where
  "controller_ready L n k live g c \<longleftrightarrow> (\<exists>blocks. let x = xc_xhc c; ring = xs_command_ring x; events = fst (xs_events x) in
     contexts_ready n k g (xc_devices c) blocks \<and>
     command_queue L x (0, True) [] \<and> length (box_val (cr_trb_buffer ring)) = 32 \<and>
     crc_command_ring_pointer (rg_crcr g) = of_nat (box_ptr (cr_trb_buffer ring)) \<and> crc_ring_cycle_state (rg_crcr g) \<and>
     event_inv (lib_trb L) (lib_bits L) (lib_erdp L) (xs_events x) (0, True) [] \<and> er_popped events = [] \<and>
     bump_holds (xs_alloc x) (blocks @ [(box_ptr (cr_trb_buffer ring), 512),
       (box_ptr (er_event_ring_segment_table events), 64), (box_ptr (er_trb_buffer events), 512)] @ live) \<and>
     xc_ports c = PortConfigureState_new \<and> xc_port_slots c = (\<lambda>_. None) \<and> xs_user_events x = UserEventRing_new \<and>
     rg_interrupt_enable g \<and> uc_interrupter_enable (rg_usbcmd g))"

lemma controller_new_state:
  assumes "regs_keep R" "trb_lib_ok (lib_trb L)" "bit_field_ok (lib_bits L)" "erdp_lib_ok (lib_erdp L)" "length (rl_link_new K) = 4"
    and "bump_holds (xs_alloc s) live" "heap_end (xs_alloc s) < usize_limit" "unat (rg_max_scratchpad_buffers g) \<le> 512"
    and "XhciController_new L R K C (g, s) = Some (g', c)"
  shows "controller_ready L (unat (min (rg_number_of_device_slots g) 10)) (unat (rg_max_scratchpad_buffers g)) live g' c"
    "xs_portsc (xc_xhc c) = xs_portsc s" "xs_hw (xc_xhc c) = xs_hw s" "xs_n_doorbells (xc_xhc c) = xs_n_doorbells s"
    "xc_number_of_ports c = rg_number_of_ports g" "xc_drivers c = C" "\<not> in_reset g'"
proof -
  define h0 where "h0 = rh_env R g"
  obtain g1 g2 a1 e intr a2 ring g3 g4 s4 m where
    cl: "claim_capabilities R h0 = Some g1"
    and rs: "reset_controller R (update_usbcmd R (\<lambda>c. c\<lparr>uc_interrupter_enable := False, uc_host_system_error_enable := False, uc_enable_wrap_event := False\<rparr>) (rh_env R g1)) = Some g2"
    and ev: "EventRing_new (lib_trb L) (lib_bits L) (lib_erdp L) (rl_link_new K) (xs_alloc s) 32 (snd (xs_events s)) = Some (a1, e, intr)"
    and cr: "CommandRing_new a1 32 = Some (a2, ring)"
    and g3: "register_command_ring R K ring g2 = Some g3"
    and cf: "configure_device_context R K (g3, s\<lparr>xs_alloc := a2, xs_events := (e, intr), xs_command_ring := ring, xs_user_events := UserEventRing_new\<rparr>) = Some (g4, s4, m)"
    and out: "g' = interrupts_on R g4" "c = \<lparr>xc_devices = m, xc_drivers = C, xc_number_of_ports = rg_number_of_ports (rh_env R g1), xc_ports = PortConfigureState_new,
        xc_port_slots = (\<lambda>_. None), xc_xhc = s4\<rparr>"
    using assms(9) unfolding XhciController_new_def prod.case Let_def h0_def[symmetric] EVENT_RING_BUF_SIZE_def COMMAND_RING_BUF_SIZE_def interrupts_on_def[symmetric]
    by (auto simp: bind_eq_Some_conv)
  have cap: "capabilities g2 = capabilities g" "capabilities (rh_env R g1) = capabilities g"
    using reset_controller_keeps(1)[OF assms(1) rs] claim_capabilities_keeps[OF assms(1) cl] update_usbcmd_capabilities[OF assms(1)] assms(1)
    by (simp_all add: regs_keep_def h0_def)
  note r2 = reset_controller_keeps(2)[OF assms(1) rs]
  have r3: "\<not> in_reset g3" "rg_number_of_device_slots g3 = rg_number_of_device_slots g" "rg_max_scratchpad_buffers g3 = rg_max_scratchpad_buffers g"
    "crc_command_ring_pointer (rg_crcr g3) = of_nat (box_ptr (cr_trb_buffer ring))" "crc_ring_cycle_state (rg_crcr g3)"
    using g3 regs_keepD(1,3)[OF assms(1) r2] cap(1)
    by (auto simp: register_command_ring_def Let_def bind_eq_Some_conv in_reset_def configured_def capabilities_def)
  note eb = EventRing_new_blocks[OF assms(6) ev] and cb = CommandRing_new_spec[OF EventRing_new_blocks(1)[OF assms(6) ev] cr]
  have einv: "event_inv (lib_trb L) (lib_bits L) (lib_erdp L) (e, intr) (0, True) []" "er_popped e = []"
    using EventRing_new_inv[OF assms(2-6) _ _ ev] eb(2) assms(7) by simp_all
  obtain blocks where b: "contexts_ready (unat (min (rg_number_of_device_slots g) 10)) (unat (rg_max_scratchpad_buffers g)) g4 m blocks"
    "bump_holds (xs_alloc s4) (blocks @ (box_ptr (cr_trb_buffer ring), 512) # (box_ptr (er_event_ring_segment_table e), 64) # (box_ptr (er_trb_buffer e), 512) # live)"
    "s4 = s\<lparr>xs_events := (e, intr), xs_command_ring := ring, xs_user_events := UserEventRing_new, xs_alloc := xs_alloc s4\<rparr>"
    "rg_crcr g4 = rg_crcr g3" "\<not> in_reset g4"
    using configure_device_context_spec[OF assms(1) r3(1) _ _ cf, of "(box_ptr (cr_trb_buffer ring), 512) # (box_ptr (er_event_ring_segment_table e), 64) # (box_ptr (er_trb_buffer e), 512) # live"]
      cb(1) assms(8) r3(2,3) by auto
  note on = interrupts_on_spec[OF assms(1) b(5)]
  have s4: "xs_command_ring s4 = ring" "xs_events s4 = (e, intr)" "xs_user_events s4 = UserEventRing_new" "xs_portsc s4 = xs_portsc s" "xs_hw s4 = xs_hw s"
    "xs_n_doorbells s4 = xs_n_doorbells s"
    by (subst b(3), simp)+
  have "contexts_ready (unat (min (rg_number_of_device_slots g) 10)) (unat (rg_max_scratchpad_buffers g)) g' m blocks"
    using b(1) unfolding contexts_ready_def out(1) on(3,5,6) .
  moreover have "command_queue L s4 (0, True) []"
    using ring_inv_empty[OF assms(2), of 32] cb(4-6) by (simp add: command_queue_def ring_rel_def s4(1) Let_def del: replicate.simps)
  ultimately show "controller_ready L (unat (min (rg_number_of_device_slots g) 10)) (unat (rg_max_scratchpad_buffers g)) live g' c"
    unfolding controller_ready_def using einv b(2,4) s4 cb(4) on(1,2,4) out r3(4,5) by (intro exI[of _ blocks]) (simp add: Let_def del: replicate.simps)
  show "xs_portsc (xc_xhc c) = xs_portsc s" "xs_hw (xc_xhc c) = xs_hw s" "xs_n_doorbells (xc_xhc c) = xs_n_doorbells s"
    "xc_number_of_ports c = rg_number_of_ports g" "xc_drivers c = C" "\<not> in_reset g'"
    using s4 out on(7) cap(2) by (simp_all add: capabilities_def)
qed

text \<open>Starting the controller keeps all of this.\<close>

lemma run_controller_keeps:
  assumes "regs_keep R" "\<not> in_reset g" "run_controller R g = Some g'"
  shows "\<not> rg_hc_halted g'" "controller_ready L n k live g c \<Longrightarrow> controller_ready L n k live g' c"
proof -
  define h where "h = rh_env R g"
  let ?c = "(rg_usbcmd h)\<lparr>uc_run_stop := True\<rparr>"
  have h: "\<not> in_reset h" "configured h = configured g" "rg_dcbaap h = rg_dcbaap g" "rg_usbcmd h = rg_usbcmd g" using regs_keepD[OF assms(1,2)] by (simp_all add: h_def)
  let ?u = "rh_write_usbcmd R ?c h"
  have w: "wait_while_reg R rg_hc_halted ?u = Some g'" using assms(3) by (simp add: run_controller_def update_usbcmd_def Let_def h_def)
  have c: "\<not> uc_host_controller_reset ?c" using h(1) by (simp add: in_reset_def)
  then have u: "configured ?u = configured g" "rg_dcbaap ?u = rg_dcbaap g" "rg_usbcmd ?u = ?c" using assms(1) h by (simp_all add: regs_keep_def)
  then have "\<not> in_reset ?u" using c by (simp add: in_reset_def)
  then have "\<not> in_reset g' \<and> configured g' = configured g \<and> rg_dcbaap g' = rg_dcbaap g \<and> rg_usbcmd g' = ?c"
    by (intro wait_while_reg_inv[OF w, of "\<lambda>x. \<not> in_reset x \<and> configured x = configured g \<and> rg_dcbaap x = rg_dcbaap g \<and> rg_usbcmd x = ?c"])
      (use u regs_keepD[OF assms(1)] in auto)
  then have g': "rg_dcbaap g' = rg_dcbaap g" "rg_crcr g' = rg_crcr g" "rg_max_device_slots_enabled g' = rg_max_device_slots_enabled g" "rg_scratchpad g' = rg_scratchpad g"
    "rg_interrupt_enable g' = rg_interrupt_enable g" "uc_interrupter_enable (rg_usbcmd g') = uc_interrupter_enable (rg_usbcmd g)"
    using h(4) by (simp_all add: configured_def)
  show "\<not> rg_hc_halted g'" using wait_while_reg_exit[OF w] .
  show "controller_ready L n k live g c \<Longrightarrow> controller_ready L n k live g' c" unfolding controller_ready_def contexts_ready_def g' .
qed

definition example_reg_hw :: "unit RegHw" where
  "example_reg_hw = \<lparr>rh_env = (\<lambda>g. if in_reset g then g\<lparr>rg_usbcmd := (rg_usbcmd g)\<lparr>uc_host_controller_reset := False\<rparr>\<rparr> else g\<lparr>rg_controller_not_ready := False\<rparr>),
     rh_write_usbcmd = (\<lambda>c g. g\<lparr>rg_usbcmd := c, rg_hc_halted := \<not> uc_run_stop c\<rparr>), rh_write_dcbaap = (\<lambda>p g. g\<lparr>rg_dcbaap := p\<rparr>),
     rh_write_legsup = (\<lambda>i l g. g\<lparr>rg_legsup := (rg_legsup g)[i := l\<lparr>ls_hc_bios_owned_semaphore := False\<rparr>]\<rparr>)\<rparr>"

definition example_reg_lib :: RegLib where
  "example_reg_lib = \<lparr>rl_link_new = [0, 0, 0, 0x1800], rl_dcbaap_accepts = (\<lambda>p. p AND 63 = 0), rl_crcr_accepts = (\<lambda>p. p AND 63 = 0)\<rparr>"

definition example_regs :: "unit Regs" where
  "example_regs = \<lparr>rg_extended_capabilities = Some [Inr OtherExtendedCapability, Inr (UsbLegacySupport 0)],
     rg_legsup = [\<lparr>ls_hc_bios_owned_semaphore = True, ls_hc_os_owned_semaphore = False\<rparr>], rg_number_of_ports = 2, rg_number_of_device_slots = 64,
     rg_max_scratchpad_buffers = 2,
     rg_usbcmd = \<lparr>uc_run_stop = False, uc_host_controller_reset = False, uc_interrupter_enable = True, uc_host_system_error_enable = False, uc_enable_wrap_event = False\<rparr>,
     rg_hc_halted = True, rg_controller_not_ready = False, rg_max_device_slots_enabled = 0, rg_dcbaap = 0,
     rg_crcr = \<lparr>crc_ring_cycle_state = False, crc_command_stop = False, crc_command_abort = False, crc_command_ring_pointer = 0\<rparr>,
     rg_interrupt_moderation_interval = 4000, rg_interrupt_enable = False, rg_scratchpad = None, rg_hw = ()\<rparr>"

definition example_drivers :: "unit device_state ClassDriverManager" where
  "example_drivers = ClassDriverManager_new example_usb_lib (\<lambda>a b w. Some w) (\<lambda>a b w. Some w)"

definition example_machine :: "unit Xhc" where
  "example_machine = example_xhc\<lparr>xs_alloc := bump_init bump_new 0x100000 0x1000000, xs_portsc := [example_portsc False, example_portsc False]\<rparr>"

lemma example_regs_keep: "regs_keep example_reg_hw"
  by (simp add: regs_keep_def example_reg_hw_def capabilities_def configured_def in_reset_def)

lemma example_machine_ok:
  "trb_lib_ok (lib_trb example_libs)" "bit_field_ok (lib_bits example_libs)" "erdp_lib_ok (lib_erdp example_libs)" "length (rl_link_new example_reg_lib) = 4"
  "bump_holds (xs_alloc example_machine) []" "heap_end (xs_alloc example_machine) < usize_limit" "unat (rg_max_scratchpad_buffers example_regs) \<le> 512"
  using example_trb_lib_ok shift_mask_field_ok example_erdp_lib_ok
  by (simp_all add: example_libs_def example_reg_lib_def example_regs_def)
    (simp_all add: example_machine_def example_xhc_def bump_init_holds, simp add: bump_init_def bump_new_def)

end
