(* ===== verification/Controller_Boot.thy ===== *)
theory Controller_Boot
  imports Controller_Init
begin

text \<open>
  That the constructor of the controller (\<open>Controller_Init\<close>) returns: with enough room in the heap it gets all its blocks, and a controller that behaves as the specification says ends all its
  waiting loops.
\<close>

section \<open>Room in the heap\<close>

text \<open>There are \<open>n\<close> free bytes, and \<open>k\<close> more blocks can be counted.\<close>

definition room :: "nat \<Rightarrow> nat \<Rightarrow> BumpAllocator \<Rightarrow> bool" where
  "room n k a \<longleftrightarrow> 0 < bump_next a \<and> bump_next a + n < heap_end a \<and> heap_end a < usize_limit \<and> n_allocations a + k < usize_limit"

lemma room_less: "room n k a \<Longrightarrow> n' \<le> n \<Longrightarrow> k' \<le> k \<Longrightarrow> room n' k' a"
  by (simp add: room_def)

lemma bump_alloc_room:
  assumes "layout_ok l b" "room (layout_align l + b + layout_size l + n) (Suc k) a"
  shows "\<exists>a' p. bump_alloc a l b = Some (a', p) \<and> p \<noteq> 0 \<and> layout_align l dvd p \<and> p < usize_limit \<and> room n k a'"
proof -
  obtain p e where pe: "align_and_boundary_to (bump_next a) l b = Some (Inr (p, e))"
    using align_and_boundary_to_total[OF assms(1), of "bump_next a"] assms(2) by (auto simp: room_def)
  note spec = align_and_boundary_to_spec[OF assms(1) pe]
  have up: "p < bump_next a + layout_align l + b" by (rule align_and_boundary_to_upper[OF assms(1) pe])
  have "e < heap_end a" "p \<noteq> 0" "0 < e" "e + n < heap_end a" using up spec(2,4) assms(2) by (auto simp: room_def)
  with pe spec assms(2) up show ?thesis by (simp add: bump_alloc_def room_def layout_fits_def)
qed

text \<open>The requests of the controller: a size of at most the boundary, which is at most 256 KiB.\<close>

lemma from_size_align_small:
  assumes "is_power_of_two al" "sz + al \<le> 9223372036854775807"
  shows "from_size_align sz al = Inr \<lparr>layout_size = sz, layout_align = al\<rparr>"
proof -
  have "sz + (al - 1) - (sz + (al - 1)) mod al \<le> sz + (al - 1)" by simp
  then show ?thesis using assms by (simp add: from_size_align_def)
qed

lemma alloc_array_room:
  assumes "is_power_of_two al" "is_power_of_two b" "len * sz \<le> b" "b + al \<le> 9223372036854775807" "room (al + b + len * sz + n) (Suc k) a"
  shows "\<exists>a' p. alloc_array_with_boundary bump_alloc sz a len al b = Some (a', Inr (p, len)) \<and> al dvd p \<and> p < usize_limit \<and> room n k a'"
proof -
  have lo: "layout_ok \<lparr>layout_size = len * sz, layout_align = al\<rparr> b" using assms(1-3) by (simp add: layout_ok_def)
  have fs: "from_size_align (len * sz) al = Inr \<lparr>layout_size = len * sz, layout_align = al\<rparr>" by (rule from_size_align_small) (use assms(1,3,4) in auto)
  have "len * sz < usize_limit" using assms(3,4) by simp
  with bump_alloc_room[OF lo, of n k a] assms(5) fs show ?thesis by (auto simp: alloc_array_with_boundary_def alloc_with_boundary_raw_def)
qed

lemma alloc_box_room:
  assumes "is_power_of_two al" "is_power_of_two b" "sz \<le> b" "b + al \<le> 9223372036854775807" "room (al + b + sz + n) (Suc k) a"
  shows "\<exists>a' p. alloc_with_boundary bump_alloc sz a al b = Some (a', Inr p) \<and> p \<noteq> 0 \<and> al dvd p \<and> p < usize_limit \<and> room n k a'"
proof -
  have lo: "layout_ok \<lparr>layout_size = sz, layout_align = al\<rparr> b" using assms(1-3) by (simp add: layout_ok_def)
  have fs: "from_size_align sz al = Inr \<lparr>layout_size = sz, layout_align = al\<rparr>" by (rule from_size_align_small) (use assms(1,3,4) in auto)
  from bump_alloc_room[OF lo, of n k a] assms(5) fs show ?thesis by (auto simp: alloc_with_boundary_def alloc_with_boundary_raw_def)
qed

lemma default_array_room:
  assumes "is_power_of_two al" "is_power_of_two b" "len * sz \<le> b" "b + al \<le> 9223372036854775807" "room (al + b + len * sz + n) (Suc k) a"
  shows "\<exists>a' p. kernel_alloc_array_with_boundary_with_default_else sz a len al b (\<lambda>a. Some (a, v)) = Some (a', Inr \<lparr>box_ptr = p, box_val = replicate len v\<rparr>) \<and>
    al dvd p \<and> p < usize_limit \<and> room n k a'"
  using alloc_array_room[OF assms]
  by (auto simp: kernel_alloc_array_with_boundary_with_default_else_def alloc_array_with_boundary_with_default_else_def fill_default_const)

lemma power_of_two_64: "is_power_of_two 64"
  by code_simp

lemmas ring_sizes = power_of_two_64 power_of_two_sizes

section \<open>The blocks of the controller\<close>

lemma EventRing_new_returns:
  assumes "bit_field_ok B" "room (328384 + n) (Suc (Suc k)) a"
  shows "\<exists>a' r intr'. EventRing_new T B E link a 32 intr = Some (a', r, intr') \<and> room n k a'"
proof -
  have r0: "room (64 + 262144 + 32 * 16 + (65664 + n)) (Suc (Suc k)) a" by (rule room_less[OF assms(2)]) simp_all
  obtain a1 p where buf: "kernel_alloc_array_with_boundary_with_default_else 16 a 32 64 262144 (\<lambda>a. Some (a, trb_with_cycle_bit T False link)) =
      Some (a1, Inr \<lparr>box_ptr = p, box_val = replicate 32 (trb_with_cycle_bit T False link)\<rparr>)" "64 dvd p" "p < usize_limit" "room (65664 + n) (Suc k) a1"
    using default_array_room[OF ring_sizes(1,2) _ _ r0, of "trb_with_cycle_bit T False link"] by auto
  have r1: "room (64 + 65536 + 64 + n) (Suc k) a1" by (rule room_less[OF buf(4)]) simp_all
  obtain a2 q where tab: "alloc_with_boundary bump_alloc 64 a1 64 65536 = Some (a2, Inr q)" "q \<noteq> 0" "room n k a2"
    using alloc_box_room[OF ring_sizes(1,3) _ _ r1] by auto
  have "take_bit 6 (of_nat p :: u64) = 0"
    using buf(2,3) by (simp add: take_bit_of_nat dvd_def) (auto simp: take_bit_nat_def)
  then obtain e where "Erst_new B (of_nat p) 32 = Some e" using Erst_new_spec[OF assms(1), of "of_nat p" 32] by blast
  with buf(1) tab show ?thesis
    by (simp add: EventRing_new_def size_of_TrbRaw_def PAGE_SIZE_def kernel_alloc_with_boundary_with_default_else_def
        alloc_with_boundary_with_default_else_def Let_def del: replicate.simps)
qed

lemma CommandRing_new_returns:
  assumes "room (262720 + n) (Suc k) a"
  shows "\<exists>a' r. CommandRing_new a 32 = Some (a', r) \<and> 64 dvd box_ptr (cr_trb_buffer r) \<and> box_ptr (cr_trb_buffer r) < usize_limit \<and> room n k a'"
proof -
  have r0: "room (64 + 262144 + 32 * 16 + n) (Suc k) a" by (rule room_less[OF assms]) simp_all
  from default_array_room[OF ring_sizes(1,2) _ _ r0, of "[0, 0, 0, 0 :: u32]"] show ?thesis
    by (auto simp: CommandRing_new_def size_of_TrbRaw_def PAGE_SIZE_def simp del: replicate.simps)
qed

lemma DeviceManager_new_returns:
  assumes "unat m \<le> 10" "room (4248 + n) (Suc k) (xs_alloc s)"
  shows "\<exists>a' b. DeviceManager_new m s = Some (s\<lparr>xs_alloc := a'\<rparr>, \<lparr>dm_contexts = b, dm_infos = replicate (unat m + 1) None\<rparr>) \<and>
    64 dvd box_ptr b \<and> box_ptr b < usize_limit \<and> box_val b = replicate (unat m + 1) 0 \<and> room n k a'"
proof -
  have r0: "room (64 + 4096 + (unat m + 1) * 8 + n) (Suc k) (xs_alloc s)" by (rule room_less[OF assms(2)]) (use assms(1) in simp_all)
  have sz: "(unat m + 1) * 8 \<le> 4096" using assms(1) by simp
  from default_array_room[OF ring_sizes(1,4) sz _ r0, of "0 :: u64"] show ?thesis
    by (auto simp: DeviceManager_new_def size_of_context_ptr_def PAGE_SIZE_def simp del: replicate.simps)
qed

lemma scratchpads_return:
  assumes "room (12288 * m + n) (m + k) a"
  shows "\<exists>a' bufs. fill_default alloc_scratchpad_buffer m a = Some (a', bufs) \<and> room n k a'"
  using assms
proof (induction m arbitrary: a)
  case (Suc m)
  have r0: "room (4096 + 4096 + 4096 + (12288 * m + n)) (Suc (m + k)) a" by (rule room_less[OF Suc.prems]) simp_all
  obtain a1 p where p: "alloc_with_boundary bump_alloc 4096 a 4096 4096 = Some (a1, Inr p)" "room (12288 * m + n) (m + k) a1"
    using alloc_box_room[OF ring_sizes(4,4) _ _ r0] by auto
  from Suc.IH[OF p(2)] p(1) show ?case by (auto simp: alloc_scratchpad_buffer_def kernel_alloc_with_boundary_def PAGE_SIZE_def)
qed auto

lemma alloc_scratchpad_buffers_return:
  assumes "m \<le> 512" "room (8256 + 12288 * m + n) (Suc (m + k)) a" "box_val (dm_contexts d) \<noteq> []"
  shows "\<exists>a' d' pads. alloc_scratchpad_buffers m (a, d) = Some (a', d', pads) \<and> box_ptr (dm_contexts d') = box_ptr (dm_contexts d) \<and> room n k a'"
proof -
  have r0: "room (64 + 4096 + m * 8 + (12288 * m + n)) (Suc (m + k)) a" by (rule room_less[OF assms(2)]) (use assms(1) in simp_all)
  have sz: "m * 8 \<le> 4096" using assms(1) by simp
  obtain a1 p where p: "alloc_array_with_boundary bump_alloc 8 a m 64 4096 = Some (a1, Inr (p, m))" "room (12288 * m + n) (m + k) a1"
    using alloc_array_room[OF ring_sizes(1,4) sz _ r0] by auto
  from scratchpads_return[OF p(2)] p(1) assms(3) show ?thesis
    by (auto simp: alloc_scratchpad_buffers_def kernel_alloc_array_with_boundary_def PAGE_SIZE_def set_scratchpad_buffer_array_def)
qed

section \<open>A controller that answers\<close>

text \<open>
  What a controller does of its own accord, with the firmware that shares it. A controller that is stopped (halted, and neither told to run nor to reset) stays so until it is told to run
  or to reset; the firmware gives the controller up once the operating system asks for it; a reset comes to an end, and after it the controller gets ready; the pointer to the device contexts
  reads back what was written, if it is aligned; and a controller told to run leaves the halted state.
\<close>

definition stopped :: "'g Regs \<Rightarrow> bool" where
  "stopped g \<longleftrightarrow> rg_hc_halted g \<and> \<not> uc_run_stop (rg_usbcmd g) \<and> \<not> in_reset g"

definition stays_stopped :: "'g RegHw \<Rightarrow> bool" where
  "stays_stopped R \<longleftrightarrow> (\<forall>g. stopped g \<longrightarrow> stopped (rh_env R g) \<and> (\<forall>i l. stopped (rh_write_legsup R i l g)) \<and>
     (\<forall>c. \<not> uc_run_stop c \<and> \<not> uc_host_controller_reset c \<longrightarrow> stopped (rh_write_usbcmd R c g)))"

definition firmware_yields :: "'g RegHw \<Rightarrow> bool" where
  "firmware_yields R \<longleftrightarrow>
     (\<forall>g i l. length (rg_legsup (rh_env R g)) = length (rg_legsup g) \<and> length (rg_legsup (rh_write_legsup R i l g)) = length (rg_legsup g)) \<and>
     (\<forall>g i l. i < length (rg_legsup g) \<and> ls_hc_os_owned_semaphore l \<longrightarrow> (\<exists>n. \<not> not_owned i ((rh_env R ^^ Suc n) (rh_write_legsup R i l g))))"

definition reset_ends :: "'g RegHw \<Rightarrow> bool" where
  "reset_ends R \<longleftrightarrow> (\<forall>g c. uc_host_controller_reset c \<longrightarrow> (\<exists>n. \<not> in_reset ((rh_env R ^^ Suc n) (rh_write_usbcmd R c g)))) \<and>
     (\<forall>g. \<not> in_reset g \<longrightarrow> (\<exists>n. \<not> rg_controller_not_ready ((rh_env R ^^ Suc n) g)))"

definition operates :: "'g RegHw \<Rightarrow> bool" where
  "operates R \<longleftrightarrow> (\<forall>g p. \<not> in_reset g \<and> take_bit 6 p = 0 \<longrightarrow> (\<exists>n. rg_dcbaap ((rh_env R ^^ Suc n) (rh_write_dcbaap R p g)) = p)) \<and>
     (\<forall>g c. \<not> in_reset g \<and> uc_run_stop c \<and> \<not> uc_host_controller_reset c \<longrightarrow> (\<exists>n. \<not> rg_hc_halted ((rh_env R ^^ Suc n) (rh_write_usbcmd R c g))))"

definition regs_live :: "'g RegHw \<Rightarrow> bool" where
  "regs_live R \<longleftrightarrow> stays_stopped R \<and> firmware_yields R \<and> reset_ends R \<and> operates R"

text \<open>The crate takes addresses that are aligned to 64 bytes, and its link block has four words.\<close>

definition reg_lib_ok :: "RegLib \<Rightarrow> bool" where
  "reg_lib_ok K \<longleftrightarrow> length (rl_link_new K) = 4 \<and> (\<forall>p. take_bit 6 p = 0 \<longrightarrow> rl_dcbaap_accepts K p \<and> rl_crcr_accepts K p)"

definition legacy_registers :: "'g Regs \<Rightarrow> bool" where
  "legacy_registers g \<longleftrightarrow> (\<forall>caps i. rg_extended_capabilities g = Some caps \<and> Inr (UsbLegacySupport i) \<in> set caps \<longrightarrow> i < length (rg_legsup g))"

lemma stays_stoppedD:
  assumes "regs_live R" "stopped g"
  shows "stopped (rh_env R g)" "stopped (rh_write_legsup R i l g)"
    "\<not> uc_run_stop c \<Longrightarrow> \<not> uc_host_controller_reset c \<Longrightarrow> stopped (rh_write_usbcmd R c g)"
  using assms by (simp_all add: regs_live_def stays_stopped_def)

lemma firmware_yieldsD:
  assumes "regs_live R"
  shows "length (rg_legsup (rh_env R g)) = length (rg_legsup g)" "length (rg_legsup (rh_write_legsup R i l g)) = length (rg_legsup g)"
    "i < length (rg_legsup g) \<Longrightarrow> ls_hc_os_owned_semaphore l \<Longrightarrow> \<exists>n. \<not> not_owned i ((rh_env R ^^ Suc n) (rh_write_legsup R i l g))"
  using assms by (simp_all add: regs_live_def firmware_yields_def)

lemma wait_while_reg_returns:
  assumes "\<exists>n. \<not> cond ((rh_env R ^^ Suc n) g)"
  obtains g' where "wait_while_reg R cond g = Some g'"
  using assms wait_while_reg_defined[of cond _ R g] by blast

section \<open>The constructor returns\<close>

lemma request_hc_ownership_returns:
  assumes "regs_live R" "stopped g" "i < length (rg_legsup g)"
  shows "\<exists>g'. request_hc_ownership R i g = Some g' \<and> stopped g' \<and> length (rg_legsup g') = length (rg_legsup g)"
proof -
  note len = firmware_yieldsD(1,2)[OF assms(1)] and st = stays_stoppedD[OF assms(1)]
  let ?e = "rh_env R g" and ?ee = "rh_env R (rh_env R g)"
  show ?thesis
  proof (cases "ls_hc_os_owned_semaphore (rg_legsup ?e ! i)")
    case True
    then show ?thesis using assms(2,3) len st by (simp add: request_hc_ownership_def get_idx_def)
  next
    case False
    let ?w = "rh_write_legsup R i ((rg_legsup ?ee ! i)\<lparr>ls_hc_os_owned_semaphore := True\<rparr>) ?ee"
    obtain g' where w: "wait_while_reg R (not_owned i) ?w = Some g'"
      by (rule wait_while_reg_returns[of "not_owned i" R ?w]) (rule firmware_yieldsD(3)[OF assms(1)], use assms(3) len in simp_all)
    have "stopped g' \<and> length (rg_legsup g') = length (rg_legsup g)"
      by (rule wait_while_reg_inv[OF w, of "\<lambda>h. stopped h \<and> length (rg_legsup h) = length (rg_legsup g)"]) (use assms(2) len st in auto)
    then show ?thesis using False w assms(3) len by (simp add: request_hc_ownership_def get_idx_def)
  qed
qed

lemma claim_capabilities_returns:
  assumes "regs_live R" "stopped g" "legacy_registers g"
  shows "\<exists>g'. claim_capabilities R g = Some g' \<and> stopped g'"
proof (cases "rg_extended_capabilities g")
  case None
  then show ?thesis using assms(2) by (simp add: claim_capabilities_def)
next
  case (Some caps)
  let ?f = "\<lambda>cap g. case cap of Inl _ \<Rightarrow> Some g | Inr (UsbLegacySupport i) \<Rightarrow> request_hc_ownership R i g | Inr OtherExtendedCapability \<Rightarrow> Some g"
  let ?P = "\<lambda>h. stopped h \<and> length (rg_legsup h) = length (rg_legsup g)"
  have "\<exists>h'. ?f cap h = Some h' \<and> ?P h'" if "cap \<in> set caps" "?P h" for cap h
    using that request_hc_ownership_returns[OF assms(1), of h] assms(3) Some by (auto simp: legacy_registers_def split: sum.splits ExtendedCapability.splits)
  from for_each_inv[of ?P g caps ?f, OF _ this] assms(2) Some show ?thesis by (auto simp: claim_capabilities_def)
qed

lemma reset_controller_returns_stopped:
  assumes "regs_live R" "stopped g"
  obtains g' where "reset_controller R g = Some g'"
proof -
  define u where "u = update_usbcmd R (\<lambda>c. c\<lparr>uc_host_controller_reset := True\<rparr>) (rh_env R g)"
  have re: "\<exists>n. \<not> uc_host_controller_reset (rg_usbcmd ((rh_env R ^^ Suc n) u))"
    using assms(1) by (simp add: regs_live_def reset_ends_def in_reset_def u_def update_usbcmd_def Let_def)
  obtain g1 where w1: "wait_while_reg R (\<lambda>g. uc_host_controller_reset (rg_usbcmd g)) u = Some g1" by (rule wait_while_reg_returns[OF re])
  have "\<exists>n. \<not> rg_controller_not_ready ((rh_env R ^^ Suc n) g1)"
    using assms(1) wait_while_reg_exit[OF w1] by (simp add: regs_live_def reset_ends_def in_reset_def)
  then obtain g2 where w2: "wait_while_reg R rg_controller_not_ready g1 = Some g2" by (rule wait_while_reg_returns)
  have "rg_hc_halted (rh_env R g)" using stays_stoppedD(1)[OF assms] by (simp add: stopped_def)
  with w1 w2 that show ?thesis by (simp add: reset_controller_def u_def[symmetric])
qed

lemma aligned_address: "64 dvd p \<Longrightarrow> take_bit 6 (of_nat p :: u64) = 0"
  by (auto simp: take_bit_of_nat dvd_def take_bit_nat_def)

lemma configure_device_context_returns:
  assumes "regs_keep R" "regs_live R" "reg_lib_ok K" "\<not> in_reset g" "unat (rg_max_scratchpad_buffers g) \<le> 512"
    and "room (12504 + 12288 * unat (rg_max_scratchpad_buffers g) + n) (unat (rg_max_scratchpad_buffers g) + 2 + k) (xs_alloc s)"
  shows "\<exists>g' s' m. configure_device_context R K (g, s) = Some (g', s', m) \<and> room n k (xs_alloc s')"
proof -
  let ?n = "min (rg_number_of_device_slots g) 10" and ?k = "rg_max_scratchpad_buffers g"
  obtain g1 where g1: "\<not> in_reset g1" and run: "configure_device_context R K (g, s) =
     Option.bind (DeviceManager_new ?n s) (\<lambda>(s, m).
     Option.bind (if ?k > 0 then
         Option.bind (alloc_scratchpad_buffers (unat ?k) (xs_alloc s, m)) (\<lambda>(a, m, pads). Some (g1\<lparr>rg_scratchpad := Some pads\<rparr>, s\<lparr>xs_alloc := a\<rparr>, m))
       else Some (g1, s, m)) (\<lambda>(g, s, m).
     Option.bind (rassert (rl_dcbaap_accepts K (of_nat (box_ptr (dm_contexts m))))) (\<lambda>_.
     Option.bind (wait_while_reg R (\<lambda>g. rg_dcbaap g \<noteq> of_nat (box_ptr (dm_contexts m))) (rh_write_dcbaap R (of_nat (box_ptr (dm_contexts m))) (rh_env R g)))
       (\<lambda>g. Some (g, s, m)))))" by (rule configure_device_context_eq[OF assms(1,4) refl refl])
  have n10: "unat ?n \<le> 10" by (simp add: min_def word_le_nat_alt)
  have r0: "room (4248 + (8256 + 12288 * unat ?k + n)) (Suc (Suc (unat ?k + k))) (xs_alloc s)" by (rule room_less[OF assms(6)]) simp_all
  obtain a b where dm: "DeviceManager_new ?n s = Some (s\<lparr>xs_alloc := a\<rparr>, \<lparr>dm_contexts = b, dm_infos = replicate (unat ?n + 1) None\<rparr>)"
    "64 dvd box_ptr b" "box_val b = replicate (unat ?n + 1) 0" "room (8256 + 12288 * unat ?k + n) (Suc (unat ?k + k)) a"
    using DeviceManager_new_returns[OF n10 r0] by blast
  let ?m = "\<lparr>dm_contexts = b, dm_infos = replicate (unat ?n + 1) None\<rparr>"
  obtain a2 m2 pads where al: "alloc_scratchpad_buffers (unat ?k) (a, ?m) = Some (a2, m2, pads)" "box_ptr (dm_contexts m2) = box_ptr b" "room n k a2"
    using alloc_scratchpad_buffers_return[OF assms(5) dm(4), of ?m] dm(3) by auto
  have ends: "\<exists>g'. wait_while_reg R (\<lambda>g. rg_dcbaap g \<noteq> of_nat (box_ptr b)) (rh_write_dcbaap R (of_nat (box_ptr b)) (rh_env R h)) = Some g'" if "\<not> in_reset h" for h
  proof -
    have "\<not> in_reset (rh_env R h)" using regs_keepD(3)[OF assms(1) that] .
    then have "\<exists>n. \<not> rg_dcbaap ((rh_env R ^^ Suc n) (rh_write_dcbaap R (of_nat (box_ptr b)) (rh_env R h))) \<noteq> of_nat (box_ptr b)"
      using assms(2) aligned_address[OF dm(2)] by (simp add: regs_live_def operates_def)
    then show ?thesis by (rule wait_while_reg_returns) blast
  qed
  have acc: "rl_dcbaap_accepts K (of_nat (box_ptr b))" using assms(3) aligned_address[OF dm(2)] by (simp add: reg_lib_ok_def)
  show ?thesis
  proof (cases "?k > 0")
    case True
    have "\<not> in_reset (g1\<lparr>rg_scratchpad := Some pads\<rparr>)" using g1 by (simp add: in_reset_def)
    from ends[OF this] True al acc dm(1) show ?thesis unfolding run by auto
  next
    case False
    have "room n k a" by (rule room_less[OF dm(4)]) simp_all
    with ends[OF g1] False acc dm(1) show ?thesis unfolding run by auto
  qed
qed

text \<open>The heap the constructor needs: rings, tables, and the scratchpad buffers with their array.\<close>

definition controller_heap :: "nat \<Rightarrow> nat" where
  "controller_heap k = 603608 + 12288 * k"

lemma XhciController_new_returns:
  assumes "regs_keep R" "regs_live R" "reg_lib_ok K" "bit_field_ok (lib_bits L)" "stopped g" "legacy_registers g" "unat (rg_max_scratchpad_buffers g) \<le> 512"
    and "room (controller_heap (unat (rg_max_scratchpad_buffers g)) + n) (unat (rg_max_scratchpad_buffers g) + 5 + k) (xs_alloc s)"
  shows "\<exists>g' c. XhciController_new L R K C (g, s) = Some (g', c) \<and> room n k (xs_alloc (xc_xhc c))"
proof -
  let ?k = "unat (rg_max_scratchpad_buffers g)"
  have e: "legacy_registers (rh_env R g)"
    using assms(1,6) firmware_yieldsD(1)[OF assms(2)] by (simp add: legacy_registers_def regs_keep_def capabilities_def)
  obtain g1 where cl: "claim_capabilities R (rh_env R g) = Some g1" "stopped g1"
    using claim_capabilities_returns[OF assms(2) stays_stoppedD(1)[OF assms(2,5)] e] by blast
  define u where "u = update_usbcmd R (\<lambda>c. c\<lparr>uc_interrupter_enable := False, uc_host_system_error_enable := False, uc_enable_wrap_event := False\<rparr>) (rh_env R g1)"
  have e1: "stopped (rh_env R (rh_env R g1))" using stays_stoppedD(1)[OF assms(2) stays_stoppedD(1)[OF assms(2) cl(2)]] .
  have u: "stopped u" unfolding u_def update_usbcmd_def Let_def by (rule stays_stoppedD(3)[OF assms(2) e1]) (use e1 in \<open>simp_all add: stopped_def in_reset_def\<close>)
  obtain g2 where rs: "reset_controller R u = Some g2" by (rule reset_controller_returns_stopped[OF assms(2) u])
  have g2: "capabilities g2 = capabilities g" "\<not> in_reset g2"
    using reset_controller_keeps[OF assms(1) rs] claim_capabilities_keeps[OF assms(1) cl(1)] update_usbcmd_capabilities[OF assms(1)] assms(1)
    by (simp_all add: regs_keep_def u_def)
  have r0: "room (328384 + (275224 + 12288 * ?k + n)) (Suc (Suc (?k + 3 + k))) (xs_alloc s)" by (rule room_less[OF assms(8)]) (simp_all add: controller_heap_def)
  obtain a1 er intr where ev: "EventRing_new (lib_trb L) (lib_bits L) (lib_erdp L) (rl_link_new K) (xs_alloc s) 32 (snd (xs_events s)) = Some (a1, er, intr)"
    and r1: "room (275224 + 12288 * ?k + n) (?k + 3 + k) a1" using EventRing_new_returns[OF assms(4) r0] by blast
  have r1': "room (262720 + (12504 + 12288 * ?k + n)) (Suc (?k + 2 + k)) a1" by (rule room_less[OF r1]) simp_all
  obtain a2 ring where cr: "CommandRing_new a1 32 = Some (a2, ring)" "64 dvd box_ptr (cr_trb_buffer ring)" and r2: "room (12504 + 12288 * ?k + n) (?k + 2 + k) a2"
    using CommandRing_new_returns[OF r1'] by blast
  define g3 where "g3 = (rh_env R g2)\<lparr>rg_crcr := \<lparr>crc_ring_cycle_state = True, crc_command_stop = True, crc_command_abort = True,
      crc_command_ring_pointer = of_nat (box_ptr (cr_trb_buffer ring))\<rparr>\<rparr>"
  have reg: "register_command_ring R K ring g2 = Some g3"
    using assms(3) aligned_address[OF cr(2)] by (simp add: register_command_ring_def reg_lib_ok_def g3_def)
  have g3: "\<not> in_reset g3" "rg_max_scratchpad_buffers g3 = rg_max_scratchpad_buffers g"
    using regs_keepD(1,3)[OF assms(1) g2(2)] g2(1) by (simp_all add: g3_def in_reset_def configured_def capabilities_def)
  let ?s = "s\<lparr>xs_alloc := a2, xs_events := (er, intr), xs_command_ring := ring, xs_user_events := UserEventRing_new\<rparr>"
  obtain g4 s4 m where cf: "configure_device_context R K (g3, ?s) = Some (g4, s4, m)" "room n k (xs_alloc s4)"
    using configure_device_context_returns[OF assms(1-3) g3(1), of n k ?s] g3(2) assms(7) r2 by auto
  show ?thesis
    unfolding XhciController_new_def prod.case Let_def EVENT_RING_BUF_SIZE_def COMMAND_RING_BUF_SIZE_def
    using cl(1) rs ev cr(1) reg cf by (simp add: u_def)
qed

lemma run_controller_returns:
  assumes "regs_keep R" "regs_live R" "\<not> in_reset g"
  obtains g' where "run_controller R g = Some g'"
proof -
  have "\<not> in_reset (rh_env R g)" using regs_keepD(3)[OF assms(1,3)] .
  then have "\<exists>n. \<not> rg_hc_halted ((rh_env R ^^ Suc n) (update_usbcmd R (\<lambda>c. c\<lparr>uc_run_stop := True\<rparr>) g))"
    using assms(2) by (simp add: regs_live_def operates_def update_usbcmd_def Let_def in_reset_def)
  then show ?thesis by (rule wait_while_reg_returns) (simp add: that run_controller_def)
qed

lemma controller_started:
  assumes "regs_keep R" "regs_live R" "reg_lib_ok K" "trb_lib_ok (lib_trb L)" "bit_field_ok (lib_bits L)" "erdp_lib_ok (lib_erdp L)"
    and "stopped g" "legacy_registers g" "unat (rg_max_scratchpad_buffers g) = k" "k \<le> 512"
    and "bump_holds (xs_alloc s) live" "room (controller_heap k) (k + 5) (xs_alloc s)"
  obtains g1 g' c where "XhciController_new L R K C (g, s) = Some (g1, c)" "run_controller R g1 = Some g'"
    "controller_ready L (unat (min (rg_number_of_device_slots g) 10)) k live g' c" "\<not> rg_hc_halted g'"
    "xs_portsc (xc_xhc c) = xs_portsc s" "xs_hw (xc_xhc c) = xs_hw s" "xc_number_of_ports c = rg_number_of_ports g" "xc_drivers c = C"
proof -
  have k: "unat (rg_max_scratchpad_buffers g) \<le> 512" using assms(9,10) by simp
  obtain g1 c where new: "XhciController_new L R K C (g, s) = Some (g1, c)"
    using XhciController_new_returns[OF assms(1-3,5,7,8) k, where n = 0 and k = 0 and s = s and C = C] assms(9,12) by auto
  have h: "length (rl_link_new K) = 4" "heap_end (xs_alloc s) < usize_limit" using assms(3,12) by (simp_all add: reg_lib_ok_def room_def)
  note st = controller_new_state[OF assms(1,4-6) h(1) assms(11) h(2) k new]
  obtain g' where run: "run_controller R g1 = Some g'" by (rule run_controller_returns[OF assms(1,2) st(7)])
  note going = run_controller_keeps[OF assms(1) st(7) run]
  show ?thesis using that[OF new run] going(1) going(2)[OF st(1)] st(2,3,5,6) assms(9) by simp
qed

text \<open>C16: On a heap with enough room, and with a controller that is stopped and answers as the specification says, \<^verbatim>\<open>XhciController::new\<close> returns, and so does \<^verbatim>\<open>run\<close>: no allocation
  fails, no address is refused and every waiting loop ends. What they hand over: the array of device contexts has an entry for every slot enabled (at most ten) and the scratchpad entry in
  front, the controller knows its address (\<^verbatim>\<open>DCBAAP\<close>), every scratchpad buffer it asks for is a page of its own; the command ring is empty and the controller's command pointer and cycle
  state are at its beginning; the event ring is consistent, with no event in it; all these blocks are disjoint from each other and from every block that was live before; no port is being
  configured, no slot is in use, both the interrupter and the controller have interrupts enabled, and the controller is running.
\<close>

theorem controller_starts:
  assumes "regs_keep R" "regs_live R" "reg_lib_ok K" "trb_lib_ok (lib_trb L)" "bit_field_ok (lib_bits L)" "erdp_lib_ok (lib_erdp L)"
    and "stopped g" "legacy_registers g" "unat (rg_max_scratchpad_buffers g) = k" "k \<le> 512"
    and "bump_holds (xs_alloc s) live" "room (controller_heap k) (k + 5) (xs_alloc s)"
  shows "\<exists>g1 g' c. XhciController_new L R K C (g, s) = Some (g1, c) \<and> run_controller R g1 = Some g' \<and>
    controller_ready L (unat (min (rg_number_of_device_slots g) 10)) k live g' c \<and> \<not> rg_hc_halted g' \<and>
    xs_portsc (xc_xhc c) = xs_portsc s \<and> xc_number_of_ports c = rg_number_of_ports g"
  using controller_started[OF assms] by blast

lemma example_regs_live: "regs_live example_reg_hw"
  unfolding regs_live_def
proof (intro conjI)
  let ?e = "rh_env example_reg_hw"
  show "stays_stopped example_reg_hw" by (simp add: stays_stopped_def stopped_def in_reset_def example_reg_hw_def)
  have n: "\<exists>n. P ((?e ^^ Suc n) g)" if "P (?e g)" for P :: "unit Regs \<Rightarrow> bool" and g using that by (intro exI[of _ 0]) simp
  show "firmware_yields example_reg_hw"
    unfolding firmware_yields_def by (intro conjI allI impI n) (auto simp: example_reg_hw_def not_owned_def get_idx_def)
  show "reset_ends example_reg_hw"
    unfolding reset_ends_def
  proof (intro conjI allI impI)
    show "\<exists>n. \<not> in_reset ((?e ^^ Suc n) (rh_write_usbcmd example_reg_hw c g))" for g c by (rule n) (simp add: example_reg_hw_def in_reset_def)
    show "\<exists>n. \<not> rg_controller_not_ready ((?e ^^ Suc n) g)" if "\<not> in_reset g" for g using that by (intro n) (simp add: example_reg_hw_def)
  qed
  show "operates example_reg_hw" unfolding operates_def by (intro conjI allI impI n) (auto simp: example_reg_hw_def in_reset_def)
qed

lemma example_machine_starts:
  "reg_lib_ok example_reg_lib" "stopped example_regs" "legacy_registers example_regs" "room (controller_heap 2) 7 (xs_alloc example_machine)"
  "unat (rg_max_scratchpad_buffers example_regs) = 2" "unat (min (rg_number_of_device_slots example_regs) 10) = 10"
proof -
  show "reg_lib_ok example_reg_lib" by (auto simp: reg_lib_ok_def example_reg_lib_def take_bit_eq_mask mask_eq_exp_minus_1)
  show "stopped example_regs" "legacy_registers example_regs" by (auto simp: stopped_def in_reset_def legacy_registers_def example_regs_def)
  show "room (controller_heap 2) 7 (xs_alloc example_machine)" by (simp add: room_def controller_heap_def example_machine_def example_xhc_def bump_init_def bump_new_def)
  show "unat (rg_max_scratchpad_buffers example_regs) = 2" "unat (min (rg_number_of_device_slots example_regs) 10) = 10" by (simp_all add: example_regs_def)
qed

theorem controller_starts_witness:
  "\<exists>g1 g' c. XhciController_new example_libs example_reg_hw example_reg_lib example_drivers (example_regs, example_machine) = Some (g1, c) \<and>
     run_controller example_reg_hw g1 = Some g' \<and> controller_ready example_libs 10 2 [] g' c \<and> \<not> rg_hc_halted g'"
  using controller_starts[OF example_regs_keep example_regs_live example_machine_starts(1) example_machine_ok(1-3) example_machine_starts(2,3,5) _ example_machine_ok(5),
      where C = example_drivers] example_machine_starts(4,6) by auto

end
