(* ===== verification/Pci.thy ===== *)
theory Pci
  imports Bit_Field
begin

text \<open>
  The PCI bus: configuration addresses, device functions and the bus scan of \<^verbatim>\<open>kernel/src/pci/register.rs\<close>.

  The machine's side of configuration mechanism 1 is the record \<open>Ports\<close>: the address register behind port
  \<^verbatim>\<open>0xcf8\<close> and the configuration space it selects from, which the data port \<^verbatim>\<open>0xcfc\<close> reads and writes.
\<close>

section \<open>Configuration addresses\<close>

type_synonym PciConfigAddress = u32

definition PciConfigAddress_new :: "u8 \<Rightarrow> u8 \<Rightarrow> u8 \<Rightarrow> u8 \<Rightarrow> PciConfigAddress" where
  "PciConfigAddress_new bus device func register =
     (let address = 0;
          address = address OR push_bit 31 1;
          address = address OR push_bit 16 (ucast bus);
          address = address OR push_bit 11 (ucast device);
          address = address OR push_bit 8 (ucast func);
          address = address OR ucast (register AND 0xfc)
      in address)"

text \<open>The register offset is computed in \<^verbatim>\<open>u8\<close>; below six it does not overflow.\<close>

definition new_from_bar_index :: "u8 \<Rightarrow> u8 \<Rightarrow> u8 \<Rightarrow> u8 \<Rightarrow> PciConfigAddress option" where
  "new_from_bar_index bus device func bar_index =
     (if 6 \<le> bar_index then None else Some (PciConfigAddress_new bus device func (0x10 + bar_index * 4)))"

section \<open>The ports\<close>

type_synonym config_space = "PciConfigAddress \<Rightarrow> u32"

record Ports =
  config_address :: u32
  config_data :: config_space

definition write_address :: "PciConfigAddress \<Rightarrow> Ports \<Rightarrow> Ports" where
  "write_address a p = p\<lparr>config_address := a\<rparr>"

definition read_data_raw :: "Ports \<Rightarrow> u32" where
  "read_data_raw p = config_data p (config_address p)"

definition write_data_raw :: "u32 \<Rightarrow> Ports \<Rightarrow> Ports" where
  "write_data_raw v p = p\<lparr>config_data := (config_data p)(config_address p := v)\<rparr>"

definition port_read_data :: "PciConfigAddress \<Rightarrow> Ports \<Rightarrow> Ports \<times> u32" where
  "port_read_data a p = (let p = write_address a p in (p, read_data_raw p))"

text \<open>A read only changes the address register, which every access sets first, so the clients see a function
  from addresses to data.\<close>

definition read_data :: "config_space \<Rightarrow> PciConfigAddress \<Rightarrow> u32" where
  "read_data cfg a = snd (port_read_data a \<lparr>config_address = 0, config_data = cfg\<rparr>)"

lemma read_data_eq [simp]: "read_data cfg a = cfg a"
  by (simp add: read_data_def port_read_data_def write_address_def read_data_raw_def)

lemma port_read_data_eq: "port_read_data a p = (p\<lparr>config_address := a\<rparr>, read_data (config_data p) a)"
  by (simp add: port_read_data_def write_address_def read_data_raw_def)

section \<open>Identification registers\<close>

record ClassCode =
  class_base :: u8
  class_sub :: u8
  class_interface :: u8

definition ClassCode_from_raw :: "u32 \<Rightarrow> ClassCode" where
  "ClassCode_from_raw raw =
     \<lparr>class_base = ucast (drop_bit 24 raw AND 0xff), class_sub = ucast (drop_bit 16 raw AND 0xff),
      class_interface = ucast (drop_bit 8 raw AND 0xff)\<rparr>"

definition ClassCode_new :: "config_space \<Rightarrow> u8 \<Rightarrow> u8 \<Rightarrow> u8 \<Rightarrow> ClassCode" where
  "ClassCode_new cfg bus device func = ClassCode_from_raw (read_data cfg (PciConfigAddress_new bus device func 0x08))"

definition ClassCode_matches :: "ClassCode \<Rightarrow> u8 \<Rightarrow> u8 \<Rightarrow> u8 \<Rightarrow> bool" where
  "ClassCode_matches c base sub interface \<longleftrightarrow> class_base c = base \<and> class_sub c = sub \<and> class_interface c = interface"

definition is_xhci_controller :: "ClassCode \<Rightarrow> bool" where
  "is_xhci_controller c = ClassCode_matches c 0x0c 0x03 0x30"

type_synonym HeaderType = u8

definition HeaderType_from_raw :: "u32 \<Rightarrow> HeaderType" where
  "HeaderType_from_raw raw = ucast (drop_bit 16 raw AND 0xff)"

definition HeaderType_new :: "config_space \<Rightarrow> u8 \<Rightarrow> u8 \<Rightarrow> u8 \<Rightarrow> HeaderType" where
  "HeaderType_new cfg bus device func = HeaderType_from_raw (read_data cfg (PciConfigAddress_new bus device func 0x0c))"

definition is_generic_device :: "HeaderType \<Rightarrow> bool" where "is_generic_device h \<longleftrightarrow> h = 0"
definition is_pci_to_pci_bridge :: "HeaderType \<Rightarrow> bool" where "is_pci_to_pci_bridge h \<longleftrightarrow> h = 1"
definition is_multi_function :: "HeaderType \<Rightarrow> bool" where "is_multi_function h \<longleftrightarrow> h AND 0x80 \<noteq> 0"

type_synonym DeviceId = u16
type_synonym VendorId = u16

definition DeviceId_from_raw :: "u32 \<Rightarrow> DeviceId" where
  "DeviceId_from_raw raw = ucast (drop_bit 16 raw)"

definition VendorId_from_raw :: "u32 \<Rightarrow> VendorId" where
  "VendorId_from_raw raw = ucast raw"

definition VendorId_new :: "config_space \<Rightarrow> u8 \<Rightarrow> u8 \<Rightarrow> u8 \<Rightarrow> VendorId" where
  "VendorId_new cfg bus device func = VendorId_from_raw (read_data cfg (PciConfigAddress_new bus device func 0))"

definition vendor_is_valid :: "VendorId \<Rightarrow> bool" where "vendor_is_valid v \<longleftrightarrow> v \<noteq> 0xffff"
definition vendor_is_intel :: "VendorId \<Rightarrow> bool" where "vendor_is_intel v \<longleftrightarrow> v = 0x8086"

definition BusNumber_new :: "config_space \<Rightarrow> u8 \<Rightarrow> u8 \<Rightarrow> u8 \<Rightarrow> u32" where
  "BusNumber_new cfg bus device func = read_data cfg (PciConfigAddress_new bus device func 0x18)"

definition secondary_bus_number :: "u32 \<Rightarrow> u8" where
  "secondary_bus_number raw = ucast (drop_bit 8 raw)"

section \<open>Device functions\<close>

record PciDevice =
  pd_vendor_id :: VendorId
  pd_device_id :: DeviceId
  pd_class_code :: ClassCode
  pd_header_type :: HeaderType
  pd_bus :: u8
  pd_device :: u8
  pd_function :: u8

definition PciDevice_new :: "config_space \<Rightarrow> u8 \<Rightarrow> u8 \<Rightarrow> u8 \<Rightarrow> PciDevice" where
  "PciDevice_new cfg bus device func =
     (let raw_data = read_data cfg (PciConfigAddress_new bus device func 0) in
      \<lparr>pd_vendor_id = VendorId_from_raw raw_data, pd_device_id = DeviceId_from_raw raw_data,
       pd_class_code = ClassCode_new cfg bus device func, pd_header_type = HeaderType_new cfg bus device func,
       pd_bus = bus, pd_device = device, pd_function = func\<rparr>)"

definition is_standard_pci_pci_bridge :: "PciDevice \<Rightarrow> bool" where
  "is_standard_pci_pci_bridge d \<longleftrightarrow> class_base (pd_class_code d) = 0x06 \<and> class_sub (pd_class_code d) = 0x04"

definition read_configuration_space :: "config_space \<Rightarrow> PciDevice \<Rightarrow> u8 \<Rightarrow> u32" where
  "read_configuration_space cfg d addr =
     read_data cfg (PciConfigAddress_new (pd_bus d) (pd_device d) (pd_function d) addr)"

definition write_conf_reg :: "PciDevice \<Rightarrow> u8 \<Rightarrow> u32 \<Rightarrow> config_space \<Rightarrow> config_space" where
  "write_conf_reg d reg_addr v cfg =
     config_data (write_data_raw v (write_address (PciConfigAddress_new (pd_bus d) (pd_device d) (pd_function d) reg_addr)
       \<lparr>config_address = 0, config_data = cfg\<rparr>))"

definition read_bar :: "config_space \<Rightarrow> PciDevice \<Rightarrow> u8 \<Rightarrow> u64 option" where
  "read_bar cfg d bar_index = do {
     a \<leftarrow> new_from_bar_index (pd_bus d) (pd_device d) (pd_function d) bar_index;
     let bar = read_data cfg a;
     if drop_bit 1 bar AND 3 = 0 then Some (ucast bar)
     else do {
       a \<leftarrow> new_from_bar_index (pd_bus d) (pd_device d) (pd_function d) (bar_index + 1);
       let bar_upper = read_data cfg a;
       Some (ucast bar OR push_bit 32 (ucast bar_upper))
     }
   }"

definition read_capabilities_pointer :: "config_space \<Rightarrow> PciDevice \<Rightarrow> u8 option" where
  "read_capabilities_pointer cfg d = do {
     rassert (is_generic_device (pd_header_type d) \<or> is_pci_to_pci_bridge (pd_header_type d));
     let raw_data = read_data cfg (PciConfigAddress_new (pd_bus d) (pd_device d) (pd_function d) 0x34);
     Some (ucast (raw_data AND 0xff))
   }"

section \<open>The scan\<close>

text \<open>
  The scan recurses through the bridges. The recursion is not bounded in the source: \<open>fuel\<close> bounds the depth of
  nested buses, and \<open>None\<close> means that it was not enough. \<open>scan\<close> is the recursive call.
\<close>

definition scan_function ::
  "(u8 \<Rightarrow> PciDevice list \<Rightarrow> PciDevice list option) \<Rightarrow> config_space \<Rightarrow> u8 \<Rightarrow> u8 \<Rightarrow> u8 \<Rightarrow> PciDevice list \<Rightarrow> PciDevice list option"
where
  "scan_function scan cfg bus device func devices = do {
     let pci_device = PciDevice_new cfg bus device func;
     devices \<leftarrow> (if is_standard_pci_pci_bridge pci_device
                  then scan (secondary_bus_number (BusNumber_new cfg bus device func)) devices
                  else Some devices);
     Some (if vendor_is_valid (pd_vendor_id pci_device) then devices @ [pci_device] else devices)
   }"

definition scan_device ::
  "(u8 \<Rightarrow> PciDevice list \<Rightarrow> PciDevice list option) \<Rightarrow> config_space \<Rightarrow> u8 \<Rightarrow> u8 \<Rightarrow> PciDevice list \<Rightarrow> PciDevice list option"
where
  "scan_device scan cfg bus device devices =
     (if is_multi_function (HeaderType_new cfg bus device 0)
      then for_each (map of_nat [0..<8]) (\<lambda>func. scan_function scan cfg bus device func) devices
      else scan_function scan cfg bus device 0 devices)"

primrec scan_bus :: "nat \<Rightarrow> config_space \<Rightarrow> u8 \<Rightarrow> PciDevice list \<Rightarrow> PciDevice list option" where
  "scan_bus 0 cfg bus devices = None"
| "scan_bus (Suc fuel) cfg bus devices =
     for_each (map of_nat [0..<32]) (\<lambda>device devices.
       if vendor_is_valid (VendorId_new cfg bus device 0)
       then scan_device (scan_bus fuel cfg) cfg bus device devices
       else Some devices) devices"

definition scan_all_bus :: "nat \<Rightarrow> config_space \<Rightarrow> PciDevice list option" where
  "scan_all_bus fuel cfg =
     (if \<not> is_multi_function (HeaderType_new cfg 0 0 0) then scan_bus fuel cfg 0 []
      else for_each (map of_nat [1..<8]) (\<lambda>func devices.
        if vendor_is_valid (VendorId_new cfg 0 0 func) then scan_bus fuel cfg func devices else Some devices) [])"

text \<open>The choice of the xHCI device in \<^verbatim>\<open>init_xhci_controller\<close>: Intel's first, any other otherwise.\<close>

definition find_xhci_device :: "PciDevice list \<Rightarrow> PciDevice option" where
  "find_xhci_device devices =
     (case List.find (\<lambda>d. is_xhci_controller (pd_class_code d) \<and> vendor_is_intel (pd_vendor_id d)) devices of
        Some d \<Rightarrow> Some d
      | None \<Rightarrow> List.find (\<lambda>d. is_xhci_controller (pd_class_code d)) devices)"

definition xhc_mmio_base :: "config_space \<Rightarrow> PciDevice \<Rightarrow> u64 option" where
  "xhc_mmio_base cfg d = do {
     xhc_bar \<leftarrow> read_bar cfg d 0;
     Some (xhc_bar AND 0xfffffffffffffff0)
   }"

section \<open>Lemmas\<close>

text \<open>The functions a scan of one bus looks at, and those behind its bridges.\<close>

definition scanned :: "config_space \<Rightarrow> u8 \<Rightarrow> u8 \<Rightarrow> u8 \<Rightarrow> bool" where
  "scanned cfg b d f \<longleftrightarrow> d < 32 \<and> f < 8 \<and> vendor_is_valid (VendorId_new cfg b d 0) \<and>
     (f = 0 \<or> is_multi_function (HeaderType_new cfg b d 0))"

definition secondary_of :: "config_space \<Rightarrow> u8 \<Rightarrow> u8 \<Rightarrow> u8 \<Rightarrow> u8" where
  "secondary_of cfg b d f = secondary_bus_number (BusNumber_new cfg b d f)"

definition bridge_at :: "config_space \<Rightarrow> u8 \<Rightarrow> u8 \<Rightarrow> u8 \<Rightarrow> bool" where
  "bridge_at cfg b d f \<longleftrightarrow> is_standard_pci_pci_bridge (PciDevice_new cfg b d f)"

definition bridge_to :: "config_space \<Rightarrow> u8 \<Rightarrow> u8 \<Rightarrow> bool" where
  "bridge_to cfg b c \<longleftrightarrow> (\<exists>d f. scanned cfg b d f \<and> bridge_at cfg b d f \<and> c = secondary_of cfg b d f)"

definition valid_at :: "config_space \<Rightarrow> u8 \<Rightarrow> u8 \<Rightarrow> u8 \<Rightarrow> bool" where
  "valid_at cfg b d f \<longleftrightarrow> vendor_is_valid (pd_vendor_id (PciDevice_new cfg b d f))"

definition devices_below :: "config_space \<Rightarrow> u8 \<Rightarrow> PciDevice set" where
  "devices_below cfg b = {PciDevice_new cfg c d f | c d f. (bridge_to cfg)\<^sup>*\<^sup>* b c \<and> scanned cfg c d f \<and> valid_at cfg c d f}"

definition functions_on :: "config_space \<Rightarrow> u8 \<Rightarrow> (u8 \<times> u8) list" where
  "functions_on cfg b = concat (map (\<lambda>d.
     if vendor_is_valid (VendorId_new cfg b d 0)
     then (if is_multi_function (HeaderType_new cfg b d 0) then map (Pair d) (map of_nat [0..<8]) else [(d, 0)]) else [])
     (map of_nat [0..<32]))"

lemma u8_upto:
  assumes "n < 256"
  shows "set (map of_nat [0..<n]) = {w :: u8. w < of_nat n}"
proof -
  have n: "unat (of_nat n :: u8) = n" using assms by (simp add: unat_of_nat)
  have "w \<in> of_nat ` {0..<n} \<longleftrightarrow> unat w < n" for w :: u8
  proof
    assume "w \<in> of_nat ` {0..<n}"
    then show "unat w < n" using assms by (auto simp: unat_of_nat)
  next
    assume "unat w < n"
    then show "w \<in> of_nat ` {0..<n}" by (intro image_eqI[of _ _ "unat w"]) auto
  qed
  then show ?thesis by (auto simp: word_less_nat_alt n)
qed

lemma functions_on_iff: "(d, f) \<in> set (functions_on cfg b) \<longleftrightarrow> scanned cfg b d f"
proof -
  have "set (map of_nat [0..<32]) = {w :: u8. w < 32}" "set (map of_nat [0..<8]) = {w :: u8. w < 8}"
    using u8_upto[of 32] u8_upto[of 8] by simp_all
  moreover have "(0 :: u8) < 8" by simp
  ultimately show ?thesis
    unfolding functions_on_def scanned_def set_concat set_map by (auto split: if_splits)
qed

lemma scan_bus_functions:
  "scan_bus (Suc fuel) cfg b = for_each (functions_on cfg b) (\<lambda>(d, f). scan_function (scan_bus fuel cfg) cfg b d f)"
proof -
  have "(\<lambda>d devices. if vendor_is_valid (VendorId_new cfg b d 0) then scan_device (scan_bus fuel cfg) cfg b d devices else Some devices) =
      (\<lambda>d. for_each (if vendor_is_valid (VendorId_new cfg b d 0)
         then (if is_multi_function (HeaderType_new cfg b d 0) then map (Pair d) (map of_nat [0..<8]) else [(d, 0)]) else [])
         (\<lambda>(d, f). scan_function (scan_bus fuel cfg) cfg b d f))"
    by (auto simp: fun_eq_iff scan_device_def for_each_map split: bind_split)
  then show ?thesis
    unfolding functions_on_def for_each_concat by (simp add: fun_eq_iff for_each_map)
qed

lemma for_each_collects:
  assumes "for_each xs f s = Some s'" "\<And>x s s'. x \<in> set xs \<Longrightarrow> f x s = Some s' \<Longrightarrow> set s' = set s \<union> A x"
  shows "set s' = set s \<union> (\<Union>x \<in> set xs. A x)"
  using assms
proof (induction xs arbitrary: s)
  case (Cons x xs)
  from Cons.prems(1) obtain t where "f x s = Some t" "for_each xs f t = Some s'" by (auto simp: bind_eq_Some_conv)
  moreover from this(1) have "set t = set s \<union> A x" by (rule Cons.prems(2)[rotated]) simp
  moreover have "set s' = set t \<union> (\<Union>x \<in> set xs. A x)"
    by (rule Cons.IH[OF \<open>for_each xs f t = Some s'\<close>]) (use Cons.prems(2) in simp)
  ultimately show ?case by auto
qed simp

lemma devices_below_unfold:
  "devices_below cfg b = (\<Union>(d, f) \<in> {(d, f). scanned cfg b d f}.
     (if bridge_at cfg b d f then devices_below cfg (secondary_of cfg b d f) else {}) \<union>
     (if valid_at cfg b d f then {PciDevice_new cfg b d f} else {}))"
proof -
  have "x \<in> devices_below cfg b \<longleftrightarrow> (\<exists>d f. scanned cfg b d f \<and>
      (bridge_at cfg b d f \<and> x \<in> devices_below cfg (secondary_of cfg b d f) \<or> valid_at cfg b d f \<and> x = PciDevice_new cfg b d f))" for x
  proof
    assume "x \<in> devices_below cfg b"
    then obtain c d f where c: "(bridge_to cfg)\<^sup>*\<^sup>* b c" "scanned cfg c d f" "valid_at cfg c d f" "x = PciDevice_new cfg c d f"
      by (auto simp: devices_below_def)
    from c(1) show "\<exists>d f. scanned cfg b d f \<and>
      (bridge_at cfg b d f \<and> x \<in> devices_below cfg (secondary_of cfg b d f) \<or> valid_at cfg b d f \<and> x = PciDevice_new cfg b d f)"
    proof (cases rule: converse_rtranclpE)
      case base
      with c show ?thesis by blast
    next
      case (step y)
      then obtain d' f' where "scanned cfg b d' f'" "bridge_at cfg b d' f'" "y = secondary_of cfg b d' f'" by (auto simp: bridge_to_def)
      moreover have "x \<in> devices_below cfg y" using step(2) c by (auto simp: devices_below_def)
      ultimately show ?thesis by blast
    qed
  next
    assume "\<exists>d f. scanned cfg b d f \<and>
      (bridge_at cfg b d f \<and> x \<in> devices_below cfg (secondary_of cfg b d f) \<or> valid_at cfg b d f \<and> x = PciDevice_new cfg b d f)"
    then obtain d f where df: "scanned cfg b d f"
      and "bridge_at cfg b d f \<and> x \<in> devices_below cfg (secondary_of cfg b d f) \<or> valid_at cfg b d f \<and> x = PciDevice_new cfg b d f" by blast
    then show "x \<in> devices_below cfg b"
    proof (elim disjE conjE)
      assume "bridge_at cfg b d f" "x \<in> devices_below cfg (secondary_of cfg b d f)"
      moreover from this df have "bridge_to cfg b (secondary_of cfg b d f)" by (auto simp: bridge_to_def)
      ultimately show ?thesis by (auto simp: devices_below_def intro: converse_rtranclp_into_rtranclp)
    next
      assume "valid_at cfg b d f" "x = PciDevice_new cfg b d f"
      with df show ?thesis unfolding devices_below_def by blast
    qed
  qed
  moreover have "x \<in> (if P then A else {}) \<longleftrightarrow> P \<and> x \<in> A" for x P and A :: "PciDevice set" by simp
  ultimately show ?thesis by (intro set_eqI) (simp add: split_beta del: if_image_distrib split del: if_split)
qed

lemma scan_bus_set:
  assumes "scan_bus fuel cfg b devs = Some devs'"
  shows "set devs' = set devs \<union> devices_below cfg b"
  using assms
proof (induction fuel arbitrary: b devs devs')
  case (Suc fuel)
  let ?A = "\<lambda>(d, f). (if bridge_at cfg b d f then devices_below cfg (secondary_of cfg b d f) else {}) \<union>
     (if valid_at cfg b d f then {PciDevice_new cfg b d f} else {})"
  have "set devs' = set devs \<union> (\<Union>x \<in> set (functions_on cfg b). ?A x)"
  proof (rule for_each_collects[OF Suc.prems[unfolded scan_bus_functions]])
    fix x s s'
    assume "(case x of (d, f) \<Rightarrow> scan_function (scan_bus fuel cfg) cfg b d f) s = Some s'"
    with Suc.IH show "set s' = set s \<union> ?A x"
      by (cases x) (auto simp: scan_function_def bridge_at_def valid_at_def secondary_of_def Let_def bind_eq_Some_conv split: if_splits)
  qed
  moreover have "set (functions_on cfg b) = {(d, f). scanned cfg b d f}" using functions_on_iff by auto
  ultimately show ?case by (simp add: devices_below_unfold[of cfg b])
qed simp

lemma scan_bus_terminates:
  assumes "\<forall>b c. bridge_to cfg b c \<longrightarrow> rank c < (rank b :: nat)" "rank b < fuel"
  shows "\<exists>devs'. scan_bus fuel cfg b devs = Some devs'"
  using assms(2)
proof (induction fuel arbitrary: b devs)
  case (Suc fuel)
  have "\<exists>s'. for_each (functions_on cfg b) (\<lambda>(d, f). scan_function (scan_bus fuel cfg) cfg b d f) devs = Some s' \<and> True"
  proof (rule for_each_inv)
    fix x s
    assume "x \<in> set (functions_on cfg b)"
    moreover obtain d f where "x = (d, f)" by (cases x)
    ultimately have x: "x = (d, f)" "scanned cfg b d f" using functions_on_iff[of d f cfg b] by simp_all
    have "\<exists>t. scan_bus fuel cfg (secondary_of cfg b d f) s = Some t" if "bridge_at cfg b d f"
    proof (rule Suc.IH)
      have "bridge_to cfg b (secondary_of cfg b d f)" using that x by (auto simp: bridge_to_def)
      with assms(1) Suc.prems show "rank (secondary_of cfg b d f) < fuel" by force
    qed
    then show "\<exists>s'. (case x of (d, f) \<Rightarrow> scan_function (scan_bus fuel cfg) cfg b d f) s = Some s' \<and> True"
      by (auto simp: x scan_function_def bridge_at_def secondary_of_def Let_def)
  qed simp
  then show ?case by (simp add: scan_bus_functions del: scan_bus.simps)
qed simp

lemma config_address_bits:
  "bit (PciConfigAddress_new bus device func reg) k \<longleftrightarrow> k < 32 \<and> (k = 31 \<or> (16 \<le> k \<and> bit bus (k - 16)) \<or>
     (11 \<le> k \<and> bit device (k - 11)) \<or> (8 \<le> k \<and> bit func (k - 8)) \<or> bit (reg AND 0xfc) k)"
proof -
  have "bit (((((0 OR push_bit 31 1) OR push_bit 16 (ucast bus)) OR push_bit 11 (ucast device)) OR push_bit 8 (ucast func)) OR ucast r :: u32) k
    \<longleftrightarrow> k < 32 \<and> (k = 31 \<or> (16 \<le> k \<and> bit bus (k - 16)) \<or> (11 \<le> k \<and> bit device (k - 11)) \<or> (8 \<le> k \<and> bit func (k - 8)) \<or> bit r k)"
    for r :: u8
  proof -
    have top31: "bit (push_bit 31 1 :: u32) k \<longleftrightarrow> k = 31" unfolding bit_push_bit_iff bit_1_iff by auto
    show ?thesis unfolding bit_or_iff top31 by (auto simp: bit_push_bit_iff bit_ucast_iff dest: bit_imp_le_length)
  qed
  from this[of "reg AND 0xfc"] show ?thesis unfolding PciConfigAddress_new_def Let_def .
qed

lemma config_address_register: "ucast (PciConfigAddress_new bus device func reg) = reg AND 0xfc"
  by (rule bit_word_eqI) (simp add: bit_ucast_iff config_address_bits)

section \<open>Properties\<close>

text \<open>C32: The bus scan is complete and exact: on a machine with a single-function host bridge and without bridge cycles, it ends
  (with fuel above the depth of the bus tree) and finds precisely the device functions with a valid vendor that the
  scan rules reach on bus 0 and on every bus behind a bridge.\<close>

theorem pci_scan_complete:
  assumes "\<forall>b c. bridge_to cfg b c \<longrightarrow> rank c < (rank b :: nat)" "rank 0 < fuel"
    and "\<not> is_multi_function (HeaderType_new cfg 0 0 0)"
  shows "\<exists>devs. scan_all_bus fuel cfg = Some devs \<and> set devs = devices_below cfg 0"
proof -
  from scan_bus_terminates[OF assms(1,2)] obtain devs where d: "scan_bus fuel cfg 0 [] = Some devs" by blast
  from scan_bus_set[OF this] d assms(3) show ?thesis by (simp add: scan_all_bus_def)
qed

definition example_config :: config_space where
  "example_config a = (if a = 0x80000000 then 0x12378086 else if a = 0x80000008 then 0x06000000
     else if a = 0x8000000c then 0 else 0xffffffff)"

theorem pci_scan_complete_witness:
  "\<exists>devs. scan_all_bus 1 example_config = Some devs \<and> set devs = devices_below example_config 0"
proof (rule pci_scan_complete[where rank = "\<lambda>_. 0"])
  have "\<not> (class_base (ClassCode_from_raw w) = 6 \<and> class_sub (ClassCode_from_raw w) = 4)"
    if "w \<in> {0x12378086, 0x06000000, 0, 0xffffffff}" for w using that by (auto simp: ClassCode_from_raw_def)
  moreover have "example_config a \<in> {0x12378086, 0x06000000, 0, 0xffffffff}" for a by (simp add: example_config_def)
  ultimately have "\<not> bridge_at example_config b d f" for b d f
    unfolding bridge_at_def is_standard_pci_pci_bridge_def PciDevice_new_def Let_def ClassCode_new_def by simp
  then show "\<forall>b c. bridge_to example_config b c \<longrightarrow> (0 :: nat) < 0" by (simp add: bridge_to_def)
  show "\<not> is_multi_function (HeaderType_new example_config 0 0 0)" by code_simp
qed simp

text \<open>On a machine whose host bridge is a multi-function device, bus 0 is scanned by nobody: the loop over the host's functions
  starts at function 1. When the other functions do not exist, no device at all is found.\<close>

theorem pci_scan_misses_bus_0:
  assumes "is_multi_function (HeaderType_new cfg 0 0 0)"
    and "\<forall>func. 1 \<le> func \<longrightarrow> func < 8 \<longrightarrow> \<not> vendor_is_valid (VendorId_new cfg 0 0 func)"
  shows "scan_all_bus fuel cfg = Some []"
proof -
  have "\<not> vendor_is_valid (VendorId_new cfg 0 0 w)" if "w \<in> set (map of_nat [1..<8])" for w
  proof -
    from that obtain k where k: "1 \<le> k" "k < 8" "w = of_nat k" by auto
    then have "unat w = k" by (simp add: unat_of_nat)
    with k have "1 \<le> w" "w < 8" by (simp_all add: word_le_nat_alt word_less_nat_alt)
    with assms(2) show ?thesis by blast
  qed
  then have "for_each ws (\<lambda>func devices. if vendor_is_valid (VendorId_new cfg 0 0 func)
      then scan_bus fuel cfg func devices else Some devices) [] = Some []" if "set ws \<subseteq> set (map of_nat [1..<8])" for ws
    using that by (induction ws) auto
  from this[OF order_refl] show ?thesis using assms(1) by (simp add: scan_all_bus_def)
qed

theorem pci_scan_misses_bus_0_witness:
  "scan_all_bus 8 (\<lambda>a. if a = 0x8000000c then 0x00800000 else if a = 0x80000000 then 0x12378086 else 0xffffffff) = Some []"
proof (rule pci_scan_misses_bus_0)
  let ?cfg = "\<lambda>a :: u32. if a = 0x8000000c then 0x00800000 else if a = 0x80000000 then 0x12378086 else 0xffffffff :: u32"
  show "is_multi_function (HeaderType_new ?cfg 0 0 0)" by code_simp
  have all: "list_all (\<lambda>n. \<not> vendor_is_valid (VendorId_new ?cfg 0 0 (of_nat n))) [1..<8]" by code_simp
  have "\<not> vendor_is_valid (VendorId_new ?cfg 0 0 func)" if "1 \<le> func" "func < 8" for func
  proof -
    have "unat func \<in> set [1..<8]" using that by (simp add: word_le_nat_alt word_less_nat_alt)
    with all have "\<not> vendor_is_valid (VendorId_new ?cfg 0 0 (of_nat (unat func)))" unfolding list_all_iff by blast
    then show ?thesis by simp
  qed
  then show "\<forall>func. 1 \<le> func \<longrightarrow> func < 8 \<longrightarrow> \<not> vendor_is_valid (VendorId_new ?cfg 0 0 func)" by blast
qed

text \<open>A configuration address encodes bus, device, function and register in disjoint fields: for every device below 32 and
  function below 8 the fields read back are the arguments (the register rounded down to a multiple of four), and the enable
  bit is set.\<close>

theorem config_address_fields:
  assumes "device < 32" "func < 8"
  shows "bit (PciConfigAddress_new bus device func reg) 31 \<and>
         ucast (drop_bit 16 (PciConfigAddress_new bus device func reg)) = bus \<and>
         ucast (take_bit 5 (drop_bit 11 (PciConfigAddress_new bus device func reg))) = device \<and>
         ucast (take_bit 3 (drop_bit 8 (PciConfigAddress_new bus device func reg))) = func \<and>
         ucast (PciConfigAddress_new bus device func reg) = reg AND 0xfc"
proof -
  have d: "\<not> bit device k" if "5 \<le> k" for k
    using assms(1) that by (intro bit_small[of device 5 k]) (simp add: word_less_nat_alt)
  have f: "\<not> bit func k" if "3 \<le> k" for k
    using assms(2) that by (intro bit_small[of func 3 k]) (simp add: word_less_nat_alt)
  note bits = config_address_bits[of bus device func reg]
  have b8: "\<not> bit (w :: u8) k" if "8 \<le> k" for w k using that bit_imp_le_length[of w k] by auto
  show ?thesis
  proof (intro conjI bit_word_eqI)
    fix k
    assume "k < LENGTH(8)"
    then show "bit (ucast (drop_bit 16 (PciConfigAddress_new bus device func reg)) :: u8) k = bit bus k"
      using d[of "k + 5"] f[of "k + 8"] b8[of "k + 16" "reg AND 0xfc"]
      by (simp add: bit_ucast_iff bit_drop_bit_eq bits add.commute)
  next
    fix k
    assume "k < LENGTH(8)"
    then show "bit (ucast (take_bit 5 (drop_bit 11 (PciConfigAddress_new bus device func reg))) :: u8) k = bit device k"
      using d[of k] f[of "k + 3"] b8[of "k + 11" "reg AND 0xfc"]
      by (cases "k < 5") (auto simp: bit_ucast_iff bit_take_bit_iff bit_drop_bit_eq bits add.commute)
  next
    fix k
    assume "k < LENGTH(8)"
    then show "bit (ucast (take_bit 3 (drop_bit 8 (PciConfigAddress_new bus device func reg))) :: u8) k = bit func k"
      using f[of k] b8[of "k + 8" "reg AND 0xfc"]
      by (cases "k < 3") (auto simp: bit_ucast_iff bit_take_bit_iff bit_drop_bit_eq bits add.commute)
  next
    fix k
    assume "k < LENGTH(8)"
    then show "bit (ucast (PciConfigAddress_new bus device func reg) :: u8) k = bit (reg AND 0xfc) k"
      by (simp add: bit_ucast_iff bits)
  qed (simp add: bits)
qed

theorem config_address_fields_witness:
  "bit (PciConfigAddress_new 1 31 7 0x13) 31 \<and> ucast (drop_bit 16 (PciConfigAddress_new 1 31 7 0x13)) = (1 :: u8) \<and>
   ucast (take_bit 5 (drop_bit 11 (PciConfigAddress_new 1 31 7 0x13))) = (31 :: u8) \<and>
   ucast (take_bit 3 (drop_bit 8 (PciConfigAddress_new 1 31 7 0x13))) = (7 :: u8) \<and>
   ucast (PciConfigAddress_new 1 31 7 0x13) = (0x13 AND 0xfc :: u8)"
  by (rule config_address_fields) simp_all

end
