(* ===== verification/Msi.thy ===== *)
theory Msi
  imports Pci
begin

text \<open>
  Message signalled interrupts, \<^verbatim>\<open>kernel/src/pci.rs\<close>: the fields of the MSI capability, reading and writing it in
  configuration space, the walk along a device's capability list and the configuration of a fixed destination.

  The loops of the walk follow pointers that the device supplies, so they need not end: they are partial
  functions, and \<open>None\<close> is a panic or a walk that does not end.
\<close>

section \<open>Fields\<close>

text \<open>The crate \<^verbatim>\<open>bit_field\<close> at the three widths the module uses.\<close>

record BitFields =
  bf16 :: "u16 BitField"
  bf32 :: "u32 BitField"
  bf64 :: "u64 BitField"

definition bit_fields_ok :: "BitFields \<Rightarrow> bool" where
  "bit_fields_ok F \<longleftrightarrow> bit_field_ok (bf16 F) \<and> bit_field_ok (bf32 F) \<and> bit_field_ok (bf64 F)"

datatype MSITriggerMode = Edge | Level
datatype MSIDeliveryMode = Fixed | LowestPriority | SMI | NMI | INIT | ExtINT

fun delivery_mode_repr :: "MSIDeliveryMode \<Rightarrow> u32" where
  "delivery_mode_repr Fixed = 0" | "delivery_mode_repr LowestPriority = 1" | "delivery_mode_repr SMI = 2"
| "delivery_mode_repr NMI = 4" | "delivery_mode_repr INIT = 5" | "delivery_mode_repr ExtINT = 7"

type_synonym MessageControl = u16

definition per_vector_masking :: "BitFields \<Rightarrow> MessageControl \<Rightarrow> bool" where
  "per_vector_masking F c = bf_get_bit (bf16 F) 8 c"

definition set_per_vector_masking :: "BitFields \<Rightarrow> bool \<Rightarrow> MessageControl \<Rightarrow> MessageControl" where
  "set_per_vector_masking F v c = bf_set_bit (bf16 F) 8 v c"

definition multiple_message_enable :: "BitFields \<Rightarrow> MessageControl \<Rightarrow> u16" where
  "multiple_message_enable F c = bf_get_bits (bf16 F) 4 7 c"

definition set_multiple_message_enable :: "BitFields \<Rightarrow> u16 \<Rightarrow> MessageControl \<Rightarrow> MessageControl option" where
  "set_multiple_message_enable F v c = set_bits_checked (bf16 F) 4 7 v c"

definition address_64_bit_capable :: "BitFields \<Rightarrow> MessageControl \<Rightarrow> bool" where
  "address_64_bit_capable F c = bf_get_bit (bf16 F) 7 c"

definition set_address_64_bit_capable :: "BitFields \<Rightarrow> bool \<Rightarrow> MessageControl \<Rightarrow> MessageControl" where
  "set_address_64_bit_capable F v c = bf_set_bit (bf16 F) 7 v c"

definition multiple_message_capable :: "BitFields \<Rightarrow> MessageControl \<Rightarrow> u16" where
  "multiple_message_capable F c = bf_get_bits (bf16 F) 1 4 c"

definition set_multiple_message_capable :: "BitFields \<Rightarrow> u16 \<Rightarrow> MessageControl \<Rightarrow> MessageControl option" where
  "set_multiple_message_capable F v c = set_bits_checked (bf16 F) 1 4 v c"

definition msi_enable :: "BitFields \<Rightarrow> MessageControl \<Rightarrow> bool" where
  "msi_enable F c = bf_get_bit (bf16 F) 0 c"

definition set_msi_enable :: "BitFields \<Rightarrow> bool \<Rightarrow> MessageControl \<Rightarrow> MessageControl" where
  "set_msi_enable F v c = bf_set_bit (bf16 F) 0 v c"

text \<open>\<^verbatim>\<open>MsiCapability([u32; 6])\<close>; the source indexes it with constants only.\<close>

record MsiCapability =
  msi_0 :: u32
  msi_1 :: u32
  msi_2 :: u32
  msi_3 :: u32
  msi_4 :: u32
  msi_5 :: u32

definition message_control :: "BitFields \<Rightarrow> MsiCapability \<Rightarrow> MessageControl" where
  "message_control F m = ucast (bf_get_bits (bf32 F) 16 32 (msi_0 m))"

definition set_message_control :: "BitFields \<Rightarrow> MessageControl \<Rightarrow> MsiCapability \<Rightarrow> MsiCapability option" where
  "set_message_control F c m = do { w \<leftarrow> set_bits_checked (bf32 F) 16 32 (ucast c) (msi_0 m); Some (m\<lparr>msi_0 := w\<rparr>) }"

definition next_pointer :: "BitFields \<Rightarrow> MsiCapability \<Rightarrow> u8" where
  "next_pointer F m = ucast (bf_get_bits (bf32 F) 8 16 (msi_0 m))"

definition set_next_pointer :: "BitFields \<Rightarrow> u8 \<Rightarrow> MsiCapability \<Rightarrow> MsiCapability option" where
  "set_next_pointer F v m = do { w \<leftarrow> set_bits_checked (bf32 F) 8 16 (ucast v) (msi_0 m); Some (m\<lparr>msi_0 := w\<rparr>) }"

definition capability_id :: "BitFields \<Rightarrow> MsiCapability \<Rightarrow> u8" where
  "capability_id F m = ucast (bf_get_bits (bf32 F) 0 8 (msi_0 m))"

definition set_capability_id :: "BitFields \<Rightarrow> u8 \<Rightarrow> MsiCapability \<Rightarrow> MsiCapability option" where
  "set_capability_id F v m = do { w \<leftarrow> set_bits_checked (bf32 F) 0 8 (ucast v) (msi_0 m); Some (m\<lparr>msi_0 := w\<rparr>) }"

definition message_address :: "MsiCapability \<Rightarrow> u64" where
  "message_address m = push_bit 32 (ucast (msi_2 m)) OR ucast (msi_1 m)"

definition set_message_address :: "u64 \<Rightarrow> MsiCapability \<Rightarrow> MsiCapability" where
  "set_message_address a m = m\<lparr>msi_1 := ucast a, msi_2 := ucast (drop_bit 32 a)\<rparr>"

definition message_data :: "BitFields \<Rightarrow> MsiCapability \<Rightarrow> u16" where
  "message_data F m = ucast (bf_get_bits (bf32 F) 0 16 (msi_3 m))"

definition set_message_data :: "BitFields \<Rightarrow> u16 \<Rightarrow> MsiCapability \<Rightarrow> MsiCapability option" where
  "set_message_data F d m = do { w \<leftarrow> set_bits_checked (bf32 F) 0 16 (ucast d) (msi_3 m); Some (m\<lparr>msi_3 := w\<rparr>) }"

section \<open>In configuration space\<close>

definition set_header :: "BitFields \<Rightarrow> u32 \<Rightarrow> MsiCapability \<Rightarrow> MsiCapability option" where
  "set_header F header cap = do {
     cap \<leftarrow> set_message_control F (ucast (bf_get_bits (bf32 F) 16 32 header)) cap;
     cap \<leftarrow> set_next_pointer F (ucast (bf_get_bits (bf32 F) 8 16 header)) cap;
     set_capability_id F (ucast (bf_get_bits (bf32 F) 0 8 header)) cap
   }"

definition MsiCapability_new :: "BitFields \<Rightarrow> config_space \<Rightarrow> PciDevice \<Rightarrow> u8 \<Rightarrow> MsiCapability option" where
  "MsiCapability_new F cfg d cap_addr = do {
     let cap = \<lparr>msi_0 = 0, msi_1 = 0, msi_2 = 0, msi_3 = 0, msi_4 = 0, msi_5 = 0\<rparr>;
     cap \<leftarrow> set_header F (read_configuration_space cfg d cap_addr) cap;
     a4 \<leftarrow> u8add cap_addr 4;
     let lower = (ucast (read_configuration_space cfg d a4) :: u64);
     a8 \<leftarrow> u8add cap_addr 8;
     (msg_data_addr, message_address) \<leftarrow>
       (if address_64_bit_capable F (message_control F cap) then do {
          let upper = (ucast (read_configuration_space cfg d a8) :: u64);
          a12 \<leftarrow> u8add cap_addr 12;
          Some (a12, push_bit 32 upper OR lower)
        } else Some (a8, lower));
     let cap = set_message_address message_address cap;
     cap \<leftarrow> set_message_data F (ucast (bf_get_bits (bf32 F) 0 16 (read_configuration_space cfg d msg_data_addr))) cap;
     if per_vector_masking F (message_control F cap) then do {
       m4 \<leftarrow> u8add msg_data_addr 4;
       m8 \<leftarrow> u8add msg_data_addr 8;
       Some (cap\<lparr>msi_4 := read_configuration_space cfg d m4, msi_5 := read_configuration_space cfg d m8\<rparr>)
     } else Some cap
   }"

definition write_msi_capability :: "BitFields \<Rightarrow> PciDevice \<Rightarrow> u8 \<Rightarrow> MsiCapability \<Rightarrow> config_space \<Rightarrow> config_space option" where
  "write_msi_capability F d cap_addr cap cfg = do {
     let cfg = write_conf_reg d cap_addr (msi_0 cap) cfg;
     a4 \<leftarrow> u8add cap_addr 4;
     let cfg = write_conf_reg d a4 (ucast (message_address cap)) cfg;
     a8 \<leftarrow> u8add cap_addr 8;
     (msg_data_addr, cfg) \<leftarrow>
       (if address_64_bit_capable F (message_control F cap) then do {
          let cfg = write_conf_reg d a8 (ucast (bf_get_bits (bf64 F) 32 64 (message_address cap))) cfg;
          a12 \<leftarrow> u8add cap_addr 12;
          Some (a12, cfg)
        } else Some (a8, cfg));
     let cfg = write_conf_reg d msg_data_addr (ucast (message_data F cap)) cfg;
     if per_vector_masking F (message_control F cap) then do {
       m4 \<leftarrow> u8add msg_data_addr 4;
       let cfg = write_conf_reg d m4 (msi_4 cap) cfg;
       m8 \<leftarrow> u8add msg_data_addr 8;
       Some (write_conf_reg d m8 (msi_5 cap) cfg)
     } else Some cfg
   }"

section \<open>The walk along the capabilities\<close>

text \<open>The inner loop of \<^verbatim>\<open>MsiCapabilityIterator::next\<close>: the new position of the iterator and the item.\<close>

partial_function (option) msi_skip ::
  "BitFields \<Rightarrow> config_space \<Rightarrow> PciDevice \<Rightarrow> u8 \<Rightarrow> MsiCapability \<Rightarrow> (u8 \<times> (u8 \<times> MsiCapability) option) option"
where
  "msi_skip F cfg d addr cap =
     (if capability_id F cap = 5 then Some (next_pointer F cap, Some (addr, cap))
      else if next_pointer F cap = 0 then Some (0, None)
      else Option.bind (MsiCapability_new F cfg d (next_pointer F cap)) (msi_skip F cfg d (next_pointer F cap)))"

definition msi_next :: "BitFields \<Rightarrow> config_space \<Rightarrow> PciDevice \<Rightarrow> u8 \<Rightarrow> (u8 \<times> (u8 \<times> MsiCapability) option) option" where
  "msi_next F cfg d addr =
     (if addr = 0 then Some (0, None) else do { cap \<leftarrow> MsiCapability_new F cfg d addr; msi_skip F cfg d addr cap })"

text \<open>The body of the loop of \<^verbatim>\<open>configure_msi\<close>.\<close>

definition configure_capability ::
  "BitFields \<Rightarrow> PciDevice \<Rightarrow> u32 \<Rightarrow> u32 \<Rightarrow> usize \<Rightarrow> u8 \<Rightarrow> MsiCapability \<Rightarrow> config_space \<Rightarrow> config_space option"
where
  "configure_capability F d msg_addr msg_data num_vector_exponent cap_addr msi_cap cfg = do {
     let control = message_control F msi_cap;
     control \<leftarrow> (if multiple_message_capable F control \<le> of_nat num_vector_exponent
                  then set_multiple_message_enable F (multiple_message_capable F control) control
                  else set_multiple_message_enable F (of_nat num_vector_exponent) control);
     let control = set_msi_enable F True control;
     msi_cap \<leftarrow> set_message_control F control msi_cap;
     let msi_cap = set_message_address (ucast msg_addr) msi_cap;
     msi_cap \<leftarrow> set_message_data F (ucast msg_data) msi_cap;
     write_msi_capability F d cap_addr msi_cap cfg
   }"

partial_function (option) configure_msi_loop ::
  "BitFields \<Rightarrow> PciDevice \<Rightarrow> u32 \<Rightarrow> u32 \<Rightarrow> usize \<Rightarrow> u8 \<Rightarrow> bool \<Rightarrow> config_space \<Rightarrow> (config_space \<times> bool) option"
where
  "configure_msi_loop F d msg_addr msg_data nve addr written cfg =
     Option.bind (msi_next F cfg d addr) (\<lambda>(addr', item).
       case item of
         None \<Rightarrow> Some (cfg, written)
       | Some (cap_addr, cap) \<Rightarrow>
           Option.bind (configure_capability F d msg_addr msg_data nve cap_addr cap cfg)
             (\<lambda>cfg'. configure_msi_loop F d msg_addr msg_data nve addr' True cfg'))"

definition configure_msi :: "BitFields \<Rightarrow> PciDevice \<Rightarrow> u32 \<Rightarrow> u32 \<Rightarrow> usize \<Rightarrow> config_space \<Rightarrow> config_space option" where
  "configure_msi F d msg_addr msg_data num_vector_exponent cfg = do {
     cap_addr \<leftarrow> read_capabilities_pointer cfg d;
     (cfg, written) \<leftarrow> configure_msi_loop F d msg_addr msg_data num_vector_exponent cap_addr False cfg;
     if written then Some cfg else None
   }"

text \<open>\<open>vector\<close> is \<^verbatim>\<open>interrupt_vector as u32\<close>.\<close>

definition configure_msi_fixed_destination ::
  "BitFields \<Rightarrow> PciDevice \<Rightarrow> u8 \<Rightarrow> MSITriggerMode \<Rightarrow> MSIDeliveryMode \<Rightarrow> u32 \<Rightarrow> usize \<Rightarrow> config_space \<Rightarrow> config_space option"
where
  "configure_msi_fixed_destination F d apic_id trigger_mode delivery_mode vector num_vector_exponent cfg =
     (let msg_addr = 0xfee00000 OR push_bit 12 (ucast apic_id);
          msg_data = push_bit 8 (delivery_mode_repr delivery_mode) OR vector;
          msg_data = (if trigger_mode = Level then msg_data OR 0xc000 else msg_data)
      in configure_msi F d msg_addr msg_data num_vector_exponent cfg)"

section \<open>Lemmas\<close>

lemma bit_fieldsD:
  assumes "bit_fields_ok F"
  shows "bit_field_ok (bf16 F)" "bit_field_ok (bf32 F)" "bit_field_ok (bf64 F)"
  using assms by (simp_all add: bit_fields_ok_def)

lemma write_conf_reg_eq: "write_conf_reg d r v cfg = cfg(PciConfigAddress_new (pd_bus d) (pd_device d) (pd_function d) r := v)"
  by (simp add: write_conf_reg_def write_data_raw_def write_address_def)

lemma and_fc: "take_bit 2 (w :: u8) = 0 \<Longrightarrow> w AND 0xfc = w"
proof (rule bit_word_eqI)
  fix k
  assume w: "take_bit 2 w = 0" and k: "k < LENGTH(8)"
  have fc: "(0xfc :: u8) = NOT (mask 2)" by (simp add: mask_eq_exp_minus_1)
  have "\<not> (bit w k \<and> k < 2)" using w by (metis bit_0_eq bit_take_bit_iff bot_apply bot_bool_def)
  then show "bit (w AND 0xfc) k = bit w k" using k unfolding fc by (auto simp: bit_simps)
qed

lemma config_address_inj:
  assumes "take_bit 2 r = 0" "take_bit 2 r' = 0"
  shows "PciConfigAddress_new b d f r = PciConfigAddress_new b d f r' \<longleftrightarrow> r = r'"
  using config_address_register[of b d f r] config_address_register[of b d f r'] and_fc assms by metis

lemma read_after_write:
  assumes "take_bit 2 r = 0" "take_bit 2 r' = 0"
  shows "read_configuration_space (write_conf_reg d r v cfg) d r' = (if r = r' then v else read_configuration_space cfg d r')"
  using config_address_inj[OF assms(2,1), of "pd_bus d" "pd_device d" "pd_function d"]
  by (auto simp: write_conf_reg_eq read_configuration_space_def)

lemma aligned_iff: "take_bit 2 (w :: u8) = 0 \<longleftrightarrow> unat w mod 4 = 0"
proof -
  have "unat (take_bit 2 w) = unat w mod 4" by (simp add: unsigned_take_bit_eq take_bit_nat_def)
  then show ?thesis by (metis unat_0 unat_eq_0)
qed

lemma aligned_offsets:
  assumes "take_bit 2 (a :: u8) = 0"
  shows "take_bit 2 (a + 4) = 0" "take_bit 2 (a + 8) = 0" "take_bit 2 (a + 12) = 0" "take_bit 2 (a + 16) = 0" "take_bit 2 (a + 20) = 0"
proof -
  have "unat (a + b) mod 4 = (unat a + unat b) mod 4" for b
    by (simp add: unat_word_ariths mod_mod_cancel)
  then show "take_bit 2 (a + 4) = 0" "take_bit 2 (a + 8) = 0" "take_bit 2 (a + 12) = 0" "take_bit 2 (a + 16) = 0" "take_bit 2 (a + 20) = 0"
    using assms by (auto simp: aligned_iff)
qed

lemma unat_add_u8: "unat (a :: u8) + unat b < 256 \<Longrightarrow> unat (a + b) = unat a + unat b"
  by (simp add: unat_word_ariths)

text \<open>The fields of the capability header, as the machine sees them.\<close>

definition hdr_next :: "u32 \<Rightarrow> u8" where "hdr_next h = ucast (drop_bit 8 h)"
definition hdr_id :: "u32 \<Rightarrow> u8" where "hdr_id h = ucast h"
definition hdr_control :: "u32 \<Rightarrow> u16" where "hdr_control h = ucast (drop_bit 16 h)"

lemma header_fields:
  assumes "bit_fields_ok F"
  shows "next_pointer F m = hdr_next (msi_0 m)" "capability_id F m = hdr_id (msi_0 m)" "message_control F m = hdr_control (msi_0 m)"
  unfolding next_pointer_def capability_id_def message_control_def hdr_next_def hdr_id_def hdr_control_def
  by (rule bit_word_eqI; simp add: bit_fieldD(3)[OF bit_fieldsD(2)[OF assms]] bit_simps)+

lemma ucast_fits: "take_bit 16 (ucast (c :: u16) :: u32) = ucast c" "take_bit 8 (ucast (v :: u8) :: u32) = ucast v"
  by (rule bit_word_eqI; auto simp: bit_simps dest: bit_imp_le_length)+

lemma set_control_eq:
  assumes "bit_fields_ok F"
  shows "\<exists>w. set_message_control F c m = Some (m\<lparr>msi_0 := w\<rparr>) \<and>
    (\<forall>k. bit w k = (if 16 \<le> k \<and> k < 32 then bit c (k - 16) else bit (msi_0 m) k))"
  using bit_fieldD(4)[OF bit_fieldsD(2)[OF assms], of 16 32 "ucast c" "msi_0 m"] ucast_fits(1)[of c]
  by (auto simp: set_message_control_def set_bits_checked_def bit_ucast_iff)

lemma set_data_eq:
  assumes "bit_fields_ok F"
  shows "\<exists>w. set_message_data F c m = Some (m\<lparr>msi_3 := w\<rparr>) \<and>
    (\<forall>k. bit w k = (if k < 16 then bit c k else bit (msi_3 m) k))"
  using bit_fieldD(4)[OF bit_fieldsD(2)[OF assms], of 0 16 "ucast c" "msi_3 m"] ucast_fits(1)[of c]
  by (auto simp: set_message_data_def set_bits_checked_def bit_ucast_iff)

lemma header_rebuilt:
  assumes "bit_fields_ok F"
  shows "set_header F h m = Some (m\<lparr>msi_0 := h\<rparr>)"
proof -
  note B = bit_fieldsD(2)[OF assms]
  note get = bit_fieldD(3)[OF B] and put = bit_fieldD(4)[OF B]
  obtain w1 where w1: "set_message_control F (ucast (bf_get_bits (bf32 F) 16 32 h)) m = Some (m\<lparr>msi_0 := w1\<rparr>)"
    and bits: "\<forall>k. bit w1 k = (if 16 \<le> k \<and> k < 32 then bit (ucast (bf_get_bits (bf32 F) 16 32 h) :: u16) (k - 16) else bit (msi_0 m) k)"
    using set_control_eq[OF assms] by blast
  from bits have w1b: "bit w1 k = (if 16 \<le> k \<and> k < 32 then bit h k else bit (msi_0 m) k)" for k
    by (auto simp: get bit_simps)
  let ?n = "ucast (bf_get_bits (bf32 F) 8 16 h) :: u8" and ?i = "ucast (bf_get_bits (bf32 F) 0 8 h) :: u8"
  let ?w2 = "bf_set_bits (bf32 F) 8 16 (ucast ?n) w1"
  let ?w3 = "bf_set_bits (bf32 F) 0 8 (ucast ?i) ?w2"
  have w2: "set_next_pointer F ?n (m\<lparr>msi_0 := w1\<rparr>) = Some (m\<lparr>msi_0 := ?w2\<rparr>)"
    using ucast_fits(2)[of ?n] by (simp add: set_next_pointer_def set_bits_checked_def)
  have w3: "set_capability_id F ?i (m\<lparr>msi_0 := ?w2\<rparr>) = Some (m\<lparr>msi_0 := ?w3\<rparr>)"
    using ucast_fits(2)[of ?i] by (simp add: set_capability_id_def set_bits_checked_def)
  have "?w3 = h"
  proof (rule bit_word_eqI)
    fix k
    assume "k < LENGTH(32)"
    then show "bit ?w3 k = bit h k"
      using put[of 8 16 "ucast ?n" w1 k] put[of 0 8 "ucast ?i" ?w2 k] ucast_fits(2) w1b[of k]
      by (auto simp: get bit_simps)
  qed
  then show ?thesis using w1 w2 w3 by (simp add: set_header_def)
qed

text \<open>Where the message data lies, and what reading and writing a capability amount to.\<close>

definition data_addr :: "u32 \<Rightarrow> u8 \<Rightarrow> u8" where
  "data_addr h a = (if bit (hdr_control h) 7 then a + 12 else a + 8)"

definition msi_read :: "config_space \<Rightarrow> PciDevice \<Rightarrow> u8 \<Rightarrow> MsiCapability" where
  "msi_read cfg d a =
     (let rd = read_configuration_space cfg d; h = rd a in
      \<lparr>msi_0 = h, msi_1 = rd (a + 4), msi_2 = (if bit (hdr_control h) 7 then rd (a + 8) else 0),
       msi_3 = take_bit 16 (rd (data_addr h a)),
       msi_4 = (if bit (hdr_control h) 8 then rd (data_addr h a + 4) else 0),
       msi_5 = (if bit (hdr_control h) 8 then rd (data_addr h a + 8) else 0)\<rparr>)"

definition msi_writes :: "MsiCapability \<Rightarrow> u8 \<Rightarrow> (u8 \<times> u32) list" where
  "msi_writes m a =
     (let c = hdr_control (msi_0 m); da = data_addr (msi_0 m) a in
      [(a, msi_0 m), (a + 4, msi_1 m)] @ (if bit c 7 then [(a + 8, msi_2 m)] else []) @
      [(da, take_bit 16 (msi_3 m))] @ (if bit c 8 then [(da + 4, msi_4 m), (da + 8, msi_5 m)] else []))"

definition conf_writes :: "PciDevice \<Rightarrow> (u8 \<times> u32) list \<Rightarrow> config_space \<Rightarrow> config_space" where
  "conf_writes d ws = fold (\<lambda>(r, v). write_conf_reg d r v) ws"

lemma control_bits:
  assumes "bit_fields_ok F"
  shows "address_64_bit_capable F c = bit c 7" "per_vector_masking F c = bit c 8"
  using bit_fieldD(1)[OF bit_fieldsD(1)[OF assms]] by (simp_all add: address_64_bit_capable_def per_vector_masking_def)

lemma u8add_offsets:
  assumes "unat a + 24 \<le> 256"
  shows "u8add a 4 = Some (a + 4)" "u8add a 8 = Some (a + 8)" "u8add a 12 = Some (a + 12)"
    "u8add (a + 8) 4 = Some (a + 12)" "u8add (a + 8) 8 = Some (a + 16)"
    "u8add (a + 12) 4 = Some (a + 16)" "u8add (a + 12) 8 = Some (a + 20)"
  using assms by (simp_all add: u8add_def unat_word_ariths)

lemma address_parts:
  "ucast (push_bit 32 (ucast (u :: u32)) OR ucast (l :: u32) :: u64) = l"
  "ucast (drop_bit 32 (push_bit 32 (ucast (u :: u32)) OR ucast (l :: u32) :: u64)) = u"
  "ucast (drop_bit 32 (push_bit 32 (ucast (u :: u32)) :: u64) OR drop_bit 32 (ucast (l :: u32))) = u"
  "ucast (drop_bit 32 (ucast (l :: u32) :: u64)) = (0 :: u32)" "ucast (ucast (l :: u32) :: u64) = l"
  by (rule bit_word_eqI; auto simp: bit_simps dest: bit_imp_le_length)+

lemma message_address_parts:
  assumes "bit_fields_ok F"
  shows "ucast (message_address m) = msi_1 m" "ucast (bf_get_bits (bf64 F) 32 64 (message_address m)) = msi_2 m"
proof -
  show "ucast (message_address m) = msi_1 m" by (simp add: message_address_def address_parts)
  have "bf_get_bits (bf64 F) 32 64 (message_address m) = drop_bit 32 (message_address m)"
    by (rule bit_word_eqI) (auto simp: bit_fieldD(3)[OF bit_fieldsD(3)[OF assms]] bit_simps dest: bit_imp_le_length)
  then show "ucast (bf_get_bits (bf64 F) 32 64 (message_address m)) = msi_2 m" by (simp add: message_address_def address_parts)
qed

lemma message_data_eq:
  assumes "bit_fields_ok F"
  shows "ucast (message_data F m) = take_bit 16 (msi_3 m)"
  by (rule bit_word_eqI) (auto simp: message_data_def bit_fieldD(3)[OF bit_fieldsD(2)[OF assms]] bit_simps)

lemma set_data_0:
  assumes "bit_fields_ok F" "msi_3 m = 0"
  shows "set_message_data F (ucast (bf_get_bits (bf32 F) 0 16 w)) m = Some (m\<lparr>msi_3 := take_bit 16 w\<rparr>)"
proof -
  obtain v where v: "set_message_data F (ucast (bf_get_bits (bf32 F) 0 16 w)) m = Some (m\<lparr>msi_3 := v\<rparr>)"
    and bits: "\<forall>k. bit v k = (if k < 16 then bit (ucast (bf_get_bits (bf32 F) 0 16 w) :: u16) k else bit (msi_3 m) k)"
    using set_data_eq[OF assms(1)] by blast
  have "v = take_bit 16 w"
    by (rule bit_word_eqI) (use bits assms(2) in \<open>auto simp: bit_fieldD(3)[OF bit_fieldsD(2)[OF assms(1)]] bit_simps\<close>)
  with v show ?thesis by simp
qed

lemma MsiCapability_new_eq:
  assumes "bit_fields_ok F" "unat a + 24 \<le> 256"
  shows "MsiCapability_new F cfg d a = Some (msi_read cfg d a)"
  using u8add_offsets[OF assms(2)]
  by (simp add: MsiCapability_new_def header_rebuilt[OF assms(1)] header_fields[OF assms(1)] control_bits[OF assms(1)]
      set_data_0[OF assms(1)] set_message_address_def msi_read_def data_addr_def address_parts Let_def add.assoc)

lemma write_msi_eq:
  assumes "bit_fields_ok F" "unat a + 24 \<le> 256"
  shows "write_msi_capability F d a m cfg = Some (conf_writes d (msi_writes m a) cfg)"
  using u8add_offsets[OF assms(2)]
  by (auto simp: write_msi_capability_def conf_writes_def msi_writes_def data_addr_def Let_def header_fields[OF assms(1)] control_bits[OF assms(1)]
      message_address_parts[OF assms(1)] message_data_eq[OF assms(1)] add.assoc)


section \<open>Reading back what was written\<close>

lemma conf_writes_simps [simp]:
  "conf_writes d [] cfg = cfg" "conf_writes d ((r, v) # ws) cfg = conf_writes d ws (write_conf_reg d r v cfg)"
  by (simp_all add: conf_writes_def)

lemma conf_writes_append: "conf_writes d (us @ ws) cfg = conf_writes d ws (conf_writes d us cfg)"
  by (simp add: conf_writes_def)

text \<open>The registers of the capability at an address.\<close>

definition msi_region :: "u8 \<Rightarrow> u8 list" where
  "msi_region a = [a, a + 4, a + 8, a + 12, a + 16, a + 20]"

lemma conf_writes_other:
  assumes "take_bit 2 r = 0" "\<forall>(x, v) \<in> set ws. take_bit 2 x = 0 \<and> x \<noteq> r"
  shows "read_configuration_space (conf_writes d ws cfg) d r = read_configuration_space cfg d r"
  using assms(2) by (induction ws arbitrary: cfg) (auto simp: read_after_write assms(1))

lemma msi_writes_in_region:
  assumes "take_bit 2 a = 0" "(x, v) \<in> set (msi_writes m a)"
  shows "take_bit 2 x = 0" "x \<in> set (msi_region a)"
  using assms aligned_offsets[OF assms(1)]
  by (auto simp: msi_writes_def data_addr_def msi_region_def Let_def add.assoc split: if_splits)

lemma msi_writes_outside:
  assumes "take_bit 2 a = 0" "take_bit 2 r = 0" "r \<notin> set (msi_region a)"
  shows "read_configuration_space (conf_writes d (msi_writes m a) cfg) d r = read_configuration_space cfg d r"
  by (rule conf_writes_other) (use assms msi_writes_in_region[OF assms(1)] in blast)+

lemma msi_writes_read:
  fixes d m cfg
  assumes "take_bit 2 a = 0"
  defines "rd \<equiv> read_configuration_space (conf_writes d (msi_writes m a) cfg) d"
  shows "rd a = msi_0 m" "rd (a + 4) = msi_1 m" "bit (hdr_control (msi_0 m)) 7 \<Longrightarrow> rd (a + 8) = msi_2 m"
    "rd (data_addr (msi_0 m) a) = take_bit 16 (msi_3 m)"
    "bit (hdr_control (msi_0 m)) 8 \<Longrightarrow> rd (data_addr (msi_0 m) a + 4) = msi_4 m"
    "bit (hdr_control (msi_0 m)) 8 \<Longrightarrow> rd (data_addr (msi_0 m) a + 8) = msi_5 m"
  unfolding rd_def using assms(1)
  by (auto simp: msi_writes_def data_addr_def Let_def read_after_write aligned_offsets add.assoc)

text \<open>What a capability keeps of a record that is written to configuration space: the fields it has.\<close>

definition msi_present :: "MsiCapability \<Rightarrow> MsiCapability" where
  "msi_present m =
     (let c = hdr_control (msi_0 m) in
      \<lparr>msi_0 = msi_0 m, msi_1 = msi_1 m, msi_2 = (if bit c 7 then msi_2 m else 0), msi_3 = take_bit 16 (msi_3 m),
       msi_4 = (if bit c 8 then msi_4 m else 0), msi_5 = (if bit c 8 then msi_5 m else 0)\<rparr>)"

text \<open>A capability written by \<^verbatim>\<open>write_msi_capability\<close> at an aligned address that leaves room for it is read
  back by \<^verbatim>\<open>MsiCapability::new\<close>: neither call panics, and the result is the record that was written in all the
  fields the capability has (the upper address and the mask and pending words are there only when the control
  word says so).\<close>

theorem msi_write_read_round_trip:
  assumes "bit_fields_ok F" "take_bit 2 a = 0" "unat a + 24 \<le> 256"
  shows "\<exists>cfg'. write_msi_capability F d a m cfg = Some cfg' \<and> MsiCapability_new F cfg' d a = Some (msi_present m)"
  using msi_writes_read[OF assms(2), where d = d and m = m and cfg = cfg]
  by (auto simp: write_msi_eq[OF assms(1,3)] MsiCapability_new_eq[OF assms(1,3)] msi_read_def msi_present_def Let_def)

definition example_fields :: BitFields where
  "example_fields = \<lparr>bf16 = shift_mask_field, bf32 = shift_mask_field, bf64 = shift_mask_field\<rparr>"

lemma example_fields_ok: "bit_fields_ok example_fields"
  by (simp add: bit_fields_ok_def example_fields_def shift_mask_field_ok)

text \<open>A device whose capability list has a capability of another kind at 0x40 and a 64-bit MSI capability for up to
  eight messages at 0x50.\<close>

definition example_msi_config :: config_space where
  "example_msi_config a = (if a = 0x80000000 then 0x12378086 else if a = 0x80000034 then 0x40
     else if a = 0x80000040 then 0x5010 else if a = 0x80000050 then 0x00860005 else 0)"

definition example_msi_device :: PciDevice where
  "example_msi_device = PciDevice_new example_msi_config 0 0 0"

theorem msi_write_read_round_trip_witness:
  "\<exists>cfg'. write_msi_capability example_fields example_msi_device 0x50 \<lparr>msi_0 = 0x00870005, msi_1 = 0xfee00000, msi_2 = 1, msi_3 = 0x40, msi_4 = 7, msi_5 = 8\<rparr> example_msi_config = Some cfg' \<and>
     MsiCapability_new example_fields cfg' example_msi_device 0x50 =
       Some (msi_present \<lparr>msi_0 = 0x00870005, msi_1 = 0xfee00000, msi_2 = 1, msi_3 = 0x40, msi_4 = 7, msi_5 = 8\<rparr>)"
  by (rule msi_write_read_round_trip[OF example_fields_ok]) (simp_all add: take_bit_eq_mask mask_eq_exp_minus_1)

section \<open>Configuring a device\<close>

text \<open>The addresses of a capability list that begins at \<open>a\<close>.\<close>

fun cap_chain :: "config_space \<Rightarrow> PciDevice \<Rightarrow> u8 \<Rightarrow> u8 list \<Rightarrow> bool" where
  "cap_chain cfg d a [] = (a = 0)"
| "cap_chain cfg d a (x # xs) =
     (a = x \<and> x \<noteq> 0 \<and> take_bit 2 x = 0 \<and> unat x + 24 \<le> 256 \<and> cap_chain cfg d (hdr_next (read_configuration_space cfg d x)) xs)"

definition is_msi :: "config_space \<Rightarrow> PciDevice \<Rightarrow> u8 \<Rightarrow> bool" where
  "is_msi cfg d x \<longleftrightarrow> hdr_id (read_configuration_space cfg d x) = 5"

lemma msi_read_header [simp]: "msi_0 (msi_read cfg d a) = read_configuration_space cfg d a"
  by (simp add: msi_read_def Let_def)

lemma msi_next_none:
  assumes "bit_fields_ok F"
  shows "cap_chain cfg d a xs \<Longrightarrow> \<forall>x \<in> set xs. \<not> is_msi cfg d x \<Longrightarrow> msi_next F cfg d a = Some (0, None)"
proof (induction xs arbitrary: a)
  case (Cons x xs)
  let ?n = "hdr_next (read_configuration_space cfg d x)"
  from Cons.prems have "msi_next F cfg d ?n = Some (0, None)" by (intro Cons.IH) auto
  with Cons.prems show ?case
    by (cases "?n = 0") (auto simp: msi_next_def MsiCapability_new_eq[OF assms] is_msi_def msi_skip.simps[of F cfg d x] header_fields[OF assms])
qed (simp add: msi_next_def)

lemma msi_next_found:
  assumes "bit_fields_ok F" "is_msi cfg d m"
  shows "cap_chain cfg d a (xs @ m # ys) \<Longrightarrow> \<forall>x \<in> set xs. \<not> is_msi cfg d x \<Longrightarrow>
    msi_next F cfg d a = Some (hdr_next (read_configuration_space cfg d m), Some (m, msi_read cfg d m))"
proof (induction xs arbitrary: a)
  case Nil
  then show ?case using assms(2)
    by (auto simp: msi_next_def MsiCapability_new_eq[OF assms(1)] is_msi_def msi_skip.simps[of F cfg d m] header_fields[OF assms(1)])
next
  case (Cons x xs)
  let ?n = "hdr_next (read_configuration_space cfg d x)"
  from Cons.prems have "msi_next F cfg d ?n = Some (hdr_next (read_configuration_space cfg d m), Some (m, msi_read cfg d m))"
    by (intro Cons.IH) auto
  moreover have "?n \<noteq> 0" using Cons.prems(1) by (cases xs) auto
  ultimately show ?case using Cons.prems
    by (auto simp: msi_next_def MsiCapability_new_eq[OF assms(1)] is_msi_def msi_skip.simps[of F cfg d x] header_fields[OF assms(1)])
qed

lemma cap_chain_append:
  "cap_chain cfg d a (xs @ m # ys) \<Longrightarrow>
   m \<noteq> 0 \<and> take_bit 2 m = 0 \<and> unat m + 24 \<le> 256 \<and> cap_chain cfg d (hdr_next (read_configuration_space cfg d m)) ys"
  by (induction xs arbitrary: a) auto

lemma cap_chain_cong:
  assumes "\<forall>x \<in> set xs. read_configuration_space cfg' d x = read_configuration_space cfg d x"
  shows "cap_chain cfg' d a xs = cap_chain cfg d a xs"
  using assms by (induction xs arbitrary: a) auto

lemma cap_chain_aligned: "cap_chain cfg d a xs \<Longrightarrow> x \<in> set xs \<Longrightarrow> take_bit 2 x = 0"
  by (induction xs arbitrary: a) auto

text \<open>The header that the loop writes: the enable bit set, and as many messages enabled as the device can send and
  the caller asks for.\<close>

definition capable :: "u32 \<Rightarrow> u16" where
  "capable h = take_bit 3 (drop_bit 1 (hdr_control h))"

definition msi_configured :: "nat \<Rightarrow> u32 \<Rightarrow> u32 \<Rightarrow> bool" where
  "msi_configured nve h h' \<longleftrightarrow>
     bit (hdr_control h') 0 \<and> take_bit 3 (drop_bit 4 (hdr_control h')) = min (capable h) (of_nat nve) \<and>
     capable h' = capable h \<and> drop_bit 7 (hdr_control h') = drop_bit 7 (hdr_control h) \<and>
     hdr_id h' = hdr_id h \<and> hdr_next h' = hdr_next h"


lemma min_capable_fits: "take_bit 3 (min (capable h) n) = min (capable h) n"
proof (rule take_bit_small)
  have "unat (capable h) < 2 ^ 3" by (simp add: capable_def unsigned_take_bit_eq take_bit_nat_def)
  moreover have "unat (min (capable h) n) \<le> unat (capable h)" by (simp add: word_le_nat_alt[symmetric])
  ultimately show "unat (min (capable h) n) < 2 ^ 3" by simp
qed

text \<open>The bits of the control word that the loop computes.\<close>

definition control_bit :: "u32 \<Rightarrow> nat \<Rightarrow> nat \<Rightarrow> bool" where
  "control_bit h nve k =
     (if k = 0 then True else if 4 \<le> k \<and> k < 7 then bit (min (capable h) (of_nat nve)) (k - 4) else bit (hdr_control h) k)"

lemma bit_control: "bit (hdr_control h) k \<longleftrightarrow> k < 16 \<and> bit h (k + 16)"
  by (auto simp: hdr_control_def bit_simps add.commute dest: bit_imp_le_length)

lemma msi_configuredI:
  assumes bits: "\<And>k. bit h' k = (if 16 \<le> k \<and> k < 32 then control_bit h nve (k - 16) else bit h k)"
  shows "msi_configured nve h h'"
  unfolding msi_configured_def
proof (intro conjI)
  have ctl: "bit (hdr_control h') k \<longleftrightarrow> k < 16 \<and> control_bit h nve k" for k
    by (auto simp: bit_control bits add.commute)
  show "bit (hdr_control h') 0" by (simp add: ctl control_bit_def)
  show "take_bit 3 (drop_bit 4 (hdr_control h')) = min (capable h) (of_nat nve)"
    by (rule bit_word_eqI) (use bit_take_bit_same[OF min_capable_fits[of h "of_nat nve"]] in
        \<open>auto simp: bit_take_bit_iff bit_drop_bit_eq ctl control_bit_def\<close>)
  show "capable h' = capable h"
    unfolding capable_def by (rule bit_word_eqI) (auto simp: bit_take_bit_iff bit_drop_bit_eq ctl control_bit_def)
  show "drop_bit 7 (hdr_control h') = drop_bit 7 (hdr_control h)"
    by (rule bit_word_eqI) (auto simp: bit_drop_bit_eq ctl control_bit_def dest: bit_imp_le_length)
  show "hdr_id h' = hdr_id h" unfolding hdr_id_def by (rule bit_word_eqI) (auto simp: bit_ucast_iff bits)
  show "hdr_next h' = hdr_next h" unfolding hdr_next_def by (rule bit_word_eqI) (auto simp: bit_ucast_iff bit_drop_bit_eq bits)
qed

lemma configure_capability_eq:
  assumes "bit_fields_ok F" "unat a + 24 \<le> 256"
  shows "\<exists>cap. configure_capability F d msg_addr msg_data nve a m cfg = Some (conf_writes d (msi_writes cap a) cfg) \<and>
    msi_configured nve (msi_0 m) (msi_0 cap) \<and> msi_1 cap = msg_addr \<and> msi_2 cap = 0 \<and>
    take_bit 16 (msi_3 cap) = take_bit 16 msg_data \<and> msi_4 cap = msi_4 m \<and> msi_5 cap = msi_5 m"
proof -
  note B = bit_fieldsD(1)[OF assms(1)]
  let ?h = "msi_0 m"
  let ?n = "min (capable ?h) (of_nat nve)"
  let ?c = "bf_set_bit (bf16 F) 0 True (bf_set_bits (bf16 F) 4 7 ?n (hdr_control ?h))"
  have cap: "multiple_message_capable F (hdr_control ?h) = capable ?h"
    by (simp add: multiple_message_capable_def capable_def bit_fieldD(3)[OF B])
  have ctl: "capable ?h \<le> of_nat nve \<Longrightarrow> set_multiple_message_enable F (capable ?h) (hdr_control ?h) = Some (bf_set_bits (bf16 F) 4 7 ?n (hdr_control ?h))"
    "\<not> capable ?h \<le> of_nat nve \<Longrightarrow> set_multiple_message_enable F (of_nat nve) (hdr_control ?h) = Some (bf_set_bits (bf16 F) 4 7 ?n (hdr_control ?h))"
    using min_capable_fits[of ?h "of_nat nve"]
    by (auto simp: set_multiple_message_enable_def set_bits_checked_def min_def split: if_splits)
  have c: "bit ?c k = control_bit ?h nve k" for k
    using min_capable_fits[of ?h "of_nat nve"] by (simp add: bit_fieldD(2)[OF B] bit_fieldD(4)[OF B] control_bit_def)
  obtain w where w: "set_message_control F ?c m = Some (m\<lparr>msi_0 := w\<rparr>)"
    and wb: "\<forall>k. bit w k = (if 16 \<le> k \<and> k < 32 then bit ?c (k - 16) else bit ?h k)"
    using set_control_eq[OF assms(1)] by blast
  let ?m = "m\<lparr>msi_0 := w, msi_1 := msg_addr, msi_2 := 0\<rparr>"
  obtain v where v: "set_message_data F (ucast msg_data) ?m = Some (?m\<lparr>msi_3 := v\<rparr>)"
    and vb: "\<forall>k. bit v k = (if k < 16 then bit (ucast msg_data :: u16) k else bit (msi_3 ?m) k)"
    using set_data_eq[OF assms(1)] by blast
  have "take_bit 16 v = take_bit 16 msg_data"
    by (rule bit_word_eqI) (use vb in \<open>auto simp: bit_take_bit_iff bit_ucast_iff\<close>)
  moreover have "msi_configured nve ?h w" by (rule msi_configuredI) (simp add: wb c)
  moreover have "configure_capability F d msg_addr msg_data nve a m cfg = Some (conf_writes d (msi_writes (?m\<lparr>msi_3 := v\<rparr>) a) cfg)"
    using v w by (cases "capable ?h \<le> of_nat nve") (simp_all add: configure_capability_def header_fields[OF assms(1)] cap ctl Let_def set_msi_enable_def
        set_message_address_def address_parts write_msi_eq[OF assms])
  ultimately show ?thesis by (intro exI[of _ "?m\<lparr>msi_3 := v\<rparr>"]) simp
qed


lemma configure_loop_once:
  assumes F: "bit_fields_ok F" and m: "is_msi cfg d m" and none: "\<forall>x \<in> set (pre @ post). \<not> is_msi cfg d x"
    and chain: "cap_chain cfg d a (pre @ m # post)" and apart: "\<forall>x \<in> set post. x \<notin> set (msi_region m)"
  shows "\<exists>cap. configure_msi_loop F d msg_addr msg_data nve a False cfg = Some (conf_writes d (msi_writes cap m) cfg, True) \<and>
    msi_configured nve (read_configuration_space cfg d m) (msi_0 cap) \<and> msi_1 cap = msg_addr \<and> msi_2 cap = 0 \<and>
    take_bit 16 (msi_3 cap) = take_bit 16 msg_data"
proof -
  note room = cap_chain_append[OF chain]
  obtain cap where cap: "configure_capability F d msg_addr msg_data nve m (msi_read cfg d m) cfg = Some (conf_writes d (msi_writes cap m) cfg)"
    and fields: "msi_configured nve (read_configuration_space cfg d m) (msi_0 cap)" "msi_1 cap = msg_addr" "msi_2 cap = 0"
      "take_bit 16 (msi_3 cap) = take_bit 16 msg_data"
    using configure_capability_eq[OF F, of m d msg_addr msg_data nve "msi_read cfg d m" cfg] room by auto
  let ?cfg = "conf_writes d (msi_writes cap m) cfg" and ?n = "hdr_next (read_configuration_space cfg d m)"
  have same: "\<forall>x \<in> set post. read_configuration_space ?cfg d x = read_configuration_space cfg d x"
    using room cap_chain_aligned apart by (intro ballI msi_writes_outside) blast+
  have "cap_chain ?cfg d ?n post" using room by (simp add: cap_chain_cong[OF same])
  then have "msi_next F ?cfg d ?n = Some (0, None)"
    by (rule msi_next_none[OF F]) (use none same in \<open>auto simp: is_msi_def\<close>)
  moreover have "msi_next F cfg d a = Some (?n, Some (m, msi_read cfg d m))"
    by (rule msi_next_found[OF F m chain]) (use none in auto)
  ultimately have "configure_msi_loop F d msg_addr msg_data nve a False cfg = Some (?cfg, True)"
    by (simp add: configure_msi_loop.simps[of F d msg_addr msg_data nve a] configure_msi_loop.simps[of F d msg_addr msg_data nve ?n] cap)
  then show ?thesis using fields by blast
qed

lemma example_msi_chain:
  "read_capabilities_pointer example_msi_config example_msi_device = Some 0x40" "cap_chain example_msi_config example_msi_device 0x40 ([0x40] @ 0x50 # [])"
  "is_msi example_msi_config example_msi_device 0x50" "\<forall>x \<in> set ([0x40] @ []). \<not> is_msi example_msi_config example_msi_device x"
  "\<forall>x \<in> set []. x \<notin> set (msi_region 0x50)" "read_configuration_space example_msi_config example_msi_device 0x50 = 0x00860005"
proof -
  let ?cfg = example_msi_config and ?d = example_msi_device
  have dev: "pd_bus ?d = 0" "pd_device ?d = 0" "pd_function ?d = 0"
    by (simp_all add: example_msi_device_def PciDevice_new_def Let_def)
  have rd: "read_configuration_space ?cfg ?d 0x40 = 0x5010" "read_configuration_space ?cfg ?d 0x50 = 0x00860005"
    unfolding read_configuration_space_def dev by (simp_all add: read_data_def PciConfigAddress_new_def example_msi_config_def)
  show "read_capabilities_pointer ?cfg ?d = Some 0x40" unfolding read_capabilities_pointer_def dev
    by (simp add: read_data_def PciConfigAddress_new_def example_msi_config_def example_msi_device_def PciDevice_new_def
        HeaderType_new_def HeaderType_from_raw_def is_generic_device_def Let_def)
  show "cap_chain ?cfg ?d 0x40 ([0x40] @ 0x50 # [])"
    by (simp add: rd hdr_next_def take_bit_eq_mask mask_eq_exp_minus_1)
  show "is_msi ?cfg ?d 0x50" by (simp add: is_msi_def rd hdr_id_def)
  show "\<forall>x \<in> set ([0x40] @ []). \<not> is_msi ?cfg ?d x" by (simp add: is_msi_def rd hdr_id_def)
  show "\<forall>x \<in> set []. x \<notin> set (msi_region 0x50)" by simp
  show "read_configuration_space ?cfg ?d 0x50 = 0x00860005" by (rule rd(2))
qed

lemma configure_msi_result:
  assumes "bit_fields_ok F" "read_capabilities_pointer cfg d = Some a" "cap_chain cfg d a (pre @ m # post)"
    and "is_msi cfg d m" "\<forall>x \<in> set (pre @ post). \<not> is_msi cfg d x" "\<forall>x \<in> set post. x \<notin> set (msi_region m)"
  shows "\<exists>cfg'. configure_msi F d msg_addr msg_data nve cfg = Some cfg' \<and>
    msi_configured nve (read_configuration_space cfg d m) (read_configuration_space cfg' d m) \<and>
    read_configuration_space cfg' d (m + 4) = msg_addr \<and>
    (bit (hdr_control (read_configuration_space cfg d m)) 7 \<longrightarrow> read_configuration_space cfg' d (m + 8) = 0) \<and>
    read_configuration_space cfg' d (data_addr (read_configuration_space cfg d m) m) = take_bit 16 msg_data \<and>
    (\<forall>r. take_bit 2 r = 0 \<and> r \<notin> set (msi_region m) \<longrightarrow> read_configuration_space cfg' d r = read_configuration_space cfg d r)"
proof -
  obtain cap where loop: "configure_msi_loop F d msg_addr msg_data nve a False cfg = Some (conf_writes d (msi_writes cap m) cfg, True)"
    and fields: "msi_configured nve (read_configuration_space cfg d m) (msi_0 cap)" "msi_1 cap = msg_addr" "msi_2 cap = 0"
      "take_bit 16 (msi_3 cap) = take_bit 16 msg_data"
    using configure_loop_once[OF assms(1,4,5,3,6)] by blast
  let ?h = "read_configuration_space cfg d m"
  have "bit (drop_bit 7 (hdr_control (msi_0 cap))) 0 = bit (drop_bit 7 (hdr_control ?h)) 0"
    using fields(1) by (simp add: msi_configured_def)
  then have b7: "bit (hdr_control (msi_0 cap)) 7 = bit (hdr_control ?h) 7" by (simp add: bit_drop_bit_eq)
  then have da: "data_addr (msi_0 cap) m = data_addr ?h m" by (simp add: data_addr_def)
  have "take_bit 2 m = 0" using cap_chain_append[OF assms(3)] by blast
  then show ?thesis
    using msi_writes_read[where a = m and d = d and m = cap and cfg = cfg] msi_writes_outside[where a = m and d = d and m = cap and cfg = cfg]
      fields loop assms(2) b7 da
    by (intro exI[of _ "conf_writes d (msi_writes cap m) cfg"]) (simp add: configure_msi_def)
qed



end
