(* ===== verification/Xhci_Main.thy ===== *)
theory Xhci_Main
  imports Controller_Boot Msi Desktop
begin

text \<open>
  The entry points of the USB stack, \<^verbatim>\<open>kernel/src/xhci.rs\<close>: finding the controller on the PCI bus and bringing it up with the ports that are connected at boot, the task that polls it for ever,
  and the ticks of the class drivers (\<^verbatim>\<open>gen_async_tick!\<close> of \<^verbatim>\<open>xhci/controller.rs\<close>). This is where the PCI, MSI, controller and desktop components meet.
\<close>

section \<open>Bringing the controller up\<close>

text \<open>One turn of the loop over the ports.\<close>

definition init_port :: "'h Hw \<Rightarrow> usize \<Rightarrow> 'h Controller \<Rightarrow> 'h Controller option" where
  "init_port W port_idx c = do {
     (c, p) \<leftarrow> on_xhc (read_port W port_idx) c;
     if pr_current_connect_status p then configure_port_at W port_idx c else Some c
   }"

definition init_ports :: "'h Hw \<Rightarrow> 'h Controller \<Rightarrow> 'h Controller option" where
  "init_ports W c = for_each [0..<unat (xc_number_of_ports c)] (init_port W) c"

text \<open>\<open>mmio\<close> gives the controller whose registers are at an address, and \<open>lapic\<close> is the register of the local APIC with the processor's identifier.\<close>

definition init_xhci_controller ::
  "BitFields \<Rightarrow> Libs \<Rightarrow> 'g RegHw \<Rightarrow> RegLib \<Rightarrow> 'h Hw \<Rightarrow> nat \<Rightarrow> u32 \<Rightarrow> (u64 \<Rightarrow> 'g Regs \<times> 'h Xhc) \<Rightarrow> 'h device_state ClassDriverManager \<Rightarrow> config_space \<Rightarrow>
   (config_space \<times> 'g Regs \<times> 'h Controller) option"
where
  "init_xhci_controller F L R K W fuel lapic mmio class_driver_manager cfg = do {
     devices \<leftarrow> scan_all_bus fuel cfg;
     xhci_device \<leftarrow> find_xhci_device devices;
     base \<leftarrow> xhc_mmio_base cfg xhci_device;
     let bsp_local_apic_id = ucast (drop_bit 24 lapic);
     cfg \<leftarrow> configure_msi_fixed_destination F xhci_device bsp_local_apic_id Level Fixed 64 0 cfg;
     (g, c) \<leftarrow> XhciController_new L R K class_driver_manager (mmio base);
     g \<leftarrow> run_controller R g;
     c \<leftarrow> init_ports W c;
     Some (cfg, g, c)
   }"

section \<open>The polling task\<close>

text \<open>
  The state of \<^verbatim>\<open>poll_forever\<close> between two polls is the point where it yielded. The desktop is part of the state that the drivers' callbacks act on, here the first component of \<open>xs_hw\<close>.
  \<open>PollIdle n\<close> has \<open>n\<close> of the hundred idle yields left; with none left the loop starts over.
\<close>

datatype PollPhase = PollFlushReceived | PollSecond | PollFlushEvent | PollUser | PollIdle nat

definition flush_desktop :: "(World \<times> 'x) Controller \<Rightarrow> (World \<times> 'x) Controller option" where
  "flush_desktop c = do {
     w \<leftarrow> lifegame_flush (fst (xs_hw (xc_xhc c)));
     Some (c\<lparr>xc_xhc := (xc_xhc c)\<lparr>xs_hw := (w, snd (xs_hw (xc_xhc c)))\<rparr>\<rparr>)
   }"

definition poll_user :: "Libs \<Rightarrow> 'h Hw \<Rightarrow> 'h Controller \<Rightarrow> (PollPhase \<times> 'h Controller \<times> unit Poll) option" where
  "poll_user L W c = do { c \<leftarrow> process_user_event L W c; Some (PollIdle 99, c, Pending) }"

definition poll_second :: "Libs \<Rightarrow> 'h Hw \<Rightarrow> 'h Controller \<Rightarrow> (PollPhase \<times> 'h Controller \<times> unit Poll) option" where
  "poll_second L W c = do {
     pending \<leftarrow> pending_event L c;
     if pending then do { c \<leftarrow> process_event L W c; Some (PollFlushEvent, c, Pending) } else poll_user L W c
   }"

definition poll_first :: "Libs \<Rightarrow> 'h Hw \<Rightarrow> 'h Controller \<Rightarrow> (PollPhase \<times> 'h Controller \<times> unit Poll) option" where
  "poll_first L W c =
     (if pending_already_popped_queue (fst (xs_events (xc_xhc c)))
      then do { c \<leftarrow> process_once_received L W c; Some (PollFlushReceived, c, Pending) }
      else poll_second L W c)"

definition poll_forever_poll :: "Libs \<Rightarrow> (World \<times> 'x) Hw \<Rightarrow> (PollPhase, (World \<times> 'x) Controller, unit) poll_fn" where
  "poll_forever_poll L W ph c =
     (case ph of
        PollFlushReceived \<Rightarrow> do { c \<leftarrow> flush_desktop c; Some (PollSecond, c, Pending) }
      | PollSecond \<Rightarrow> poll_second L W c
      | PollFlushEvent \<Rightarrow> do { c \<leftarrow> flush_desktop c; Some (PollUser, c, Pending) }
      | PollUser \<Rightarrow> poll_user L W c
      | PollIdle 0 \<Rightarrow> poll_first L W c
      | PollIdle (Suc n) \<Rightarrow> Some (PollIdle n, c, Pending))"

section \<open>Ticks\<close>

text \<open>The body of \<^verbatim>\<open>gen_tick!\<close> for a driver given by its field and constants.\<close>

definition sync_tick ::
  "(('h device_state ClassDriverManager) \<Rightarrow> 'h device_state InputOnlyDriver DriverInfo) \<Rightarrow>
   ('h device_state InputOnlyDriver DriverInfo \<Rightarrow> 'h device_state ClassDriverManager \<Rightarrow> 'h device_state ClassDriverManager) \<Rightarrow>
   DriverConsts \<Rightarrow> Libs \<Rightarrow> 'h Hw \<Rightarrow> usize \<Rightarrow> 'h Controller \<Rightarrow> ('h Controller \<times> (DriverError + unit)) option"
where
  "sync_tick get put K L W cnt c =
     (case di_slot_id (get (xc_drivers c)) of
        None \<Rightarrow> Some (c, Inr ())
      | Some slot_id \<Rightarrow> do {
          device \<leftarrow> device_by_slot_id slot_id (xc_devices c);
          (case device of
             None \<Rightarrow> Some (c, Inr ())
           | Some d \<Rightarrow> do {
               let info = get (xc_drivers c);
               ((d, s), drv, r) \<leftarrow> driver_tick K (lib_usb L) (device_host L W) cnt (di_driver info) (d, xc_xhc c);
               c \<leftarrow> on_device slot_id (\<lambda>_. Some d) (c\<lparr>xc_drivers := put (info\<lparr>di_driver := drv\<rparr>) (xc_drivers c), xc_xhc := s\<rparr>);
               Some (c, r)
             })
        })"

definition tick_keyboard :: "Libs \<Rightarrow> 'h Hw \<Rightarrow> usize \<Rightarrow> 'h Controller \<Rightarrow> ('h Controller \<times> (DriverError + unit)) option" where
  "tick_keyboard = sync_tick cd_keyboard (\<lambda>i C. C\<lparr>cd_keyboard := i\<rparr>) keyboard_consts"

definition tick_mouse :: "Libs \<Rightarrow> 'h Hw \<Rightarrow> usize \<Rightarrow> 'h Controller \<Rightarrow> ('h Controller \<times> (DriverError + unit)) option" where
  "tick_mouse = sync_tick cd_mouse (\<lambda>i C. C\<lparr>cd_mouse := i\<rparr>) mouse_consts"

text \<open>The body of \<^verbatim>\<open>gen_async_tick!\<close> for a driver given by its field and constants.\<close>

definition async_tick ::
  "(('h device_state ClassDriverManager) \<Rightarrow> 'h device_state InputOnlyDriver DriverInfo) \<Rightarrow>
   ('h device_state InputOnlyDriver DriverInfo \<Rightarrow> 'h device_state ClassDriverManager \<Rightarrow> 'h device_state ClassDriverManager) \<Rightarrow>
   DriverConsts \<Rightarrow> Libs \<Rightarrow> 'h Hw \<Rightarrow> usize \<Rightarrow> 'h Controller \<Rightarrow> ('h Controller \<times> (DriverError + unit)) option"
where
  "async_tick get put K L W cnt c =
     (case di_slot_id (get (xc_drivers c)) of
        None \<Rightarrow> Some (c, Inr ())
      | Some slot_id \<Rightarrow> do {
          device \<leftarrow> device_by_slot_id slot_id (xc_devices c);
          (case device of
             None \<Rightarrow> Some (c, Inr ())
           | Some d \<Rightarrow> do {
               let info = get (xc_drivers c);
               ((d, s), drv, r) \<leftarrow> async_driver_tick K (lib_usb L) (device_host L W) cnt (di_driver info) (d, xc_xhc c);
               c \<leftarrow> on_device slot_id (\<lambda>_. Some d) (c\<lparr>xc_drivers := put (info\<lparr>di_driver := drv\<rparr>) (xc_drivers c), xc_xhc := s\<rparr>);
               Some (c, r)
             })
        })"

definition async_tick_keyboard :: "Libs \<Rightarrow> 'h Hw \<Rightarrow> usize \<Rightarrow> 'h Controller \<Rightarrow> ('h Controller \<times> (DriverError + unit)) option" where
  "async_tick_keyboard = async_tick cd_keyboard (\<lambda>i C. C\<lparr>cd_keyboard := i\<rparr>) keyboard_consts"

definition async_tick_mouse :: "Libs \<Rightarrow> 'h Hw \<Rightarrow> usize \<Rightarrow> 'h Controller \<Rightarrow> ('h Controller \<times> (DriverError + unit)) option" where
  "async_tick_mouse = async_tick cd_mouse (\<lambda>i C. C\<lparr>cd_mouse := i\<rparr>) mouse_consts"

text \<open>Both generations of the drivers' ticks have the same effect.\<close>

lemma async_tick_eq: "async_tick_keyboard = tick_keyboard" "async_tick_mouse = tick_mouse"
  unfolding async_tick_keyboard_def async_tick_mouse_def tick_keyboard_def tick_mouse_def async_tick_def sync_tick_def async_driver_tick_eq by (rule refl)+

text \<open>One turn of \<^verbatim>\<open>tick_mouse_forever\<close>, with its counter, and of \<^verbatim>\<open>tick_keyboard_forever\<close>, whose counter stays zero.\<close>

definition tick_mouse_turn :: "Libs \<Rightarrow> 'h Hw \<Rightarrow> usize \<times> 'h Controller \<Rightarrow> (usize \<times> 'h Controller) option" where
  "tick_mouse_turn L W = (\<lambda>(cnt, c). do {
     (c, r) \<leftarrow> async_tick_mouse L W cnt c;
     (case r of Inl e \<Rightarrow> None | Inr _ \<Rightarrow> do { cnt \<leftarrow> uadd cnt 1; Some (cnt, c) })
   })"

definition tick_keyboard_turn :: "Libs \<Rightarrow> 'h Hw \<Rightarrow> 'h Controller \<Rightarrow> 'h Controller option" where
  "tick_keyboard_turn L W c = do {
     (c, r) \<leftarrow> async_tick_keyboard L W 0 c;
     (case r of Inl e \<Rightarrow> None | Inr _ \<Rightarrow> Some c)
   }"

section \<open>The ports at boot\<close>

text \<open>
  Ports that behave as the specification says while the driver goes through them: \<open>Q k s\<close> holds as long as no port from \<open>k\<close> on has been touched; such a port shows whether a
  device is connected and that its connection changed, and when it is reset it comes up without touching the ones behind it.
\<close>

definition ports_behave :: "'h Hw \<Rightarrow> nat \<Rightarrow> (usize \<Rightarrow> bool) \<Rightarrow> (usize \<Rightarrow> 'h Xhc \<Rightarrow> bool) \<Rightarrow> bool" where
  "ports_behave W n conn Q \<longleftrightarrow>
     (\<forall>k s. Q k s \<longrightarrow> Q k (hw_env W s) \<and> Q (Suc k) s) \<and>
     (\<forall>k < n. \<forall>s. Q k s \<longrightarrow> pr_current_connect_status (xs_portsc s ! k) = conn k \<and> (conn k \<longrightarrow> pr_connect_status_change (xs_portsc s ! k))) \<and>
     (\<forall>k < n. \<forall>s. Q k s \<longrightarrow> conn k \<longrightarrow> (\<exists>s'. port_resets W k s s' \<and> Q (Suc k) s'))"

text \<open>The configuration of the ports that results: the first connected port is being addressed, the other connected ones wait.\<close>

definition boot_ports :: "nat \<Rightarrow> (usize \<Rightarrow> bool) \<Rightarrow> PortConfigureState" where
  "boot_ports n conn = \<lparr>port_config_phase = map (\<lambda>i. if i < n \<and> conn i \<and> List.find conn [0..<n] \<noteq> Some i then WaitingAddressed else NotConnected) [0..<256],
     addressing_port_index = List.find conn [0..<n]\<rparr>"

lemma find_upt_Suc: "List.find P [0..<Suc n] = (case List.find P [0..<n] of None \<Rightarrow> if P n then Some n else None | Some i \<Rightarrow> Some i)"
proof -
  have "List.find P (xs @ ys) = (case List.find P xs of None \<Rightarrow> List.find P ys | Some i \<Rightarrow> Some i)" for xs ys :: "nat list"
    by (induction xs) auto
  then show ?thesis by (simp split: option.splits)
qed

lemma find_upt_less: "List.find P [0..<n] = Some i \<Longrightarrow> i < n \<and> P i"
  by (auto simp: find_Some_iff)

lemma boot_ports_Suc:
  assumes "n < 256"
  shows "boot_ports (Suc n) conn =
    (if \<not> conn n then boot_ports n conn
     else if List.find conn [0..<n] = None then (boot_ports n conn)\<lparr>addressing_port_index := Some n\<rparr>
     else (boot_ports n conn)\<lparr>port_config_phase := (port_config_phase (boot_ports n conn))[n := WaitingAddressed]\<rparr>)"
proof (cases "List.find conn [0..<n]")
  case None
  then have "\<not> conn i" if "i < n" for i using that by (auto simp: find_None_iff)
  then show ?thesis using None by (auto simp: boot_ports_def find_upt_Suc less_Suc_eq simp del: upt_Suc)
next
  case (Some j)
  then have j: "j < n" "conn j" using find_upt_less by auto
  have "port_config_phase (boot_ports (Suc n) conn) ! i = (if conn n then (port_config_phase (boot_ports n conn))[n := WaitingAddressed] else port_config_phase (boot_ports n conn)) ! i"
    if "i < 256" for i using that Some j by (auto simp: boot_ports_def find_upt_Suc less_Suc_eq nth_list_update simp del: upt_Suc)
  then have "port_config_phase (boot_ports (Suc n) conn) = (if conn n then (port_config_phase (boot_ports n conn))[n := WaitingAddressed] else port_config_phase (boot_ports n conn))"
    by (intro nth_equalityI) (simp_all add: boot_ports_def del: upt_Suc)
  moreover have "addressing_port_index (boot_ports (Suc n) conn) = addressing_port_index (boot_ports n conn)" using Some by (simp add: boot_ports_def find_upt_Suc del: upt_Suc)
  ultimately show ?thesis using Some by simp
qed

text \<open>A connected port while another one is being addressed: it is only marked.\<close>

lemma reset_port_at_waits:
  assumes "hw_keeps W" "i < length (xs_portsc (xc_xhc c))" "pr_current_connect_status (look W 1 i (xc_xhc c))" "pr_connect_status_change (look W 2 i (xc_xhc c))"
    and "addressing_port_index (xc_ports c) = Some j" "j \<noteq> i" "i < length (port_config_phase (xc_ports c))"
  shows "reset_port_at W i c =
    Some (c\<lparr>xc_ports := (xc_ports c)\<lparr>port_config_phase := (port_config_phase (xc_ports c))[i := WaitingAddressed]\<rparr>, xc_xhc := (hw_env W ^^ 3) (xc_xhc c)\<rparr>)"
proof -
  let ?s = "xc_xhc c" and ?s1 = "hw_env W (xc_xhc c)" and ?s3 = "(hw_env W ^^ 3) (xc_xhc c)"
  have s3: "?s3 = hw_env W (hw_env W ?s1)" by (simp add: numeral_eq_Suc)
  have reads: "on_xhc (read_port W i) c = Some (c\<lparr>xc_xhc := ?s1\<rparr>, look W 1 i ?s)"
    "on_xhc (read_port W i) (c\<lparr>xc_xhc := ?s1\<rparr>) = Some (c\<lparr>xc_xhc := hw_env W ?s1\<rparr>, look W 2 i ?s)"
    "\<exists>p. on_xhc (read_port W i) (c\<lparr>xc_xhc := hw_env W ?s1\<rparr>) = Some (c\<lparr>xc_xhc := ?s3\<rparr>, p)"
    using on_xhc_read[OF assms(1), of i] assms(2) s3 by (simp_all add: numeral_2_eq_2 hw_keepsD[OF assms(1)])
  have "claim_port i (c\<lparr>xc_xhc := ?s3\<rparr>) =
    Some (c\<lparr>xc_ports := (xc_ports c)\<lparr>port_config_phase := (port_config_phase (xc_ports c))[i := WaitingAddressed]\<rparr>, xc_xhc := ?s3\<rparr>, False)"
    using assms(5-7) by (simp add: claim_port_def set_phase_def set_port_phase_at_def xhc_ports_commute)
  with reads assms(3,4) show ?thesis by (auto simp: reset_port_at_def is_port_connected_at_def)
qed

lemma init_port_step:
  assumes "hw_keeps W" "ports_behave W n conn Q" "k < n" "n < 256" "n \<le> length (xs_portsc s)" "Q k s"
  shows "\<exists>s'. init_port W k (c\<lparr>xc_ports := boot_ports k conn, xc_xhc := s\<rparr>) = Some (c\<lparr>xc_ports := boot_ports (Suc k) conn, xc_xhc := s'\<rparr>) \<and>
    Q (Suc k) s' \<and> driver_part s' = driver_part s \<and> length (xs_portsc s') = length (xs_portsc s)"
proof -
  let ?p = "boot_ports k conn" and ?s1 = "hw_env W s"
  let ?c = "c\<lparr>xc_ports := ?p, xc_xhc := ?s1\<rparr>"
  have env: "Q k ((hw_env W ^^ m) s')" if "Q k s'" for m s' using that assms(2) by (induction m) (auto simp: ports_behave_def)
  have port: "pr_current_connect_status (xs_portsc s' ! k) = conn k" "conn k \<Longrightarrow> pr_connect_status_change (xs_portsc s' ! k)" if "Q k s'" for s'
    using that assms(2,3) by (auto simp: ports_behave_def)
  have Q1: "Q k ?s1" "Q (Suc k) ?s1" using assms(2,6) by (auto simp: ports_behave_def)
  have len: "k < length (xs_portsc s)" "k < length (xs_portsc ?s1)" using assms(1,3,5) by (simp_all add: hw_keepsD)
  have k: "k < 256" using assms(3,4) by simp
  have nc: "port_phase_at k ?p = Some NotConnected" using k by (simp add: port_phase_at_def boot_ports_def)
  have rd: "init_port W k (c\<lparr>xc_ports := ?p, xc_xhc := s\<rparr>) = (if conn k then reset_port_at W k ?c else Some ?c)"
    using on_xhc_read[OF assms(1), of k "c\<lparr>xc_ports := ?p, xc_xhc := s\<rparr>"] len(1) port(1)[OF env[OF assms(6), of 1]] nc
    by (simp add: init_port_def look_def configure_port_at_def pcs_is_connected_def port_phase_at_def)
  have look: "pr_current_connect_status (look W m k s)" "pr_connect_status_change (look W m k s)" if "conn k" for m
    using that port env[OF assms(6)] by (simp_all add: look_def)
  consider "\<not> conn k" | "conn k" "List.find conn [0..<k] = None" | j where "conn k" "List.find conn [0..<k] = Some j" "j \<noteq> k"
    using find_upt_less[of conn k] by (cases "List.find conn [0..<k]") auto
  then show ?thesis
  proof cases
    case 1
    with rd Q1(2) show ?thesis by (intro exI[of _ ?s1]) (simp add: boot_ports_Suc[OF k] hw_keepsD[OF assms(1)])
  next
    case 2
    obtain s' where s': "port_resets W k ((hw_env W ^^ 3) ?s1) s'" "Q (Suc k) s'" using env[OF Q1(1)] assms(2,3) 2(1) unfolding ports_behave_def by blast
    then have up: "port_comes_up W k ?s1 s'" using 2(1) by (simp add: port_comes_up_def look)
    have "reset_port_at W k ?c = Some (?c\<lparr>xc_ports := ?p\<lparr>addressing_port_index := Some k\<rparr>, xc_xhc := s'\<rparr>)" "driver_part s' = driver_part ?s1" "length (xs_portsc s') = length (xs_portsc ?s1)"
      using reset_port_at_ok[OF assms(1), of k ?c s' NotConnected] len(2) up nc 2(2) by (simp_all add: boot_ports_def)
    with rd 2 s'(2) show ?thesis by (intro exI[of _ s']) (simp add: boot_ports_Suc[OF k] hw_keepsD[OF assms(1)])
  next
    case 3
    let ?s4 = "(hw_env W ^^ 3) ?s1"
    have "reset_port_at W k ?c = Some (?c\<lparr>xc_ports := ?p\<lparr>port_config_phase := (port_config_phase ?p)[k := WaitingAddressed]\<rparr>, xc_xhc := ?s4\<rparr>)"
      using reset_port_at_waits[OF assms(1), of k ?c j] len(2) 3 k by (simp add: look boot_ports_def)
    moreover have "Q (Suc k) ?s4" using env[OF Q1(1)] assms(2) by (auto simp: ports_behave_def)
    ultimately show ?thesis using rd 3 by (intro exI[of _ ?s4]) (simp add: boot_ports_Suc[OF k] hw_keepsD[OF assms(1)])
  qed
qed

lemma init_ports_state:
  assumes "hw_keeps W" "ports_behave W (unat (xc_number_of_ports c)) conn Q" "unat (xc_number_of_ports c) \<le> length (xs_portsc (xc_xhc c))"
    and "Q 0 (xc_xhc c)" "xc_ports c = PortConfigureState_new"
  shows "\<exists>s'. init_ports W c = Some (c\<lparr>xc_ports := boot_ports (unat (xc_number_of_ports c)) conn, xc_xhc := s'\<rparr>) \<and> driver_part s' = driver_part (xc_xhc c)"
proof -
  let ?n = "unat (xc_number_of_ports c)"
  have n: "?n < 256" using unsigned_less[of "xc_number_of_ports c"] by simp
  have "\<exists>s'. for_each [0..<k] (init_port W) c = Some (c\<lparr>xc_ports := boot_ports k conn, xc_xhc := s'\<rparr>) \<and> Q k s' \<and> driver_part s' = driver_part (xc_xhc c) \<and>
    length (xs_portsc s') = length (xs_portsc (xc_xhc c))" if "k \<le> ?n" for k
    using that
  proof (induction k)
    case 0
    have "boot_ports 0 conn = xc_ports c" unfolding assms(5) by (simp add: boot_ports_def PortConfigureState_new_def map_replicate_const del: replicate.simps)
    then show ?case using assms(4) by (intro exI[of _ "xc_xhc c"]) simp
  next
    case (Suc k)
    then obtain s1 where s1: "for_each [0..<k] (init_port W) c = Some (c\<lparr>xc_ports := boot_ports k conn, xc_xhc := s1\<rparr>)" "Q k s1" "driver_part s1 = driver_part (xc_xhc c)"
      "length (xs_portsc s1) = length (xs_portsc (xc_xhc c))" by auto
    with init_port_step[OF assms(1,2) _ n, of k s1 c] assms(3) Suc.prems show ?case by (auto simp: for_each_append)
  qed
  then show ?thesis by (auto simp: init_ports_def)
qed



section \<open>The controller of the machine\<close>

lemma find_xhci_device_spec:
  assumes "find_xhci_device devices = Some d"
  shows "d \<in> set devices" "is_xhci_controller (pd_class_code d)"
    "vendor_is_intel (pd_vendor_id d) \<or> (\<forall>e \<in> set devices. is_xhci_controller (pd_class_code e) \<longrightarrow> \<not> vendor_is_intel (pd_vendor_id e))"
  using assms by (auto simp: find_xhci_device_def find_Some_iff find_None_iff split: option.splits)

lemma find_xhci_device_total:
  assumes "d \<in> set devices" "is_xhci_controller (pd_class_code d)"
  obtains d' where "find_xhci_device devices = Some d'"
  using assms that by (cases "find_xhci_device devices") (auto simp: find_xhci_device_def find_None_iff split: option.splits)

text \<open>A device whose capability list ends and has exactly one MSI capability, which overlaps none of the capabilities after it.\<close>

definition has_msi :: "config_space \<Rightarrow> PciDevice \<Rightarrow> bool" where
  "has_msi cfg d \<longleftrightarrow> (\<exists>a pre m post. read_capabilities_pointer cfg d = Some a \<and> cap_chain cfg d a (pre @ m # post) \<and> is_msi cfg d m \<and>
     (\<forall>x \<in> set (pre @ post). \<not> is_msi cfg d x) \<and> (\<forall>x \<in> set post. x \<notin> set (msi_region m)))"

lemma configure_msi_fixed_returns:
  assumes "bit_fields_ok F" "has_msi cfg d"
  obtains cfg' where "configure_msi_fixed_destination F d apic_id Level Fixed v nve cfg = Some cfg'"
proof -
  obtain a pre m post where "read_capabilities_pointer cfg d = Some a" "cap_chain cfg d a (pre @ m # post)" "is_msi cfg d m"
    "\<forall>x \<in> set (pre @ post). \<not> is_msi cfg d x" "\<forall>x \<in> set post. x \<notin> set (msi_region m)"
    using assms(2) unfolding has_msi_def by (elim exE conjE) (rule that; assumption)
  then have "\<exists>cfg'. configure_msi F d addr data nve cfg = Some cfg'" for addr data using configure_msi_result[OF assms(1)] by blast
  then obtain cfg' where "configure_msi F d (0xfee00000 OR push_bit 12 (ucast apic_id)) (v OR 0xc000) nve cfg = Some cfg'" by blast
  with that show ?thesis by (simp add: configure_msi_fixed_destination_def Let_def)
qed

text \<open>The number of ports of a controller and which of them are connected when it is found.\<close>

definition ports_of :: "'g Regs \<Rightarrow> nat" where
  "ports_of g = unat (rg_number_of_ports g)"

definition port_connected :: "'h Xhc \<Rightarrow> usize \<Rightarrow> bool" where
  "port_connected s i = pr_current_connect_status (xs_portsc s ! i)"

text \<open>Its ports behave, as far as they and the hardware behind them show.\<close>

definition ports_start :: "'h Hw \<Rightarrow> 'g Regs \<Rightarrow> 'h Xhc \<Rightarrow> bool" where
  "ports_start W g s \<longleftrightarrow> ports_of g \<le> length (xs_portsc s) \<and>
     (\<exists>Q. ports_behave W (ports_of g) (port_connected s) Q \<and> (\<forall>s'. xs_portsc s' = xs_portsc s \<and> xs_hw s' = xs_hw s \<longrightarrow> Q 0 s'))"

lemma ports_start_cong:
  assumes "xs_portsc s = xs_portsc s'" "xs_hw s = xs_hw s'"
  shows "ports_start W g s = ports_start W g s'" "port_connected s = port_connected s'"
proof -
  show "port_connected s = port_connected s'" using assms by (simp add: fun_eq_iff port_connected_def)
  then show "ports_start W g s = ports_start W g s'" using assms by (simp add: ports_start_def)
qed

text \<open>A controller that can be started on the heap it is given, beside the blocks \<open>live\<close>.\<close>

definition startable :: "'h Hw \<Rightarrow> (usize \<times> usize) list \<Rightarrow> 'g Regs \<times> 'h Xhc \<Rightarrow> bool" where
  "startable W live = (\<lambda>(g, s). let k = unat (rg_max_scratchpad_buffers g) in
     stopped g \<and> legacy_registers g \<and> ports_start W g s \<and> k \<le> 512 \<and> bump_holds (xs_alloc s) live \<and> room (controller_heap k) (k + 5) (xs_alloc s))"

lemma init_xhci_controller_boots:
  assumes libs: "regs_keep R" "regs_live R" "reg_lib_ok K" "trb_lib_ok (lib_trb L)" "bit_field_ok (lib_bits L)" "erdp_lib_ok (lib_erdp L)" "bit_fields_ok F" "hw_keeps W"
    and bus: "scan_all_bus fuel cfg = Some devices" "find_xhci_device devices = Some d" "xhc_mmio_base cfg d = Some base" "has_msi cfg d"
    and machine: "mmio base = (g, s)" "startable W live (g, s)"
  obtains cfg' g' c s' where
    "init_xhci_controller F L R K W fuel lapic mmio C cfg = Some (cfg', g', c\<lparr>xc_ports := boot_ports (ports_of g) (port_connected s), xc_xhc := s'\<rparr>)"
    "controller_ready L (unat (min (rg_number_of_device_slots g) 10)) (unat (rg_max_scratchpad_buffers g)) live g' c" "\<not> rg_hc_halted g'"
    "driver_part s' = driver_part (xc_xhc c)" "xc_drivers c = C" "xs_hw (xc_xhc c) = xs_hw s"
proof -
  note st = machine(2)[unfolded startable_def prod.case Let_def]
  obtain cfg' where cfg': "configure_msi_fixed_destination F d (ucast (drop_bit 24 lapic)) Level Fixed 64 0 cfg = Some cfg'"
    by (rule configure_msi_fixed_returns[OF libs(7) bus(4)])
  obtain g1 g' c where new: "XhciController_new L R K C (g, s) = Some (g1, c)" "run_controller R g1 = Some g'"
    and ready: "controller_ready L (unat (min (rg_number_of_device_slots g) 10)) (unat (rg_max_scratchpad_buffers g)) live g' c" "\<not> rg_hc_halted g'"
    and c: "xs_portsc (xc_xhc c) = xs_portsc s" "xs_hw (xc_xhc c) = xs_hw s" "xc_number_of_ports c = rg_number_of_ports g" "xc_drivers c = C"
    using controller_started[OF libs(1-6), of g _ s live C] st by blast
  obtain Q where Q: "ports_behave W (ports_of g) (port_connected s) Q" "Q 0 (xc_xhc c)" using st c(1,2) by (auto simp: ports_start_def)
  have p: "xc_ports c = PortConfigureState_new" using ready(1) by (auto simp: controller_ready_def Let_def)
  obtain s' where "init_ports W c = Some (c\<lparr>xc_ports := boot_ports (ports_of g) (port_connected s), xc_xhc := s'\<rparr>)" "driver_part s' = driver_part (xc_xhc c)"
    using init_ports_state[OF libs(8), of c "port_connected s" Q] Q c(1,3) p st by (auto simp: ports_of_def ports_start_def)
  with that[OF _ ready _ c(4,2)] show ?thesis using bus(1-3) cfg' machine(1) new by (simp add: init_xhci_controller_def)
qed

text \<open>A machine with a host bridge and, next to it, an Intel xHCI controller with a message signalled interrupt capability.\<close>

definition example_bus :: config_space where
  "example_bus a = (if a = 0x80000000 then 0x12378086 else if a = 0x80000008 then 0x06000000 else if a = 0x8000000c then 0
     else if a = 0x80000800 then 0x1e318086 else if a = 0x80000808 then 0x0c033000 else if a = 0x8000080c then 0
     else if a = 0x80000810 then 0xfebf0004 else if a = 0x80000814 then 0 else if a = 0x80000834 then 0x50 else if a = 0x80000850 then 0x00860005
     else 0xffffffff)"

lemmas example_bus_eval = PciDevice_new_def VendorId_new_def HeaderType_new_def ClassCode_new_def read_data_def PciConfigAddress_new_def Let_def
  VendorId_from_raw_def DeviceId_from_raw_def HeaderType_from_raw_def ClassCode_from_raw_def example_bus_def

lemma example_bus_base: "xhc_mmio_base example_bus (PciDevice_new example_bus 0 1 0) = Some 0xfebf0000"
  by (simp add: xhc_mmio_base_def read_bar_def new_from_bar_index_def example_bus_eval word_le_nat_alt)

lemma example_bus_find: "find_xhci_device [PciDevice_new example_bus 0 0 0, PciDevice_new example_bus 0 1 0] = Some (PciDevice_new example_bus 0 1 0)"
  by (simp add: find_xhci_device_def is_xhci_controller_def ClassCode_matches_def vendor_is_intel_def example_bus_eval)

lemma example_bus_scan: "scan_all_bus 1 example_bus = Some [PciDevice_new example_bus 0 0 0, PciDevice_new example_bus 0 1 0]"
proof -
  have v: "filter (\<lambda>w. vendor_is_valid (VendorId_new example_bus 0 w 0)) (map of_nat [0..<32]) = [0, 1]"
    by (simp add: vendor_is_valid_def example_bus_eval upt_rec)
  have f: "scan_function scan example_bus 0 w 0 ds = Some (ds @ [PciDevice_new example_bus 0 w 0])" "\<not> is_multi_function (HeaderType_new example_bus 0 w 0)"
    if "w \<in> {0, 1}" for w scan ds
    using that by (auto simp: scan_function_def is_standard_pci_pci_bridge_def vendor_is_valid_def is_multi_function_def example_bus_eval)
  show ?thesis using f by (simp add: scan_all_bus_def for_each_filter v scan_device_def)
qed

lemma example_bus_msi: "has_msi example_bus (PciDevice_new example_bus 0 1 0)"
proof -
  let ?d = "PciDevice_new example_bus 0 1 0"
  have rd: "read_configuration_space example_bus ?d 0x50 = 0x00860005" by (simp add: read_configuration_space_def example_bus_eval)
  have ptr: "read_capabilities_pointer example_bus ?d = Some 0x50" by (simp add: read_capabilities_pointer_def is_generic_device_def example_bus_eval)
  have c: "cap_chain example_bus ?d 0x50 ([] @ 0x50 # [])" by (simp add: rd hdr_next_def take_bit_eq_mask mask_eq_exp_minus_1)
  have m: "is_msi example_bus ?d 0x50" by (simp add: is_msi_def rd hdr_id_def)
  from ptr c m show ?thesis unfolding has_msi_def by (intro exI[of _ "0x50"] exI[of _ "[]"] conjI) simp_all
qed

section \<open>Polling\<close>

text \<open>The number of polls after which the task looks at the event ring again, at the latest.\<close>

fun until_look :: "PollPhase \<Rightarrow> nat" where
  "until_look PollSecond = 0"
| "until_look PollFlushReceived = 1"
| "until_look (PollIdle n) = n + 2"
| "until_look PollUser = 102"
| "until_look PollFlushEvent = 103"

text \<open>The controller whose event ring a poll in this phase looks at, if it looks.\<close>

definition looks_at :: "PollPhase \<Rightarrow> 'h Controller \<Rightarrow> bool" where
  "looks_at ph c \<longleftrightarrow> ph = PollSecond \<or> ph = PollIdle 0 \<and> \<not> pending_already_popped_queue (fst (xs_events (xc_xhc c)))"

text \<open>A run of polls: \<open>trace\<close> has the phase and the controller before each poll; in between, other tasks and the hardware change the controller in any way.\<close>

inductive poll_run :: "Libs \<Rightarrow> (World \<times> 'x) Hw \<Rightarrow> PollPhase \<Rightarrow> (PollPhase \<times> (World \<times> 'x) Controller) list \<Rightarrow> bool" for L W where
  no_poll: "poll_run L W ph []"
| one_poll: "poll_forever_poll L W ph c = Some (ph', c', p) \<Longrightarrow> poll_run L W ph' trace \<Longrightarrow> poll_run L W ph ((ph, c) # trace)"

inductive_cases poll_run_ConsE: "poll_run L W ph (x # trace)"

lemma poll_gets_closer:
  assumes "poll_forever_poll L W ph c = Some (ph', c', p)" "\<not> looks_at ph c"
  shows "until_look ph' < until_look ph"
  using assms
  by (cases ph) (auto simp: poll_forever_poll_def poll_first_def poll_user_def looks_at_def bind_eq_Some_conv split: nat.splits if_splits)

lemma poll_stays:
  assumes "poll_forever_poll L W ph c = Some (ph', c', p)" "until_look ph \<le> 103"
  shows "until_look ph' \<le> 103"
  using assms
  by (cases ph) (auto simp: poll_forever_poll_def poll_first_def poll_second_def poll_user_def bind_eq_Some_conv split: nat.splits if_splits)

lemma poll_never_ready: "poll_forever_poll L W ph c = Some (ph', c', p) \<Longrightarrow> p = Pending"
  by (auto simp: poll_forever_poll_def poll_first_def poll_second_def poll_user_def bind_eq_Some_conv split: PollPhase.splits nat.splits if_splits)

lemma poll_run_looks:
  assumes "poll_run L W ph trace" "until_look ph < length trace"
  shows "\<exists>(ph', c) \<in> set trace. looks_at ph' c"
  using assms
proof (induction trace arbitrary: ph rule: list.induct)
  case (Cons x trace)
  from Cons.prems(1) obtain c ph' c' p where x: "x = (ph, c)" "poll_forever_poll L W ph c = Some (ph', c', p)" "poll_run L W ph' trace" by (auto elim: poll_run_ConsE)
  show ?case
  proof (cases "looks_at ph c")
    case False
    from poll_gets_closer[OF x(2) False] Cons.prems(2) Cons.IH[OF x(3)] show ?thesis by auto
  qed (simp add: x(1))
qed simp

lemma poll_run_polls:
  assumes "poll_run L W ph trace" "(ph', c) \<in> set trace"
  shows "\<exists>ph'' c' p. poll_forever_poll L W ph' c = Some (ph'', c', p)"
  using assms by (induction rule: poll_run.induct) auto

text \<open>
  In any run of 104 polls some poll looks at the event ring; and that poll, when an event is waiting there, handles it: it leaves exactly the controller that \<^verbatim>\<open>process_event\<close> gives, and goes on to
  redraw the desktop.
\<close>

lemma poll_serves_events:
  assumes "poll_run L W ph trace" "until_look ph \<le> 103" "length trace = 104"
  shows "\<exists>(ph', c) \<in> set trace. looks_at ph' c \<and> (\<exists>next_phase c'. poll_forever_poll L W ph' c = Some (next_phase, c', Pending) \<and>
    (pending_event L c = Some True \<longrightarrow> next_phase = PollFlushEvent \<and> process_event L W c = Some c'))"
proof -
  obtain ph' c where l: "(ph', c) \<in> set trace" "looks_at ph' c" using poll_run_looks[OF assms(1)] assms(2,3) by auto
  obtain ph'' c' p where run: "poll_forever_poll L W ph' c = Some (ph'', c', p)" using poll_run_polls[OF assms(1) l(1)] by blast
  moreover have "ph'' = PollFlushEvent \<and> process_event L W c = Some c'" if "pending_event L c = Some True"
    using run l(2) that by (auto simp: looks_at_def poll_forever_poll_def poll_first_def poll_second_def bind_eq_Some_conv)
  ultimately show ?thesis using l poll_never_ready[OF run] by fast
qed

text \<open>A controller with an idle event ring and nothing to do.\<close>

definition example_desktop_controller :: "(World \<times> unit) Controller" where
  "example_desktop_controller =
     \<lparr>xc_devices = example_manager, xc_drivers = ClassDriverManager_new example_usb_lib (\<lambda>a b w. Some w) (\<lambda>a b w. Some w), xc_number_of_ports = 2,
      xc_ports = PortConfigureState_new, xc_port_slots = (\<lambda>_. None),
      xc_xhc = \<lparr>xs_alloc = xs_alloc example_xhc, xs_events = ((fst example_events)\<lparr>er_cycle_bit := \<not> er_cycle_bit (fst example_events)\<rparr>, snd example_events), xs_command_ring = xs_command_ring example_xhc, xs_user_events = UserEventRing_new,
        xs_doorbells = [], xs_n_doorbells = 8, xs_mem = (\<lambda>a. 0), xs_usb_address = (\<lambda>a. 0), xs_portsc = [], xs_hw = (example_life_world, ())\<rparr>\<rparr>"

definition example_desktop_hw :: "(World \<times> unit) Hw" where
  "example_desktop_hw = \<lparr>hw_env = (\<lambda>s. s), hw_write_portsc = (\<lambda>i p s. s), hw_buffer = (\<lambda>n. 0x8000), hw_uninit = (\<lambda>n. replicate n 0)\<rparr>"

lemma example_idle:
  "\<not> pending_already_popped_queue (fst (xs_events (xc_xhc example_desktop_controller)))" "pending_event example_libs example_desktop_controller = Some False"
  "process_user_event example_libs example_desktop_hw example_desktop_controller = Some example_desktop_controller"
proof -
  show "\<not> pending_already_popped_queue (fst (xs_events (xc_xhc example_desktop_controller)))"
    by (simp add: example_desktop_controller_def pending_already_popped_queue_def example_events_def)
  show "pending_event example_libs example_desktop_controller = Some False"
    using example_front by (auto simp: pending_event_def example_desktop_controller_def example_libs_def has_front_def read_trb_def case_prod_beta bind_eq_Some_conv)
  show "process_user_event example_libs example_desktop_hw example_desktop_controller = Some example_desktop_controller"
    by (simp add: process_user_event_def example_desktop_controller_def UserEventRing_pop_def UserEventRing_new_def)
qed

lemma example_idle_poll:
  "poll_forever_poll example_libs example_desktop_hw (PollIdle k) example_desktop_controller = Some (PollIdle (if k = 0 then 99 else k - 1), example_desktop_controller, Pending)"
  "poll_forever_poll example_libs example_desktop_hw PollSecond example_desktop_controller = Some (PollIdle 99, example_desktop_controller, Pending)"
  using example_idle by (cases k; simp add: poll_forever_poll_def poll_first_def poll_second_def poll_user_def)+

end
