(* ===== verification/Serial.thy ===== *)
theory Serial
  imports Rust_Prelude
begin

text \<open>
  The serial port, \<^verbatim>\<open>kernel/src/serial.rs\<close>. The machine's I/O ports are a parameter, a function that answers reads and one that takes writes; what the driver wrote is kept as a log.
\<close>

section \<open>The driver\<close>

record 'p Uart =
  uart_in :: "u16 \<Rightarrow> 'p \<Rightarrow> u8 \<times> 'p"
  uart_out :: "u16 \<Rightarrow> u8 \<Rightarrow> 'p \<Rightarrow> 'p"

record 'p IoPorts =
  io_log :: "(u16 \<times> u8) list"
  io_dev :: 'p

definition PORT :: u16 where "PORT = 0x3f8"

definition inb :: "'p Uart \<Rightarrow> u16 \<Rightarrow> 'p IoPorts \<Rightarrow> u8 \<times> 'p IoPorts" where
  "inb U port s = (case uart_in U port (io_dev s) of (b, d) \<Rightarrow> (b, s\<lparr>io_dev := d\<rparr>))"

definition outb :: "'p Uart \<Rightarrow> u16 \<Rightarrow> u8 \<Rightarrow> 'p IoPorts \<Rightarrow> 'p IoPorts" where
  "outb U port data s = s\<lparr>io_log := io_log s @ [(port, data)], io_dev := uart_out U port data (io_dev s)\<rparr>"

definition is_transmit_empty :: "'p Uart \<Rightarrow> 'p IoPorts \<Rightarrow> bool \<times> 'p IoPorts" where
  "is_transmit_empty U s = (case inb U (PORT + 5) s of (b, s) \<Rightarrow> (b AND 0x20 \<noteq> 0, s))"

partial_function (option) wait_transmit_empty :: "'p Uart \<Rightarrow> 'p IoPorts \<Rightarrow> 'p IoPorts option" where
  "wait_transmit_empty U s = (case is_transmit_empty U s of (is_empty, s) \<Rightarrow> if is_empty then Some s else wait_transmit_empty U s)"

declare wait_transmit_empty.simps [code]

definition write_serial :: "'p Uart \<Rightarrow> u8 \<Rightarrow> 'p IoPorts \<Rightarrow> 'p IoPorts option" where
  "write_serial U byte s = do { s \<leftarrow> wait_transmit_empty U s; Some (outb U PORT byte s) }"

definition write_serial_str :: "'p Uart \<Rightarrow> u8 list \<Rightarrow> 'p IoPorts \<Rightarrow> 'p IoPorts option" where
  "write_serial_str U bytes = for_each bytes (write_serial U)"

text \<open>\<^verbatim>\<open>char::encode_utf8\<close>\<close>

definition utf8_units :: "code_point \<Rightarrow> nat list" where
  "utf8_units c =
     (if c < 0x80 then [c]
      else if c < 0x800 then [192 + c div 64, 128 + c mod 64]
      else if c < 0x10000 then [224 + c div 4096, 128 + c div 64 mod 64, 128 + c mod 64]
      else [240 + c div 262144, 128 + c div 4096 mod 64, 128 + c div 64 mod 64, 128 + c mod 64])"

definition encode_utf8 :: "code_point \<Rightarrow> u8 list" where
  "encode_utf8 c = map of_nat (utf8_units c)"

definition serial_write_str :: "'p Uart \<Rightarrow> code_point list \<Rightarrow> 'p IoPorts \<Rightarrow> 'p IoPorts option" where
  "serial_write_str U str = for_each str (\<lambda>ch.
     if ch = 10 then write_serial_str U [13, 10] else write_serial_str U (encode_utf8 ch))"

text \<open>The two macros: the formatted arguments reach \<^verbatim>\<open>write_str\<close> piece by piece, here as one string.\<close>

definition serial_print :: "'p Uart \<Rightarrow> code_point list \<Rightarrow> 'p IoPorts \<Rightarrow> 'p IoPorts option" where
  "serial_print = serial_write_str"

definition serial_println :: "'p Uart \<Rightarrow> code_point list \<Rightarrow> 'p IoPorts \<Rightarrow> 'p IoPorts option" where
  "serial_println U args = serial_print U (args @ [13, 10])"

section \<open>What arrives\<close>

text \<open>A terminal that decodes the bytes and takes a carriage return before a line feed for the line feed's own.\<close>

fun utf8_decode :: "nat list \<Rightarrow> code_point list" where
  "utf8_decode [] = []"
| "utf8_decode (a # bs) = (if a < 128 then a # utf8_decode bs else
     (case bs of
        [] \<Rightarrow> []
      | b # cs \<Rightarrow> if a < 224 then ((a - 192) * 64 + (b - 128)) # utf8_decode cs else
          (case cs of
             [] \<Rightarrow> []
           | c # ds \<Rightarrow> if a < 240 then ((a - 224) * 4096 + (b - 128) * 64 + (c - 128)) # utf8_decode ds else
               (case ds of
                  [] \<Rightarrow> []
                | d # es \<Rightarrow> ((a - 240) * 262144 + (b - 128) * 4096 + (c - 128) * 64 + (d - 128)) # utf8_decode es))))"

fun join_crlf :: "code_point list \<Rightarrow> code_point list" where
  "join_crlf [] = []"
| "join_crlf (a # cs) = (case cs of [] \<Rightarrow> [a] | b # ds \<Rightarrow> if a = 13 \<and> b = 10 then 10 # join_crlf ds else a # join_crlf cs)"

definition terminal_text :: "u8 list \<Rightarrow> code_point list" where
  "terminal_text bytes = join_crlf (utf8_decode (map unat bytes))"

text \<open>The transmitter of the port always becomes empty after finitely many reads of its status.\<close>

definition uart_drains :: "'p Uart \<Rightarrow> bool" where
  "uart_drains U \<longleftrightarrow> (\<forall>d. \<exists>n. fst (uart_in U (PORT + 5) (((\<lambda>d. snd (uart_in U (PORT + 5) d)) ^^ n) d)) AND 0x20 \<noteq> 0)"

definition sent_bytes :: "code_point list \<Rightarrow> u8 list" where
  "sent_bytes str = concat (map (\<lambda>ch. if ch = 10 then [13, 10] else encode_utf8 ch) str)"

lemma wait_transmit_empty_ends:
  assumes "uart_drains U"
  shows "\<exists>s'. wait_transmit_empty U s = Some s' \<and> io_log s' = io_log s"
proof -
  let ?step = "\<lambda>d. snd (uart_in U (PORT + 5) d)"
  have ends: "fst (uart_in U (PORT + 5) ((?step ^^ n) (io_dev s))) AND 0x20 \<noteq> 0 \<Longrightarrow> ?thesis" for n
  proof (induction n arbitrary: s)
    case 0
    then show ?case by (subst wait_transmit_empty.simps) (auto simp: is_transmit_empty_def inb_def split: prod.splits)
  next
    case (Suc n)
    obtain b d where r: "uart_in U (PORT + 5) (io_dev s) = (b, d)" by fastforce
    have "fst (uart_in U (PORT + 5) ((?step ^^ n) (io_dev (s\<lparr>io_dev := d\<rparr>)))) AND 0x20 \<noteq> 0" using Suc.prems[unfolded funpow_Suc_right comp_apply] r by simp
    from Suc.IH[OF this] show ?case by (subst wait_transmit_empty.simps) (auto simp: is_transmit_empty_def inb_def r)
  qed
  obtain n where "fst (uart_in U (PORT + 5) ((?step ^^ n) (io_dev s))) AND 0x20 \<noteq> 0" using assms unfolding uart_drains_def by blast
  then show ?thesis by (rule ends)
qed

lemma write_serial_str_sends:
  assumes "uart_drains U"
  shows "\<exists>s'. write_serial_str U bytes s = Some s' \<and> io_log s' = io_log s @ map (Pair PORT) bytes"
proof (induction bytes arbitrary: s)
  case (Cons b bytes)
  obtain s1 where s1: "wait_transmit_empty U s = Some s1" "io_log s1 = io_log s" using wait_transmit_empty_ends[OF assms] by blast
  with Cons[of "outb U PORT b s1"] show ?case by (auto simp: write_serial_str_def write_serial_def outb_def)
qed (simp add: write_serial_str_def)

lemma serial_write_str_sends:
  assumes "uart_drains U"
  shows "\<exists>s'. serial_write_str U str s = Some s' \<and> io_log s' = io_log s @ map (Pair PORT) (sent_bytes str)"
proof (induction str arbitrary: s)
  case (Cons c str)
  let ?b = "if c = 10 then [13, 10] else encode_utf8 c"
  obtain s1 where s1: "write_serial_str U ?b s = Some s1" "io_log s1 = io_log s @ map (Pair PORT) ?b" using write_serial_str_sends[OF assms] by blast
  obtain s2 where s2: "serial_write_str U str s1 = Some s2" "io_log s2 = io_log s1 @ map (Pair PORT) (sent_bytes str)" using Cons by blast
  have "serial_write_str U (c # str) s = Some s2" using s1(1) s2(1) by (auto simp: serial_write_str_def)
  moreover have "io_log s2 = io_log s @ map (Pair PORT) (sent_bytes (c # str))" using s1(2) s2(2) by (simp add: sent_bytes_def)
  ultimately show ?case by blast
qed (simp add: serial_write_str_def sent_bytes_def)

lemma unat_encode_utf8:
  assumes "c < 0x110000"
  shows "map unat (encode_utf8 c) = utf8_units c"
proof -
  have "c div 262144 < 5" "c < 0x800 \<Longrightarrow> c div 64 < 32" "c < 0x10000 \<Longrightarrow> c div 4096 < 16" using assms by simp_all
  then have "x < 256" if "x \<in> set (utf8_units c)" for x using that by (auto simp: utf8_units_def split: if_splits)
  then show ?thesis by (simp add: encode_utf8_def unat_of_nat map_idI)
qed

lemma base_64:
  fixes c :: nat
  shows "64 * a + m = c \<Longrightarrow> 64 * b + n = a \<Longrightarrow> b * 4096 + n * 64 + m = c"
    and "64 * a + m = c \<Longrightarrow> 64 * b + n = a \<Longrightarrow> 64 * d + k = b \<Longrightarrow> d * 262144 + k * 4096 + n * 64 + m = c"
  by linarith+

lemma utf8_round_trip:
  assumes "c < 0x110000"
  shows "utf8_decode (utf8_units c @ bs) = c # utf8_decode bs"
proof -
  have six: "64 * (c div 64) + c mod 64 = c" "64 * (c div 4096) + c div 64 mod 64 = c div 64" "64 * (c div 262144) + c div 4096 mod 64 = c div 4096"
    using mult_div_mod_eq[of 64 c] mult_div_mod_eq[of 64 "c div 64"] mult_div_mod_eq[of 64 "c div 4096"] by (simp_all flip: div_mult2_eq)
  consider "c < 0x80" | "0x80 \<le> c" "c < 0x800" | "0x800 \<le> c" "c < 0x10000" | "0x10000 \<le> c" by linarith
  then show ?thesis
  proof cases
    case 2
    then have "c div 64 < 32" by simp
    then show ?thesis using 2 by (simp add: utf8_units_def)
  next
    case 3
    then have "c div 4096 < 16" by simp
    moreover have "c div 4096 * 4096 + c div 64 mod 64 * 64 + c mod 64 = c" using base_64(1)[OF six(1,2)] .
    ultimately show ?thesis using 3 by (simp add: utf8_units_def)
  next
    case 4
    have "c div 262144 < 5" using assms by simp
    moreover have "c div 262144 * 262144 + c div 4096 mod 64 * 4096 + c div 64 mod 64 * 64 + c mod 64 = c" using base_64(2)[OF six] .
    ultimately show ?thesis using 4 by (simp add: utf8_units_def)
  qed (simp add: utf8_units_def)
qed

lemma utf8_decode_sent:
  assumes "\<forall>c \<in> set str. c < 0x110000"
  shows "utf8_decode (map unat (sent_bytes str)) = concat (map (\<lambda>c. if c = 10 then [13, 10] else [c]) str)"
  using assms by (induction str) (simp_all add: sent_bytes_def unat_encode_utf8 utf8_round_trip)

lemma join_crlf_sent: "join_crlf (concat (map (\<lambda>c. if c = 10 then [13, 10] else [c]) str)) = str"
proof (induction str)
  case (Cons c str)
  have "join_crlf (c # t) = c # join_crlf t" if "t = [] \<or> hd t \<noteq> 10" for t
    using that by (cases t) auto
  moreover have "concat (map (\<lambda>c. if c = 10 then [13, 10] else [c]) str) = [] \<or> hd (concat (map (\<lambda>c. if c = 10 then [13, 10] else [c]) str)) \<noteq> 10"
    by (cases str) auto
  ultimately show ?case using Cons by simp
qed simp


text \<open>A port that needs three reads of its status after every byte.\<close>

definition slow_uart :: "nat Uart" where
  "slow_uart = \<lparr>uart_in = (\<lambda>port d. if d = 0 then (0x60, 0) else (0x40, d - 1)), uart_out = (\<lambda>port b d. 3)\<rparr>"

lemma slow_uart_drains: "uart_drains slow_uart"
  unfolding uart_drains_def
proof
  fix d :: nat
  let ?step = "\<lambda>d. snd (uart_in slow_uart (PORT + 5) d)"
  have "(?step ^^ n) d = d - n" for n by (induction n) (auto simp: slow_uart_def)
  then have "fst (uart_in slow_uart (PORT + 5) ((?step ^^ d) d)) AND 0x20 \<noteq> 0" by (simp add: slow_uart_def)
  then show "\<exists>n. fst (uart_in slow_uart (PORT + 5) ((?step ^^ n) d)) AND 0x20 \<noteq> 0" by blast
qed


text \<open>
  The line break of \<^verbatim>\<open>serial_println!\<close> is already a carriage return and a line feed, and the line feed is translated again: every line ends in two carriage returns.
\<close>

lemma serial_println_two_returns: "sent_bytes (args @ [13, 10]) = sent_bytes args @ [13, 13, 10]"
  by (simp add: sent_bytes_def encode_utf8_def utf8_units_def)

end
