(* ===== verification/Interrupts.thy ===== *)
theory Interrupts
  imports Msi Serial Logging
begin

text \<open>
  Interrupts, \<^verbatim>\<open>kernel/src/interrupts.rs\<close>, with the access to the local APIC of \<^verbatim>\<open>kernel/src/xhci.rs\<close>: the table of handlers, what the handlers do, and that the message which \<open>Msi\<close> puts into the
  controller selects the handler that acknowledges it.

  The table is filled by the macro \<^verbatim>\<open>set_general_handler!\<close> of the crate \<^verbatim>\<open>x86_64\<close>, which is a parameter.
\<close>

section \<open>The handlers\<close>

datatype InterruptVector = XhciVector

fun vector_repr :: "InterruptVector \<Rightarrow> u32" where
  "vector_repr XhciVector = 64"

datatype Handler = GeneralHandler | BreakpointHandler | XhciInterruptHandler

type_synonym Idt = "u8 \<Rightarrow> Handler option"

text \<open>What the handlers change: the serial port, the memory-mapped registers of the local APIC and the log.\<close>

record 'p IrqState =
  irq_ports :: "'p IoPorts"
  irq_mmio :: "(usize \<times> u32) list"
  irq_log :: "(Level \<times> code_point list) list"

definition LOCAL_APIC_ADDRESS :: usize where "LOCAL_APIC_ADDRESS = 0xfee00000"

definition write_local_apic_id :: "usize \<Rightarrow> u32 \<Rightarrow> 'p IrqState \<Rightarrow> 'p IrqState option" where
  "write_local_apic_id offset data s = do {
     a \<leftarrow> uadd LOCAL_APIC_ADDRESS offset;
     Some (s\<lparr>irq_mmio := irq_mmio s @ [(a, data)]\<rparr>)
   }"

definition xhci_interrupt_handler :: "'p Uart \<Rightarrow> 'p IrqState \<Rightarrow> 'p IrqState option" where
  "xhci_interrupt_handler U s = do {
     ports \<leftarrow> serial_println U (text_of ''xhci interrupt handler called'') (irq_ports s);
     write_local_apic_id 0xb0 0 (s\<lparr>irq_ports := ports\<rparr>)
   }"

text \<open>The loop of \<^verbatim>\<open>hlt\<close> instructions, which nothing ends.\<close>

partial_function (option) hlt_loop :: "'s \<Rightarrow> 's option" where
  "hlt_loop s = hlt_loop s"

text \<open>\<open>message\<close> is the text of the log record, with the vector, the frame and the error code.\<close>

definition general_handler :: "code_point list \<Rightarrow> 'p IrqState \<Rightarrow> 'p IrqState option" where
  "general_handler message s = hlt_loop (s\<lparr>irq_log := irq_log s @ [(Error, message)]\<rparr>)"

definition breakpoint_handler :: "code_point list \<Rightarrow> 'p IrqState \<Rightarrow> 'p IrqState option" where
  "breakpoint_handler frame s = Some (s\<lparr>irq_log := irq_log s @ [(Info, text_of ''breakpoint handler called''), (Info, frame)]\<rparr>)"

section \<open>The table\<close>

text \<open>\<open>G idt handler vectors\<close> is \<^verbatim>\<open>set_general_handler!(idt, handler, vectors)\<close>.\<close>

type_synonym SetGeneralHandler = "Idt \<Rightarrow> Handler \<Rightarrow> u8 list \<Rightarrow> Idt"

definition init_idt :: "SetGeneralHandler \<Rightarrow> Idt \<Rightarrow> Idt" where
  "init_idt G idt =
     (let idt = G idt GeneralHandler (map of_nat [0..<3]);
          idt = G idt BreakpointHandler [3];
          idt = G idt GeneralHandler (map of_nat [4..<32]);
          idt = G idt XhciInterruptHandler [ucast (vector_repr XhciVector)] in
      idt)"

text \<open>The static \<^verbatim>\<open>IDT\<close> before, which has no handler.\<close>

definition IDT_new :: Idt where
  "IDT_new = (\<lambda>_. None)"

text \<open>
  The processor takes the interrupt \<open>v\<close>: the handler in the table runs. A vector without a handler leads to a fault that the kernel does not handle.
  \<open>frame\<close> is the text that the handlers log about the interrupted code.
\<close>

definition take_interrupt :: "'p Uart \<Rightarrow> Idt \<Rightarrow> u8 \<Rightarrow> code_point list \<Rightarrow> 'p IrqState \<Rightarrow> 'p IrqState option" where
  "take_interrupt U idt v frame s =
     (case idt v of
        None \<Rightarrow> None
      | Some GeneralHandler \<Rightarrow> general_handler frame s
      | Some BreakpointHandler \<Rightarrow> breakpoint_handler frame s
      | Some XhciInterruptHandler \<Rightarrow> xhci_interrupt_handler U s)"

section \<open>Lemmas\<close>

text \<open>The macro sets the handler for the vectors of the range and no others, except the vectors that the architecture reserves, all of them among the exceptions above 3.\<close>

definition general_handler_ok :: "SetGeneralHandler \<Rightarrow> u8 set \<Rightarrow> bool" where
  "general_handler_ok G reserved \<longleftrightarrow> (\<forall>idt h vs v. G idt h vs v = (if v \<in> set vs \<and> v \<notin> reserved then Some h else idt v)) \<and>
     (\<forall>v \<in> reserved. 4 \<le> unat v \<and> unat v < 32)"

lemma hlt_loop_never: "hlt_loop s = None"
proof -
  have "hlt_loop s = Some t \<Longrightarrow> False" for t by (rule hlt_loop.raw_induct[of "\<lambda>_ _. False" s t]) blast
  then show ?thesis by (cases "hlt_loop s") blast+
qed

lemma init_idt_entries:
  assumes "general_handler_ok G reserved"
  shows "init_idt G IDT_new v =
    (if v = 64 then Some XhciInterruptHandler else if v = 3 then Some BreakpointHandler
     else if unat v < 32 \<and> v \<notin> reserved then Some GeneralHandler else None)"
proof -
  have G: "G idt h vs v = (if v \<in> set vs \<and> v \<notin> reserved then Some h else idt v)" for idt h vs
    using assms by (simp add: general_handler_ok_def)
  have range: "v \<in> set (map of_nat [a..<b]) \<longleftrightarrow> a \<le> unat v \<and> unat v < b" if "b \<le> 256" for a b
  proof
    assume "v \<in> set (map of_nat [a..<b])"
    then obtain k where k: "a \<le> k" "k < b" "v = of_nat k" by auto
    with that have "unat v = k" by (simp add: unsigned_of_nat take_bit_nat_eq_self)
    with k show "a \<le> unat v \<and> unat v < b" by simp
  next
    assume "a \<le> unat v \<and> unat v < b"
    then show "v \<in> set (map of_nat [a..<b])" by (auto intro!: image_eqI[of _ _ "unat v"])
  qed
  have res: "v \<in> reserved \<Longrightarrow> 4 \<le> unat v \<and> unat v < 32" using assms by (simp add: general_handler_ok_def)
  have v: "v = 3 \<longleftrightarrow> unat v = 3" "v = 64 \<longleftrightarrow> unat v = 64" by (simp_all add: word_unat_eq_iff)
  have le: "(3 :: nat) \<le> 256" "(32 :: nat) \<le> 256" by simp_all
  have vs: "v \<in> set [ucast (vector_repr XhciVector)] \<longleftrightarrow> v = 64" "v \<in> set [3] \<longleftrightarrow> v = 3" by simp_all
  show ?thesis unfolding init_idt_def Let_def G range[OF le(1)] range[OF le(2)] vs IDT_new_def
    using res v by auto
qed
text \<open>An exception without a handler of its own stops the machine; the breakpoint returns and only logs.\<close>

lemma exception_halts:
  assumes "general_handler_ok G reserved" "unat v < 32" "v \<noteq> 3"
  shows "take_interrupt U (init_idt G IDT_new) v frame s = None"
proof -
  have "v \<noteq> 64" using assms(2) by auto
  with assms show ?thesis by (simp add: take_interrupt_def init_idt_entries general_handler_def hlt_loop_never)
qed

lemma breakpoint_returns:
  assumes "general_handler_ok G reserved"
  shows "take_interrupt U (init_idt G IDT_new) 3 frame s = Some (s\<lparr>irq_log := irq_log s @ [(Info, text_of ''breakpoint handler called''), (Info, frame)]\<rparr>)"
  by (simp add: take_interrupt_def init_idt_entries[OF assms] breakpoint_handler_def)

lemma xhci_handler_acknowledges:
  assumes "uart_drains U"
  shows "\<exists>s'. xhci_interrupt_handler U s = Some s' \<and> irq_mmio s' = irq_mmio s @ [(0xfee000b0, 0)] \<and> irq_log s' = irq_log s \<and>
    io_log (irq_ports s') = io_log (irq_ports s) @ map (Pair PORT) (sent_bytes (text_of ''xhci interrupt handler called'' @ [13, 10]))"
proof -
  obtain ports where "serial_println U (text_of ''xhci interrupt handler called'') (irq_ports s) = Some ports"
    "io_log ports = io_log (irq_ports s) @ map (Pair PORT) (sent_bytes (text_of ''xhci interrupt handler called'' @ [13, 10]))"
    using serial_write_str_sends[OF assms, of "text_of ''xhci interrupt handler called'' @ [13, 10]" "irq_ports s"] by (auto simp: serial_println_def serial_print_def)
  then show ?thesis by (simp add: xhci_interrupt_handler_def write_local_apic_id_def LOCAL_APIC_ADDRESS_def)
qed

section \<open>Properties\<close>

text \<open>The vector of a message is the low byte of its data, and its destination are the bits 12 to 19 of its address.\<close>

definition message_vector :: "u32 \<Rightarrow> u8" where "message_vector data = ucast data"
definition message_destination :: "u32 \<Rightarrow> u8" where "message_destination addr = ucast (drop_bit 12 addr)"

lemma message_destination_fixed: "message_destination (0xfee00000 OR push_bit 12 (ucast (apic_id :: u8))) = apic_id"
proof (rule bit_word_eqI)
  fix k
  assume "k < LENGTH(8)"
  then have k: "k < 8" by simp
  have fee: "\<not> bit (1043968 :: u32) k" using k by (auto simp: less_Suc_eq numeral_eq_Suc)
  show "bit (message_destination (0xfee00000 OR push_bit 12 (ucast apic_id))) k = bit apic_id k"
    using k fee by (simp add: message_destination_def bit_simps)
qed

text \<open>C15: The interrupt of the controller is served: when the kernel has filled its table of handlers and configured MSI as it does at boot, on a device with one MSI capability, the message that the device sends goes to
  the given processor with the vector of the handler for the controller. That handler returns when the serial port drains: it reports the interrupt there, and it acknowledges it with one write
  of zero to the register of the local APIC for the end of an interrupt; the log is untouched.\<close>

theorem xhci_interrupt_served:
  assumes "general_handler_ok G reserved" "uart_drains U" "bit_fields_ok F" "read_capabilities_pointer cfg d = Some a" "cap_chain cfg d a (pre @ m # post)"
    and "is_msi cfg d m" "\<forall>x \<in> set (pre @ post). \<not> is_msi cfg d x" "\<forall>x \<in> set post. x \<notin> set (msi_region m)"
  shows "\<exists>cfg' v s'. configure_msi_fixed_destination F d apic_id Level Fixed (vector_repr XhciVector) 0 cfg = Some cfg' \<and>
    message_destination (read_configuration_space cfg' d (m + 4)) = apic_id \<and>
    v = message_vector (read_configuration_space cfg' d (data_addr (read_configuration_space cfg d m) m)) \<and>
    take_interrupt U (init_idt G IDT_new) v frame s = Some s' \<and> irq_mmio s' = irq_mmio s @ [(0xfee000b0, 0)] \<and> irq_log s' = irq_log s \<and>
    io_log (irq_ports s') = io_log (irq_ports s) @ map (Pair PORT) (sent_bytes (text_of ''xhci interrupt handler called'' @ [13, 10]))"
proof -
  let ?addr = "0xfee00000 OR push_bit 12 (ucast apic_id) :: u32"
  obtain cfg' where cfg': "configure_msi F d ?addr 0xc040 0 cfg = Some cfg'" "read_configuration_space cfg' d (m + 4) = ?addr"
    "read_configuration_space cfg' d (data_addr (read_configuration_space cfg d m) m) = take_bit 16 0xc040"
    using configure_msi_result[OF assms(3-8), where msg_addr = ?addr and msg_data = "0xc040" and nve = 0] by blast
  have "configure_msi_fixed_destination F d apic_id Level Fixed (vector_repr XhciVector) 0 cfg = Some cfg'"
    using cfg'(1) by (simp add: configure_msi_fixed_destination_def Let_def)
  moreover have "message_vector (read_configuration_space cfg' d (data_addr (read_configuration_space cfg d m) m)) = 64"
    by (simp add: cfg'(3) message_vector_def)
  moreover have "take_interrupt U (init_idt G IDT_new) 64 frame s = xhci_interrupt_handler U s"
    by (simp add: take_interrupt_def init_idt_entries[OF assms(1)])
  ultimately show ?thesis using xhci_handler_acknowledges[OF assms(2), of s] cfg'(2) message_destination_fixed[of apic_id] by auto
qed
definition example_general_handler :: SetGeneralHandler where
  "example_general_handler idt h vs = (\<lambda>v. if v \<in> set vs \<and> v \<notin> {15, 31} then Some h else idt v)"

lemma example_general_handler_ok: "general_handler_ok example_general_handler {15, 31}"
  by (simp add: general_handler_ok_def example_general_handler_def)

theorem xhci_interrupt_served_witness:
  "\<exists>cfg' s'. configure_msi_fixed_destination example_fields example_msi_device 5 Level Fixed 64 0 example_msi_config = Some cfg' \<and>
     message_destination (read_configuration_space cfg' example_msi_device 0x54) = 5 \<and>
     take_interrupt slow_uart (init_idt example_general_handler IDT_new) (message_vector (read_configuration_space cfg' example_msi_device 0x5c)) []
       \<lparr>irq_ports = \<lparr>io_log = [], io_dev = 3\<rparr>, irq_mmio = [], irq_log = []\<rparr> = Some s' \<and> irq_mmio s' = [(0xfee000b0, 0)]"
proof -
  have "data_addr (read_configuration_space example_msi_config example_msi_device 0x50) 0x50 = 0x5c"
    by (simp add: example_msi_chain(6) data_addr_def hdr_control_def)
  with xhci_interrupt_served[OF example_general_handler_ok slow_uart_drains example_fields_ok example_msi_chain(1-5), of 5 "[]"
      "\<lparr>irq_ports = \<lparr>io_log = [], io_dev = 3\<rparr>, irq_mmio = [], irq_log = []\<rparr>"]
  show ?thesis by auto
qed

end
