(* ===== verification/Kernel_Main.thy ===== *)
theory Kernel_Main
  imports Xhci_Main Boot Interrupts
begin

text \<open>
  The kernel's entry point, \<^verbatim>\<open>kernel_main2\<close> of \<^verbatim>\<open>kernel/src/main.rs\<close>: it brings the components up in order and leaves two tasks to the executor, the polling of the controller and the game of life.
  The properties here are about the whole system: the heap, the PCI bus, the controller, the desktop and the executor together.
\<close>

section \<open>The tasks\<close>

datatype KernelFuture = PollingFuture PollPhase | LifegameFuture LifegameTask

text \<open>The desktop that the game of life sees is the one in the controller's state, which the drivers' callbacks change.\<close>

definition lifegame_on_desktop :: "(LifegameTask, (World \<times> 'x) Controller, unit) poll_fn" where
  "lifegame_on_desktop t c = do {
     (t, w, p) \<leftarrow> do_lifegame_poll t (fst (xs_hw (xc_xhc c)));
     Some (t, c\<lparr>xc_xhc := (xc_xhc c)\<lparr>xs_hw := (w, snd (xs_hw (xc_xhc c)))\<rparr>\<rparr>, p)
   }"

definition kernel_poll :: "Libs \<Rightarrow> (World \<times> 'x) Hw \<Rightarrow> (KernelFuture, (World \<times> 'x) Controller, unit) poll_fn" where
  "kernel_poll L W f c =
     (case f of
        PollingFuture ph \<Rightarrow> do { (ph, c, p) \<leftarrow> poll_forever_poll L W ph c; Some (PollingFuture ph, c, p) }
      | LifegameFuture t \<Rightarrow> do { (t, c, p) \<leftarrow> lifegame_on_desktop t c; Some (LifegameFuture t, c, p) })"

text \<open>The two futures as they are created: \<open>LgStart\<close> has no layer and no board yet.\<close>

definition kernel_executor :: "KernelFuture Executor" where
  "kernel_executor =
     (let polling_task = Task_new Default (PollingFuture (PollIdle 0));
          lifegame_task = Task_new Default (LifegameFuture \<lparr>lg_phase = LgStart, lg_id = 0, lg_board = []\<rparr>) in
      spawn lifegame_task (spawn polling_task Executor_new))"

section \<open>Booting\<close>

definition desktop_callback :: "(u8 list \<Rightarrow> World \<Rightarrow> World option) \<Rightarrow> (World \<times> 'x) device_state callback" where
  "desktop_callback f address buf = (\<lambda>(d, s). do {
     w \<leftarrow> f buf (fst (xs_hw s));
     Some (d, s\<lparr>xs_hw := (w, snd (xs_hw s))\<rparr>)
   })"

text \<open>
  \<open>w\<close> is the state of the statics before, \<open>mmio\<close> the controllers of the machine by the address of their registers, \<open>s\<close> what the interrupt handlers change and \<open>frame\<close> what they log about
  the code that \<^verbatim>\<open>int3\<close> interrupts; the heap and the desktop become part of the controller's state.
\<close>

definition kernel_main2 ::
  "u8 list list \<Rightarrow> BitFields \<Rightarrow> Libs \<Rightarrow> 'g RegHw \<Rightarrow> RegLib \<Rightarrow> (World \<times> 'x) Hw \<Rightarrow> SetGeneralHandler \<Rightarrow> 'p Uart \<Rightarrow> nat \<Rightarrow> u32 \<Rightarrow>
   (u64 \<Rightarrow> 'g Regs \<times> (World \<times> 'x) Xhc) \<Rightarrow> KernelMainArg \<Rightarrow> code_point list \<Rightarrow> config_space \<Rightarrow> World \<Rightarrow> 'p IrqState \<Rightarrow>
   (config_space \<times> 'g Regs \<times> Idt \<times> 'p IrqState \<times> KernelFuture Executor \<times> (World \<times> 'x) Controller) option"
where
  "kernel_main2 font F L R K W G U fuel lapic mmio arg frame cfg w s = do {
     w \<leftarrow> init_graphics (ka_graphics_info arg) w;
     pixcel_writer \<leftarrow> UNSAFE_WRITER_BUF w;
     mem \<leftarrow> fill_rect (pixcel_write pixcel_writer) (Vector2D_new 50 50) (Vector2D_new 50 50) Color_white (wd_mem w);
     let w = w\<lparr>wd_mem := mem\<rparr>;
     (a, memory_map) \<leftarrow> init_heap (ka_memory_map_entry arg);
     let class_drivers = ClassDriverManager_new (lib_usb L) (desktop_callback mouse_callback) (desktop_callback (keyboard_callback font));
     (w, _) \<leftarrow> init_mouse_cursor_layer w;
     let machine = (\<lambda>base. case mmio base of (g, s) \<Rightarrow> (g, s\<lparr>xs_alloc := a, xs_hw := (w, snd (xs_hw s))\<rparr>));
     (cfg, g, controller) \<leftarrow> init_xhci_controller F L R K W fuel lapic machine class_drivers cfg;
     let idt = init_idt G IDT_new;
     s \<leftarrow> take_interrupt U idt 3 frame s;
     Some (cfg, g, idt, s, kernel_executor, controller)
   }"

section \<open>The kernel boots\<close>

text \<open>What the boot needs of the machine: a screen of 600 lines, and room for the rectangle that marks the start on it.\<close>

definition screen_suffices :: "GraphicsInfo \<Rightarrow> bool" where
  "screen_suffices g \<longleftrightarrow> pixcel_wf (get_writer g) \<and> 600 \<le> gi_vertical_resolution g \<and> 100 \<le> gi_pixels_per_scan_line g"

definition statics_new :: "World \<Rightarrow> bool" where
  "statics_new w \<longleftrightarrow> LAYER_MANAGER w = None \<and> LATEST_UNUSED_ID w = 0 \<and> CLICKED_POSITION_QUEUE w = []"

text \<open>A memory map with a usable region for all that the controller may ask for. A region that starts at address zero, whose first block would be the null pointer, is a shorter one.\<close>

definition memory_suffices :: "MemMapEntry \<Rightarrow> bool" where
  "memory_suffices entry \<longleftrightarrow> (let descs = take (mm_size entry) (mm_slots entry) in
     mm_size entry \<le> length (mm_slots entry) \<and> length (mm_slots entry) < usize_limit \<and>
     (\<forall>d \<in> set descs. usable_type (md_ty d) \<longrightarrow> md_phys_start d + md_page_count d * 4096 < usize_limit) \<and>
     (\<exists>d \<in> set descs. usable_type (md_ty d) \<and> controller_heap 512 < md_page_count d * 4096 \<and>
        (\<forall>e \<in> set descs. usable_type (md_ty e) \<and> md_page_count d \<le> md_page_count e \<longrightarrow> 0 < md_phys_start e)))"

text \<open>The bus has an xHCI controller, and each one there has its registers, an MSI capability, and is at rest.\<close>

definition at_rest :: "(World \<times> 'x) Hw \<Rightarrow> 'g Regs \<times> (World \<times> 'x) Xhc \<Rightarrow> bool" where
  "at_rest W = (\<lambda>(g, s). stopped g \<and> legacy_registers g \<and> unat (rg_max_scratchpad_buffers g) \<le> 512 \<and>
     (\<forall>w. ports_start W g (s\<lparr>xs_hw := (w, snd (xs_hw s))\<rparr>)))"

definition bus_has_xhci :: "(World \<times> 'x) Hw \<Rightarrow> (u64 \<Rightarrow> 'g Regs \<times> (World \<times> 'x) Xhc) \<Rightarrow> config_space \<Rightarrow> PciDevice list \<Rightarrow> bool" where
  "bus_has_xhci W mmio cfg devices \<longleftrightarrow> (\<exists>d \<in> set devices. is_xhci_controller (pd_class_code d)) \<and>
     (\<forall>d \<in> set devices. is_xhci_controller (pd_class_code d) \<longrightarrow> has_msi cfg d \<and> (\<exists>base. xhc_mmio_base cfg d = Some base \<and> at_rest W (mmio base)))"

lemma init_heap_room:
  assumes "memory_suffices entry"
  obtains a descs where "init_heap entry = Some (a, descs)" "bump_holds a []" "\<forall>k \<le> 512. room (controller_heap k) (k + 5) a"
proof -
  let ?descs = "take (mm_size entry) (mm_slots entry)"
  note h = assms[unfolded memory_suffices_def Let_def]
  obtain d where d: "d \<in> set ?descs" "usable_type (md_ty d)" "controller_heap 512 < md_page_count d * 4096"
    "\<forall>e \<in> set ?descs. usable_type (md_ty e) \<and> md_page_count d \<le> md_page_count e \<longrightarrow> 0 < md_phys_start e" using h by blast
  obtain a where a: "init_heap entry = Some (a, ?descs)" "n_allocations a = 0"
    and e: "\<exists>e \<in> set ?descs. usable_type (md_ty e) \<and> heap_start a = md_phys_start e \<and> bump_next a = heap_start a \<and>
        heap_end a = md_phys_start e + md_page_count e * 4096"
    and big: "\<forall>d \<in> set ?descs. usable_type (md_ty d) \<longrightarrow> md_page_count d * 4096 \<le> heap_end a - heap_start a"
    using init_heap_largest[of entry ?descs] h d(1,2) by blast
  from e obtain e where e: "e \<in> set ?descs" "usable_type (md_ty e)" "heap_start a = md_phys_start e" "bump_next a = heap_start a"
    "heap_end a = md_phys_start e + md_page_count e * 4096" by blast
  have "md_page_count d \<le> md_page_count e" using big d(1,2) e(3,5) by auto
  then have pos: "0 < heap_start a" using d(4) e(1-3) by simp
  have lim: "heap_end a < usize_limit" using h e(1,2,5) by auto
  have "heap_start a + controller_heap 512 < heap_end a" using big d e(3,5) by fastforce
  moreover have "controller_heap k \<le> controller_heap 512" if "k \<le> 512" for k using that by (simp add: controller_heap_def)
  ultimately have "\<forall>k \<le> 512. room (controller_heap k) (k + 5) a" using pos lim a(2) e(4) unfolding room_def by fastforce
  moreover have "bump_holds a []"
    using a(1) pos e(3,5) by (auto simp: init_heap_def Let_def bind_eq_Some_conv init_allocator_def bump_init_def bump_new_def bump_holds_def)
  ultimately show ?thesis using that a(1) by blast
qed

text \<open>The desktop on the way: the screen is cleared, the rectangle drawn, and the cursor's layer made; the game of life will find its place.\<close>

abbreviation life_start :: LifegameTask where
  "life_start \<equiv> \<lparr>lg_phase = LgStart, lg_id = 0, lg_board = []\<rparr>"

lemma desktop_ready:
  assumes "screen_suffices g" "statics_new w"
  obtains w1 mem w2 t w3 where "init_graphics g w = Some w1" "UNSAFE_WRITER_BUF w1 = Some (get_writer g)"
    "fill_rect (pixcel_write (get_writer g)) (Vector2D_new 50 50) (Vector2D_new 50 50) Color_white (wd_mem w1) = Some mem"
    "init_mouse_cursor_layer (w1\<lparr>wd_mem := mem\<rparr>) = Some (w2, 0)" "do_lifegame_poll life_start w2 = Some (t, w3, Pending)" "life_ok t w3"
proof -
  note sc = assms(1)[unfolded screen_suffices_def] and st = assms(2)[unfolded statics_new_def]
  obtain w1 where w1: "init_graphics g w = Some w1" "UNSAFE_WRITER_BUF w1 = Some (get_writer g)"
    and w2: "\<And>mem. \<exists>w2 t w3 lm. init_mouse_cursor_layer (w1\<lparr>wd_mem := mem\<rparr>) = Some (w2, 0) \<and> do_lifegame_poll life_start w2 = Some (t, w3, Pending) \<and>
       life_ok t w3 \<and> LAYER_MANAGER w3 = Some lm \<and> layer_stack lm = [lg_id t, 0]"
    using desktop_boots[of g w] sc st by blast
  have "\<exists>mem. fill_rect (pixcel_write (get_writer g)) (Vector2D_new 50 50) (Vector2D_new 50 50) Color_white (wd_mem w1) = Some mem"
    using fill_rect_on_screen[of "get_writer g" "Vector2D_new 50 50" "Vector2D_new 50 50"] sc by (fastforce simp: get_writer_sel Vector2D_new_def)
  then show ?thesis using that[OF w1] w2 by blast
qed


text \<open>A machine that boots: a screen of 640 by 640 pixels, 16 MiB of memory, and the bus and the controller of the examples.\<close>

definition example_statics_world :: World where
  "example_statics_world = example_life_world\<lparr>LAYER_MANAGER := None, LATEST_UNUSED_ID := 0, CLICKED_POSITION_QUEUE := []\<rparr>"

definition example_arg :: KernelMainArg where
  "example_arg = \<lparr>ka_graphics_info = GraphicsInfo_new 640 640 640 4096 Bgr,
     ka_memory_map_entry = \<lparr>mm_size = 2, mm_slots = [\<lparr>md_ty = CONVENTIONAL, md_phys_start = 0, md_page_count = 160\<rparr>, \<lparr>md_ty = CONVENTIONAL, md_phys_start = 0x100000, md_page_count = 4096\<rparr>]\<rparr>\<rparr>"

definition example_desktop_machine :: "(World \<times> unit) Xhc" where
  "example_desktop_machine = (xc_xhc example_desktop_controller)\<lparr>xs_portsc := [example_portsc False, example_portsc False]\<rparr>"

lemma example_statics: "statics_new example_statics_world"
  by (simp add: statics_new_def example_statics_world_def)

lemma example_machine_suffices: "screen_suffices (ka_graphics_info example_arg)" "memory_suffices (ka_memory_map_entry example_arg)"
  using example_screen_boots by (simp_all add: screen_suffices_def GraphicsInfo_new_def example_arg_def memory_suffices_def controller_heap_def)

lemma example_desktop_hw_keeps: "hw_keeps example_desktop_hw"
  by (simp add: hw_keeps_def example_desktop_hw_def)

lemma example_bus_has_xhci:
  "bus_has_xhci example_desktop_hw (\<lambda>_. (example_regs, example_desktop_machine)) example_bus [PciDevice_new example_bus 0 0 0, PciDevice_new example_bus 0 1 0]"
proof -
  let ?s = "\<lambda>w. example_desktop_machine\<lparr>xs_hw := (w, snd (xs_hw example_desktop_machine))\<rparr>"
  have ports: "ports_start example_desktop_hw example_regs (?s w)" for w
    unfolding ports_start_def
  proof (intro conjI exI[of _ "\<lambda>k s. xs_portsc s = xs_portsc example_desktop_machine"])
    show "ports_of example_regs \<le> length (xs_portsc (?s w))" by (simp add: ports_of_def example_regs_def example_desktop_machine_def)
    show "ports_behave example_desktop_hw (ports_of example_regs) (port_connected (?s w)) (\<lambda>k s. xs_portsc s = xs_portsc example_desktop_machine)"
      by (auto simp: ports_behave_def ports_of_def example_regs_def port_connected_def example_desktop_machine_def example_desktop_hw_def example_portsc_def
          less_2_cases_iff)
  qed simp
  have "is_xhci_controller (pd_class_code (PciDevice_new example_bus 0 1 0))" "\<not> is_xhci_controller (pd_class_code (PciDevice_new example_bus 0 0 0))"
    by (simp_all add: is_xhci_controller_def ClassCode_matches_def example_bus_eval)
  with ports example_bus_msi example_bus_base example_machine_starts(2,3,5) show ?thesis by (simp add: bus_has_xhci_def at_rest_def)
qed


section \<open>The running system\<close>

text \<open>
  The executor at work: \<open>trace\<close> has the executor and the controller before each turn, and between two turns the hardware may change the controller's state in any way.
\<close>

inductive kernel_run :: "Libs \<Rightarrow> (World \<times> 'x) Hw \<Rightarrow> KernelFuture Executor \<Rightarrow> (KernelFuture Executor \<times> (World \<times> 'x) Controller) list \<Rightarrow> bool" for L W where
  no_turn: "kernel_run L W ex []"
| one_turn: "run_round (kernel_poll L W) (ex, c) = Some (ex', c') \<Longrightarrow> kernel_run L W ex' trace \<Longrightarrow> kernel_run L W ex ((ex, c) # trace)"

inductive_cases kernel_run_ConsE: "kernel_run L W ex (x # trace)"

abbreviation two_tasks :: "KernelFuture \<Rightarrow> KernelFuture \<Rightarrow> KernelFuture Executor" where
  "two_tasks f f' \<equiv> \<lparr>task_queue = [Task_new Default f, Task_new Default f']\<rparr>"

lemma kernel_executor_tasks: "kernel_executor = two_tasks (PollingFuture (PollIdle 0)) (LifegameFuture life_start)"
  by (simp add: kernel_executor_def spawn_def Executor_new_def)

lemma lifegame_pending: "do_lifegame_poll t w = Some (t', w', p) \<Longrightarrow> p = Pending"
  by (auto simp: do_lifegame_poll_def bind_eq_Some_conv split: LifePhase.splits if_splits)

lemma polling_turn:
  assumes "run_round (kernel_poll L W) (two_tasks (PollingFuture ph) f, c) = Some (ex', c')"
  obtains ph' where "poll_forever_poll L W ph c = Some (ph', c', Pending)" "ex' = two_tasks f (PollingFuture ph')"
proof (cases "poll_forever_poll L W ph c")
  case None
  with assms show ?thesis by (simp add: run_round_def Task_poll_def Task_new_def kernel_poll_def)
next
  case (Some x)
  then obtain ph' c1 where "poll_forever_poll L W ph c = Some (ph', c1, Pending)" using poll_never_ready[of L W ph c] by (cases x) auto
  with assms that show ?thesis by (simp add: run_round_def Task_poll_def Task_new_def kernel_poll_def)
qed

lemma lifegame_turn:
  assumes "run_round (kernel_poll L W) (two_tasks (LifegameFuture t) f, c) = Some (ex', c')"
  obtains t' where "ex' = two_tasks f (LifegameFuture t')"
proof (cases "do_lifegame_poll t (fst (xs_hw (xc_xhc c)))")
  case None
  with assms show ?thesis by (simp add: run_round_def Task_poll_def Task_new_def kernel_poll_def lifegame_on_desktop_def)
next
  case (Some x)
  then obtain t' w where "do_lifegame_poll t (fst (xs_hw (xc_xhc c))) = Some (t', w, Pending)" using lifegame_pending[of t] by (cases x) auto
  with assms have "ex' = two_tasks f (LifegameFuture t')" by (auto simp: run_round_def Task_poll_def Task_new_def kernel_poll_def lifegame_on_desktop_def)
  then show ?thesis by (rule that)
qed

text \<open>Every other turn belongs to the polling task: its polls in a run of the system are a run of polls.\<close>

lemma kernel_run_polls:
  assumes "kernel_run L W (two_tasks (PollingFuture ph) (LifegameFuture t)) trace" "length trace = 2 * n"
  shows "\<exists>polls. poll_run L W ph polls \<and> length polls = n \<and> (\<forall>(ph', c) \<in> set polls. \<exists>t'. (two_tasks (PollingFuture ph') (LifegameFuture t'), c) \<in> set trace)"
  using assms
proof (induction n arbitrary: ph t trace)
  case 0
  show ?case by (rule exI[of _ "[]"]) (simp add: poll_run.no_poll)
next
  case (Suc n)
  obtain x y rest where tr: "trace = x # y # rest" "length rest = 2 * n" using Suc.prems(2) by (cases trace; cases "tl trace") auto
  from Suc.prems(1)[unfolded tr(1)] obtain c ex1 c1 where 1: "x = (two_tasks (PollingFuture ph) (LifegameFuture t), c)"
    "run_round (kernel_poll L W) (two_tasks (PollingFuture ph) (LifegameFuture t), c) = Some (ex1, c1)" "kernel_run L W ex1 (y # rest)"
    by (auto elim: kernel_run_ConsE)
  from polling_turn[OF 1(2)] obtain ph' where p: "poll_forever_poll L W ph c = Some (ph', c1, Pending)" "ex1 = two_tasks (LifegameFuture t) (PollingFuture ph')" .
  from 1(3)[unfolded p(2)] obtain c2 ex2 c3 where 2: "run_round (kernel_poll L W) (two_tasks (LifegameFuture t) (PollingFuture ph'), c2) = Some (ex2, c3)"
    "kernel_run L W ex2 rest" by (auto elim: kernel_run_ConsE)
  from lifegame_turn[OF 2(1)] obtain t' where "ex2 = two_tasks (PollingFuture ph') (LifegameFuture t')" .
  with Suc.IH[of ph' t' rest] 2(2) tr(2) obtain polls where ps: "poll_run L W ph' polls" "length polls = n"
    "\<forall>(ph'', c) \<in> set polls. \<exists>t'. (two_tasks (PollingFuture ph'') (LifegameFuture t'), c) \<in> set rest" by blast
  then show ?case using poll_run.one_poll[OF p(1) ps(1)] 1(1) tr(1) by (intro exI[of _ "(ph, c) # polls"]) auto
qed

text \<open>The two tasks of the kernel, in either order, the polling task at one of its own points.\<close>

definition kernel_tasks :: "KernelFuture Executor \<Rightarrow> bool" where
  "kernel_tasks ex \<longleftrightarrow> (\<exists>ph t. until_look ph \<le> 103 \<and>
     (ex = two_tasks (PollingFuture ph) (LifegameFuture t) \<or> ex = two_tasks (LifegameFuture t) (PollingFuture ph)))"

lemma kernel_tasks_turn:
  assumes "kernel_tasks ex" "run_round (kernel_poll L W) (ex, c) = Some (ex', c')"
  shows "kernel_tasks ex'"
proof -
  obtain ph t where ph: "until_look ph \<le> 103" and ex: "ex = two_tasks (PollingFuture ph) (LifegameFuture t) \<or> ex = two_tasks (LifegameFuture t) (PollingFuture ph)"
    using assms(1) by (auto simp: kernel_tasks_def)
  from ex show ?thesis
  proof
    assume e: "ex = two_tasks (PollingFuture ph) (LifegameFuture t)"
    from polling_turn[OF assms(2)[unfolded e]] obtain ph' where p: "poll_forever_poll L W ph c = Some (ph', c', Pending)" "ex' = two_tasks (LifegameFuture t) (PollingFuture ph')" .
    with poll_stays[OF p(1) ph] show ?thesis by (auto simp: kernel_tasks_def)
  next
    assume e: "ex = two_tasks (LifegameFuture t) (PollingFuture ph)"
    from lifegame_turn[OF assms(2)[unfolded e]] obtain t' where "ex' = two_tasks (PollingFuture ph) (LifegameFuture t')" .
    with ph show ?thesis by (auto simp: kernel_tasks_def)
  qed
qed

lemma kernel_run_suffix:
  assumes "kernel_run L W ex (pre @ mid)" "kernel_tasks ex"
  shows "\<exists>ex'. kernel_run L W ex' mid \<and> kernel_tasks ex'"
  using assms
proof (induction pre arbitrary: ex rule: list.induct)
  case (Cons x pre)
  from Cons.prems(1) obtain c ex' c' where r: "run_round (kernel_poll L W) (ex, c) = Some (ex', c')" "kernel_run L W ex' (pre @ mid)" by (auto elim: kernel_run_ConsE)
  from Cons.IH[OF r(2) kernel_tasks_turn[OF Cons.prems(2) r(1)]] show ?case .
qed auto

lemma kernel_run_member:
  assumes "kernel_run L W ex trace" "kernel_tasks ex" "(ex', c) \<in> set trace"
  shows "kernel_tasks ex'"
proof -
  obtain pre post where "trace = pre @ (ex', c) # post" using split_list[OF assms(3)] by blast
  with kernel_run_suffix[of L W ex pre "(ex', c) # post"] assms(1,2) show ?thesis by (auto elim: kernel_run_ConsE)
qed

lemma kernel_run_prefix: "kernel_run L W ex (xs @ ys) \<Longrightarrow> kernel_run L W ex xs"
  by (induction xs arbitrary: ex rule: list.induct) (auto elim!: kernel_run_ConsE intro: kernel_run.intros)

lemma kernel_run_aligned:
  assumes "kernel_run L W ex mid" "kernel_tasks ex" "length mid = Suc n"
  shows "\<exists>ph t part. kernel_run L W (two_tasks (PollingFuture ph) (LifegameFuture t)) part \<and> length part = n \<and> until_look ph \<le> 103 \<and> set part \<subseteq> set mid"
proof -
  obtain ph t where ph: "until_look ph \<le> 103" and ex: "ex = two_tasks (PollingFuture ph) (LifegameFuture t) \<or> ex = two_tasks (LifegameFuture t) (PollingFuture ph)"
    using assms(2) by (auto simp: kernel_tasks_def)
  from ex show ?thesis
  proof
    assume e: "ex = two_tasks (PollingFuture ph) (LifegameFuture t)"
    have "kernel_run L W ex (take n mid)" using kernel_run_prefix[of L W ex "take n mid" "drop n mid"] assms(1) by simp
    with e ph assms(3) show ?thesis using set_take_subset by fastforce
  next
    assume e: "ex = two_tasks (LifegameFuture t) (PollingFuture ph)"
    obtain x rest where mid: "mid = x # rest" "length rest = n" using assms(3) by (cases mid) auto
    from assms(1)[unfolded mid(1)] obtain c ex' c' where r: "run_round (kernel_poll L W) (ex, c) = Some (ex', c')" "kernel_run L W ex' rest" by (auto elim: kernel_run_ConsE)
    from lifegame_turn[OF r(1)[unfolded e]] obtain t' where "ex' = two_tasks (PollingFuture ph) (LifegameFuture t')" .
    with r(2) ph mid show ?thesis by auto
  qed
qed


text \<open>A kernel with nothing to poll for and a game of life that goes on.\<close>

definition with_world :: "World \<Rightarrow> (World \<times> unit) Controller" where
  "with_world w = example_desktop_controller\<lparr>xc_xhc := (xc_xhc example_desktop_controller)\<lparr>xs_hw := (w, ())\<rparr>\<rparr>"

lemma idle_turn:
  "run_round (kernel_poll example_libs example_desktop_hw) (two_tasks (PollingFuture (PollIdle k)) f, example_desktop_controller) =
     Some (two_tasks f (PollingFuture (PollIdle (if k = 0 then 99 else k - 1))), example_desktop_controller)"
  using example_idle_poll(1)[of k] by (simp add: run_round_def Task_poll_def Task_new_def kernel_poll_def)

lemma life_turn:
  assumes "do_lifegame_poll t w = Some (t', w', Pending)"
  shows "run_round (kernel_poll example_libs example_desktop_hw) (two_tasks (LifegameFuture t) f, with_world w) = Some (two_tasks f (LifegameFuture t'), with_world w')"
  using assms by (simp add: run_round_def Task_poll_def Task_new_def kernel_poll_def lifegame_on_desktop_def with_world_def)

lemma example_kernel_run:
  assumes "life_ok t w" "lg_phase t \<noteq> LgStart"
  shows "\<exists>trace. kernel_run example_libs example_desktop_hw (two_tasks (PollingFuture (PollIdle k)) (LifegameFuture t)) trace \<and> length trace = 2 * n"
  using assms
proof (induction n arbitrary: k t w)
  case (Suc n)
  let ?k = "if k = 0 then 99 else k - 1"
  obtain t' w' where t': "do_lifegame_poll t w = Some (t', w', Pending)" "life_ok t' w'" "lg_phase t' \<noteq> LgStart" using life_poll_ok[OF Suc.prems] by blast
  obtain trace where "kernel_run example_libs example_desktop_hw (two_tasks (PollingFuture (PollIdle ?k)) (LifegameFuture t')) trace" "length trace = 2 * n"
    using Suc.IH[OF t'(2,3)] by blast
  with one_turn[OF idle_turn one_turn[OF life_turn[OF t'(1)]]] show ?case by fastforce
qed (auto intro: no_turn)

lemma example_started:
  "\<exists>w t w'. do_lifegame_poll life_start w = Some (t, w', Pending) \<and> life_ok t w' \<and> lg_phase t \<noteq> LgStart"
proof -
  have "screen_suffices (GraphicsInfo_new 640 640 640 4096 Bgr)" using example_screen_boots by (simp add: screen_suffices_def GraphicsInfo_new_def)
  from desktop_ready[OF this example_statics] obtain w t w' where "do_lifegame_poll life_start w = Some (t, w', Pending)" "life_ok t w'" by blast
  moreover from this(1) have "lg_phase t \<noteq> LgStart" by (auto simp: do_lifegame_poll_def bind_eq_Some_conv)
  ultimately show ?thesis by blast
qed


end
