(* ===== verification/Font_Gen.thy ===== *)
theory Font_Gen
  imports Render
begin

text \<open>
  The procedural macro \<^verbatim>\<open>gen_font!\<close> of \<^verbatim>\<open>gen_font/src/lib.rs\<close>, which turns the drawing of the font in \<^verbatim>\<open>hankaku.txt\<close> into the table \<^verbatim>\<open>FONT\<close> that \<^verbatim>\<open>write_ascii\<close> reads. The file is blocks of
  eighteen lines: an empty line, the character code, and sixteen rows of eight characters.

  The token stream is a list of the tokens that matter, the rows and the commas between them, and \<open>const_array\<close> is what the compiler makes of the constant it is pasted into.
\<close>

section \<open>Strings of the core library\<close>

definition strip_return :: "string \<Rightarrow> string" where
  "strip_return l = (if l \<noteq> [] \<and> last l = CHR 0x0D then butlast l else l)"

fun text_lines_from :: "string \<Rightarrow> string \<Rightarrow> string list" where
  "text_lines_from cur [] = (if cur = [] then [] else [rev cur])"
| "text_lines_from cur (c # cs) = (if c = CHR 0x0A then strip_return (rev cur) # text_lines_from [] cs else text_lines_from (c # cur) cs)"

definition text_lines :: "string \<Rightarrow> string list" where
  "text_lines = text_lines_from []"

definition is_ascii_space :: "char \<Rightarrow> bool" where
  "is_ascii_space c \<longleftrightarrow> c \<in> {CHR 0x20, CHR 0x09, CHR 0x0A, CHR 0x0B, CHR 0x0C, CHR 0x0D}"

text \<open>\<^verbatim>\<open>split_whitespace().next()\<close>\<close>

definition first_word :: "string \<Rightarrow> string option" where
  "first_word l = (case takeWhile (\<lambda>c. \<not> is_ascii_space c) (dropWhile is_ascii_space l) of [] \<Rightarrow> None | w \<Rightarrow> Some w)"

definition to_digit :: "nat \<Rightarrow> char \<Rightarrow> nat option" where
  "to_digit radix c =
     (let n = (of_char c :: nat);
          d = (if 48 \<le> n \<and> n \<le> 57 then n - 48 else if 97 \<le> n \<and> n \<le> 122 then n - 87 else if 65 \<le> n \<and> n \<le> 90 then n - 55 else radix) in
      if d < radix then Some d else None)"

fun digits_value :: "nat \<Rightarrow> nat \<Rightarrow> nat \<Rightarrow> string \<Rightarrow> nat option" where
  "digits_value radix limit acc [] = Some acc"
| "digits_value radix limit acc (c # cs) =
     (case to_digit radix c of
        None \<Rightarrow> None
      | Some d \<Rightarrow> if acc * radix + d < limit then digits_value radix limit (acc * radix + d) cs else None)"

text \<open>\<^verbatim>\<open>from_str_radix\<close> of an unsigned type with values below \<open>limit\<close>; \<open>None\<close> is its error.\<close>

definition from_str_radix :: "nat \<Rightarrow> nat \<Rightarrow> string \<Rightarrow> nat option" where
  "from_str_radix radix limit s =
     (case s of
        [] \<Rightarrow> None
      | c # cs \<Rightarrow> if c = CHR ''+'' then (if cs = [] then None else digits_value radix limit 0 cs) else digits_value radix limit 0 s)"

section \<open>Reading the drawing\<close>

record Font =
  char_code :: usize
  font_bytes :: "string list"

record FontState =
  font_data :: "Font list"
  current_char_code :: usize
  current_char_bytes :: "string list"

datatype FontError = BadCharCode string | InvalidFontData string

definition font_line :: "nat \<Rightarrow> string \<Rightarrow> FontState \<Rightarrow> (FontError + FontState) option" where
  "font_line idx line s =
     (if line = [] then Some (Inr s)
      else if idx mod 18 = 1 then do {
        str_repr \<leftarrow> first_word line;
        digits \<leftarrow> (if 2 \<le> length str_repr then Some (drop 2 str_repr) else None);
        (case from_str_radix 16 usize_limit digits of
           None \<Rightarrow> Some (Inl (BadCharCode line))
         | Some code \<Rightarrow> Some (Inr (s\<lparr>current_char_code := code\<rparr>)))
      }
      else
        let chars = map (\<lambda>c. if c = CHR ''.'' then CHR ''0'' else CHR ''1'') line in
        if length chars \<noteq> 8 then Some (Inl (InvalidFontData chars))
        else
          let s = s\<lparr>current_char_bytes := current_char_bytes s @ [chars]\<rparr> in
          if idx mod 18 = 17
          then Some (Inr (s\<lparr>font_data := font_data s @ [\<lparr>char_code = current_char_code s, font_bytes = current_char_bytes s\<rparr>], current_char_bytes := []\<rparr>))
          else Some (Inr s))"

fun font_lines :: "nat \<Rightarrow> string list \<Rightarrow> FontState \<Rightarrow> (FontError + FontState) option" where
  "font_lines idx [] s = Some (Inr s)"
| "font_lines idx (line # ls) s =
     (case font_line idx line s of
        None \<Rightarrow> None
      | Some (Inl e) \<Rightarrow> Some (Inl e)
      | Some (Inr s) \<Rightarrow> font_lines (idx + 1) ls s)"

section \<open>Writing the table\<close>

datatype FontToken = EmptyRow | FontRow "u8 list" | Comma

definition font_row :: "Font \<Rightarrow> u8 list option" where
  "font_row font = those (map (\<lambda>bits. map_option of_nat (from_str_radix 2 256 bits)) (font_bytes font))"

function emit_fonts :: "usize \<Rightarrow> Font list \<Rightarrow> FontToken list \<Rightarrow> (usize \<times> FontToken list) option" where
  "emit_fonts idx fonts tokens = do {
     next_idx \<leftarrow> uadd idx 1;
     (case fonts of
        [] \<Rightarrow> Some (idx, tokens)
      | font # rest \<Rightarrow>
          if idx \<noteq> char_code font then emit_fonts next_idx fonts (tokens @ [EmptyRow, Comma, Comma])
          else do {
            row \<leftarrow> font_row font;
            emit_fonts next_idx rest (tokens @ [FontRow row, Comma])
          })
   }"
  by auto
termination
  by (relation "measure (\<lambda>(idx, _, _). usize_limit - idx)") (auto simp: uadd_def split: if_splits)

declare emit_fonts.simps [simp del]

definition gen_font_impl :: "string \<Rightarrow> (FontError + usize \<times> FontToken list) option" where
  "gen_font_impl text = do {
     r \<leftarrow> font_lines 0 (text_lines text) \<lparr>font_data = [], current_char_code = 0, current_char_bytes = []\<rparr>;
     (case r of
        Inl e \<Rightarrow> Some (Inl e)
      | Inr s \<Rightarrow> do {
          (array_len, tokens) \<leftarrow> emit_fonts 0 (font_data s) [];
          Some (Inr (array_len, tokens))
        })
   }"

text \<open>
  What the compiler makes of \<^verbatim>\<open>const FONT: [[u8; 16]; array_len] = [ tokens ];\<close>: rows separated by commas, with at most one comma at the end, as many as the type says and each of
  sixteen bytes; everything else does not compile.
\<close>

fun array_rows :: "FontToken list \<Rightarrow> u8 list list option" where
  "array_rows [] = Some []"
| "array_rows (Comma # _) = None"
| "array_rows [EmptyRow] = Some [replicate 16 0]"
| "array_rows [FontRow r] = Some [r]"
| "array_rows (EmptyRow # Comma # ts) = map_option ((#) (replicate 16 0)) (array_rows ts)"
| "array_rows (FontRow r # Comma # ts) = map_option ((#) r) (array_rows ts)"
| "array_rows (_ # _ # _) = None"

definition const_array :: "usize \<times> FontToken list \<Rightarrow> u8 list list option" where
  "const_array = (\<lambda>(array_len, tokens).
     case array_rows tokens of
       None \<Rightarrow> None
     | Some rows \<Rightarrow> if length rows = array_len \<and> list_all (\<lambda>r. length r = 16) rows then Some rows else None)"

section \<open>What the drawing means\<close>

definition font_block :: "usize \<Rightarrow> string list \<Rightarrow> bool" where
  "font_block c ls \<longleftrightarrow>
     length ls = 18 \<and> ls ! 0 = [] \<and> ls ! 1 \<noteq> [] \<and>
     (case first_word (ls ! 1) of None \<Rightarrow> False | Some w \<Rightarrow> 2 \<le> length w \<and> from_str_radix 16 usize_limit (drop 2 w) = Some c) \<and>
     list_all (\<lambda>l. length l = 8) (drop 2 ls)"

fun font_blocks :: "usize \<Rightarrow> string list list \<Rightarrow> bool" where
  "font_blocks c [] \<longleftrightarrow> True"
| "font_blocks c (b # bs) \<longleftrightarrow> font_block c b \<and> font_blocks (c + 1) bs"

abbreviation row_bits :: "string \<Rightarrow> string" where
  "row_bits \<equiv> map (\<lambda>c. if c = CHR ''.'' then CHR ''0'' else CHR ''1'')"

abbreviation block_font :: "usize \<Rightarrow> string list \<Rightarrow> Font" where
  "block_font c b \<equiv> \<lparr>char_code = c, font_bytes = map row_bits (drop 2 b)\<rparr>"

lemma to_digit_bit: "to_digit 2 (if P then CHR ''0'' else CHR ''1'') = Some (if P then 0 else 1)"
  by (simp add: to_digit_def of_char_def)

lemma digits_value_bits:
  assumes "acc < 2 ^ k" "k + length l = 8"
  shows "\<exists>v. digits_value 2 256 acc (row_bits l) = Some v \<and> (\<forall>x < length l. bit v (length l - 1 - x) = (l ! x \<noteq> CHR ''.'')) \<and>
    (\<forall>j. bit v (length l + j) = bit acc j)"
  using assms
proof (induction l arbitrary: acc k)
  case (Cons a l)
  let ?d = "if a = CHR ''.'' then 0 else 1 :: nat"
  have b: "bit (acc * 2 + ?d) 0 = (a \<noteq> CHR ''.'')" "bit (acc * 2 + ?d) (Suc j) = bit acc j" for j
    by (simp_all add: bit_0 bit_Suc)
  have le: "acc * 2 + ?d < 2 ^ Suc k" using Cons.prems(1) by auto
  have "(2 :: nat) ^ Suc k \<le> 2 ^ 8" using Cons.prems(2) by (intro power_increasing) auto
  then have lim: "acc * 2 + ?d < 256" using le by simp
  obtain v where v: "digits_value 2 256 (acc * 2 + ?d) (row_bits l) = Some v" "\<forall>x < length l. bit v (length l - 1 - x) = (l ! x \<noteq> CHR ''.'')"
    "\<forall>j. bit v (length l + j) = bit (acc * 2 + ?d) j"
    using Cons.IH[OF le] Cons.prems(2) by auto
  have "bit v (length (a # l) - 1 - x) = ((a # l) ! x \<noteq> CHR ''.'')" if "x < length (a # l)" for x
    using that v(2) v(3)[rule_format, of 0] b(1) by (cases x) auto
  moreover have "bit v (length (a # l) + j) = bit acc j" for j using v(3)[rule_format, of "Suc j"] b(2) by simp
  moreover have "digits_value 2 256 acc (row_bits (a # l)) = Some v" using v(1) lim by (auto simp: to_digit_bit)
  ultimately show ?case by blast
qed simp

lemma row_byte:
  assumes "length l = 8"
  shows "\<exists>r :: u8. map_option of_nat (from_str_radix 2 256 (row_bits l)) = Some r \<and> (\<forall>x < 8. bit r (7 - x) = (l ! x \<noteq> CHR ''.''))"
proof -
  obtain v where v: "digits_value 2 256 0 (row_bits l) = Some v" "\<forall>x < 8. bit v (7 - x) = (l ! x \<noteq> CHR ''.'')"
    using digits_value_bits[of 0 0 l] assms by auto
  have "from_str_radix 2 256 (row_bits l) = Some v"
    using v(1) assms by (cases l) (auto simp: from_str_radix_def)
  moreover have "bit (of_nat v :: u8) (7 - x) = bit v (7 - x)" if "x < 8" for x
    using that by (auto simp: bit_simps)
  ultimately show ?thesis using v(2) by auto
qed

lemma those_map_Some:
  assumes "\<And>x. x \<in> set xs \<Longrightarrow> \<exists>y. f x = Some y \<and> P x y"
  shows "\<exists>ys. those (map f xs) = Some ys \<and> list_all2 P xs ys"
  using assms by (induction xs) fastforce+

lemma block_font_row:
  assumes "font_block c b"
  shows "\<exists>row. font_row (block_font c b) = Some row \<and> length row = 16 \<and> (\<forall>y < 16. \<forall>x < 8. bit (row ! y) (7 - x) = (b ! (2 + y) ! x \<noteq> CHR ''.''))"
proof -
  have b: "length b = 18" "\<forall>l \<in> set (drop 2 b). length l = 8" using assms by (auto simp: font_block_def list_all_iff)
  obtain row where row: "those (map (\<lambda>l. map_option of_nat (from_str_radix 2 256 (row_bits l))) (drop 2 b)) = Some row"
    "list_all2 (\<lambda>l r :: u8. \<forall>x < 8. bit r (7 - x) = (l ! x \<noteq> CHR ''.'')) (drop 2 b) row"
    using those_map_Some[of "drop 2 b" "\<lambda>l. map_option of_nat (from_str_radix 2 256 (row_bits l))" "\<lambda>l r. \<forall>x < 8. bit r (7 - x) = (l ! x \<noteq> CHR ''.'')",
        OF row_byte[OF b(2)[rule_format]]] by blast
  then have "length row = 16" "\<forall>y < 16. \<forall>x < 8. bit (row ! y) (7 - x) = (b ! (2 + y) ! x \<noteq> CHR ''.'')"
    using b(1) by (auto simp: list_all2_conv_all_nth)
  with row(1) show ?thesis by (simp add: font_row_def comp_def)
qed

text \<open>Reading one block of eighteen lines adds its glyph.\<close>

lemma font_lines_append:
  "font_lines idx (xs @ ys) s = (case font_lines idx xs s of None \<Rightarrow> None | Some (Inl e) \<Rightarrow> Some (Inl e) | Some (Inr s) \<Rightarrow> font_lines (idx + length xs) ys s)"
  by (induction xs arbitrary: idx s) (auto split: option.splits sum.splits)

lemma font_rows_read:
  assumes "list_all (\<lambda>l. length l = 8) ls" "idx mod 18 + length ls = 18" "2 \<le> idx mod 18" "ls \<noteq> []"
  shows "font_lines idx ls s = Some (Inr (s\<lparr>font_data := font_data s @ [\<lparr>char_code = current_char_code s, font_bytes = current_char_bytes s @ map row_bits ls\<rparr>],
    current_char_bytes := []\<rparr>))"
  using assms
proof (induction ls arbitrary: idx s)
  case (Cons l ls)
  have l: "length l = 8" "l \<noteq> []" using Cons.prems(1) by auto
  show ?case
  proof (cases "ls = []")
    case True
    then have "idx mod 18 = 17" using Cons.prems(2) by simp
    then show ?thesis using l True by (simp add: font_line_def Let_def)
  next
    case False
    then have i: "idx mod 18 < 17" "(idx + 1) mod 18 = idx mod 18 + 1" using Cons.prems(2) by (cases ls; simp add: mod_Suc)+
    have "font_line idx l s = Some (Inr (s\<lparr>current_char_bytes := current_char_bytes s @ [row_bits l]\<rparr>))" using l i Cons.prems(3) by (simp add: font_line_def Let_def)
    moreover have "list_all (\<lambda>l. length l = 8) ls" "(idx + 1) mod 18 + length ls = 18" "2 \<le> (idx + 1) mod 18" using Cons.prems i by simp_all
    ultimately show ?thesis using Cons.IH[OF _ _ _ False] by simp
  qed
qed simp

lemma font_block_read:
  assumes "font_block c b" "idx mod 18 = 0" "current_char_bytes s = []"
  shows "font_lines idx b s = Some (Inr \<lparr>font_data = font_data s @ [block_font c b], current_char_code = c, current_char_bytes = []\<rparr>)"
proof -
  obtain l rows where b: "b = [] # l # rows" "length rows = 16" "l \<noteq> []" "list_all (\<lambda>l. length l = 8) rows"
    using assms(1) by (cases b; cases "tl b") (auto simp: font_block_def)
  obtain w where w: "first_word l = Some w" "2 \<le> length w" "from_str_radix 16 usize_limit (drop 2 w) = Some c"
    using assms(1) by (auto simp: font_block_def b(1) split: option.splits)
  have i: "Suc idx mod 18 = 1" "Suc (Suc idx) mod 18 = 2" using assms(2) by (simp_all add: mod_Suc)
  then have "font_line (Suc idx) l s = Some (Inr (s\<lparr>current_char_code := c\<rparr>))" using w b(3) by (simp add: font_line_def)
  moreover have "font_line idx [] s = Some (Inr s)" by (simp add: font_line_def)
  moreover have "rows \<noteq> []" using b(2) by auto
  ultimately show ?thesis using font_rows_read[OF b(4), of "Suc (Suc idx)" "s\<lparr>current_char_code := c\<rparr>"] i b(2) assms(3) by (simp add: b(1))
qed

lemma font_blocks_read:
  assumes "font_blocks c bs" "idx mod 18 = 0" "current_char_bytes s = []"
  shows "\<exists>s'. font_lines idx (concat bs) s = Some (Inr s') \<and> font_data s' = font_data s @ map (\<lambda>i. block_font (c + i) (bs ! i)) [0..<length bs]"
  using assms
proof (induction bs arbitrary: c idx s)
  case (Cons b bs)
  let ?s = "\<lparr>font_data = font_data s @ [block_font c b], current_char_code = c, current_char_bytes = []\<rparr>"
  have b: "font_lines idx b s = Some (Inr ?s)" "length b = 18" using font_block_read Cons.prems by (auto simp: font_block_def)
  obtain s' where s': "font_lines (idx + 18) (concat bs) ?s = Some (Inr s')" "font_data s' = font_data ?s @ map (\<lambda>i. block_font (c + 1 + i) (bs ! i)) [0..<length bs]"
    using Cons.IH[of "c + 1" "idx + 18" ?s] Cons.prems by auto
  have "font_data s' = font_data s @ map (\<lambda>i. block_font (c + i) ((b # bs) ! i)) [0..<length (b # bs)]"
    using s'(2) by (simp add: upt_conv_Cons map_Suc_upt[symmetric] comp_def del: upt_Suc)
  with s'(1) b show ?case by (simp add: font_lines_append)
qed simp

abbreviation row_tokens :: "u8 list list \<Rightarrow> FontToken list" where
  "row_tokens rows \<equiv> concat (map (\<lambda>r. [FontRow r, Comma]) rows)"

lemma emit_contiguous:
  assumes "list_all2 (\<lambda>f r. font_row f = Some r) fonts rows" "map char_code fonts = [c..<c + length fonts]" "c + length fonts + 1 < usize_limit"
  shows "emit_fonts c fonts tokens = Some (c + length fonts, tokens @ row_tokens rows)"
  using assms
proof (induction fonts arbitrary: c rows tokens)
  case Nil
  then show ?case by (subst emit_fonts.simps) (simp add: uadd_def)
next
  case (Cons f fonts)
  then obtain r rows' where r: "rows = r # rows'" "font_row f = Some r" "list_all2 (\<lambda>f r. font_row f = Some r) fonts rows'"
    by (auto simp: list_all2_Cons1)
  have c: "char_code f = c" "map char_code fonts = [Suc c..<Suc c + length fonts]" using Cons.prems(2) by (simp_all add: upt_conv_Cons del: upt_Suc)
  from Cons.IH[OF r(3) c(2)] Cons.prems(3) r c(1) show ?case by (subst emit_fonts.simps) (simp add: uadd_def)
qed

lemma array_rows_tokens: "array_rows (row_tokens rows) = Some rows"
  by (induction rows) auto

lemma text_lines_unlines:
  assumes "\<And>l. l \<in> set ls \<Longrightarrow> CHR 0x0A \<notin> set l \<and> CHR 0x0D \<notin> set l"
  shows "text_lines (concat (map (\<lambda>l. l @ [CHR 0x0A]) ls)) = ls"
proof -
  have acc: "text_lines_from cur (l @ CHR 0x0A # t) = strip_return (rev cur @ l) # text_lines_from [] t" if "CHR 0x0A \<notin> set l" for cur l t
    using that by (induction l arbitrary: cur) auto
  have "text_lines_from [] (concat (map (\<lambda>l. l @ [CHR 0x0A]) ls)) = ls"
    using assms
  proof (induction ls)
    case (Cons l ls)
    then have "CHR 0x0D \<notin> set l" by simp
    then have "strip_return l = l" using last_in_set[of l] unfolding strip_return_def by metis
    with Cons acc[of l "[]"] show ?case by simp
  qed simp
  then show ?thesis by (simp add: text_lines_def)
qed


definition example_block :: "string \<Rightarrow> string list" where
  "example_block code = [[], code] @ replicate 15 ''..@@@...'' @ [''........'']"


text \<open>A gap in the codes is meant to be filled by an empty glyph, but the filling already ends in a comma: the constant has two commas in a row and does not compile.\<close>

lemma array_rows_double_comma: "array_rows (ts @ EmptyRow # Comma # Comma # us) = None"
  by (induction ts rule: array_rows.induct) auto

lemma emit_fonts_cases:
  assumes "emit_fonts idx fonts tokens = Some (n, out)"
  obtains (finished) "fonts = []" "n = idx" "out = tokens"
  | (gap) font rest where "uadd idx 1 = Some (Suc idx)" "fonts = font # rest" "idx \<noteq> char_code font" "emit_fonts (Suc idx) fonts (tokens @ [EmptyRow, Comma, Comma]) = Some (n, out)"
  | (glyph) font rest row where "uadd idx 1 = Some (Suc idx)" "fonts = font # rest" "idx = char_code font" "font_row font = Some row"
      "emit_fonts (Suc idx) rest (tokens @ [FontRow row, Comma]) = Some (n, out)"
proof -
  have nx: "uadd idx 1 = Some (Suc idx)" using assms by (subst (asm) emit_fonts.simps) (auto simp: bind_eq_Some_conv uadd_def split: if_splits)
  show ?thesis
  proof (cases fonts)
    case Nil
    then show ?thesis using assms nx finished by (subst (asm) emit_fonts.simps) simp
  next
    case (Cons font rest)
    show ?thesis
    proof (cases "idx = char_code font")
      case True
      then obtain row where "font_row font = Some row" "emit_fonts (Suc idx) rest (tokens @ [FontRow row, Comma]) = Some (n, out)"
        using assms nx Cons by (subst (asm) emit_fonts.simps) (auto simp: bind_eq_Some_conv)
      with glyph nx Cons True show ?thesis by blast
    next
      case False
      then have "emit_fonts (Suc idx) fonts (tokens @ [EmptyRow, Comma, Comma]) = Some (n, out)" using assms nx Cons by (subst (asm) emit_fonts.simps) simp
      with gap nx Cons False show ?thesis by blast
    qed
  qed
qed

lemma emit_extends: "emit_fonts idx fonts tokens = Some (n, out) \<Longrightarrow> idx \<le> n \<and> (\<exists>us. out = tokens @ us)"
proof (induction idx fonts tokens rule: emit_fonts.induct)
  case (1 idx fonts tokens)
  from 1(3) show ?case
  proof (cases rule: emit_fonts_cases)
    case (gap font rest)
    with 1(1)[OF gap(1,2)] show ?thesis by auto
  next
    case (glyph font rest row)
    with 1(2)[OF glyph(1,2)] show ?thesis by auto
  qed simp
qed

text \<open>A font file in which a code is missing never compiles: if the emitted tokens are accepted as an array, then the codes of the glyphs are the consecutive numbers from the
  start on. The branch for a missing code, which is there to fill the gap, cannot help.
\<close>

theorem font_gap_does_not_compile:
  assumes "emit_fonts idx fonts tokens = Some (n, out)" "array_rows out \<noteq> None"
  shows "map char_code fonts = [idx..<n]"
  using assms
proof (induction idx fonts tokens rule: emit_fonts.induct)
  case (1 idx fonts tokens)
  from 1(3) show ?case
  proof (cases rule: emit_fonts_cases)
    case (gap font rest)
    with emit_extends[OF gap(4)] 1(4) array_rows_double_comma show ?thesis by auto
  next
    case (glyph font rest row)
    with 1(2)[OF glyph(1,2)] 1(4) have "map char_code rest = [Suc idx..<n]" by simp
    with emit_extends[OF glyph(5)] glyph(2,3) show ?thesis by (simp add: upt_conv_Cons del: upt_Suc)
  qed simp
qed

theorem font_gap_does_not_compile_witness:
  "\<exists>n out. emit_fonts 0 [block_font 0 (example_block ''0x00'')] [] = Some (n, out) \<and> array_rows out \<noteq> None \<and> [0] = [0..<n]"
proof -
  have "emit_fonts 0 [block_font 0 (example_block ''0x00'')] [] = Some (1, [FontRow (replicate 15 0x38 @ [0]), Comma])" by code_simp
  moreover have "array_rows [FontRow (replicate 15 0x38 @ [0]), Comma] \<noteq> None" by simp
  ultimately show ?thesis using font_gap_does_not_compile[of 0 "[block_font 0 (example_block ''0x00'')]" "[]"] by fastforce
qed

end
