(* ===== verification/Lock_Trace.thy ===== *)
theory Lock_Trace
  imports Rust_Prelude
begin

text \<open>
  The mutex of \<^verbatim>\<open>kernel-lib/src/mutex.rs\<close>: a lock of the crate \<^verbatim>\<open>spin\<close> with a record of the places that asked for it, which is printed when the lock stays taken for long.

  The lock of the crate is the parameter \<open>SpinLock\<close>; its state \<open>'m\<close> covers whoever else holds it, so every operation may change it. The line printed to the log is kept as data.
\<close>

section \<open>The mutex\<close>

record 'm SpinLock =
  spin_is_locked :: "'m \<Rightarrow> bool \<times> 'm"
  spin_lock :: "'m \<Rightarrow> 'm option"
  spin_try_lock :: "'m \<Rightarrow> bool \<times> 'm"

abbreviation BUF_LEN :: usize where
  "BUF_LEN \<equiv> 1024"

record 'm Mutex =
  mx_inner :: 'm
  mx_file :: "string option list"
  mx_line :: "u32 option list"
  mx_log :: "(string \<times> u32) list list"

definition Mutex_new :: "'m \<Rightarrow> 'm Mutex" where
  "Mutex_new inner = \<lparr>mx_inner = inner, mx_file = replicate BUF_LEN None, mx_line = replicate BUF_LEN None, mx_log = []\<rparr>"

text \<open>The loop over the slots that writes into the first free one.\<close>

fun store_first :: "'a \<Rightarrow> 'a option list \<Rightarrow> 'a option list" where
  "store_first v [] = []"
| "store_first v (None # xs) = Some v # xs"
| "store_first v (Some x # xs) = Some x # store_first v xs"

definition store_file_line :: "string \<Rightarrow> u32 \<Rightarrow> 'm Mutex \<Rightarrow> 'm Mutex" where
  "store_file_line file line m = m\<lparr>mx_file := store_first file (mx_file m), mx_line := store_first line (mx_line m)\<rparr>"

definition lock_sites :: "'m Mutex \<Rightarrow> (string \<times> u32) list" where
  "lock_sites m = List.map_filter (\<lambda>(f, l). do { f \<leftarrow> f; l \<leftarrow> l; Some (f, l) }) (zip (mx_file m) (mx_line m))"

definition print_file_line :: "'m Mutex \<Rightarrow> 'm Mutex" where
  "print_file_line m = m\<lparr>mx_log := mx_log m @ [lock_sites m]\<rparr>"

definition is_locked :: "'m SpinLock \<Rightarrow> 'm Mutex \<Rightarrow> bool \<times> 'm Mutex" where
  "is_locked L m = (case spin_is_locked L (mx_inner m) of (b, i) \<Rightarrow> (b, m\<lparr>mx_inner := i\<rparr>))"

abbreviation MAX_POLLS :: nat where
  "MAX_POLLS \<equiv> 10000"

function dump_loop :: "'m SpinLock \<Rightarrow> nat \<Rightarrow> 'm Mutex \<Rightarrow> 'm Mutex" where
  "dump_loop L count m =
     (case is_locked L m of (locked, m) \<Rightarrow>
        if \<not> locked then m
        else if count + 1 > MAX_POLLS then print_file_line m
        else dump_loop L (count + 1) m)"
  by auto
termination by (relation "measure (\<lambda>(_, count, _). MAX_POLLS - count)") auto

declare dump_loop.simps [simp del]

definition dump_state_if_locked :: "'m SpinLock \<Rightarrow> 'm Mutex \<Rightarrow> 'm Mutex" where
  "dump_state_if_locked L = dump_loop L 0"

definition Mutex_lock :: "'m SpinLock \<Rightarrow> string \<Rightarrow> u32 \<Rightarrow> 'm Mutex \<Rightarrow> 'm Mutex option" where
  "Mutex_lock L file line m =
     (let m = dump_state_if_locked L (store_file_line file line m) in map_option (\<lambda>i. m\<lparr>mx_inner := i\<rparr>) (spin_lock L (mx_inner m)))"

definition Mutex_try_lock :: "'m SpinLock \<Rightarrow> string \<Rightarrow> u32 \<Rightarrow> 'm Mutex \<Rightarrow> bool \<times> 'm Mutex" where
  "Mutex_try_lock L file line m =
     (let m = dump_state_if_locked L (store_file_line file line m) in
      case spin_try_lock L (mx_inner m) of (got, i) \<Rightarrow> (got, m\<lparr>mx_inner := i\<rparr>))"

text \<open>What the macro \<^verbatim>\<open>lock!\<close> expands to.\<close>

definition lock_raw :: "'m SpinLock \<Rightarrow> 'm Mutex \<Rightarrow> 'm Mutex option" where
  "lock_raw L m = map_option (\<lambda>i. m\<lparr>mx_inner := i\<rparr>) (spin_lock L (mx_inner m))"

section \<open>The record of lock sites\<close>

text \<open>Clients of a mutex: any sequence of attempts, with any change of the lock by others in between.\<close>

inductive lock_run :: "'m SpinLock \<Rightarrow> 'm Mutex \<Rightarrow> (string \<times> u32) list \<Rightarrow> 'm Mutex \<Rightarrow> bool" for L where
  start: "lock_run L m [] m"
| locked: "lock_run L m sites m1 \<Longrightarrow> Mutex_lock L fl ln m1 = Some m2 \<Longrightarrow> lock_run L m (sites @ [(fl, ln)]) m2"
| tried: "lock_run L m sites m1 \<Longrightarrow> Mutex_try_lock L fl ln m1 = (got, m2) \<Longrightarrow> lock_run L m (sites @ [(fl, ln)]) m2"
| raw: "lock_run L m sites m1 \<Longrightarrow> lock_raw L m1 = Some m2 \<Longrightarrow> lock_run L m sites m2"
| others: "lock_run L m sites m1 \<Longrightarrow> lock_run L m sites (m1\<lparr>mx_inner := i\<rparr>)"

definition recorded :: "'m Mutex \<Rightarrow> (string \<times> u32) list \<Rightarrow> bool" where
  "recorded m sites \<longleftrightarrow>
     (let kept = take BUF_LEN sites in
      mx_file m = map (Some \<circ> fst) kept @ replicate (BUF_LEN - length kept) None \<and>
      mx_line m = map (Some \<circ> snd) kept @ replicate (BUF_LEN - length kept) None)"

lemma store_first_fills:
  "store_first v (map Some xs @ replicate n None) = (if n = 0 then map Some xs else map Some xs @ Some v # replicate (n - 1) None)"
  by (induction xs) (cases n; simp)+

lemma recorded_store:
  assumes "recorded m sites"
  shows "recorded (store_file_line fl ln m) (sites @ [(fl, ln)])"
proof (cases "length sites < BUF_LEN")
  case True
  then have "BUF_LEN - length sites = Suc (BUF_LEN - Suc (length sites))" by simp
  with True assms store_first_fills[where v = fl and xs = "map fst sites" and n = "BUF_LEN - length sites"] store_first_fills[where v = ln and xs = "map snd sites" and n = "BUF_LEN - length sites"]
  show ?thesis by (simp add: recorded_def store_file_line_def Let_def)
next
  case False
  then have "length (take BUF_LEN sites) = BUF_LEN" by simp
  with False assms store_first_fills[where v = fl and xs = "map fst (take BUF_LEN sites)" and n = 0] store_first_fills[where v = ln and xs = "map snd (take BUF_LEN sites)" and n = 0]
  show ?thesis by (simp add: recorded_def store_file_line_def Let_def)
qed

lemma recorded_sites:
  assumes "recorded m sites"
  shows "lock_sites m = take BUF_LEN sites"
proof -
  let ?kept = "take BUF_LEN sites" and ?f = "\<lambda>(f, l). do { f \<leftarrow> f; l \<leftarrow> l; Some (f, l) }"
  have "zip (mx_file m) (mx_line m) = map (\<lambda>s. (Some (fst s), Some (snd s))) ?kept @ replicate (BUF_LEN - length ?kept) (None, None)"
    using assms by (simp add: recorded_def Let_def zip_append zip_map_map zip_same_conv_map zip_replicate comp_def del: replicate.simps)
  moreover have "List.map_filter ?f (replicate n (None, None)) = []" for n by (simp add: List.map_filter_def)
  moreover have "List.map_filter ?f (map (\<lambda>s. (Some (fst s), Some (snd s))) xs) = xs" for xs :: "(string \<times> u32) list"
    by (induction xs) (simp_all add: List.map_filter_def)
  ultimately show ?thesis unfolding lock_sites_def by (simp add: List.map_filter_def)
qed

lemma dump_loop_keeps: "mx_file (dump_loop L n m) = mx_file m \<and> mx_line (dump_loop L n m) = mx_line m"
proof (induction L n m rule: dump_loop.induct)
  case (1 L count m)
  show ?case
  proof (cases "is_locked L m")
    case (Pair locked m1)
    then have "mx_file m1 = mx_file m" "mx_line m1 = mx_line m" by (auto simp: is_locked_def split: prod.splits)
    then show ?thesis using 1[OF Pair[symmetric]] by (subst (1 2) dump_loop.simps) (simp add: Pair print_file_line_def)
  qed
qed

lemma recorded_keeps:
  "mx_file m' = mx_file m \<Longrightarrow> mx_line m' = mx_line m \<Longrightarrow> recorded m' sites = recorded m sites"
  by (simp add: recorded_def)

lemma lock_run_recorded:
  assumes "lock_run L m sites m'" "recorded m []"
  shows "recorded m' sites"
  using assms
proof (induction rule: lock_run.induct)
  case (locked m sites m1 fl ln m2)
  let ?m = "store_file_line fl ln m1"
  have "mx_file m2 = mx_file ?m" "mx_line m2 = mx_line ?m" using locked.hyps(2) dump_loop_keeps[of L 0 ?m] by (auto simp: Mutex_lock_def Let_def dump_state_if_locked_def)
  then show ?case using recorded_keeps[of m2 ?m] recorded_store[OF locked.IH[OF locked.prems]] by blast
next
  case (tried m sites m1 fl ln got m2)
  let ?m = "store_file_line fl ln m1"
  have "mx_file m2 = mx_file ?m" "mx_line m2 = mx_line ?m"
    using tried.hyps(2) dump_loop_keeps[of L 0 ?m] by (auto simp: Mutex_try_lock_def Let_def dump_state_if_locked_def split: prod.splits)
  then show ?case using recorded_keeps[of m2 ?m] recorded_store[OF tried.IH[OF tried.prems]] by blast
qed (auto simp: lock_raw_def recorded_def)

text \<open>Looking for a deadlock one finds the right places: after any run of a new mutex, with any number of attempts to lock it and any interference by other holders, the sites that would be
  printed are the first 1024 attempts in the order in which they were made, each with its own file and line; attempts through \<^verbatim>\<open>lock!\<close> are not among them.
\<close>

theorem lock_sites_in_order:
  assumes "lock_run L (Mutex_new inner) sites m"
  shows "lock_sites m = take 1024 sites"
  using recorded_sites[OF lock_run_recorded[OF assms]] by (simp add: recorded_def Mutex_new_def)

text \<open>A lock that its holder never releases.\<close>

definition held_lock :: "bool SpinLock" where
  "held_lock = \<lparr>spin_is_locked = (\<lambda>b. (b, b)), spin_lock = (\<lambda>b. if b then None else Some True), spin_try_lock = (\<lambda>b. (\<not> b, True))\<rparr>"

theorem lock_sites_in_order_witness:
  "\<exists>m. lock_run held_lock (Mutex_new False) [(''a.rs'', 1), (''b.rs'', 2)] m \<and> lock_sites m = [(''a.rs'', 1), (''b.rs'', 2)]"
proof -
  have free: "dump_state_if_locked held_lock m = m" if "\<not> mx_inner m" for m
    using that by (simp add: dump_state_if_locked_def dump_loop.simps is_locked_def held_lock_def)
  have inner: "mx_inner (store_file_line ''a.rs'' 1 (Mutex_new False)) = False" by (simp add: store_file_line_def Mutex_new_def)
  obtain m1 where "Mutex_lock held_lock ''a.rs'' 1 (Mutex_new False) = Some m1"
    unfolding Mutex_lock_def Let_def free[OF inner[THEN iffD1[OF eq_False]]] inner by (simp add: held_lock_def)
  from lock_run.locked[OF lock_run.start this] have r: "lock_run held_lock (Mutex_new False) [(''a.rs'', 1)] m1" by simp
  obtain got m2 where "Mutex_try_lock held_lock ''b.rs'' 2 m1 = (got, m2)" by fastforce
  from lock_run.tried[OF r this] have "lock_run held_lock (Mutex_new False) [(''a.rs'', 1), (''b.rs'', 2)] m2" by simp
  with lock_sites_in_order[OF this] show ?thesis by auto
qed

text \<open>
  The look at a taken lock ends. It returns at the first of at most 10001 reads that finds the lock free, without printing; only a lock that is found taken 10001 times in a row is reported,
  once.
\<close>

lemma dump_loop_result:
  assumes "count \<le> MAX_POLLS"
  shows "\<exists>n \<le> MAX_POLLS - count. let read = (\<lambda>m. snd (is_locked L m)); m' = (read ^^ Suc n) m in
     (\<forall>k < n. fst (is_locked L ((read ^^ k) m))) \<and>
     (if fst (is_locked L ((read ^^ n) m)) then n = MAX_POLLS - count \<and> dump_loop L count m = print_file_line m' else dump_loop L count m = m')"
  using assms
proof (induction L count m rule: dump_loop.induct)
  case (1 L count m)
  let ?read = "\<lambda>m. snd (is_locked L m)"
  obtain l m1 where r: "is_locked L m = (l, m1)" by fastforce
  show ?case
  proof (cases "l \<and> count < MAX_POLLS")
    case True
    then have p: "\<not> \<not> l" "\<not> MAX_POLLS < count + 1" "count + 1 \<le> MAX_POLLS" by auto
    obtain n where n: "n \<le> MAX_POLLS - (count + 1)" "\<forall>k < n. fst (is_locked L ((?read ^^ k) m1))"
      "if fst (is_locked L ((?read ^^ n) m1)) then n = MAX_POLLS - (count + 1) \<and> dump_loop L (count + 1) m1 = print_file_line ((?read ^^ Suc n) m1)
       else dump_loop L (count + 1) m1 = (?read ^^ Suc n) m1"
      using 1(1)[OF r[symmetric] p, unfolded Let_def] by blast
    have d: "dump_loop L count m = dump_loop L (count + 1) m1" using True r by (subst dump_loop.simps) simp
    have f: "(?read ^^ Suc k) m = (?read ^^ k) m1" for k by (simp add: funpow_Suc_right r del: funpow.simps)
    have "fst (is_locked L ((?read ^^ k) m))" if "k < Suc n" for k using that n(2) True r f by (cases k) (simp_all del: funpow.simps(2))
    moreover have "if fst (is_locked L ((?read ^^ Suc n) m)) then Suc n = MAX_POLLS - count \<and> dump_loop L count m = print_file_line ((?read ^^ Suc (Suc n)) m)
       else dump_loop L count m = (?read ^^ Suc (Suc n)) m" using n(1,3) True unfolding f d by (simp split: if_splits)
    ultimately show ?thesis using n(1) True unfolding Let_def by (intro exI[of _ "Suc n"] conjI) auto
  next
    case False
    then have "dump_loop L count m = (if l then print_file_line m1 else m1)" using 1(2) r by (subst dump_loop.simps) auto
    then show ?thesis using 1(2) r False by (intro exI[of _ 0]) (auto simp: Let_def)
  qed
qed

end
