(* ===== verification/Spec2Isabelle.thy ===== *)
theory Spec2Isabelle
  imports Fixed_Length_Allocator Logging Loader Kernel_Main Font_Gen Serial Lock_Trace
begin

text \<open>
  This is the verification library of the kernel \<^verbatim>\<open>lemola_osv2\<close>, a small operating system in Rust.

  \<^bold>\<open>The program.\<close> A UEFI boot loader (\<^verbatim>\<open>bootloader/\<close>) loads the kernel's ELF segments, hands the memory map over and jumps into
  the kernel (\<^verbatim>\<open>kernel/\<close>). The kernel gives the largest free region to a bump allocator, sets up a desktop of overlapping layers
  on the frame buffer, finds the xHCI controller on the PCI bus, enables message signalled interrupts, and talks to the
  controller through rings in memory: commands and transfers go out on producer rings, events come back on an event
  ring. USB devices are addressed, their descriptors read, and class drivers (keyboard, mouse, hub) bring them to their running
  state. Asynchronous tasks (the game of life, the polling of the controller) run on a cooperative executor. Code without hardware
  access lives in \<^verbatim>\<open>kernel-lib/\<close>, types shared with the loader in \<^verbatim>\<open>common/\<close>.

  \<^bold>\<open>How the code is represented.\<close> The kernel is built with the debug profile, so arithmetic overflow, an index out of range, a failed
  assertion, \<^verbatim>\<open>unwrap\<close> on nothing and \<^verbatim>\<open>todo!\<close> all panic. A panic, and a loop that never returns, is the value \<open>None\<close> of the
  option monad; a Rust \<^verbatim>\<open>Result\<close> is a value of the sum type with the error on the left; \<^verbatim>\<open>usize\<close> is \<open>nat\<close> with checked
  operations (\<open>uadd\<close>, \<open>usub\<close>, \<open>umul\<close>), \<^verbatim>\<open>isize\<close> is \<open>int\<close>, and data that reaches the hardware are machine words. A structure is a
  record, an enumeration a datatype, a method a function that returns the changed receiver. Memory the hardware shares with the
  kernel is the value of the box or of the memory function that owns it. Locks are not part of the state: each model
  is one thread of execution. Third-party crates are parameters: a record of functions per crate with a named hypothesis that
  states the documented behaviour used (\<open>trb_lib_ok\<close>, \<open>bit_field_ok\<close>, \<open>erdp_lib_ok\<close>, \<open>bit_fields_ok\<close>, \<open>usb_lib_ok\<close>,
  \<open>context_sizes_ok\<close>, \<open>ctx_lib_ok\<close>, \<open>plain_trb\<close>, \<open>disassembler_ok\<close>, \<open>general_handler_ok\<close>), and the witnesses
  instantiate each with a concrete one. The hardware is a parameter too: it acts before every read of a register (\<open>hw_env\<close>, \<open>rh_env\<close>), and \<open>hw_keeps\<close> and \<open>regs_keep\<close> say
  what it leaves alone; \<open>regs_live\<close> and \<open>ports_behave\<close> say what it does in the end, so
  that the waiting loops return (\<open>reg_lib_ok\<close> is about the crate's checks of addresses). The firmware the loader calls is the parameter \<open>Uefi\<close>: \<open>firmware_answers\<close> says that it answers each request, and \<open>firmware_tracks\<close> that it
  keeps its map of the memory.

  \<^bold>\<open>The theories.\<close>
  \<^item> \<open>Rust_Prelude\<close>: the option monad, checked arithmetic, indexing, slices and loops, with the shared lemmas and collections.
  \<^item> \<open>Boundary_Alloc\<close> (\<^verbatim>\<open>kernel-lib/src/allocator.rs\<close>): layouts, the placement of a block under an alignment and a boundary, and the
    allocation functions over any allocator. The placement is the least address that fits. The locale \<open>boundary_allocator\<close> is the
    interface the two allocators implement: blocks in use stay disjoint, aligned and inside the heap.
  \<^item> \<open>Bump_Allocator\<close> (\<^verbatim>\<open>allocator/bump_allocator.rs\<close>, \<^verbatim>\<open>kernel/src/alloc/alloc.rs\<close>) and \<open>Fixed_Length_Allocator\<close>
    (\<^verbatim>\<open>allocator/fixed_length_allocator.rs\<close>): the two interpretations, safety in every reachable state, and progress.
  \<^item> \<open>Pixel\<close> and \<open>Render\<close> (\<^verbatim>\<open>pixel.rs\<close>, \<^verbatim>\<open>render.rs\<close>, \<^verbatim>\<open>shapes.rs\<close>, parts of \<^verbatim>\<open>lib.rs\<close>): colours, the two pixel formats, and
    the drawing routines over the locale \<open>pixel_sink\<close>, the contract of a thing one can write pixels to.
  \<^item> \<open>Frame_Buffer\<close> (\<^verbatim>\<open>kernel/src/graphics.rs\<close>) and \<open>Layers\<close> (\<^verbatim>\<open>layer.rs\<close>): the interpretations of \<open>pixel_sink\<close> by the frame buffer, a
    window and a layer; the layer manager with its invariant; flushing equals painting the windows bottom to top.
  \<^item> \<open>Console\<close> (\<^verbatim>\<open>Writer\<close> of \<^verbatim>\<open>lib.rs\<close>): the text console and its refinement of an abstract terminal (locale \<open>ascii_sink\<close>).
  \<^item> \<open>Tasks\<close> (\<^verbatim>\<open>futures.rs\<close>, \<^verbatim>\<open>multitasking/\<close>, \<^verbatim>\<open>xhci/user_event_ring.rs\<close>): futures as poll functions, the executor, the queue of
    user events (locale \<open>fifo\<close>).
  \<^item> \<open>Lifegame\<close> and \<open>Desktop\<close> (\<^verbatim>\<open>lifegame.rs\<close>, \<^verbatim>\<open>graphics.rs\<close>, \<^verbatim>\<open>usb/class_driver/callbacks.rs\<close>): the game of life equals Conway's
    rules; its task as a state machine over the statics of the graphics module; the mouse and keyboard callbacks.
  \<^item> \<open>Logging\<close> (\<^verbatim>\<open>logger.rs\<close>, \<^verbatim>\<open>write_to.rs\<close>): formatting into a buffer and the decorated log lines.
  \<^item> \<open>Boot\<close> (\<^verbatim>\<open>common/src/types.rs\<close>, \<^verbatim>\<open>kernel/src/main.rs\<close>, the segments of \<^verbatim>\<open>bootloader/src/main.rs\<close>): loading the segments, the memory map iterator, the choice of the heap.
  \<^item> \<open>Loader\<close> (\<^verbatim>\<open>bootloader/src/main.rs\<close>): the whole loader over the firmware's services, up to the jump; the kernel is in memory as its file says, and the heap it
    will choose spares its image.
  \<^item> \<open>Pci\<close>, \<open>Bit_Field\<close> and \<open>Msi\<close> (\<^verbatim>\<open>pci/register.rs\<close>, \<^verbatim>\<open>pci.rs\<close>): configuration space, the bus scan, the MSI capability.
  \<^item> \<open>Interrupts\<close> (\<^verbatim>\<open>kernel/src/interrupts.rs\<close>): the interrupt table and its handlers; the message the MSI capability sends is served and acknowledged.
  \<^item> \<open>Xhci_Rings\<close> (\<^verbatim>\<open>xhci/trb.rs\<close>, \<^verbatim>\<open>command_ring.rs\<close>, \<^verbatim>\<open>transfer_ring.rs\<close>): the locale \<open>producer_ring\<close> shows once, for both rings, that
    driver and controller agree on a first-in first-out channel through the cycle bits.
  \<^item> \<open>Event_Ring\<close> (\<^verbatim>\<open>xhci/event_ring.rs\<close>): the consumer side, and the locale \<open>event_future\<close> for the two futures: no event is lost.
  \<^item> \<open>Usb_Descriptor\<close> (\<^verbatim>\<open>usb/descriptor.rs\<close>, \<^verbatim>\<open>usb/setup_packet.rs\<close>, the searches of the drivers): descriptors round trip, and the
    locale \<open>endpoint_search\<close> for the two endpoint searches.
  \<^item> \<open>Class_Driver\<close> and \<open>Hub_Driver\<close> (\<^verbatim>\<open>usb/class_driver.rs\<close>, \<^verbatim>\<open>usb/class_driver/\<close>, \<^verbatim>\<open>usb/traits.rs\<close>): the drivers' state machines over a
    host given as a record of its methods; that they reach the running state, and that the
    asynchronous copies of the state machines do what the synchronous ones do.
  \<^item> \<open>Endpoint_Index\<close> (\<^verbatim>\<open>usb/device.rs\<close>, \<^verbatim>\<open>next_route\<close> of \<^verbatim>\<open>xhci.rs\<close>): device context indices and route strings.
  \<^item> \<open>Xhc_System\<close>: the state that devices and controller share (rings, allocator, port registers, doorbells, buffers), the hardware as
    the parameter \<open>Hw\<close> and the crates as the parameter \<open>Libs\<close>.
  \<^item> \<open>Usb_Device\<close> (\<^verbatim>\<open>usb/device.rs\<close>): contexts, transfers, requests for descriptors and the bring-up of a device, which implements the host
    record that the class drivers are given.
  \<^item> \<open>Device_Manager\<close> (\<^verbatim>\<open>xhci/device_manager.rs\<close>): the tables of devices and context pointers, with their invariant.
  \<^item> \<open>Xhci_Controller\<close> (\<^verbatim>\<open>xhci/port.rs\<close>, \<^verbatim>\<open>xhci/controller.rs\<close>): the handlers of the controller. \<open>Port_Handling\<close> shows that ports
    are configured one at a time and that a connected port gets its slot, \<open>Slot_Handling\<close> that an enabled slot is addressed and that reports reach their driver, and \<open>Interrupt_Ring\<close> that
    the ring of an interrupt endpoint never runs dry.
  \<^item> \<open>Controller_Init\<close> (\<^verbatim>\<open>XhciController::new\<close> and \<^verbatim>\<open>run\<close>): taking the controller over, resetting it, its tables, scratchpad buffers and rings.
  \<^item> \<open>Controller_Boot\<close>: how much heap the constructor of the controller needs, and that it returns, with the controller running.
  \<^item> \<open>Xhci_Main\<close> (\<^verbatim>\<open>xhci.rs\<close>): finding and starting the controller, the walk over its ports at boot, the polling task, and the ticks of the drivers, synchronous and
    asynchronous.
  \<^item> \<open>Kernel_Main\<close> (\<^verbatim>\<open>kernel/src/main.rs\<close>): the entry point, its interrupt table, and the system of its two tasks under the executor; that
    the kernel boots (with what it needs of the machine in \<open>screen_suffices\<close>, \<open>memory_suffices\<close> and \<open>bus_has_xhci\<close>), and that events are always served.
  \<^item> \<open>Font_Gen\<close> (\<^verbatim>\<open>gen_font/src/lib.rs\<close>), \<open>Serial\<close> (\<^verbatim>\<open>kernel/src/serial.rs\<close>) and \<open>Lock_Trace\<close> (\<^verbatim>\<open>kernel-lib/src/mutex.rs\<close>): the font table shows what its
    file draws, text sent to the serial port arrives, and the record of lock sites.

  \<^bold>\<open>Loops and fuel.\<close> Loops over data are structural, or functions with a termination proof (the descriptor iterator, the memory map
  iterator, the string decoder). Loops that wait for the hardware or walk a device's list are partial functions whose
  \<open>None\<close> covers not returning (\<open>await_sync\<close>, \<open>wait_while_port\<close>, \<open>wait_while_reg\<close>, \<open>wait_transmit_empty\<close>, \<open>find_kernel_entry\<close> and \<open>print_asm_loop\<close> of the loader, the capability walk of \<open>Msi\<close>, the loops that drive a class driver), and their properties
  prove that they return. \<open>hlt_loop\<close> of the handlers never returns, and the properties say so. The recursion of the bus scan has fuel, the depth of the bus tree: the property \<open>pci_scan_complete\<close>
  gives the result for every fuel above that depth.

  \<^bold>\<open>Not modelled.\<close> The memory mapper is the identity that the crate \<^verbatim>\<open>xhci\<close> calls to reach the registers, which are a parameter. The switch of the stack before the entry point is
  assembly. Implementations of \<^verbatim>\<open>Debug\<close> and \<^verbatim>\<open>Display\<close>, functions that only dump state to the log, and the test modules are left out, and so are log messages in the models of the
  components that emit them. Interrupts stay disabled while the kernel runs, because it polls: \<open>Interrupts\<close> says what the handlers do when they are entered. Locks are left out,
  except where the code takes one twice (\<open>enable_slot_at\<close>).
\<close>

end
